(* ===== verification/HLFS_Prelude.thy ===== *)
theory HLFS_Prelude
  imports Main "HOL-Library.Word"
begin

text \<open>
  Shared vocabulary of the development: the machine integer types of the code, errors as
  values of a sum, the sequencing combinator every handler is written with, and the
  arithmetic of addresses modulo powers of two (alignment, offsets, address ranges) on which
  all proofs about the copy routines rest.
\<close>

unbundle bit_operations_syntax

section \<open>Machine integers\<close>

type_synonym u8 = "8 word"
type_synonym u16 = "16 word"
type_synonym u32 = "32 word"
type_synonym u64 = "64 word"

named_theorems addr_simps
  \<comment> \<open>address arithmetic: offsets and alignments in terms of \<open>unat\<close>\<close>

section \<open>Sequencing of fallible steps\<close>

text \<open>
  A step takes a state and returns an error (\<open>Inl\<close>) or the new state (\<open>Inr\<close>). A block of
  statements runs its steps in order and stops at the first error, as the process would.
\<close>

fun run_all :: "('s \<Rightarrow> 'e + 's) list \<Rightarrow> 's \<Rightarrow> 'e + 's" where
  "run_all [] s = Inr s"
| "run_all (c # cs) s = (case c s of Inl e \<Rightarrow> Inl e | Inr t \<Rightarrow> run_all cs t)"

lemma run_all_single [simp]: "run_all [c] s = c s"
  by (simp split: sum.split)

lemma run_all_append:
  "run_all (cs @ ds) s = (case run_all cs s of Inl e \<Rightarrow> Inl e | Inr t \<Rightarrow> run_all ds t)"
  by (induction cs arbitrary: s) (auto split: sum.splits)

lemma run_all_Inr_append:
  "run_all cs s = Inr t \<Longrightarrow> run_all (cs @ ds) s = run_all ds t"
  by (simp add: run_all_append)

lemma run_all_ConsI:
  "c s = Inr t \<Longrightarrow> run_all cs t = r \<Longrightarrow> run_all (c # cs) s = r"
  by simp

text \<open>A block of checks, none of which changes the state, passes when each of them does.\<close>

lemma run_all_guards:
  assumes "\<And>c t. c \<in> set cs \<Longrightarrow> c s = Inr t \<Longrightarrow> t = s"
  shows "run_all cs s = Inr t \<longleftrightarrow> t = s \<and> (\<forall>c \<in> set cs. c s = Inr s)"
  using assms by (induction cs) (auto split: sum.splits)

text \<open>Invariants of a counting loop, for a run that succeeds and for total correctness.\<close>

lemma run_all_upt:
  assumes "run_all (map f [0..<n]) s = Inr t" and "P 0 s"
    and "\<And>i u v. i < n \<Longrightarrow> P i u \<Longrightarrow> f i u = Inr v \<Longrightarrow> P (Suc i) v"
  shows "P n t"
  using assms(1,3)
proof (induction n arbitrary: t)
  case 0
  with assms(2) show ?case by simp
next
  case (Suc n)
  then obtain u where u: "run_all (map f [0..<n]) s = Inr u" and v: "f n u = Inr t"
    by (auto simp: run_all_append split: sum.splits)
  have "P n u" by (rule Suc.IH [OF u]) (use Suc.prems(2) in auto)
  with Suc.prems(2) v show ?case by auto
qed

lemma run_all_upt_total:
  assumes "P 0 s" and "\<And>i u. i < n \<Longrightarrow> P i u \<Longrightarrow> \<exists>v. f i u = Inr v \<and> P (Suc i) v"
  shows "\<exists>t. run_all (map f [0..<n]) s = Inr t \<and> P n t"
  using assms(2)
proof (induction n)
  case 0
  with assms(1) show ?case by simp
next
  case (Suc n)
  from Suc.IH obtain u where "run_all (map f [0..<n]) s = Inr u" "P n u"
    by (meson Suc.prems less_SucI)
  with Suc.prems [of n u] show ?case by (auto simp: run_all_append)
qed

text \<open>The same for operations that may also not return (\<open>None\<close>).\<close>

fun do_all :: "('s \<Rightarrow> ('e + 's) option) list \<Rightarrow> 's \<Rightarrow> ('e + 's) option" where
  "do_all [] s = Some (Inr s)"
| "do_all (c # cs) s =
     (case c s of
        None \<Rightarrow> None
      | Some (Inl e) \<Rightarrow> Some (Inl e)
      | Some (Inr t) \<Rightarrow> do_all cs t)"

lemma do_all_append:
  "do_all (cs @ ds) s = (case do_all cs s of None \<Rightarrow> None | Some (Inl e) \<Rightarrow> Some (Inl e) | Some (Inr t) \<Rightarrow> do_all ds t)"
  by (induction cs arbitrary: s) (simp_all split: option.split sum.split)

lemma do_all_upt_total:
  assumes "P 0 s" and "\<And>i s. i < n \<Longrightarrow> P i s \<Longrightarrow> \<exists>t. f i s = Some (Inr t) \<and> P (Suc i) t"
  shows "\<exists>t. do_all (map f [0..<n]) s = Some (Inr t) \<and> P n t"
  using assms(2)
proof (induction n)
  case 0
  with assms(1) show ?case by simp
next
  case (Suc n)
  from Suc.IH Suc.prems obtain u where "do_all (map f [0..<n]) s = Some (Inr u)" "P n u" by fastforce
  with Suc.prems [of n u] show ?case by (auto simp: do_all_append)
qed

section \<open>Offsets and alignment\<close>

definition aligned :: "nat \<Rightarrow> u64 \<Rightarrow> bool" where
  "aligned n a \<longleftrightarrow> unat a mod n = 0"

lemma unat_u64_lt [simp]: "unat (a :: u64) < 18446744073709551616"
  using unsigned_less [of a, where ?'a = nat] by simp

lemma unat_add_mod:
  assumes "n dvd 2 ^ 64"
  shows "unat (a + b :: u64) mod n = (unat a + unat b) mod n"
  using assms by (simp add: unat_word_ariths mod_mod_cancel)

lemma unat_add_of_nat_mod:
  assumes "n dvd 2 ^ 64"
  shows "unat (a + of_nat k :: u64) mod n = (unat a + k) mod n"
  using assms by (simp add: unat_word_ariths unat_of_nat mod_mod_cancel mod_add_right_eq)

lemma unat_of_nat_u64: "k < 2 ^ 64 \<Longrightarrow> unat (of_nat k :: u64) = k"
  by (simp add: unat_of_nat)

lemma and_mask_unat: "unat ((a :: u64) AND mask k) = unat a mod 2 ^ k"
  by (simp only: take_bit_eq_mask [symmetric] unsigned_take_bit_eq flip: take_bit_eq_mod)

lemma and15_unat [addr_simps]: "unat ((a :: u64) AND 15) = unat a mod 16"
  using and_mask_unat [of a 4] by (simp add: mask_eq_exp_minus_1)

lemma and63_unat [addr_simps]: "unat ((a :: u64) AND 63) = unat a mod 64"
  using and_mask_unat [of a 6] by (simp add: mask_eq_exp_minus_1)

lemma even_div_iff: "0 < m \<Longrightarrow> even (x div m) \<longleftrightarrow> x mod (m * 2) < (m::nat)"
  using mod_mult2_eq [of x m 2]
  by (cases "even (x div m)") (auto simp: even_iff_mod_2_eq_zero odd_iff_mod_2_eq_one)

lemma and_exp_eq_0_unat: "(a :: u64) AND 2 ^ k = 0 \<longleftrightarrow> even (unat a div 2 ^ k)"
proof -
  have "bit a k = bit (unat a) k"
    by (auto simp: bit_unsigned_iff dest: bit_imp_le_length)
  then show ?thesis
    by (simp add: and_exp_eq_0_iff_not_bit bit_iff_odd [of "unat a"])
qed

lemma and16_eq_0 [addr_simps]: "(a :: u64) AND 16 = 0 \<longleftrightarrow> unat a mod 32 < 16"
  using and_exp_eq_0_unat [of a 4] even_div_iff [of 16 "unat a"] by simp

lemma and32_eq_0 [addr_simps]: "(a :: u64) AND 32 = 0 \<longleftrightarrow> unat a mod 64 < 32"
  using and_exp_eq_0_unat [of a 5] even_div_iff [of 32 "unat a"] by simp

section \<open>Address ranges\<close>

text \<open>
  The \<open>n\<close> bytes that start at \<open>d\<close>, as the hardware counts them: address arithmetic wraps at
  \<open>2 ^ 64\<close>, so membership is a bound on the distance from \<open>d\<close>.
\<close>

definition in_range :: "u64 \<Rightarrow> nat \<Rightarrow> u64 \<Rightarrow> bool" where
  "in_range d n a \<longleftrightarrow> unat (a - d) < n"

lemma in_range_0 [simp]: "\<not> in_range d 0 a"
  by (simp add: in_range_def)

lemma in_range_offset: "i < n \<Longrightarrow> n \<le> 2 ^ 64 \<Longrightarrow> in_range d n (d + of_nat i)"
  by (simp add: in_range_def unat_of_nat)

lemma in_range_mono: "in_range d n a \<Longrightarrow> n \<le> k \<Longrightarrow> in_range d k a"
  by (simp add: in_range_def)

lemma window_end:
  fixes a len :: u64
  assumes "w \<le> unat len" and "w < 16"
  shows "a + len - of_nat w = a + of_nat (unat len - w)"
proof -
  have "of_nat (unat len - w) = of_nat (unat len) - (of_nat w :: u64)"
    using assms(1) by (rule of_nat_diff)
  then show ?thesis by simp
qed

lemma unat_diff_of_nat:
  assumes "n < 2 ^ 64"
  shows "unat (x - of_nat n :: u64) = (if n \<le> unat x then unat x - n else unat x + 2 ^ 64 - n)"
  using assms by (simp add: unat_sub_if' unat_of_nat)

lemma in_range_add:
  assumes "n + k \<le> 2 ^ 64"
  shows "in_range d (n + k) a \<longleftrightarrow> in_range d n a \<or> in_range (d + of_nat n) k a"
proof (cases "n < 2 ^ 64")
  case True
  have eq: "a - (d + of_nat n) = (a - d) - of_nat n" by simp
  show ?thesis
    unfolding in_range_def eq unat_diff_of_nat [OF True] using assms by auto
next
  case False
  with assms have "n = 2 ^ 64" "k = 0" by simp_all
  then show ?thesis by simp
qed

lemma in_range_disjoint:
  assumes "n + k \<le> 2 ^ 64" and "in_range (d + of_nat n) k a"
  shows "\<not> in_range d n a"
proof (cases "n < 2 ^ 64")
  case True
  have eq: "a - (d + of_nat n) = (a - d) - of_nat n" by simp
  show ?thesis
    using assms unfolding in_range_def eq unat_diff_of_nat [OF True] by (auto split: if_splits)
next
  case False
  with assms(1) have "k = 0" by simp
  with assms(2) show ?thesis by simp
qed

lemma in_range_sub: "k + n \<le> N \<Longrightarrow> N \<le> 2 ^ 64 \<Longrightarrow> in_range (b + of_nat k) n a \<Longrightarrow> in_range b N a"
  using in_range_add [of k n b a] in_range_mono [of b "k + n" a N] by simp

text \<open>Two ranges of the same length that share no byte, also across the wrap.\<close>

definition apart :: "nat \<Rightarrow> u64 \<Rightarrow> u64 \<Rightarrow> bool" where
  "apart n d s \<longleftrightarrow> n \<le> unat (d - s) \<and> n \<le> unat (s - d)"

lemma apart_disjoint:
  assumes "apart n d s" and "in_range d n a" and "in_range s n a"
  shows False
proof (cases "a - s \<le> a - d")
  case True
  have "s - d = (a - d) - (a - s)" by simp
  then have "unat (s - d) = unat (a - d) - unat (a - s)" using True by (metis unat_sub)
  with assms show False unfolding apart_def in_range_def by linarith
next
  case False
  then have le: "a - d \<le> a - s" by simp
  have "d - s = (a - s) - (a - d)" by simp
  then have "unat (d - s) = unat (a - s) - unat (a - d)" using le by (metis unat_sub)
  with assms show False unfolding apart_def in_range_def by linarith
qed

lemma disjoint_apart:
  assumes "0 < n" and "\<And>a. \<not> (in_range d n a \<and> in_range s n a)"
  shows "apart n d s"
  using assms(2) [of d] assms(2) [of s] assms(1) by (auto simp: apart_def in_range_def not_less)

lemma apart_mono: "apart n d s \<Longrightarrow> k \<le> n \<Longrightarrow> apart k d s"
  by (simp add: apart_def)

lemma apart_shift: "apart n (d + k) (s + k) \<longleftrightarrow> apart n d s"
  by (simp add: apart_def)

section \<open>Cache lines and pages\<close>

definition line_of :: "u64 \<Rightarrow> u64" where
  "line_of a = drop_bit 6 a"

definition page_of :: "u64 \<Rightarrow> u64" where
  "page_of a = drop_bit 12 a"

lemma line_of_eq_iff: "line_of a = line_of b \<longleftrightarrow> unat a div 64 = unat b div 64"
proof -
  have "unat (line_of c) = unat c div 64" for c
    using unat_drop_bit_eq [of 6 c] by (simp add: line_of_def drop_bit_eq_div unat_div_distrib)
  then show ?thesis by (metis word_unat_eq_iff)
qed

lemma page_of_line: "page_of a = drop_bit 6 (line_of a)"
  by (simp add: page_of_def line_of_def)

lemma same_line_same_page: "line_of a = line_of b \<Longrightarrow> page_of a = page_of b"
  by (simp add: page_of_line)

lemma line_of_unmask: "line_of (a AND NOT 63) = line_of a"
proof -
  have m: "(63 :: u64) = mask 6" by (simp add: mask_eq_exp_minus_1)
  show ?thesis
    unfolding line_of_def m
    by (rule bit_word_eqI) (auto simp: bit_simps dest: bit_imp_le_length)
qed

lemma page_of_unmask: "page_of (a AND NOT 63) = page_of a"
  by (simp only: page_of_line line_of_unmask)

lemma in_range_unat:
  assumes "in_range d n a" and "unat d + n \<le> 2 ^ 64"
  shows "unat d \<le> unat a" and "unat a < unat d + n"
proof -
  have a: "a = d + (a - d)" by simp
  have "unat a = unat d + unat (a - d)"
    by (subst a, subst unat_add_lem [THEN iffD1]) (use assms in \<open>simp_all add: in_range_def\<close>)
  with assms show "unat d \<le> unat a" "unat a < unat d + n"
    by (simp_all add: in_range_def)
qed

lemma same_block:
  fixes d :: nat
  assumes "d \<le> a" and "a < d + n" and "d mod 64 + n \<le> 64"
  shows "a div 64 = d div 64"
proof (rule div_nat_eqI)
  show "64 * (d div 64) \<le> a" using assms(1) div_mult_mod_eq [of d 64] by linarith
  show "a < 64 * Suc (d div 64)"
    unfolding mult_Suc_right using assms div_mult_mod_eq [of d 64] by linarith
qed

lemma in_range_line:
  assumes r: "in_range d n a" and fit: "unat d mod 64 + n \<le> 64"
  shows "line_of a = line_of d"
proof -
  have "unat d div 64 < 288230376151711744" by (rule less_mult_imp_div_less) simp
  then have "unat d + n \<le> 18446744073709551616"
    using fit div_mult_mod_eq [of "unat d" 64] by linarith
  then have "unat d + n \<le> 2 ^ 64" by simp
  from in_range_unat [OF r this] fit show ?thesis
    unfolding line_of_eq_iff by (rule same_block)
qed

end
