(* ===== verification/Machine.thy ===== *)
theory Machine
  imports HLFS_Prelude
begin

text \<open>
  The machine the repository's copy routines run on: byte memory behind a write-back cache,
  the persistence status of every byte of it, the vector registers, the page map and the
  clock. The operations are the memory primitives of util/aep.h (clwb, the fences), scalar
  and vector loads and stores with the faults the processor raises, and the C library's
  memcpy and memset. The last section states what a routine may do to memory
  (\<open>moved\<close>) and how such effects compose.
\<close>

section \<open>State\<close>

text \<open>
  A store reaches the cache only (\<open>Dirty\<close>). A cache line write-back (clwb) or a non-temporal
  store has started its way to the medium (\<open>Pending\<close>); a store fence waits for it
  (\<open>Durable\<close>).
\<close>

datatype pstat = Durable | Pending | Dirty

instantiation pstat :: linorder
begin

fun pstat_rank :: "pstat \<Rightarrow> nat" where
  "pstat_rank Durable = 0"
| "pstat_rank Pending = 1"
| "pstat_rank Dirty = 2"

definition less_eq_pstat :: "pstat \<Rightarrow> pstat \<Rightarrow> bool" where
  "less_eq_pstat s t \<longleftrightarrow> pstat_rank s \<le> pstat_rank t"

definition less_pstat :: "pstat \<Rightarrow> pstat \<Rightarrow> bool" where
  "less_pstat s t \<longleftrightarrow> pstat_rank s < pstat_rank t"

instance
proof
  fix x y z :: pstat
  show "x \<le> y \<Longrightarrow> y \<le> x \<Longrightarrow> x = y"
    by (cases x; cases y) (simp_all add: less_eq_pstat_def)
qed (auto simp: less_eq_pstat_def less_pstat_def)

end

record machine =
  mem :: "u64 \<Rightarrow> u8"
  pst :: "u64 \<Rightarrow> pstat"
  ymm :: "nat \<Rightarrow> nat \<Rightarrow> u8"         \<comment> \<open>register, byte within it\<close>
  mapped :: "u64 \<Rightarrow> bool"            \<comment> \<open>by page number\<close>
  debug :: bool                      \<comment> \<open>built without NDEBUG\<close>
  clock_src :: "nat \<Rightarrow> u64 \<times> u64"    \<comment> \<open>what the i-th clock_gettime answers\<close>
  clock_pos :: nat

datatype fault =
    PageFault u64      \<comment> \<open>an access to an unmapped page\<close>
  | GPFault u64        \<comment> \<open>an aligned vector access at an unaligned address\<close>
  | AssertFail         \<comment> \<open>a failed LOG_ASSERT, CHECK or assert\<close>
  | UndefinedBehaviour \<comment> \<open>a call the C standard gives no meaning\<close>

type_synonym prog = "machine \<Rightarrow> fault + machine"

definition accessible :: "machine \<Rightarrow> u64 \<Rightarrow> nat \<Rightarrow> bool" where
  "accessible m a n \<longleftrightarrow> (\<forall>i<n. mapped m (page_of (a + of_nat i)))"

section \<open>Cache control\<close>

definition CACHELINE_SIZE :: u64 where
  "CACHELINE_SIZE = 64"

definition CACHELINE_MASK :: u64 where
  "CACHELINE_MASK = CACHELINE_SIZE - 1"

definition CACHELINE_UNMASK :: u64 where
  "CACHELINE_UNMASK = NOT CACHELINE_MASK"

definition clwb :: "u64 \<Rightarrow> prog" where
  "clwb a m =
     (if mapped m (page_of a)
      then Inr (m\<lparr>pst := (\<lambda>b. if line_of b = line_of a \<and> pst m b = Dirty
                              then Pending else pst m b)\<rparr>)
      else Inl (PageFault a))"

text \<open>clflush and clflushopt evict the line as well, which the model does not see; like clwb they are
  taken to be complete only after a fence.\<close>

definition clflush :: "u64 \<Rightarrow> prog" where
  "clflush a m = clwb a m"

definition clflushopt :: "u64 \<Rightarrow> prog" where
  "clflushopt a m = clwb a m"

definition sfence :: "machine \<Rightarrow> machine" where
  "sfence m = m\<lparr>pst := (\<lambda>b. if pst m b = Pending then Durable else pst m b)\<rparr>"

definition mfence :: "machine \<Rightarrow> machine" where
  "mfence m = sfence m"

definition lfence :: "machine \<Rightarrow> machine" where
  "lfence m = m"

definition barrier :: "machine \<Rightarrow> machine" where
  "barrier m = m"

text \<open>
  What memory may hold after a power failure: a durable byte keeps its value, every other
  byte may hold anything.
\<close>

definition crash_image :: "machine \<Rightarrow> (u64 \<Rightarrow> u8) \<Rightarrow> bool" where
  "crash_image m img \<longleftrightarrow> (\<forall>a. pst m a = Durable \<longrightarrow> img a = mem m a)"

section \<open>Scalar accesses\<close>

definition load_bytes :: "nat \<Rightarrow> u64 \<Rightarrow> machine \<Rightarrow> fault + u8 list" where
  "load_bytes n a m =
     (if accessible m a n then Inr (map (\<lambda>i. mem m (a + of_nat i)) [0..<n])
      else Inl (PageFault a))"

definition store_bytes :: "u64 \<Rightarrow> u8 list \<Rightarrow> prog" where
  "store_bytes a bs m =
     (if accessible m a (length bs)
      then Inr (m\<lparr>mem := (\<lambda>b. if in_range a (length bs) b then bs ! unat (b - a) else mem m b),
                  pst := (\<lambda>b. if in_range a (length bs) b then Dirty else pst m b)\<rparr>)
      else Inl (PageFault a))"

section \<open>Vector accesses\<close>

text \<open>
  An aligned vector access of \<open>w\<close> bytes faults at an address that is no multiple of \<open>w\<close>.
  A VEX-encoded load of the low half clears the high half of the register.
\<close>

definition vload :: "nat \<Rightarrow> nat \<Rightarrow> u64 \<Rightarrow> prog" where
  "vload w r a m =
     (if \<not> aligned w a then Inl (GPFault a)
      else if \<not> accessible m a w then Inl (PageFault a)
      else Inr (m\<lparr>ymm := (ymm m)(r := (\<lambda>i. if i < w then mem m (a + of_nat i) else 0))\<rparr>))"

definition vstore_as :: "pstat \<Rightarrow> nat \<Rightarrow> nat \<Rightarrow> u64 \<Rightarrow> prog" where
  "vstore_as st w r a m =
     (if \<not> aligned w a then Inl (GPFault a)
      else if \<not> accessible m a w then Inl (PageFault a)
      else Inr (m\<lparr>mem := (\<lambda>b. if in_range a w b then ymm m r (unat (b - a)) else mem m b),
                  pst := (\<lambda>b. if in_range a w b then st else pst m b)\<rparr>))"

section \<open>The C library's memcpy and memset\<close>

definition memcpy :: "u64 \<Rightarrow> u64 \<Rightarrow> u64 \<Rightarrow> prog" where
  "memcpy d s n m =
     (if n \<noteq> 0 \<and> \<not> apart (unat n) d s then Inl UndefinedBehaviour
      else if \<not> accessible m s (unat n) then Inl (PageFault s)
      else if \<not> accessible m d (unat n) then Inl (PageFault d)
      else Inr (m\<lparr>mem := (\<lambda>b. if in_range d (unat n) b then mem m (s + (b - d)) else mem m b),
                  pst := (\<lambda>b. if in_range d (unat n) b then Dirty else pst m b)\<rparr>))"

definition memset :: "u64 \<Rightarrow> u32 \<Rightarrow> u64 \<Rightarrow> prog" where
  "memset d c n m =
     (if \<not> accessible m d (unat n) then Inl (PageFault d)
      else Inr (m\<lparr>mem := (\<lambda>b. if in_range d (unat n) b then ucast c else mem m b),
                  pst := (\<lambda>b. if in_range d (unat n) b then Dirty else pst m b)\<rparr>))"

section \<open>What a routine may do to memory\<close>

text \<open>
  \<open>moved x st d s n m m'\<close>: from \<open>m\<close> to \<open>m'\<close> exactly the \<open>n\<close> bytes at \<open>d\<close> were written (copied
  from \<open>s\<close>, filled with one byte, or scribbled over), they have the persistence status \<open>st\<close>, no other byte changed, and
  outside the range a byte's status is unchanged or, when lines were written back, went from
  \<open>Dirty\<close> to \<open>Pending\<close>. \<open>Touch\<close> is the effect of a routine that only reads.
\<close>

datatype xfer = Copy | FillWith u8 | Scribble | Touch

definition same_env :: "machine \<Rightarrow> machine \<Rightarrow> bool" where
  "same_env m m' \<longleftrightarrow> mapped m' = mapped m \<and> debug m' = debug m \<and>
     clock_src m' = clock_src m \<and> clock_pos m' = clock_pos m"

definition aged :: "pstat \<Rightarrow> pstat \<Rightarrow> bool" where
  "aged s t \<longleftrightarrow> t = s \<or> s = Dirty \<and> t = Pending"

definition outside :: "pstat \<Rightarrow> pstat \<Rightarrow> pstat \<Rightarrow> bool" where
  "outside st s t \<longleftrightarrow> (if st = Dirty then t = s else aged s t)"

fun inside :: "xfer \<Rightarrow> pstat \<Rightarrow> u8 \<Rightarrow> u8 \<times> pstat \<Rightarrow> u8 \<times> pstat \<Rightarrow> bool" where
  "inside Copy st v (b, p) (b', p') \<longleftrightarrow> b' = v \<and> p' = st"
| "inside Scribble st v (b, p) (b', p') \<longleftrightarrow> p' = st"
| "inside (FillWith c) st v (b, p) (b', p') \<longleftrightarrow> b' = c \<and> p' = st"
| "inside Touch st v (b, p) (b', p') \<longleftrightarrow> b' = b \<and> p' = p"

definition moved :: "xfer \<Rightarrow> pstat \<Rightarrow> u64 \<Rightarrow> u64 \<Rightarrow> nat \<Rightarrow> machine \<Rightarrow> machine \<Rightarrow> bool" where
  "moved x st d s n m m' \<longleftrightarrow> same_env m m' \<and>
     (\<forall>a. \<not> in_range d n a \<longrightarrow> mem m' a = mem m a \<and> outside st (pst m a) (pst m' a)) \<and>
     (\<forall>a. in_range d n a \<longrightarrow>
        inside x st (mem m (s + (a - d))) (mem m a, pst m a) (mem m' a, pst m' a))"

lemma same_env_refl [simp]: "same_env m m"
  by (simp add: same_env_def)

lemma same_env_trans: "same_env m m' \<Longrightarrow> same_env m' m'' \<Longrightarrow> same_env m m''"
  by (simp add: same_env_def)

lemma outside_refl [simp]: "outside st p p"
  by (simp add: outside_def aged_def)

lemma outside_trans: "outside st p q \<Longrightarrow> outside st q r \<Longrightarrow> outside st p r"
  by (auto simp: outside_def aged_def split: if_splits)

lemma accessible_env: "same_env m m' \<Longrightarrow> accessible m' a n = accessible m a n"
  by (simp add: accessible_def same_env_def)

lemma accessible_mono: "accessible m a n \<Longrightarrow> k \<le> n \<Longrightarrow> accessible m a k"
  by (auto simp: accessible_def)

lemma accessible_add:
  "accessible m a (n + k) \<longleftrightarrow> accessible m a n \<and> accessible m (a + of_nat n) k"
proof -
  have "(\<forall>i<n + k. P i) \<longleftrightarrow> (\<forall>i<n. P i) \<and> (\<forall>i<k. P (n + i))" for P
    by (metis add_less_cancel_left less_add_eq_less less_diff_conv2 linorder_not_le
        nat_add_left_cancel_less ordered_cancel_comm_monoid_diff_class.add_diff_inverse
        trans_less_add1)
  then show ?thesis by (simp add: accessible_def add.assoc)
qed

lemma accessible_page: "accessible m a n \<Longrightarrow> 0 < n \<Longrightarrow> mapped m (page_of a)"
  by (auto simp: accessible_def dest: spec [of _ 0])

lemma accessible_sub: "accessible m b N \<Longrightarrow> k + n \<le> N \<Longrightarrow> accessible m (b + of_nat k) n"
  unfolding accessible_def
proof (intro allI impI)
  fix i assume a: "\<forall>i<N. mapped m (page_of (b + of_nat i))" "k + n \<le> N" "i < n"
  then have "k + i < N" by simp
  with a(1) have "mapped m (page_of (b + of_nat (k + i)))" by blast
  then show "mapped m (page_of (b + of_nat k + of_nat i))" by (simp add: add.assoc)
qed

lemma moved_env: "moved x st d s n m m' \<Longrightarrow> same_env m m'"
  by (simp add: moved_def)

lemma moved_0 [simp]: "moved x st d s 0 m m"
  by (simp add: moved_def)

lemma moved_Touch_refl: "moved Touch st d s n m m"
  by (simp add: moved_def)

lemma moved_ymm: "moved x st d s n m m' \<Longrightarrow> moved x st d s n m (m'\<lparr>ymm := y\<rparr>)"
  by (simp add: moved_def same_env_def)

lemma outside_st: "outside st st q \<Longrightarrow> q = st"
  by (auto simp: outside_def aged_def split: if_splits)

lemma inside_outside:
  assumes "inside x st v (b, p) (b', p')" and "outside st p' p''" and "x = Touch \<Longrightarrow> st = Dirty"
  shows "inside x st v (b, p) (b', p'')"
  using assms by (cases x) (auto dest: outside_st, simp add: outside_def)

lemma moved_trans:
  assumes le: "n + k \<le> 2 ^ 64" and ap: "x = Copy \<Longrightarrow> apart (n + k) d s"
    and tch: "x = Touch \<Longrightarrow> st = Dirty"
    and m1: "moved x st d s n m m1"
    and m2: "moved x st (d + of_nat n) (s + of_nat n) k m1 m2"
  shows "moved x st d s (n + k) m m2"
  unfolding moved_def
proof (intro conjI allI impI)
  show "same_env m m2" using m1 m2 by (auto dest: moved_env intro: same_env_trans)
next
  fix a assume "\<not> in_range d (n + k) a"
  then have "\<not> in_range d n a \<and> \<not> in_range (d + of_nat n) k a" by (simp add: in_range_add [OF le])
  with m1 m2 show "mem m2 a = mem m a" "outside st (pst m a) (pst m2 a)"
    by (auto simp: moved_def intro: outside_trans)
next
  fix a assume r: "in_range d (n + k) a"
  let ?v = "mem m (s + (a - d))"
  show "inside x st ?v (mem m a, pst m a) (mem m2 a, pst m2 a)"
  proof (cases "in_range (d + of_nat n) k a")
    case True
    then have nr: "\<not> in_range d n a" by (rule in_range_disjoint [OF le])
    with m1 have old: "mem m1 a = mem m a" "outside st (pst m a) (pst m1 a)"
      by (simp_all add: moved_def)
    have eq: "s + of_nat n + (a - (d + of_nat n)) = s + (a - d)" by simp
    have new: "inside x st (mem m1 (s + (a - d))) (mem m1 a, pst m1 a) (mem m2 a, pst m2 a)"
      using m2 True unfolding moved_def eq [symmetric] by blast
    have "mem m1 (s + (a - d)) = ?v" if "x = Copy"
    proof -
      have "in_range s (n + k) (s + (a - d))" using r by (simp add: in_range_def)
      then have "\<not> in_range d n (s + (a - d))"
        using apart_disjoint [OF ap [OF that]] in_range_mono le_add1 by blast
      with m1 show ?thesis by (simp add: moved_def)
    qed
    with new old tch show ?thesis
      by (cases x)
        (auto simp: outside_def)
  next
    case False
    with r have "in_range d n a" by (simp add: in_range_add [OF le])
    with m1 have "inside x st ?v (mem m a, pst m a) (mem m1 a, pst m1 a)" by (simp add: moved_def)
    moreover from m2 False have "mem m2 a = mem m1 a" "outside st (pst m1 a) (pst m2 a)"
      by (simp_all add: moved_def)
    ultimately show ?thesis using inside_outside [OF _ _ tch] by simp
  qed
qed

text \<open>Writing a line back turns freshly stored bytes within it into pending ones.\<close>

lemma moved_clwb:
  assumes mv: "moved x Dirty d s n m m1" and x: "x \<noteq> Touch"
    and line: "\<And>b. in_range d n b \<Longrightarrow> line_of b = line_of a"
    and cl: "clwb a m1 = Inr m2"
  shows "moved x Pending d s n m m2"
proof -
  have m2: "m2 = m1\<lparr>pst := (\<lambda>b. if line_of b = line_of a \<and> pst m1 b = Dirty
                              then Pending else pst m1 b)\<rparr>"
    using cl by (simp add: clwb_def split: if_splits)
  have p: "inside x Pending v p (b, Pending) \<and> q = Dirty" if "inside x Dirty v p (b, q)" for v p b q
    using that x by (cases x; cases p) auto
  show ?thesis
    unfolding moved_def
  proof (intro conjI allI impI)
    show "same_env m m2" using mv by (simp add: moved_def same_env_def m2)
  next
    fix b assume "\<not> in_range d n b"
    with mv show "mem m2 b = mem m b" "outside Pending (pst m b) (pst m2 b)"
      by (simp_all add: moved_def m2 outside_def aged_def)
  next
    fix b assume r: "in_range d n b"
    with mv have "inside x Dirty (mem m (s + (b - d))) (mem m b, pst m b) (mem m1 b, pst m1 b)"
      by (simp add: moved_def)
    from p [OF this] line [OF r]
    show "inside x Pending (mem m (s + (b - d))) (mem m b, pst m b) (mem m2 b, pst m2 b)"
      by (simp add: m2)
  qed
qed

text \<open>A fence after pending writes makes them survive a crash.\<close>

lemma moved_sfence_durable:
  assumes "moved x Pending d s n m m1" and "x \<noteq> Touch" and "in_range d n a"
  shows "pst (sfence m1) a = Durable"
proof -
  have "pst m1 a = Pending" 
    using assms by (cases x)
      (auto simp: moved_def)
  then show ?thesis by (simp add: sfence_def)
qed

lemma crash_after_fence:
  assumes mv: "moved Copy Pending d s n m m1" and r: "in_range d n a"
    and img: "crash_image (sfence m1) img"
  shows "img a = mem m (s + (a - d))"
proof -
  have "img a = mem m1 a"
    using img moved_sfence_durable [OF mv _ r] by (simp add: crash_image_def) (simp add: sfence_def)
  with mv r show ?thesis by (simp add: moved_def)
qed

section \<open>The primitives as memory effects\<close>

lemma store_bytes_ok:
  assumes "accessible m a (length bs)"
  obtains m' where "store_bytes a bs m = Inr m'" and "same_env m m'"
    and "\<And>b. mem m' b = (if in_range a (length bs) b then bs ! unat (b - a) else mem m b)"
    and "\<And>b. pst m' b = (if in_range a (length bs) b then Dirty else pst m b)"
  using assms by (simp add: store_bytes_def same_env_def)

lemma vstore_as_ok:
  assumes "aligned w a" and "accessible m a w"
  obtains m' where "vstore_as st w r a m = Inr m'" and "same_env m m'" and "ymm m' = ymm m"
    and "\<And>b. mem m' b = (if in_range a w b then ymm m r (unat (b - a)) else mem m b)"
    and "\<And>b. pst m' b = (if in_range a w b then st else pst m b)"
  using assms by (simp add: vstore_as_def same_env_def)

lemma clwb_ok: "mapped m (page_of a) \<Longrightarrow> \<exists>m'. clwb a m = Inr m' \<and> same_env m m'"
  by (simp add: clwb_def same_env_def)

lemma memcpy_moved:
  assumes "n = 0 \<or> apart (unat n) d s" "accessible m d (unat n)" "accessible m s (unat n)"
  shows "\<exists>m'. memcpy d s n m = Inr m' \<and> moved Copy Dirty d s (unat n) m m'"
  using assms by (auto simp: memcpy_def moved_def same_env_def outside_def)

lemma memset_moved:
  assumes "accessible m d (unat n)"
  shows "\<exists>m'. memset d c n m = Inr m' \<and> moved (FillWith (ucast c)) Dirty d s (unat n) m m'"
  using assms by (auto simp: memset_def moved_def same_env_def outside_def)

section \<open>Reading an effect off\<close>

lemma moved_Copy_mem:
  "moved Copy st d s n m m' \<Longrightarrow>
   mem m' = (\<lambda>a. if in_range d n a then mem m (s + (a - d)) else mem m a)"
  by (auto simp: moved_def)

lemma moved_FillWith_mem:
  "moved (FillWith c) st d s n m m' \<Longrightarrow> mem m' = (\<lambda>a. if in_range d n a then c else mem m a)"
  by (auto simp: moved_def)

lemma moved_Dirty_pst:
  "moved x Dirty d s n m m' \<Longrightarrow> x \<noteq> Touch \<Longrightarrow>
   pst m' = (\<lambda>a. if in_range d n a then Dirty else pst m a)"
  by (cases x) (auto simp: moved_def outside_def)

lemma moved_Copy_Dirty:
  "moved Copy Dirty d s n m m' \<Longrightarrow>
   mem m' = (\<lambda>a. if in_range d n a then mem m (s + (a - d)) else mem m a) \<and>
   pst m' = (\<lambda>a. if in_range d n a then Dirty else pst m a)"
  using moved_Copy_mem moved_Dirty_pst [of Copy] by blast

lemma moved_Touch_same:
  "moved Touch Dirty d s n m m' \<Longrightarrow> mem m' = mem m \<and> pst m' = pst m"
  by (auto simp: moved_def outside_def)

lemma moved_frame:
  "moved x st d s n m m' \<Longrightarrow> \<not> in_range d n a \<Longrightarrow> mem m' a = mem m a"
  by (simp add: moved_def)

lemma moved_crash_frame:
  assumes mv: "moved x st d s n m m'" and r: "\<not> in_range d n a" and p: "pst m a = Durable"
    and img: "crash_image (sfence m') img"
  shows "img a = mem m a"
proof -
  have "pst m' a = Durable" using mv r p by (auto simp: moved_def outside_def aged_def split: if_splits)
  with img mv r show ?thesis by (simp add: crash_image_def sfence_def moved_def)
qed

lemma moved_crash_Copy:
  assumes "moved Copy Pending d s n m m'" and "crash_image (sfence m') img"
  shows "(in_range d n a \<longrightarrow> img a = mem m (s + (a - d))) \<and>
    (\<not> in_range d n a \<and> pst m a = Durable \<longrightarrow> img a = mem m a)"
  using crash_after_fence [OF assms(1) _ assms(2)] moved_crash_frame [OF assms(1) _ _ assms(2)] by blast

lemma moved_crash_FillWith:
  assumes mv: "moved (FillWith c) Pending d s n m m'" and img: "crash_image (sfence m') img"
  shows "(in_range d n a \<longrightarrow> img a = c) \<and> (\<not> in_range d n a \<and> pst m a = Durable \<longrightarrow> img a = mem m a)"
proof -
  have "img a = c" if r: "in_range d n a"
  proof -
    have "pst (sfence m') a = Durable" by (rule moved_sfence_durable [OF mv _ r]) simp
    moreover have "mem (sfence m') a = c" using mv r by (simp add: moved_def sfence_def)
    ultimately show ?thesis using img by (simp add: crash_image_def)
  qed
  then show ?thesis using moved_crash_frame [OF mv _ _ img] by blast
qed

text \<open>A fresh machine to run the routines on: everything mapped and durable, each byte of
  memory the low byte of its address.\<close>

definition demo_machine :: machine where
  "demo_machine = \<lparr>mem = ucast, pst = (\<lambda>_. Durable), ymm = (\<lambda>_ _. 0), mapped = (\<lambda>_. True),
     debug = True, clock_src = (\<lambda>i. (of_nat i, 0)), clock_pos = 0\<rparr>"

lemma demo_machine_simps [simp]:
  "mem demo_machine = ucast" "pst demo_machine = (\<lambda>_. Durable)" "mapped demo_machine = (\<lambda>_. True)"
  "accessible demo_machine a n" "debug demo_machine"
  by (simp_all add: demo_machine_def accessible_def)

end
