(* ===== verification/Vector_Asm.thy ===== *)
theory Vector_Asm
  imports Machine
begin

text \<open>
  The inline assembly of util/instr.h and util/instr_just.h: the instructions the blocks are
  made of, their execution with \<open>rsi\<close> and \<open>rdi\<close> set by the two leading moves of a block, and
  what the three shapes of block (loads, stores, stores with write-backs) do for any number
  of registers.
\<close>

section \<open>Instructions\<close>

datatype vreg = Xmm nat | Ymm nat

text \<open>
  The macros LOAD_INSTR (vmovdqa from memory), NTLOAD_INSTR (vmovntdqa), STORE_INSTR (vmovdqa
  to memory) and NTSTORE_INSTR (vmovntpd), and clwb. Loads address \<open>rsi\<close>, the others \<open>rdi\<close>.
\<close>

datatype insn = LOAD nat vreg | NTLOAD nat vreg | STORE vreg nat | NTSTORE vreg nat | CLWB nat

fun vwidth :: "vreg \<Rightarrow> nat" where
  "vwidth (Xmm i) = 16"
| "vwidth (Ymm i) = 32"

fun vindex :: "vreg \<Rightarrow> nat" where
  "vindex (Xmm i) = i"
| "vindex (Ymm i) = i"

fun exec_insn :: "u64 \<Rightarrow> u64 \<Rightarrow> insn \<Rightarrow> prog" where
  "exec_insn rsi rdi (LOAD off r) = vload (vwidth r) (vindex r) (rsi + of_nat off)"
| "exec_insn rsi rdi (NTLOAD off r) = vload (vwidth r) (vindex r) (rsi + of_nat off)"
| "exec_insn rsi rdi (STORE r off) = vstore_as Dirty (vwidth r) (vindex r) (rdi + of_nat off)"
| "exec_insn rsi rdi (NTSTORE r off) = vstore_as Pending (vwidth r) (vindex r) (rdi + of_nat off)"
| "exec_insn rsi rdi (CLWB off) = clwb (rdi + of_nat off)"

definition asm_block :: "u64 \<Rightarrow> u64 \<Rightarrow> insn list \<Rightarrow> prog" where
  "asm_block rsi rdi is = run_all (map (exec_insn rsi rdi) is)"

lemma asm_block_append:
  "asm_block rsi rdi (is @ js) m =
     (case asm_block rsi rdi is m of Inl e \<Rightarrow> Inl e | Inr m' \<Rightarrow> asm_block rsi rdi js m')"
  by (simp add: asm_block_def run_all_append split: sum.split)

lemma asm_block_Nil [simp]: "asm_block rsi rdi [] m = Inr m"
  by (simp add: asm_block_def)

lemma asm_block_single [simp]: "asm_block rsi rdi [i] m = exec_insn rsi rdi i m"
  by (simp add: asm_block_def split: sum.splits)

section \<open>Block shapes\<close>

definition vr :: "nat \<Rightarrow> nat \<Rightarrow> vreg" where
  "vr w i = (if w = 16 then Xmm i else Ymm i)"

fun loads :: "nat \<Rightarrow> (nat \<Rightarrow> vreg \<Rightarrow> insn) \<Rightarrow> nat \<Rightarrow> insn list" where
  "loads w ld 0 = []"
| "loads w ld (Suc k) = loads w ld k @ [ld (k * w) (vr w k)]"

fun stores :: "nat \<Rightarrow> (vreg \<Rightarrow> nat \<Rightarrow> insn) \<Rightarrow> nat \<Rightarrow> insn list" where
  "stores w st 0 = []"
| "stores w st (Suc k) = stores w st k @ [st (vr w k) (k * w)]"

fun flush_stores :: "nat \<Rightarrow> insn list" where
  "flush_stores 0 = []"
| "flush_stores (Suc k) =
     flush_stores k @ [STORE (Ymm (2 * k)) (2 * k * 32), STORE (Ymm (2 * k + 1)) ((2 * k + 1) * 32),
                       CLWB (2 * k * 32)]"

lemma loads_numeral:
  "loads w ld (numeral k) = loads w ld (pred_numeral k) @ [ld (pred_numeral k * w) (vr w (pred_numeral k))]"
  by (simp add: numeral_eq_Suc)

lemma stores_numeral:
  "stores w st (numeral k) = stores w st (pred_numeral k) @ [st (vr w (pred_numeral k)) (pred_numeral k * w)]"
  by (simp add: numeral_eq_Suc)

lemma flush_stores_numeral:
  "flush_stores (numeral k) = flush_stores (pred_numeral k) @
     [STORE (Ymm (2 * pred_numeral k)) (2 * pred_numeral k * 32),
      STORE (Ymm (2 * pred_numeral k + 1)) ((2 * pred_numeral k + 1) * 32), CLWB (2 * pred_numeral k * 32)]"
  by (simp add: numeral_eq_Suc)

lemma shapes_one:
  "loads w ld 1 = [ld 0 (vr w 0)]" "stores w st 1 = [st (vr w 0) 0]"
  "flush_stores 1 = [STORE (Ymm 0) 0, STORE (Ymm 1) 32, CLWB 0]"
  by (simp_all add: numeral_eq_Suc)

definition is_load :: "(nat \<Rightarrow> vreg \<Rightarrow> insn) \<Rightarrow> bool" where
  "is_load ld \<longleftrightarrow> ld = LOAD \<or> ld = NTLOAD"

fun store_status :: "insn \<Rightarrow> pstat" where
  "store_status (NTSTORE r off) = Pending"
| "store_status _ = Dirty"

definition is_store :: "pstat \<Rightarrow> (vreg \<Rightarrow> nat \<Rightarrow> insn) \<Rightarrow> bool" where
  "is_store p st \<longleftrightarrow> p = Dirty \<and> st = STORE \<or> p = Pending \<and> st = NTSTORE"

lemmas block_shapes = loads_numeral stores_numeral flush_stores_numeral shapes_one vr_def

lemmas block_kinds = is_load_def is_store_def

lemma vr_simps [simp]:
  "w = 16 \<or> w = 32 \<Longrightarrow> vwidth (vr w i) = w" "vindex (vr w i) = i"
  by (auto simp: vr_def)

lemma exec_load [simp]:
  "is_load ld \<Longrightarrow> exec_insn rsi rdi (ld off r) = vload (vwidth r) (vindex r) (rsi + of_nat off)"
  by (auto simp: is_load_def)

lemma exec_store [simp]:
  "is_store p st \<Longrightarrow> exec_insn rsi rdi (st r off) = vstore_as p (vwidth r) (vindex r) (rdi + of_nat off)"
  by (auto simp: is_store_def)

lemma aligned_mult:
  assumes "aligned w a" and "w dvd 2 ^ 64"
  shows "aligned w (a + of_nat (k * w))"
  using assms unat_add_of_nat_mod [OF assms(2), of a "k * w"] by (simp add: aligned_def)

lemma accessible_slice:
  "accessible m a (Suc k * w) \<Longrightarrow> accessible m (a + of_nat (k * w)) w"
  using accessible_add [of m a "k * w" w] by (simp add: add.commute)

subsection \<open>Loads\<close>

text \<open>After the loads, register \<open>r\<close> holds the \<open>r\<close>-th slice of the source.\<close>

definition loaded :: "nat \<Rightarrow> nat \<Rightarrow> u64 \<Rightarrow> machine \<Rightarrow> nat \<Rightarrow> nat \<Rightarrow> u8" where
  "loaded w k s m = (\<lambda>r i. if r < k then (if i < w then mem m (s + of_nat (r * w + i)) else 0)
                           else ymm m r i)"

lemma loads_run:
  assumes "is_load ld" and w: "w = 16 \<or> w = 32"
    and "aligned w s" and "accessible m s (k * w)"
  shows "asm_block s d (loads w ld k) m = Inr (m\<lparr>ymm := loaded w k s m\<rparr>)"
  using assms(4)
proof (induction k)
  case 0
  show ?case by (simp add: loaded_def)
next
  case (Suc k)
  from w have wd: "w dvd 2 ^ 64" by auto
  have acc: "accessible m s (k * w)" using Suc.prems by (rule accessible_mono) simp
  have "vload w k (s + of_nat (k * w)) (m\<lparr>ymm := loaded w k s m\<rparr>)
      = Inr (m\<lparr>ymm := loaded w (Suc k) s m\<rparr>)"
  proof -
    have "accessible (m\<lparr>ymm := loaded w k s m\<rparr>) (s + of_nat (k * w)) w"
      using accessible_slice [OF Suc.prems] by (simp add: accessible_def)
    moreover have "(loaded w k s m)(k := (\<lambda>i. if i < w then mem m (s + of_nat (k * w) + of_nat i) else 0))
        = loaded w (Suc k) s m"
      by (rule ext, rule ext) (auto simp: loaded_def less_Suc_eq add.assoc)
    ultimately show ?thesis
      using aligned_mult [OF assms(3) wd, of k] by (simp add: vload_def del: of_nat_mult cong: if_cong)
  qed
  then show ?case
    using Suc.IH [OF acc] assms(1) w by (simp add: asm_block_append)
qed

subsection \<open>Stores\<close>

text \<open>
  After \<open>k\<close> stores the first \<open>k * w\<close> bytes at \<open>d\<close> hold the registers' slices, with the
  persistence statuses \<open>q\<close>.
\<close>

definition block_state :: "nat \<Rightarrow> nat \<Rightarrow> u64 \<Rightarrow> machine \<Rightarrow> (u64 \<Rightarrow> pstat) \<Rightarrow> machine" where
  "block_state w k d m q =
     m\<lparr>mem := (\<lambda>b. if in_range d (k * w) b
                  then ymm m (unat (b - d) div w) (unat (b - d) mod w) else mem m b),
       pst := q\<rparr>"

definition block_store :: "pstat \<Rightarrow> nat \<Rightarrow> nat \<Rightarrow> u64 \<Rightarrow> machine \<Rightarrow> machine" where
  "block_store st w k d m = block_state w k d m (\<lambda>b. if in_range d (k * w) b then st else pst m b)"

lemma block_store_0 [simp]: "block_store st w 0 d m = m"
  by (simp add: block_store_def block_state_def)

lemma accessible_block [simp]: "accessible (block_state w k d m q) = accessible m"
  by (intro ext) (simp add: accessible_def block_state_def)

lemma unat_slice:
  assumes "in_range (d + of_nat j) w b" and "j + w \<le> 2 ^ 64" and "0 < w"
  shows "unat (b - (d + of_nat j)) = unat (b - d) - j" and "j \<le> unat (b - d)"
proof -
  have eq: "b - (d + of_nat j) = (b - d) - of_nat j" by simp
  have lt: "j < 2 ^ 64" using assms by simp
  show "j \<le> unat (b - d)"
    using assms unfolding in_range_def eq unat_diff_of_nat [OF lt] by (auto split: if_splits)
  then show "unat (b - (d + of_nat j)) = unat (b - d) - j"
    unfolding eq unat_diff_of_nat [OF lt] by simp
qed

lemma vstore_state:
  assumes w: "w = 16 \<or> w = 32" and "aligned w d" and "accessible m d (Suc k * w)"
    and le: "Suc k * w \<le> 2 ^ 64"
  shows "vstore_as p w k (d + of_nat (k * w)) (block_state w k d m q)
    = Inr (block_state w (Suc k) d m (\<lambda>b. if in_range (d + of_nat (k * w)) w b then p else q b))"
proof -
  let ?a = "d + of_nat (k * w)"
  from w have wd: "w dvd 2 ^ 64" and w0: "0 < w" by auto
  have rng: "in_range d (Suc k * w) b \<longleftrightarrow> in_range d (k * w) b \<or> in_range ?a w b" for b
    using in_range_add [of "k * w" w d b] le by (simp add: add.commute)
  have reg: "ymm m k (unat (b - ?a)) = ymm m (unat (b - d) div w) (unat (b - d) mod w)"
    if "in_range ?a w b" for b
  proof -
    have "unat (b - ?a) = unat (b - d) - k * w" "k * w \<le> unat (b - d)"
      using unat_slice [OF that _ w0] le by (simp_all add: add.commute)
    moreover have "unat (b - ?a) < w" using that by (simp add: in_range_def)
    ultimately have "unat (b - d) = k * w + unat (b - ?a)" "unat (b - ?a) < w" by simp_all
    then show ?thesis by simp
  qed
  have "accessible m ?a w" using accessible_slice [OF assms(3)] .
  moreover have "(\<lambda>b. if in_range ?a w b then ymm m k (unat (b - ?a))
                    else if in_range d (k * w) b then ymm m (unat (b - d) div w) (unat (b - d) mod w)
                    else mem m b)
      = (\<lambda>b. if in_range d (Suc k * w) b then ymm m (unat (b - d) div w) (unat (b - d) mod w)
             else mem m b)"
    using reg by (intro ext) (simp add: rng del: mult_Suc of_nat_mult)
  ultimately show ?thesis
    using aligned_mult [OF assms(2) wd, of k]
    by (simp add: vstore_as_def del: of_nat_mult mult_Suc)
      (simp add: block_state_def del: of_nat_mult mult_Suc cong: if_cong)
qed

lemma vstore_block:
  assumes w: "w = 16 \<or> w = 32" and "aligned w d" and "accessible m d (Suc k * w)"
    and le: "Suc k * w \<le> 2 ^ 64"
  shows "vstore_as p w k (d + of_nat (k * w)) (block_store p w k d m) = Inr (block_store p w (Suc k) d m)"
proof -
  let ?a = "d + of_nat (k * w)"
  have rng: "in_range d (Suc k * w) b \<longleftrightarrow> in_range d (k * w) b \<or> in_range ?a w b" for b
    using in_range_add [of "k * w" w d b] le by (simp add: add.commute)
  have "(\<lambda>b. if in_range ?a w b then p else if in_range d (k * w) b then p else pst m b)
      = (\<lambda>b. if in_range d (Suc k * w) b then p else pst m b)"
    by (intro ext) (simp add: rng del: mult_Suc of_nat_mult)
  then show ?thesis
    using vstore_state [OF assms] by (simp add: block_store_def del: of_nat_mult mult_Suc)
qed

lemma stores_run:
  assumes "is_store p st" and w: "w = 16 \<or> w = 32" and "aligned w d"
    and "accessible m d (k * w)" and "k * w \<le> 2 ^ 64"
  shows "asm_block s d (stores w st k) m = Inr (block_store p w k d m)"
  using assms(4,5)
proof (induction k)
  case 0
  show ?case by simp
next
  case (Suc k)
  have acc: "accessible m d (k * w)" using Suc.prems(1) by (rule accessible_mono) simp
  have "asm_block s d (stores w st k) m = Inr (block_store p w k d m)"
    using Suc.IH [OF acc] Suc.prems(2) by simp
  then show ?case
    using vstore_block [OF w assms(3) Suc.prems] assms(1) w by (simp add: asm_block_append)
qed

subsection \<open>Stores with write-backs\<close>

lemma aligned_line_range:
  assumes "aligned 64 d"
  shows "line_of b = line_of d \<longleftrightarrow> in_range d 64 b"
proof
  assume "in_range d 64 b"
  then show "line_of b = line_of d"
    by (rule in_range_line) (use assms in \<open>simp add: aligned_def\<close>)
next
  assume "line_of b = line_of d"
  then have q: "unat b div 64 = unat d div 64" by (simp add: line_of_eq_iff)
  have d: "unat d = unat d div 64 * 64" 
    using assms div_mult_mod_eq [of "unat d" 64] by (simp add: aligned_def)
  have b: "unat b = unat d div 64 * 64 + unat b mod 64"
    using q div_mult_mod_eq [of "unat b" 64] by simp
  have m: "unat b mod 64 < 64" by simp
  have "unat d \<le> unat b" "unat b - unat d < 64" using d b m by linarith+
  then show "in_range d 64 b"
    by (simp add: in_range_def unat_sub word_le_nat_alt)
qed

lemma flush_stores_step:
  assumes al: "aligned 64 d" and acc: "accessible m d (Suc k * 64)" and le: "Suc k * 64 \<le> 2 ^ 64"
  shows "asm_block s d [STORE (Ymm (2 * k)) (2 * k * 32), STORE (Ymm (2 * k + 1)) ((2 * k + 1) * 32),
      CLWB (2 * k * 32)] (block_store Pending 32 (2 * k) d m) = Inr (block_store Pending 32 (2 * Suc k) d m)"
proof -
  let ?a0 = "d + of_nat (2 * k * 32)" and ?a1 = "d + of_nat (Suc (2 * k) * 32)"
  define q0 where "q0 = (\<lambda>b. if in_range d (2 * k * 32) b then Pending else pst m b)"
  define q1 where "q1 = (\<lambda>b. if in_range ?a0 32 b then Dirty else q0 b)"
  define q2 where "q2 = (\<lambda>b. if in_range ?a1 32 b then Dirty else q1 b)"
  define q3 where "q3 = (\<lambda>b. if in_range d (2 * Suc k * 32) b then Pending else pst m b)"
  have al32: "aligned 32 d"
    using al mod_mod_cancel [of 32 64 "unat d"] by (simp add: aligned_def)
  have acc1: "accessible m d (Suc (2 * k) * 32)" using acc by (rule accessible_mono) simp
  have acc2: "accessible m d (Suc (Suc (2 * k)) * 32)" using acc by (rule accessible_mono) simp
  have s1: "vstore_as Dirty 32 (2 * k) ?a0 (block_state 32 (2 * k) d m q0)
      = Inr (block_state 32 (Suc (2 * k)) d m q1)"
    unfolding q1_def using le by (intro vstore_state [OF _ al32 acc1]) simp_all
  have s2: "vstore_as Dirty 32 (Suc (2 * k)) ?a1 (block_state 32 (Suc (2 * k)) d m q1)
      = Inr (block_state 32 (2 * Suc k) d m q2)"
    unfolding q2_def using le vstore_state [OF _ al32 acc2, of Dirty q1] by simp
  have al0: "aligned 64 ?a0" using aligned_mult [OF al, of k] by (simp add: mult.assoc mult.commute)
  note line = aligned_line_range [OF al0]
  have a1: "?a1 = ?a0 + of_nat 32" by (simp add: algebra_simps)
  have both: "in_range ?a0 64 b \<longleftrightarrow> in_range ?a0 32 b \<or> in_range ?a1 32 b" for b
    using in_range_add [of 32 32 ?a0 b] unfolding a1 by simp
  have rng: "in_range d (2 * Suc k * 32) b \<longleftrightarrow> in_range d (2 * k * 32) b \<or> in_range ?a0 64 b" for b
    using in_range_add [of "2 * k * 32" 64 d b] le by (simp add: algebra_simps)
  have "mapped m (page_of ?a0)"
    using accessible_page [OF accessible_slice [of m d k 64]] acc by (simp add: mult.assoc mult.commute)
  moreover have "(\<lambda>b. if line_of b = line_of ?a0 \<and> q2 b = Dirty then Pending else q2 b) = q3"
    unfolding q3_def rng line both q2_def q1_def q0_def by (intro ext) auto
  ultimately have s3: "clwb ?a0 (block_state 32 (2 * Suc k) d m q2) = Inr (block_state 32 (2 * Suc k) d m q3)"
    by (simp add: clwb_def block_state_def del: of_nat_mult mult_Suc mult_Suc_right cong: if_cong)
  show ?thesis
    using s1 s2 s3 unfolding block_store_def q0_def [symmetric] q3_def [symmetric]
    by (simp add: asm_block_def)
qed

lemma flush_stores_run:
  assumes al: "aligned 64 d" and "accessible m d (k * 64)" and "k * 64 \<le> 2 ^ 64"
  shows "asm_block s d (flush_stores k) m = Inr (block_store Pending 32 (2 * k) d m)"
  using assms(2,3)
proof (induction k)
  case 0
  show ?case by simp
next
  case (Suc k)
  have "accessible m d (k * 64)" using Suc.prems(1) by (rule accessible_mono) simp
  then have "asm_block s d (flush_stores k) m = Inr (block_store Pending 32 (2 * k) d m)"
    using Suc.IH Suc.prems(2) by simp
  then show ?case
    using flush_stores_step [OF al Suc.prems] by (simp add: asm_block_append del: mult_Suc_right)
qed

section \<open>The interface of a fixed-size kernel\<close>

text \<open>
  What every block of util/instr.h and util/instr_just.h promises its callers: given a
  destination aligned to \<open>al\<close> (and, for a copy, a source aligned to \<open>sal\<close>) and mapped
  memory, it does not fault and transfers exactly \<open>n\<close> bytes, leaving them with status \<open>st\<close>.
  A routine that only reads takes the pointer it reads from as \<open>d\<close>.
\<close>

locale transfer_kernel =
  fixes x :: xfer and st :: pstat and n al sal :: nat and K :: "u64 \<Rightarrow> u64 \<Rightarrow> prog"
  assumes transfers: "aligned al d \<Longrightarrow> accessible m d n \<Longrightarrow>
      (x = Copy \<Longrightarrow> aligned sal s \<and> accessible m s n) \<Longrightarrow>
      \<exists>m'. K d s m = Inr m' \<and> moved x st d s n m m'"

lemma block_store_Scribble: "moved Scribble st d s (k * w) m (block_store st w k d m)"
  by (simp add: moved_def block_store_def block_state_def same_env_def)

lemma block_store_loaded:
  assumes "0 < w"
  shows "moved Copy st d s (k * w) m (block_store st w k d (m\<lparr>ymm := loaded w k s m\<rparr>))"
proof -
  have "loaded w k s m (unat (b - d) div w) (unat (b - d) mod w) = mem m (s + (b - d))"
    if "in_range d (k * w) b" for b
  proof -
    have "unat (b - d) div w < k"
      using that assms by (simp add: in_range_def div_less_iff_less_mult)
    moreover have "s + of_nat (unat (b - d) div w * w + unat (b - d) mod w) = s + (b - d)"
      by (simp del: of_nat_mult of_nat_add)
    ultimately show ?thesis using assms by (simp add: loaded_def del: of_nat_mult of_nat_add)
  qed
  then show ?thesis
    by (simp add: moved_def block_store_def block_state_def same_env_def cong: if_cong)
qed

lemma copy_block:
  assumes "is_load ld" and "is_store st sto" and w: "w = 16 \<or> w = 32" and k: "k * w \<le> 2 ^ 64"
  shows "transfer_kernel Copy st (k * w) w w (\<lambda>d s. asm_block s d (loads w ld k @ stores w sto k))"
proof
  fix d s m
  assume d: "aligned w d" "accessible m d (k * w)"
    and "Copy = Copy \<Longrightarrow> aligned w s \<and> accessible m s (k * w)"
  then have s: "aligned w s" "accessible m s (k * w)" by simp_all
  let ?m = "m\<lparr>ymm := loaded w k s m\<rparr>"
  have "accessible ?m d (k * w)" using d by (simp add: accessible_def)
  then show "\<exists>m'. asm_block s d (loads w ld k @ stores w sto k) m = Inr m' \<and> moved Copy st d s (k * w) m m'"
    using loads_run [OF assms(1) w s, of d] stores_run [OF assms(2) w d(1) _ k, of ?m s]
      block_store_loaded [of w st d s k m] w
    by (auto simp: asm_block_append)
qed

lemma copy_flush_block:
  assumes "is_load ld" and k: "k * 64 \<le> 2 ^ 64"
  shows "transfer_kernel Copy Pending (k * 64) 64 32
    (\<lambda>d s. asm_block s d (loads 32 ld (2 * k) @ flush_stores k))"
proof
  fix d s m
  assume d: "aligned 64 d" "accessible m d (k * 64)"
    and "Copy = Copy \<Longrightarrow> aligned 32 s \<and> accessible m s (k * 64)"
  then have s: "aligned 32 s" "accessible m s (2 * k * 32)" by (simp_all add: mult.commute)
  let ?m = "m\<lparr>ymm := loaded 32 (2 * k) s m\<rparr>"
  have "accessible ?m d (k * 64)" using d by (simp add: accessible_def)
  moreover have "2 * k * 32 = k * 64" by simp
  ultimately show "\<exists>m'. asm_block s d (loads 32 ld (2 * k) @ flush_stores k) m = Inr m' \<and>
      moved Copy Pending d s (k * 64) m m'"
    using loads_run [OF assms(1) _ s, of d] flush_stores_run [OF d(1) _ k, of ?m s]
      block_store_loaded [of 32 Pending d s "2 * k" m]
    by (auto simp: asm_block_append mult.commute)
qed

lemma store_block:
  assumes "is_store st sto" and w: "w = 16 \<or> w = 32" and k: "k * w \<le> 2 ^ 64"
  shows "transfer_kernel Scribble st (k * w) w w (\<lambda>d s. asm_block d d (stores w sto k))"
proof
  fix d s m
  assume "aligned w d" "accessible m d (k * w)"
  then show "\<exists>m'. asm_block d d (stores w sto k) m = Inr m' \<and> moved Scribble st d s (k * w) m m'"
    using stores_run [OF assms(1) w _ _ k] block_store_Scribble by auto
qed

lemma flush_block:
  assumes k: "k * 64 \<le> 2 ^ 64"
  shows "transfer_kernel Scribble Pending (k * 64) 64 32 (\<lambda>d s. asm_block d d (flush_stores k))"
proof
  fix d s m
  assume "aligned 64 d" "accessible m d (k * 64)"
  moreover have "2 * k * 32 = k * 64" by simp
  ultimately show "\<exists>m'. asm_block d d (flush_stores k) m = Inr m' \<and> moved Scribble Pending d s (k * 64) m m'"
    using flush_stores_run [OF _ _ k] block_store_Scribble [of Pending d s "2 * k" 32 m]
    by (auto simp: mult.commute)
qed

lemma load_block:
  assumes "is_load ld" and w: "w = 16 \<or> w = 32"
  shows "transfer_kernel Touch Dirty (k * w) w w (\<lambda>d s. asm_block d d (loads w ld k))"
proof
  fix d s m
  assume "aligned w d" "accessible m d (k * w)"
  then show "\<exists>m'. asm_block d d (loads w ld k) m = Inr m' \<and> moved Touch Dirty d s (k * w) m m'"
    using loads_run [OF assms] by (simp add: moved_ymm moved_Touch_refl)
qed

end
