(* ===== verification/Cascade.thy ===== *)
theory Cascade
  imports Vector_Asm
begin

text \<open>
  The statement forms the routines of util/aep.h and util/aep_just.h are written with. Each
  routine keeps its pointers, the remaining length and the flush decisions in local variables
  that every statement updates (the record \<open>frame\<close>); a statement calls a block and advances.
  The second half proves, once for all routines, that the cascade of statements moves every
  byte exactly once, through the interfaces of the blocks only.
\<close>

section \<open>Local variables and statements\<close>

record frame =
  f_dest :: u64
  f_src :: u64
  f_len :: u64
  need_flush :: bool
  flush_addr :: u64
  mach :: machine

type_synonym stmt = "frame \<Rightarrow> fault + frame"

definition enter :: "u64 \<Rightarrow> u64 \<Rightarrow> u64 \<Rightarrow> machine \<Rightarrow> frame" where
  "enter dest src len m =
     \<lparr>f_dest = dest, f_src = src, f_len = len,
      need_flush = (dest AND CACHELINE_MASK \<noteq> 0),
      flush_addr = dest AND CACHELINE_UNMASK, mach = m\<rparr>"

definition leave :: "fault + frame \<Rightarrow> fault + machine" where
  "leave r = (case r of Inl e \<Rightarrow> Inl e | Inr f \<Rightarrow> Inr (mach f))"

definition on_mach :: "prog \<Rightarrow> stmt" where
  "on_mach c f = (case c (mach f) of Inl e \<Rightarrow> Inl e | Inr m \<Rightarrow> Inr (f\<lparr>mach := m\<rparr>))"

text \<open>Call a block on the two pointers, then \<open>dest += n; src += n; len -= n;\<close>.\<close>

definition step_by :: "(u64 \<Rightarrow> u64 \<Rightarrow> prog) \<Rightarrow> u64 \<Rightarrow> stmt" where
  "step_by K n f =
     (case K (f_dest f) (f_src f) (mach f) of
        Inl e \<Rightarrow> Inl e
      | Inr m \<Rightarrow> Inr (f\<lparr>f_dest := f_dest f + n, f_src := f_src f + n, f_len := f_len f - n, mach := m\<rparr>))"

text \<open>\<open>size_t cnt = (uintptr_t)dest & 15; if (cnt > 0) { cnt = 16 - cnt; if (cnt > len) cnt = len; ... }\<close>\<close>

definition head_cnt :: "u64 \<Rightarrow> u64 \<Rightarrow> u64" where
  "head_cnt dest len = (let cnt = 16 - (dest AND 15) in if cnt > len then len else cnt)"

definition head_16 :: "(u64 \<Rightarrow> u64 \<Rightarrow> u64 \<Rightarrow> prog) \<Rightarrow> stmt" where
  "head_16 small f =
     (if f_dest f AND 15 > 0
      then let cnt = head_cnt (f_dest f) (f_len f) in step_by (\<lambda>d s. small d s cnt) cnt f
      else Inr f)"

definition head_16_clwb :: "(u64 \<Rightarrow> u64 \<Rightarrow> u64 \<Rightarrow> prog) \<Rightarrow> stmt" where
  "head_16_clwb small f =
     (if f_dest f AND 15 > 0
      then let cnt = head_cnt (f_dest f) (f_len f)
           in step_by (\<lambda>d s. run_all [small d s cnt, clwb (d AND CACHELINE_UNMASK)]) cnt f
      else Inr f)"

text \<open>\<open>if (((uintptr_t)dest & n) && len >= n)\<close>\<close>

definition if_bit :: "u64 \<Rightarrow> (u64 \<Rightarrow> u64 \<Rightarrow> prog) \<Rightarrow> stmt" where
  "if_bit n K f = (if f_dest f AND n \<noteq> 0 \<and> f_len f \<ge> n then step_by K n f else Inr f)"

definition if_ge :: "u64 \<Rightarrow> (u64 \<Rightarrow> u64 \<Rightarrow> prog) \<Rightarrow> stmt" where
  "if_ge n K f = (if f_len f \<ge> n then step_by K n f else Inr f)"

text \<open>\<open>while (len >= 16 * 32)\<close>\<close>

function while_16x32 :: "(u64 \<Rightarrow> u64 \<Rightarrow> prog) \<Rightarrow> stmt" where
  "while_16x32 K f =
     (if f_len f \<ge> 16 * 32
      then (case step_by K (16 * 32) f of Inl e \<Rightarrow> Inl e | Inr f' \<Rightarrow> while_16x32 K f')
      else Inr f)"
  by pat_completeness auto
termination
proof (relation "measure (\<lambda>(K, f). unat (f_len f))")
  fix K :: "u64 \<Rightarrow> u64 \<Rightarrow> prog" and f f' :: frame
  assume "16 * 32 \<le> f_len f" and "step_by K (16 * 32) f = Inr f'"
  then have "f_len f' = f_len f - 512" "512 \<le> f_len f"
    by (auto simp: step_by_def split: sum.splits)
  then show "((K, f'), K, f) \<in> measure (\<lambda>(K, f). unat (f_len f))"
    by (simp add: unat_sub word_le_nat_alt)
qed simp

declare while_16x32.simps [simp del]

definition tail_small :: "(u64 \<Rightarrow> u64 \<Rightarrow> u64 \<Rightarrow> prog) \<Rightarrow> stmt" where
  "tail_small small f = on_mach (small (f_dest f) (f_src f) (f_len f)) f"

definition flush_head :: stmt where
  "flush_head f = (if need_flush f then on_mach (clwb (flush_addr f)) f else Inr f)"

definition note_tail :: stmt where
  "note_tail f = Inr (f\<lparr>need_flush := f_len f \<noteq> 0\<rparr>)"

definition clwb_dest :: stmt where
  "clwb_dest f = on_mach (clwb (f_dest f AND CACHELINE_UNMASK)) f"

definition flush_tail :: stmt where
  "flush_tail f = (if need_flush f then clwb_dest f else Inr f)"

section \<open>Progress of a routine\<close>

text \<open>
  \<open>can_copy\<close>, \<open>can_access\<close>: the arguments of a copy or of a routine with one pointer are
  valid. For a copy the two ranges share no byte. \<open>ready x f\<close> adds what the vector blocks need:
  the pointers agree modulo 32, so that aligning the destination aligns the source.
\<close>

definition can_access :: "machine \<Rightarrow> u64 \<Rightarrow> u64 \<Rightarrow> bool" where
  "can_access m dest len \<longleftrightarrow> accessible m dest (unat len)"

definition can_copy :: "machine \<Rightarrow> u64 \<Rightarrow> u64 \<Rightarrow> u64 \<Rightarrow> bool" where
  "can_copy m dest src len \<longleftrightarrow> accessible m dest (unat len) \<and> accessible m src (unat len) \<and>
     apart (unat len) dest src"

definition valid :: "xfer \<Rightarrow> frame \<Rightarrow> bool" where
  "valid x f \<longleftrightarrow> accessible (mach f) (f_dest f) (unat (f_len f)) \<and>
     (x = Copy \<longrightarrow> accessible (mach f) (f_src f) (unat (f_len f)) \<and>
        apart (unat (f_len f)) (f_dest f) (f_src f))"

definition ready :: "xfer \<Rightarrow> frame \<Rightarrow> bool" where
  "ready x f \<longleftrightarrow> valid x f \<and> (x = Copy \<longrightarrow> unat (f_src f) mod 32 = unat (f_dest f) mod 32)"

lemma ready_valid: "ready x f \<Longrightarrow> valid x f"
  by (simp add: ready_def)

text \<open>\<open>reached x st f k f'\<close>: between \<open>f\<close> and \<open>f'\<close> the first \<open>k\<close> bytes have been moved.\<close>

definition reached :: "xfer \<Rightarrow> pstat \<Rightarrow> frame \<Rightarrow> nat \<Rightarrow> frame \<Rightarrow> bool" where
  "reached x st f k f' \<longleftrightarrow> k \<le> unat (f_len f) \<and>
     f_dest f' = f_dest f + of_nat k \<and> f_src f' = f_src f + of_nat k \<and>
     unat (f_len f') = unat (f_len f) - k \<and>
     need_flush f' = need_flush f \<and> flush_addr f' = flush_addr f \<and>
     moved x st (f_dest f) (f_src f) k (mach f) (mach f')"

lemma reached_0: "reached x st f 0 f"
  by (simp add: reached_def)

lemma reached_dest_mod:
  "reached x st f k f' \<Longrightarrow> n dvd 2 ^ 64 \<Longrightarrow> unat (f_dest f') mod n = (unat (f_dest f) + k) mod n"
  by (simp add: reached_def unat_add_of_nat_mod)

lemma reached_valid:
  assumes "valid x f" and "reached x st f k f'"
  shows "valid x f'"
proof -
  have env: "same_env (mach f) (mach f')" and k: "k \<le> unat (f_len f)"
    using assms(2) by (auto simp: reached_def moved_def)
  have L: "unat (f_len f) = k + unat (f_len f')" using assms(2) k by (simp add: reached_def)
  have d: "f_dest f' = f_dest f + of_nat k" and s: "f_src f' = f_src f + of_nat k"
    using assms(2) by (simp_all add: reached_def)
  show ?thesis
    using assms(1) L unfolding valid_def accessible_env [OF env] d s
    by (auto simp: accessible_add apart_shift intro: apart_mono)
qed

lemma reached_ready:
  assumes rdy: "ready x f" and r: "reached x st f k f'"
  shows "ready x f'"
proof -
  have d: "f_dest f' = f_dest f + of_nat k" and s: "f_src f' = f_src f + of_nat k"
    using r by (simp_all add: reached_def)
  have d32: "(32::nat) dvd 2 ^ 64" by simp
  have "unat (f_src f') mod 32 = unat (f_dest f') mod 32" if "x = Copy"
    using rdy that unfolding d s ready_def unat_add_of_nat_mod [OF d32]
    by (metis mod_add_left_eq)
  with reached_valid [OF ready_valid [OF rdy] r] show ?thesis by (simp add: ready_def)
qed

lemma reached_trans:
  assumes rdy: "valid x f" and "x = Touch \<Longrightarrow> st = Dirty"
    and r1: "reached x st f k f1" and r2: "reached x st f1 j f2"
  shows "reached x st f (k + j) f2"
proof -
  have le: "k + j \<le> unat (f_len f)" using r1 r2 by (auto simp: reached_def)
  have "moved x st (f_dest f) (f_src f) (k + j) (mach f) (mach f2)"
  proof (rule moved_trans [OF _ _ assms(2)])
    have "k + j \<le> 18446744073709551616" using le unat_u64_lt [of "f_len f"] by linarith
    then show "k + j \<le> 2 ^ 64" by simp
    show "apart (k + j) (f_dest f) (f_src f)" if "x = Copy"
      using rdy that le by (auto simp: valid_def intro: apart_mono)
    show "moved x st (f_dest f) (f_src f) k (mach f) (mach f1)" using r1 by (simp add: reached_def)
    show "moved x st (f_dest f + of_nat k) (f_src f + of_nat k) j (mach f1) (mach f2)"
      using r1 r2 by (simp add: reached_def)
  qed
  then show ?thesis using r1 r2 le by (simp add: reached_def)
qed

lemma step_by_reached:
  assumes K: "transfer_kernel x st n al sal K" and rdy: "ready x f"
    and al: "unat (f_dest f) mod al = 0" and sal: "sal dvd al" "sal dvd 32"
    and n: "unat (of_nat n :: u64) = n" "n \<le> unat (f_len f)"
  shows "\<exists>f'. step_by K (of_nat n) f = Inr f' \<and> reached x st f n f'"
proof -
  have acc: "accessible (mach f) (f_dest f) n"
    using rdy n by (auto simp: ready_def valid_def intro: accessible_mono)
  have src: "aligned sal (f_src f) \<and> accessible (mach f) (f_src f) n" if "x = Copy"
  proof -
    have "unat (f_src f) mod 32 = unat (f_dest f) mod 32" using rdy that by (simp add: ready_def valid_def)
    then have "unat (f_src f) mod sal = unat (f_dest f) mod sal"
      using mod_mod_cancel [OF sal(2)] by metis
    also have "\<dots> = 0"
      using al dvd_trans [OF sal(1)] by (simp add: mod_eq_0_iff_dvd)
    finally show ?thesis
      using rdy that n by (auto simp: ready_def valid_def aligned_def intro: accessible_mono)
  qed
  obtain m' where m': "K (f_dest f) (f_src f) (mach f) = Inr m'"
    and mv: "moved x st (f_dest f) (f_src f) n (mach f) m'"
    using transfer_kernel.transfers [OF K _ acc src] al by (auto simp: aligned_def)
  have "unat (f_len f - of_nat n) = unat (f_len f) - n"
    using n by (simp add: unat_sub word_le_nat_alt)
  then show ?thesis
    using m' mv n(2) by (simp add: step_by_def reached_def)
qed

section \<open>The arithmetic of the alignment prologue\<close>

text \<open>
  \<open>r\<close> is the offset of the destination in its cache line, \<open>L\<close> the length, \<open>k\<close> the bytes moved
  so far. After the prologue either the destination is line-aligned, or the rest is short and
  ends within the line.
\<close>

definition head_len :: "nat \<Rightarrow> nat \<Rightarrow> nat" where
  "head_len r L = (if r mod 16 = 0 then 0 else min L (16 - r mod 16))"

definition settled :: "nat \<Rightarrow> nat \<Rightarrow> nat \<Rightarrow> bool" where
  "settled r L k \<longleftrightarrow> (r + k) mod 64 = 0 \<or>
     L - k < 32 \<and> (16 \<le> L - k \<longrightarrow> (r + k) mod 16 = 0) \<and>
     (L - k = 0 \<or> (r + k) mod 64 + (L - k) < 64)"

definition bit_len :: "nat \<Rightarrow> nat \<Rightarrow> nat \<Rightarrow> nat \<Rightarrow> nat" where
  "bit_len n r L k = (if n \<le> (r + k) mod (2 * n) \<and> n \<le> L - k then n else 0)"

lemma settle_arith:
  fixes s n :: nat
  assumes "s = 0 \<or> s = 16 \<or> s = 32 \<or> s = 48 \<or> s = 64"
    and b1: "b1 = (if 16 \<le> s mod 32 \<and> 16 \<le> n then 16 else 0)"
    and b2: "b2 = (if 32 \<le> (s + b1) mod 64 \<and> 32 \<le> n - b1 then 32 else 0)"
  shows "((s + b1 + b2) mod 64 = 0 \<or> n - b1 - b2 < 32 \<and>
      (16 \<le> n - b1 - b2 \<longrightarrow> (s + b1 + b2) mod 16 = 0) \<and>
      (n - b1 - b2 = 0 \<or> (s + b1 + b2) mod 64 + (n - b1 - b2) < 64)) \<and>
    b1 + b2 \<le> n \<and> s + b1 + b2 \<le> 64 \<and> (s = 0 \<longrightarrow> b1 + b2 = 0)"
  using assms(1) by (elim disjE) (auto simp: b1 b2)

lemma prologue_mult:
  assumes s: "r + k = 16 * j" "j \<le> 4" "k \<le> L"
    and k2: "k2 = k + bit_len 16 r L k" and k3: "k3 = k2 + bit_len 32 r L k2"
  shows "settled r L k3 \<and> k3 \<le> L \<and> r + k3 \<le> 64 \<and> (r = 0 \<longrightarrow> k = 0 \<longrightarrow> k3 = 0)"
proof -
  define b1 where "b1 = bit_len 16 r L k"
  define b2 where "b2 = bit_len 32 r L k2"
  have "j = 0 \<or> j = 1 \<or> j = 2 \<or> j = 3 \<or> j = 4" using s(2) by auto
  then have c: "r + k = 0 \<or> r + k = 16 \<or> r + k = 32 \<or> r + k = 48 \<or> r + k = 64" using s(1) by auto
  have b: "b1 = (if 16 \<le> (r + k) mod 32 \<and> 16 \<le> L - k then 16 else 0)"
    "b2 = (if 32 \<le> (r + k + b1) mod 64 \<and> 32 \<le> L - k - b1 then 32 else 0)"
    by (simp_all add: b1_def b2_def k2 bit_len_def add.assoc)
  have "k3 = k + (b1 + b2)" by (simp add: b1_def b2_def k2 k3)
  then show ?thesis
    using settle_arith [OF c b] s(3) unfolding settled_def by (auto simp: add.assoc)
qed

lemma head_len_cases:
  assumes "r < 64"
  shows "head_len r L = L \<and> r + L \<le> 64 \<or> head_len r L \<le> L \<and> (\<exists>j\<le>4. r + head_len r L = 16 * j)"
proof (cases "r mod 16 = 0 \<or> 16 - r mod 16 \<le> L")
  case True
  define q where "q = r div 16"
  have q: "r = 16 * q + r mod 16" "q < 4" using assms by (simp_all add: q_def)
  show ?thesis
  proof (cases "r mod 16 = 0")
    case True
    then have "r + head_len r L = 16 * q" using q by (simp add: head_len_def)
    then show ?thesis using q True by (auto simp: head_len_def)
  next
    case False
    with True have h: "head_len r L = 16 - r mod 16" by (simp add: head_len_def)
    have "r + (16 - b) = 16 * (q + 1)" if "r = 16 * q + b" "b < 16" for b using that by simp
    then have "r + head_len r L = 16 * (q + 1)" using q(1) unfolding h by simp
    moreover have "head_len r L \<le> L" using False True h by simp
    moreover have "q + 1 \<le> 4" using q by simp
    ultimately show ?thesis by blast
  qed
next
  case False
  then have "head_len r L = L" by (simp add: head_len_def)
  moreover have "r + L \<le> 64"
  proof -
    have "r + L \<le> 64" if "r = 16 * q + b" "q < 4" "\<not> 16 - b \<le> L" for q b using that by linarith
    from this [of "r div 16" "r mod 16"] False assms show ?thesis by simp
  qed
  ultimately show ?thesis by simp
qed

lemma prologue_settled:
  assumes r: "r < 64" and k: "k = head_len r L"
    and k2: "k2 = k + bit_len 16 r L k" and k3: "k3 = k2 + bit_len 32 r L k2"
  shows "settled r L k3 \<and> k3 \<le> L \<and> r + k3 \<le> 64 \<and> (r = 0 \<longrightarrow> k3 = 0)"
  using head_len_cases [OF r, of L]
proof (elim disjE conjE exE)
  assume "head_len r L = L" "r + L \<le> 64"
  then have "k3 = L" using assms by (simp add: bit_len_def)
  have "(r + L) mod 64 = 0 \<or> (r + L) mod 64 \<le> 64" by simp
  then show ?thesis using \<open>k3 = L\<close> \<open>r + L \<le> 64\<close> \<open>head_len r L = L\<close>
    by (auto simp: settled_def head_len_def)
next
  fix j assume "head_len r L \<le> L" "j \<le> 4" "r + head_len r L = 16 * j"
  then show ?thesis using prologue_mult [of r k j L k2 k3] k k2 k3
    by (auto simp: head_len_def)
qed

lemma head_len_mod: "16 \<le> L - head_len r L \<Longrightarrow> (r + head_len r L) mod 16 = 0"
proof (cases "r mod 16 = 0")
  case False
  assume a: "16 \<le> L - head_len r L"
  with False have h: "head_len r L = 16 - r mod 16" by (auto simp: head_len_def split: if_splits)
  have "r + (16 - b) = 16 * Suc q" if "r = 16 * q + b" "b < 16" for b q using that by simp
  from this [of "r div 16" "r mod 16"] have "r + (16 - r mod 16) = 16 * Suc (r div 16)" by simp
  then show ?thesis unfolding h by simp
qed (simp add: head_len_def)

lemma mod_twice:
  fixes q n :: nat
  assumes "0 < n"
  shows "n \<le> n * q mod (2 * n) \<Longrightarrow> (n * q + n) mod (2 * n) = 0"
    and "\<not> n \<le> n * q mod (2 * n) \<Longrightarrow> n * q mod (2 * n) = 0"
proof -
  have m: "n * q mod (2 * n) = n * (q mod 2)"
    unfolding mult.commute [of 2 n] by (rule mult_mod_right [symmetric])
  show "\<not> n \<le> n * q mod (2 * n) \<Longrightarrow> n * q mod (2 * n) = 0"
    unfolding m by (cases "q mod 2 = 0") simp_all
  assume "n \<le> n * q mod (2 * n)"
  then have "q mod 2 \<noteq> 0" unfolding m using assms by (cases "q mod 2 = 0") simp_all
  then have "odd q" by (simp add: even_iff_mod_2_eq_zero)
  then obtain p where "q = 2 * p + 1" by (rule oddE)
  then have "n * q + n = 2 * n * (p + 1)" by (simp add: algebra_simps)
  then show "(n * q + n) mod (2 * n) = 0" by simp
qed

lemma bit_len_mod:
  assumes "16 \<le> L - k \<Longrightarrow> (r + k) mod 16 = 0" and "32 \<le> L - (k + bit_len 16 r L k)"
  shows "(r + (k + bit_len 16 r L k)) mod 32 = 0"
proof -
  have "16 \<le> L - k" using assms(2) by simp
  with assms(1) have "r + k = 16 * ((r + k) div 16)" using div_mult_mod_eq [of "r + k" 16] by simp
  with mod_twice [of 16 "(r + k) div 16"] have
    "16 \<le> (r + k) mod 32 \<Longrightarrow> (r + k + 16) mod 32 = 0" "\<not> 16 \<le> (r + k) mod 32 \<Longrightarrow> (r + k) mod 32 = 0"
    by simp_all
  with \<open>16 \<le> L - k\<close> show ?thesis by (auto simp: bit_len_def add.assoc)
qed

lemma bit_len_shift:
  assumes "n = 16 \<or> n = 32"
  shows "bit_len n ((r + k) mod 64) (L - k) 0 = bit_len n r L k"
  using assms by (auto simp: bit_len_def mod_mod_cancel)

lemma reached_frame_mods:
  assumes "reached x st f k f'"
  shows "unat (f_dest f') mod 64 = (unat (f_dest f) mod 64 + k) mod 64"
    and "unat (f_dest f') mod 16 = (unat (f_dest f) mod 64 + k) mod 16"
    and "unat (f_dest f') mod 32 = (unat (f_dest f) mod 64 + k) mod 32"
    and "unat (f_len f') = unat (f_len f) - k"
proof -
  have "(unat (f_dest f) mod 64 + k) mod n = (unat (f_dest f) + k) mod n" if "n dvd 64" for n
    using mod_mod_cancel [OF that] by (metis mod_add_left_eq)
  then show "unat (f_dest f') mod 64 = (unat (f_dest f) mod 64 + k) mod 64"
    "unat (f_dest f') mod 16 = (unat (f_dest f) mod 64 + k) mod 16"
    "unat (f_dest f') mod 32 = (unat (f_dest f) mod 64 + k) mod 32"
    by (simp_all add: reached_dest_mod [OF assms])
qed (use assms in \<open>simp add: reached_def\<close>)

text \<open>What the prologue leaves: the frame it hands to the 64-byte-aligned blocks, and what those
  leave for the small blocks, a rest that stays within one line.\<close>

definition lined :: "frame \<Rightarrow> bool" where
  "lined f \<longleftrightarrow> settled (unat (f_dest f) mod 64) (unat (f_len f)) 0"

definition snug :: "frame \<Rightarrow> bool" where
  "snug f \<longleftrightarrow> unat (f_len f) < 64 \<and>
     (32 \<le> unat (f_len f) \<longrightarrow> unat (f_dest f) mod 32 = 0) \<and>
     (16 \<le> unat (f_len f) \<longrightarrow> unat (f_dest f) mod 16 = 0) \<and>
     (unat (f_len f) = 0 \<or> unat (f_dest f) mod 64 + unat (f_len f) < 64)"

lemma settled_lined:
  "reached x st f k f' \<Longrightarrow> settled (unat (f_dest f) mod 64) (unat (f_len f)) k \<Longrightarrow> lined f'"
  unfolding lined_def settled_def by (simp add: reached_frame_mods mod_mod_cancel)

lemma lined_step:
  assumes ln: "lined f" and r: "reached x st f k f'" and k: "64 dvd k"
  shows "lined f'"
proof (cases "unat (f_dest f) mod 64 = 0")
  case True
  with k have "(unat (f_dest f) mod 64 + k) mod 64 = 0" by auto
  then show ?thesis unfolding lined_def settled_def by (simp add: reached_frame_mods(1) [OF r])
next
  case False
  with ln have "unat (f_len f) < 32" by (simp add: lined_def settled_def)
  with r have "k < 64" by (simp add: reached_def)
  with k have "k = 0" by (auto elim: dvdE)
  with ln r show ?thesis by (simp add: lined_def reached_def)
qed

lemma lined_aligned: "lined f \<Longrightarrow> 64 \<le> unat (f_len f) \<Longrightarrow> unat (f_dest f) mod 64 = 0"
  by (auto simp: lined_def settled_def)

lemma lined_snug:
  assumes "lined f" and "unat (f_len f) < 64"
  shows "snug f"
proof (cases "unat (f_dest f) mod 64 = 0")
  case True
  then have "64 dvd unat (f_dest f)" by auto
  then have "16 dvd unat (f_dest f)" "32 dvd unat (f_dest f)" by (auto elim: dvd_trans [rotated])
  with True assms(2) show ?thesis by (simp add: snug_def)
next
  case False
  then show ?thesis using assms by (auto simp: lined_def settled_def snug_def mod_mod_cancel)
qed

section \<open>Statements through the interfaces\<close>

lemma cond_step:
  assumes K: "transfer_kernel x st n al sal K" and rdy: "ready x f"
    and c: "c \<Longrightarrow> n \<le> unat (f_len f) \<and> unat (f_dest f) mod al = 0"
    and sal: "sal dvd al" "sal dvd 32" and n: "unat (of_nat n :: u64) = n"
  shows "\<exists>f'. (if c then step_by K (of_nat n) f else Inr f) = Inr f' \<and>
    reached x st f (if c then n else 0) f'"
proof (cases c)
  case True
  with step_by_reached [OF K rdy _ sal n] c show ?thesis by simp
next
  case False
  then show ?thesis by (simp add: reached_0)
qed

lemma if_ge_reached:
  assumes K: "transfer_kernel x st n al sal K" and rdy: "ready x f"
    and al: "n \<le> unat (f_len f) \<Longrightarrow> unat (f_dest f) mod al = 0"
    and sal: "sal dvd al" "sal dvd 32" and n: "unat (of_nat n :: u64) = n"
  shows "\<exists>f'. if_ge (of_nat n) K f = Inr f' \<and>
    reached x st f (if n \<le> unat (f_len f) then n else 0) f'"
proof -
  have le: "of_nat n \<le> f_len f \<longleftrightarrow> n \<le> unat (f_len f)" by (simp only: word_le_nat_alt n)
  have "\<exists>f'. (if n \<le> unat (f_len f) then step_by K (of_nat n) f else Inr f) = Inr f' \<and>
      reached x st f (if n \<le> unat (f_len f) then n else 0) f'"
    by (rule cond_step [OF K rdy _ sal n]) (simp add: al)
  then show ?thesis unfolding if_ge_def le .
qed

text \<open>A routine for fewer than 16 bytes at any address.\<close>

locale small_transfer =
  fixes x :: xfer and small :: "u64 \<Rightarrow> u64 \<Rightarrow> u64 \<Rightarrow> prog"
  assumes small_moves: "unat n < 16 \<Longrightarrow> accessible m d (unat n) \<Longrightarrow>
      (x = Copy \<Longrightarrow> accessible m s (unat n)) \<Longrightarrow>
      \<exists>m'. small d s n m = Inr m' \<and> moved x Dirty d s (unat n) m m'"
begin

lemma head_cnt_unat:
  assumes "dest AND 15 > 0"
  shows "unat (head_cnt dest len) = min (unat len) (16 - unat dest mod 16)"
    and "unat (head_cnt dest len) < 16" and "unat dest mod 16 \<noteq> 0"
proof -
  have le: "dest AND 15 \<le> 15" by (rule word_and_le1)
  then have le16: "dest AND 15 \<le> 16" by (simp add: word_le_nat_alt)
  have c: "unat (16 - (dest AND 15)) = 16 - unat dest mod 16"
    using unat_sub [OF le16] by (simp add: and15_unat)
  show nz: "unat dest mod 16 \<noteq> 0"
    using assms by (simp add: word_less_nat_alt and15_unat)
  show m: "unat (head_cnt dest len) = min (unat len) (16 - unat dest mod 16)"
    by (simp add: head_cnt_def Let_def word_less_nat_alt c)
  show "unat (head_cnt dest len) < 16" unfolding m using nz by simp
qed

lemma small_step:
  assumes rdy: "ready x f" and n: "unat n < 16" "unat n \<le> unat (f_len f)"
  shows "\<exists>f'. step_by (\<lambda>d s. small d s n) n f = Inr f' \<and> reached x Dirty f (unat n) f'"
proof -
  have "accessible (mach f) (f_dest f) (unat n)" "x = Copy \<Longrightarrow> accessible (mach f) (f_src f) (unat n)"
    using rdy n by (auto simp: ready_def valid_def intro: accessible_mono)
  from small_moves [OF n(1) this] n(2) show ?thesis
    by (auto simp: step_by_def reached_def unat_sub word_le_nat_alt)
qed

lemma head_16_reached:
  assumes rdy: "ready x f"
  shows "\<exists>f'. head_16 small f = Inr f' \<and>
    reached x Dirty f (head_len (unat (f_dest f) mod 64) (unat (f_len f))) f'"
proof (cases "f_dest f AND 15 > 0")
  case True
  note h = head_cnt_unat(1,2) [OF True, of "f_len f"] and nz = head_cnt_unat(3) [OF True]
  have "head_len (unat (f_dest f) mod 64) (unat (f_len f)) = unat (head_cnt (f_dest f) (f_len f))"
    using h(1) nz by (simp add: head_len_def mod_mod_cancel)
  with small_step [OF rdy h(2)] h(1) True show ?thesis by (simp add: head_16_def Let_def)
next
  case False
  then have "unat (f_dest f) mod 16 = 0" by (simp add: word_less_nat_alt and15_unat)
  with False show ?thesis by (simp add: head_16_def head_len_def reached_0 mod_mod_cancel)
qed

lemma tail_small_reached:
  assumes rdy: "ready x f" and len: "unat (f_len f) < 16"
  shows "\<exists>m'. tail_small small f = Inr (f\<lparr>mach := m'\<rparr>) \<and>
    moved x Dirty (f_dest f) (f_src f) (unat (f_len f)) (mach f) m'"
proof -
  have "accessible (mach f) (f_dest f) (unat (f_len f))"
    "x = Copy \<Longrightarrow> accessible (mach f) (f_src f) (unat (f_len f))"
    using rdy by (auto simp: ready_def valid_def)
  from small_moves [OF len this] show ?thesis
    by (auto simp: tail_small_def on_mach_def)
qed

end

text \<open>The single-register blocks that bring the destination to a line boundary and end the copy.\<close>

locale fine_transfer =
  k16: transfer_kernel x st 16 16 16 B16 + k32: transfer_kernel x st 32 32 32 B32
  for x st B16 B32 +
  assumes touch: "x = Touch \<Longrightarrow> st = Dirty"
begin

lemma chain:
  "ready x f \<Longrightarrow> reached x st f k f1 \<Longrightarrow> reached x st f1 j f2 \<Longrightarrow> reached x st f (k + j) f2"
  by (rule reached_trans) (auto dest: touch ready_valid)

lemma if_bit_reached:
  assumes K: "transfer_kernel x st n n n K" and n: "n = 16 \<or> n = 32"
    and rdy: "ready x f" and al: "n \<le> unat (f_len f) \<Longrightarrow> unat (f_dest f) mod n = 0"
  shows "\<exists>f'. if_bit (of_nat n) K f = Inr f' \<and>
    reached x st f (bit_len n (unat (f_dest f) mod 64) (unat (f_len f)) 0) f'"
proof -
  let ?c = "f_dest f AND of_nat n \<noteq> 0 \<and> of_nat n \<le> f_len f"
  have un: "unat (of_nat n :: u64) = n" and n32: "n dvd 32" using n by auto
  have le: "of_nat n \<le> f_len f \<longleftrightarrow> n \<le> unat (f_len f)" by (simp only: word_le_nat_alt un)
  have bit: "f_dest f AND of_nat n \<noteq> 0 \<longleftrightarrow> n \<le> unat (f_dest f) mod 64 mod (2 * n)"
    using n by (auto simp: addr_simps mod_mod_cancel)
  have c: "(if ?c then n else 0) = bit_len n (unat (f_dest f) mod 64) (unat (f_len f)) 0"
    unfolding le bit bit_len_def by simp
  have "?c \<longrightarrow> n \<le> unat (f_len f) \<and> unat (f_dest f) mod n = 0" using al le by simp
  then have "\<exists>f'. (if ?c then step_by K (of_nat n) f else Inr f) = Inr f' \<and>
      reached x st f (if ?c then n else 0) f'"
    by (intro cond_step [OF K rdy _ dvd_refl n32 un]) blast
  then show ?thesis unfolding if_bit_def c .
qed

lemma bits_reached:
  assumes rdy: "ready x f" and r1: "reached x st f (head_len (unat (f_dest f) mod 64) (unat (f_len f))) f1"
  shows "\<exists>k f'. run_all [if_bit 16 B16, if_bit 32 B32] f1 = Inr f' \<and> reached x st f k f' \<and>
     settled (unat (f_dest f) mod 64) (unat (f_len f)) k \<and>
     unat (f_dest f) mod 64 + k \<le> 64 \<and> (unat (f_dest f) mod 64 = 0 \<longrightarrow> k = 0)"
proof -
  let ?r = "unat (f_dest f) mod 64" and ?L = "unat (f_len f)"
  define k where "k = head_len ?r ?L"
  define k2 where "k2 = k + bit_len 16 ?r ?L k"
  define k3 where "k3 = k2 + bit_len 32 ?r ?L k2"
  have r1: "reached x st f k f1" using r1 by (simp add: k_def)
  note mods = reached_frame_mods
  from if_bit_reached [OF k16.transfer_kernel_axioms _ reached_ready [OF rdy r1]]
  obtain f2 where f2: "if_bit 16 B16 f1 = Inr f2" "reached x st f1 (bit_len 16 ?r ?L k) f2"
    using head_len_mod [of ?L ?r] mods [OF r1] by (auto simp: k_def bit_len_shift mod_mod_cancel)
  have r2: "reached x st f k2 f2" unfolding k2_def by (rule chain [OF rdy r1 f2(2)])
  from if_bit_reached [OF k32.transfer_kernel_axioms _ reached_ready [OF rdy r2]]
  obtain f3 where f3: "if_bit 32 B32 f2 = Inr f3" "reached x st f2 (bit_len 32 ?r ?L k2) f3"
    using bit_len_mod [of ?L k ?r] head_len_mod [of ?L ?r] mods [OF r2]
    by (auto simp: k_def k2_def bit_len_shift mod_mod_cancel)
  have "reached x st f k3 f3" unfolding k3_def by (rule chain [OF rdy r2 f3(2)])
  moreover have "settled ?r ?L k3 \<and> k3 \<le> ?L \<and> ?r + k3 \<le> 64 \<and> (?r = 0 \<longrightarrow> k3 = 0)"
    by (rule prologue_settled [OF _ k_def k2_def k3_def]) simp
  ultimately show ?thesis using f2(1) f3(1) by auto
qed

lemma rest_reached:
  assumes rdy: "ready x f" and sn: "snug f"
  shows "\<exists>k f'. run_all [if_ge (1 * 32) B32, if_ge 16 B16] f = Inr f' \<and> reached x st f k f' \<and>
    unat (f_len f') < 16"
proof -
  let ?k = "if 32 \<le> unat (f_len f) then 32 else 0 :: nat"
  from if_ge_reached [OF k32.transfer_kernel_axioms rdy _ dvd_refl dvd_refl] sn
  obtain f1 where f1: "if_ge (1 * 32) B32 f = Inr f1" and r1: "reached x st f ?k f1"
    by (auto simp: snug_def)
  let ?j = "if 16 \<le> unat (f_len f1) then 16 else 0 :: nat"
  note mods = reached_frame_mods [OF r1]
  have "unat (f_dest f1) mod 16 = 0" if "16 \<le> unat (f_len f1)"
  proof -
    have "unat (f_dest f) mod 16 = 0" using sn that mods(4) by (simp add: snug_def split: if_splits)
    then have "16 dvd unat (f_dest f) + ?k" by (intro dvd_add) auto
    then show ?thesis using reached_dest_mod [OF r1, of 16] by simp
  qed
  from if_ge_reached [OF k16.transfer_kernel_axioms reached_ready [OF rdy r1] this dvd_refl]
  obtain f2 where f2: "if_ge 16 B16 f1 = Inr f2" and r2: "reached x st f1 ?j f2" by auto
  have "unat (f_len f2) < 16"
    using sn mods(4) reached_frame_mods(4) [OF r2] by (auto simp: snug_def)
  with f1 f2 chain [OF rdy r1 r2] show ?thesis by auto
qed

end

text \<open>The blocks of two and more registers, which need a line-aligned destination.\<close>

locale coarse_transfer =
  k2: transfer_kernel x st 64 al 32 K2 + k4: transfer_kernel x st 128 al 32 K4 +
  k8: transfer_kernel x st 256 al 32 K8 + kl: transfer_kernel x st 512 al 32 KL
  for x st al K2 K4 K8 KL +
  assumes touch: "x = Touch \<Longrightarrow> st = Dirty" and al: "al = 32 \<or> al = 64"
begin

lemma aligned_al: "unat a mod 64 = 0 \<Longrightarrow> unat a mod al = 0" and al_dvd: "32 dvd al"
  using al mod_mod_cancel [of 32 64 "unat a"] by auto

lemma while_reached:
  "ready x f \<Longrightarrow> unat (f_dest f) mod 64 = 0 \<or> unat (f_len f) < 64 \<Longrightarrow>
   \<exists>f'. while_16x32 KL f = Inr f' \<and> reached x st f (512 * (unat (f_len f) div 512)) f'"
proof (induction "unat (f_len f)" arbitrary: f rule: less_induct)
  case less
  show ?case
  proof (cases "16 * 32 \<le> f_len f")
    case False
    then show ?thesis by (simp add: while_16x32.simps [of KL f] word_le_nat_alt reached_0)
  next
    case True
    then have n: "512 \<le> unat (f_len f)" by (simp add: word_le_nat_alt)
    then have d: "unat (f_dest f) mod 64 = 0" using less.prems(2) by simp
    from step_by_reached [OF kl.transfer_kernel_axioms less.prems(1) aligned_al [OF d] al_dvd _ _ n]
    obtain f1 where f1: "step_by KL (16 * 32) f = Inr f1" and r1: "reached x st f 512 f1" by auto
    note mods = reached_frame_mods [OF r1]
    have "unat (f_dest f1) mod 64 = 0" using mods(1) d by simp
    with less.hyps [of f1] reached_ready [OF less.prems(1) r1] mods(4) n
    obtain f2 where f2: "while_16x32 KL f1 = Inr f2"
      and r2: "reached x st f1 (512 * (unat (f_len f1) div 512)) f2" by auto
    have "512 + 512 * (unat (f_len f1) div 512) = 512 * (unat (f_len f) div 512)"
      using n mods(4) by (simp add: le_div_geq)
    with reached_trans [OF ready_valid [OF less.prems(1)] touch r1 r2] f1 f2 True show ?thesis
      by (simp add: while_16x32.simps [of KL f])
  qed
qed

lemma chain:
  "ready x f \<Longrightarrow> reached x st f k f1 \<Longrightarrow> reached x st f1 j f2 \<Longrightarrow> reached x st f (k + j) f2"
  by (rule reached_trans) (auto dest: touch ready_valid)

lemma coarse_step:
  assumes K: "transfer_kernel x st n al 32 K" and n: "n = 64 \<or> n = 128 \<or> n = 256"
    and rdy: "ready x f" and r: "reached x st f k f1" and ln: "lined f1" and len: "unat (f_len f1) < 2 * n"
  shows "\<exists>j f'. if_ge (of_nat n) K f1 = Inr f' \<and> reached x st f j f' \<and> lined f' \<and> unat (f_len f') < n"
proof -
  let ?j = "if n \<le> unat (f_len f1) then n else 0"
  have al: "unat (f_dest f1) mod al = 0" if "n \<le> unat (f_len f1)"
    using n that lined_aligned [OF ln] by (intro aligned_al) auto
  have "unat (of_nat n :: u64) = n" and j: "64 dvd ?j" using n by auto
  from if_ge_reached [OF K reached_ready [OF rdy r] al al_dvd dvd_refl this(1)]
  obtain f' where f': "if_ge (of_nat n) K f1 = Inr f'" "reached x st f1 ?j f'" by auto
  moreover have "lined f'" by (rule lined_step [OF ln f'(2) j])
  moreover have "unat (f_len f') < n" using reached_frame_mods(4) [OF f'(2)] len n by auto
  ultimately show ?thesis using chain [OF rdy r f'(2)] by auto
qed

lemma coarse_reached:
  assumes rdy: "ready x f" and ln: "lined f"
  shows "\<exists>k f'. run_all [while_16x32 KL, if_ge (8 * 32) K8, if_ge (4 * 32) K4, if_ge (2 * 32) K2] f = Inr f' \<and>
    reached x st f k f' \<and> snug f'"
proof -
  have d0: "unat (f_dest f) mod 64 = 0 \<or> unat (f_len f) < 64" using ln by (auto simp: lined_def settled_def)
  from while_reached [OF rdy d0] obtain f1 where f1: "while_16x32 KL f = Inr f1"
    and r1: "reached x st f (512 * (unat (f_len f) div 512)) f1" by auto
  have l1: "lined f1" by (rule lined_step [OF ln r1]) simp
  have "unat (f_len f1) = unat (f_len f) mod 512"
    unfolding reached_frame_mods(4) [OF r1] by (simp add: minus_mult_div_eq_mod)
  then have "unat (f_len f1) < 2 * 256" by simp
  from coarse_step [OF k8.transfer_kernel_axioms _ rdy r1 l1 this]
  obtain j2 f2 where f2: "if_ge (8 * 32) K8 f1 = Inr f2" "reached x st f j2 f2" "lined f2"
    "unat (f_len f2) < 256" by auto
  from coarse_step [OF k4.transfer_kernel_axioms _ rdy f2(2,3)] f2(4)
  obtain j3 f3 where f3: "if_ge (4 * 32) K4 f2 = Inr f3" "reached x st f j3 f3" "lined f3"
    "unat (f_len f3) < 128" by auto
  from coarse_step [OF k2.transfer_kernel_axioms _ rdy f3(2,3)] f3(4)
  obtain j4 f4 where f4: "if_ge (2 * 32) K2 f3 = Inr f4" "reached x st f j4 f4" "lined f4"
    "unat (f_len f4) < 64" by auto
  show ?thesis using f1 f2 f3 f4 lined_snug [OF f4(3,4)] by auto
qed

end

section \<open>The three cascades\<close>

lemma reached_finish:
  assumes rdy: "valid x f" and tch: "x = Touch \<Longrightarrow> st = Dirty" and r: "reached x st f k f1"
    and mv: "moved x st (f_dest f1) (f_src f1) (unat (f_len f1)) (mach f1) m'"
  shows "moved x st (f_dest f) (f_src f) (unat (f_len f)) (mach f) m'"
proof -
  let ?n = "unat (f_len f1)"
  let ?g = "f1\<lparr>f_dest := f_dest f1 + of_nat ?n, f_src := f_src f1 + of_nat ?n, f_len := 0, mach := m'\<rparr>"
  have "reached x st f1 ?n ?g" using mv by (simp add: reached_def)
  with reached_trans [OF rdy tch r] have "reached x st f (k + ?n) ?g" by simp
  moreover have "k + ?n = unat (f_len f)" using r by (simp add: reached_def)
  ultimately show ?thesis by (simp add: reached_def)
qed

lemma ready_copy:
  "can_copy m dest src len \<Longrightarrow> unat src mod 32 = unat dest mod 32 \<Longrightarrow> ready Copy (enter dest src len m)"
  by (simp add: can_copy_def ready_def valid_def enter_def)

lemma ready_access: "can_access m dest len \<Longrightarrow> x \<noteq> Copy \<Longrightarrow> ready x (enter dest src len m)"
  by (simp add: can_access_def ready_def valid_def enter_def)

lemma reached_end:
  assumes "reached x st f k f'" and "unat (f_len f') = 0"
  shows "f_dest f' = f_dest f + f_len f"
proof -
  have "k = unat (f_len f)" using assms by (simp add: reached_def)
  with assms(1) show ?thesis by (simp add: reached_def)
qed

lemma enter_simps [simp]:
  "f_dest (enter dest src len m) = dest" "f_src (enter dest src len m) = src"
  "f_len (enter dest src len m) = len" "mach (enter dest src len m) = m"
  "need_flush (enter dest src len m) = (dest AND CACHELINE_MASK \<noteq> 0)"
  "flush_addr (enter dest src len m) = dest AND CACHELINE_UNMASK"
  by (simp_all add: enter_def)

lemma moved_0_pending: "moved x Dirty d s 0 m m' \<Longrightarrow> moved x Pending d s 0 m m'"
  by (auto simp: moved_def outside_def aged_def)

lemma unmask_line: "line_of (a AND CACHELINE_UNMASK) = line_of a"
  and unmask_page: "page_of (a AND CACHELINE_UNMASK) = page_of a"
  using line_of_unmask [of a] page_of_unmask [of a]
  by (simp_all add: CACHELINE_UNMASK_def CACHELINE_MASK_def CACHELINE_SIZE_def)

lemma masked_offset: "a AND CACHELINE_MASK \<noteq> 0 \<longleftrightarrow> unat a mod 64 \<noteq> 0"
  using and63_unat [of a]
  by (simp add: CACHELINE_MASK_def CACHELINE_SIZE_def flip: unat_eq_0)

lemma clwb_pending:
  assumes mv: "moved x Dirty d s n m m1" and x: "x \<noteq> Touch"
    and fit: "unat d mod 64 + n \<le> 64" and a: "line_of a = line_of d" and pg: "mapped m (page_of d)"
  shows "\<exists>m2. clwb a m1 = Inr m2 \<and> moved x Pending d s n m m2"
proof -
  have "mapped m1 (page_of a)"
    using pg moved_env [OF mv] same_line_same_page [OF a] by (simp add: same_env_def)
  then obtain m2 where m2: "clwb a m1 = Inr m2" using clwb_ok by blast
  have "line_of b = line_of a" if "in_range d n b" for b
    using in_range_line [OF that fit] a by simp
  with moved_clwb [OF mv x _ m2] m2 show ?thesis by simp
qed

lemma flush_head_reached:
  assumes r: "reached x Dirty f k f1" and x: "x \<noteq> Touch"
    and fit: "unat (f_dest f) mod 64 + k \<le> 64" and z: "unat (f_dest f) mod 64 = 0 \<Longrightarrow> k = 0"
    and nf: "need_flush f \<longleftrightarrow> f_dest f AND CACHELINE_MASK \<noteq> 0"
    and fa: "flush_addr f = f_dest f AND CACHELINE_UNMASK"
    and pg: "mapped (mach f) (page_of (f_dest f))"
  shows "\<exists>f2. flush_head f1 = Inr f2 \<and> reached x Pending f k f2"
proof (cases "need_flush f")
  case True
  have mv: "moved x Dirty (f_dest f) (f_src f) k (mach f) (mach f1)"
    and eq: "need_flush f1" "flush_addr f1 = f_dest f AND CACHELINE_UNMASK"
    using r True fa by (simp_all add: reached_def)
  from clwb_pending [OF mv x fit unmask_line pg]
  obtain m2 where m2: "clwb (flush_addr f1) (mach f1) = Inr m2"
    and mv2: "moved x Pending (f_dest f) (f_src f) k (mach f) m2" unfolding eq(2) by blast
  have "reached x Pending f k (f1\<lparr>mach := m2\<rparr>)" using r mv2 by (simp add: reached_def)
  then show ?thesis using eq(1) m2 by (simp add: flush_head_def on_mach_def)
next
  case False
  then have "k = 0" using nf z by (simp add: masked_offset)
  with r have "reached x Pending f k f1" by (auto simp: reached_def intro: moved_0_pending)
  with False r show ?thesis by (simp add: flush_head_def reached_def)
qed

text \<open>A rest that is snug ends in the line it starts in.\<close>

lemma snug_rest:
  assumes sn: "snug f" and r: "reached x st f k f'" and n: "unat (f_len f) \<noteq> 0"
  shows "line_of (f_dest f') = line_of (f_dest f)"
    and "unat (f_dest f') mod 64 + unat (f_len f') < 64"
proof -
  have fit: "unat (f_dest f) mod 64 + unat (f_len f) < 64" using sn n by (simp add: snug_def)
  have k: "k \<le> unat (f_len f)" and d: "f_dest f' = f_dest f + of_nat k"
    and l: "unat (f_len f') = unat (f_len f) - k"
    using r by (simp_all add: reached_def)
  have "in_range (f_dest f) (k + 1) (f_dest f + of_nat k)"
    using k fit by (intro in_range_offset) auto
  then show "line_of (f_dest f') = line_of (f_dest f)"
    unfolding d by (rule in_range_line) (use k fit in simp)
  have "unat (f_dest f') mod 64 = unat (f_dest f) mod 64 + k"
    using reached_frame_mods(1) [OF r] k fit by simp
  then show "unat (f_dest f') mod 64 + unat (f_len f') < 64" using l k fit by simp
qed

text \<open>The statements between the two small routines, when all blocks leave one status.\<close>

locale uniform_transfer =
  fine: fine_transfer x st B16 B32 + coarse: coarse_transfer x st al K2 K4 K8 KL
  for x st B16 B32 al K2 K4 K8 KL
begin

lemma body_reached:
  assumes rdy: "ready x f" and r1: "reached x st f (head_len (unat (f_dest f) mod 64) (unat (f_len f))) f1"
  shows "\<exists>k f'. run_all [if_bit 16 B16, if_bit 32 B32, while_16x32 KL, if_ge (8 * 32) K8,
      if_ge (4 * 32) K4, if_ge (2 * 32) K2, if_ge (1 * 32) B32, if_ge 16 B16] f1 = Inr f' \<and>
    reached x st f k f' \<and> unat (f_len f') < 16 \<and>
    (unat (f_len f') = 0 \<or> unat (f_dest f') mod 64 + unat (f_len f') < 64)"
proof -
  obtain k2 f2 where f2: "run_all [if_bit 16 B16, if_bit 32 B32] f1 = Inr f2" and r2: "reached x st f k2 f2"
    and s2: "settled (unat (f_dest f) mod 64) (unat (f_len f)) k2"
    using fine.bits_reached [OF rdy r1] by blast
  note rdy2 = reached_ready [OF rdy r2]
  obtain k3 f3 where f3: "run_all [while_16x32 KL, if_ge (8 * 32) K8, if_ge (4 * 32) K4, if_ge (2 * 32) K2] f2 = Inr f3"
    and r3: "reached x st f2 k3 f3" and sn: "snug f3"
    using coarse.coarse_reached [OF rdy2 settled_lined [OF r2 s2]] by blast
  note r3' = fine.chain [OF rdy r2 r3]
  obtain k4 f4 where f4: "run_all [if_ge (1 * 32) B32, if_ge 16 B16] f3 = Inr f4"
    and r4: "reached x st f3 k4 f4" and len: "unat (f_len f4) < 16"
    using fine.rest_reached [OF reached_ready [OF rdy r3'] sn] by blast
  have "unat (f_len f4) = 0 \<or> unat (f_dest f4) mod 64 + unat (f_len f4) < 64"
    using snug_rest(2) [OF sn r4] reached_frame_mods(4) [OF r4] by fastforce
  moreover have "run_all ([if_bit 16 B16, if_bit 32 B32] @
      [while_16x32 KL, if_ge (8 * 32) K8, if_ge (4 * 32) K4, if_ge (2 * 32) K2] @
      [if_ge (1 * 32) B32, if_ge 16 B16]) f1 = Inr f4"
    by (simp only: run_all_append run_all_single f2 f3 f4 sum.case)
  ultimately show ?thesis using fine.chain [OF rdy r3' r4] len by auto
qed

end

text \<open>Every block writes the cache, or the routine only reads.\<close>

locale plain_routine =
  small: small_transfer x small + uniform_transfer x Dirty B16 B32 al K2 K4 K8 KL
  for x small B16 B32 al K2 K4 K8 KL
begin

lemma plain_cascade:
  assumes rdy: "ready x (enter dest src len m)"
  shows "\<exists>m'. leave (run_all [head_16 small, if_bit 16 B16, if_bit 32 B32, while_16x32 KL,
      if_ge (8 * 32) K8, if_ge (4 * 32) K4, if_ge (2 * 32) K2, if_ge (1 * 32) B32, if_ge 16 B16,
      tail_small small] (enter dest src len m)) = Inr m' \<and> moved x Dirty dest src (unat len) m m'"
proof -
  let ?f = "enter dest src len m"
  obtain f1 where f1: "head_16 small ?f = Inr f1"
    and r1: "reached x Dirty ?f (head_len (unat (f_dest ?f) mod 64) (unat (f_len ?f))) f1"
    using small.head_16_reached [OF rdy] by blast
  from body_reached [OF rdy r1] obtain k f2 where
    f2: "run_all [if_bit 16 B16, if_bit 32 B32, while_16x32 KL, if_ge (8 * 32) K8,
      if_ge (4 * 32) K4, if_ge (2 * 32) K2, if_ge (1 * 32) B32, if_ge 16 B16] f1 = Inr f2"
    and r2: "reached x Dirty ?f k f2" and len: "unat (f_len f2) < 16" by blast
  from small.tail_small_reached [OF reached_ready [OF rdy r2] len]
  obtain m' where f3: "tail_small small f2 = Inr (f2\<lparr>mach := m'\<rparr>)"
    and mv: "moved x Dirty (f_dest f2) (f_src f2) (unat (f_len f2)) (mach f2) m'" by blast
  have "run_all ([head_16 small] @ [if_bit 16 B16, if_bit 32 B32, while_16x32 KL, if_ge (8 * 32) K8,
      if_ge (4 * 32) K4, if_ge (2 * 32) K2, if_ge (1 * 32) B32, if_ge 16 B16] @ [tail_small small]) ?f
      = Inr (f2\<lparr>mach := m'\<rparr>)"
    by (simp only: run_all_append run_all_single f1 f2 f3 sum.case)
  with reached_finish [OF ready_valid [OF rdy] _ r2 mv] show ?thesis by (simp add: leave_def)
qed

end

text \<open>
  Non-temporal stores, with write-backs of the cached bytes at both ends. The last write-back
  is unconditional: after a range that fills its last line it touches the next line.
\<close>

locale nt_routine =
  small: small_transfer x small + uniform_transfer x Pending B16 B32 al K2 K4 K8 KL
  for x small B16 B32 al K2 K4 K8 KL
begin

lemma writes: "x \<noteq> Touch"
  using fine.touch by auto

lemma head_16_clwb_reached:
  assumes rdy: "ready x f" and pg: "mapped (mach f) (page_of (f_dest f))"
  shows "\<exists>f'. head_16_clwb small f = Inr f' \<and>
    reached x Pending f (head_len (unat (f_dest f) mod 64) (unat (f_len f))) f'"
proof (cases "f_dest f AND 15 > 0")
  case True
  note h = small.head_cnt_unat(1,2) [OF True, of "f_len f"] and nz = small.head_cnt_unat(3) [OF True]
  let ?c = "head_cnt (f_dest f) (f_len f)"
  have hl: "head_len (unat (f_dest f) mod 64) (unat (f_len f)) = unat ?c"
    using h(1) nz by (simp add: head_len_def mod_mod_cancel)
  have "head_len (unat (f_dest f) mod 64) (unat (f_len f)) \<le> 16 - unat (f_dest f) mod 64 mod 16"
    by (simp add: head_len_def)
  moreover have "(a::nat) mod 64 + (16 - a mod 64 mod 16) \<le> 64" for a
  proof -
    have "16 * q + b + (16 - b) \<le> 64" if "q < 4" "b < 16" for q b :: nat using that by simp
    from this [of "a mod 64 div 16" "a mod 64 mod 16"] show ?thesis by simp
  qed
  ultimately have fit: "unat (f_dest f) mod 64 + unat ?c \<le> 64" unfolding hl by (meson add_left_mono le_trans)
  from small.small_step [OF rdy h(2)] h(1) obtain f1 where
    f1: "step_by (\<lambda>d s. small d s ?c) ?c f = Inr f1" and r1: "reached x Dirty f (unat ?c) f1" by auto
  then have sm: "small (f_dest f) (f_src f) ?c (mach f) = Inr (mach f1)"
    and eq: "f1 = f\<lparr>f_dest := f_dest f + ?c, f_src := f_src f + ?c, f_len := f_len f - ?c, mach := mach f1\<rparr>"
    by (auto simp: step_by_def split: sum.splits)
  have "moved x Dirty (f_dest f) (f_src f) (unat ?c) (mach f) (mach f1)" using r1 by (simp add: reached_def)
  from clwb_pending [OF this writes fit unmask_line pg] obtain m2 where
    m2: "clwb (f_dest f AND CACHELINE_UNMASK) (mach f1) = Inr m2"
    and mv: "moved x Pending (f_dest f) (f_src f) (unat ?c) (mach f) m2" by blast
  have "f1\<lparr>mach := m2\<rparr> =
      f\<lparr>f_dest := f_dest f + ?c, f_src := f_src f + ?c, f_len := f_len f - ?c, mach := m2\<rparr>"
    by (subst eq) simp
  moreover have "reached x Pending f (unat ?c) (f1\<lparr>mach := m2\<rparr>)"
    using r1 mv by (simp add: reached_def)
  ultimately show ?thesis
    unfolding hl using True sm m2 by (simp add: head_16_clwb_def Let_def step_by_def)
next
  case False
  then have "unat (f_dest f) mod 16 = 0" by (simp add: word_less_nat_alt and15_unat)
  with False show ?thesis by (simp add: head_16_clwb_def head_len_def reached_0 mod_mod_cancel)
qed

lemma tail_clwb_reached:
  assumes rdy: "ready x f" and len: "unat (f_len f) < 16"
    and fit: "unat (f_len f) = 0 \<or> unat (f_dest f) mod 64 + unat (f_len f) < 64"
    and pg: "unat (f_len f) = 0 \<Longrightarrow> mapped (mach f) (page_of (f_dest f))"
  shows "\<exists>m'. run_all [tail_small small, clwb_dest] f = Inr (f\<lparr>mach := m'\<rparr>) \<and>
    moved x Pending (f_dest f) (f_src f) (unat (f_len f)) (mach f) m'"
proof -
  obtain m1 where t: "tail_small small f = Inr (f\<lparr>mach := m1\<rparr>)"
    and mv: "moved x Dirty (f_dest f) (f_src f) (unat (f_len f)) (mach f) m1"
    using small.tail_small_reached [OF rdy len] by blast
  have "unat (f_dest f) mod 64 < 64" by simp
  with fit have fit': "unat (f_dest f) mod 64 + unat (f_len f) \<le> 64" by linarith
  have "mapped (mach f) (page_of (f_dest f))"
    using pg rdy by (cases "unat (f_len f) = 0") (auto simp: ready_def valid_def intro: accessible_page)
  from clwb_pending [OF mv writes fit' unmask_line this] t show ?thesis
    by (auto simp: clwb_dest_def on_mach_def)
qed

lemma nt_cascade:
  assumes rdy: "ready x (enter dest src len m)"
    and pg: "mapped m (page_of dest)" and pg': "mapped m (page_of (dest + len))"
  shows "\<exists>m'. leave (run_all [head_16_clwb small, if_bit 16 B16, if_bit 32 B32, while_16x32 KL,
      if_ge (8 * 32) K8, if_ge (4 * 32) K4, if_ge (2 * 32) K2, if_ge (1 * 32) B32, if_ge 16 B16,
      tail_small small, clwb_dest] (enter dest src len m)) = Inr m' \<and>
      moved x Pending dest src (unat len) m m'"
proof -
  let ?f = "enter dest src len m"
  obtain f1 where f1: "head_16_clwb small ?f = Inr f1"
    and r1: "reached x Pending ?f (head_len (unat (f_dest ?f) mod 64) (unat (f_len ?f))) f1"
    using head_16_clwb_reached [OF rdy] pg by auto
  from body_reached [OF rdy r1] obtain k f2 where
    f2: "run_all [if_bit 16 B16, if_bit 32 B32, while_16x32 KL, if_ge (8 * 32) K8,
      if_ge (4 * 32) K4, if_ge (2 * 32) K2, if_ge (1 * 32) B32, if_ge 16 B16] f1 = Inr f2"
    and r2: "reached x Pending ?f k f2" and len: "unat (f_len f2) < 16"
    and fit: "unat (f_len f2) = 0 \<or> unat (f_dest f2) mod 64 + unat (f_len f2) < 64" by blast
  have "mapped (mach f2) (page_of (f_dest f2))" if "unat (f_len f2) = 0"
    using reached_end [OF r2 that] r2 pg' by (simp add: reached_def moved_def same_env_def)
  from tail_clwb_reached [OF reached_ready [OF rdy r2] len fit this] obtain m' where
    f3: "run_all [tail_small small, clwb_dest] f2 = Inr (f2\<lparr>mach := m'\<rparr>)"
    and mv: "moved x Pending (f_dest f2) (f_src f2) (unat (f_len f2)) (mach f2) m'" by blast
  have "run_all ([head_16_clwb small] @ [if_bit 16 B16, if_bit 32 B32, while_16x32 KL, if_ge (8 * 32) K8,
      if_ge (4 * 32) K4, if_ge (2 * 32) K2, if_ge (1 * 32) B32, if_ge 16 B16] @
      [tail_small small, clwb_dest]) ?f = Inr (f2\<lparr>mach := m'\<rparr>)"
    by (simp only: run_all_append run_all_single f1 f2 f3 sum.case)
  with reached_finish [OF ready_valid [OF rdy] _ r2 mv] writes show ?thesis by (simp add: leave_def)
qed

text \<open>When the range ends with its line and the next page is unmapped, the last write-back faults.\<close>

lemma nt_overrun:
  assumes rdy: "ready x (enter dest src len m)" and pg: "mapped m (page_of dest)"
    and whole: "unat (dest + len) mod 64 = 0" and pg': "\<not> mapped m (page_of (dest + len))"
  shows "leave (run_all [head_16_clwb small, if_bit 16 B16, if_bit 32 B32, while_16x32 KL,
      if_ge (8 * 32) K8, if_ge (4 * 32) K4, if_ge (2 * 32) K2, if_ge (1 * 32) B32, if_ge 16 B16,
      tail_small small, clwb_dest] (enter dest src len m)) =
      Inl (PageFault ((dest + len) AND CACHELINE_UNMASK))"
proof -
  let ?f = "enter dest src len m"
  obtain f1 where f1: "head_16_clwb small ?f = Inr f1"
    and r1: "reached x Pending ?f (head_len (unat (f_dest ?f) mod 64) (unat (f_len ?f))) f1"
    using head_16_clwb_reached [OF rdy] pg by auto
  from body_reached [OF rdy r1] obtain k f2 where
    f2: "run_all [if_bit 16 B16, if_bit 32 B32, while_16x32 KL, if_ge (8 * 32) K8,
      if_ge (4 * 32) K4, if_ge (2 * 32) K2, if_ge (1 * 32) B32, if_ge 16 B16] f1 = Inr f2"
    and r2: "reached x Pending ?f k f2" and len: "unat (f_len f2) < 16"
    and fit: "unat (f_len f2) = 0 \<or> unat (f_dest f2) mod 64 + unat (f_len f2) < 64" by blast
  have "f_dest f2 + f_len f2 = dest + len"
  proof -
    have "f_len f2 = of_nat (unat (f_len f2))" by simp
    also have "\<dots> = len - of_nat k" using r2 by (simp add: reached_def)
    finally show ?thesis using r2 by (simp add: reached_def)
  qed
  then have "(unat (f_dest f2) + unat (f_len f2)) mod 64 = 0"
    using whole unat_add_mod [of 64 "f_dest f2" "f_len f2"] by simp
  then have "(unat (f_dest f2) mod 64 + unat (f_len f2)) mod 64 = 0" by (simp add: mod_add_left_eq)
  then have l0: "unat (f_len f2) = 0" using fit by (cases "unat (f_len f2) = 0") auto
  from small.tail_small_reached [OF reached_ready [OF rdy r2] len] obtain m' where
    f3: "tail_small small f2 = Inr (f2\<lparr>mach := m'\<rparr>)"
    and mv: "moved x Dirty (f_dest f2) (f_src f2) (unat (f_len f2)) (mach f2) m'" by blast
  have "mapped m' = mapped m"
    using moved_env [OF mv] r2 by (simp add: reached_def moved_def same_env_def)
  then have f4: "clwb_dest (f2\<lparr>mach := m'\<rparr>) = Inl (PageFault ((dest + len) AND CACHELINE_UNMASK))"
    using pg' reached_end [OF r2 l0] by (simp add: clwb_dest_def on_mach_def clwb_def unmask_page)
  have "run_all ([head_16_clwb small] @ [if_bit 16 B16, if_bit 32 B32, while_16x32 KL, if_ge (8 * 32) K8,
      if_ge (4 * 32) K4, if_ge (2 * 32) K2, if_ge (1 * 32) B32, if_ge 16 B16] @
      [tail_small small] @ [clwb_dest]) ?f = Inl (PageFault ((dest + len) AND CACHELINE_UNMASK))"
    by (simp only: run_all_append run_all_single f1 f2 f3 f4 sum.case)
  then show ?thesis by (simp add: leave_def)
qed

end

text \<open>
  Cached stores with write-backs: the first line after the prologue, each block of whole
  lines by itself, and the last line when bytes of it were stored.
\<close>

locale flush_routine =
  small: small_transfer x small + fine: fine_transfer x Dirty B16 B32 +
  coarse: coarse_transfer x Pending al K2 K4 K8 KL
  for x small B16 B32 al K2 K4 K8 KL
begin

lemma writes: "x \<noteq> Touch"
  using coarse.touch by auto

lemma flush_rest:
  assumes rdy: "ready x f" and sn: "snug f"
  shows "\<exists>f'. run_all [note_tail, if_ge (1 * 32) B32, if_ge 16 B16, tail_small small, flush_tail] f = Inr f' \<and>
    moved x Pending (f_dest f) (f_src f) (unat (f_len f)) (mach f) (mach f')"
proof -
  let ?g = "f\<lparr>need_flush := f_len f \<noteq> 0\<rparr>"
  have g: "note_tail f = Inr ?g" "ready x ?g" "snug ?g"
    using rdy sn by (simp_all add: note_tail_def ready_def valid_def snug_def)
  obtain k f1 where f1: "run_all [if_ge (1 * 32) B32, if_ge 16 B16] ?g = Inr f1"
    and r1: "reached x Dirty ?g k f1" and len: "unat (f_len f1) < 16"
    using fine.rest_reached [OF g(2,3)] by blast
  obtain m1 where f2: "tail_small small f1 = Inr (f1\<lparr>mach := m1\<rparr>)"
    and mv1: "moved x Dirty (f_dest f1) (f_src f1) (unat (f_len f1)) (mach f1) m1"
    using small.tail_small_reached [OF reached_ready [OF g(2) r1] len] by blast
  have mv: "moved x Dirty (f_dest f) (f_src f) (unat (f_len f)) (mach f) m1"
    using reached_finish [OF ready_valid [OF g(2)] _ r1 mv1] by simp
  have nf: "need_flush f1 = (f_len f \<noteq> 0)" using r1 by (simp add: reached_def)
  have "\<exists>m2. flush_tail (f1\<lparr>mach := m1\<rparr>) = Inr (f1\<lparr>mach := m2\<rparr>) \<and>
      moved x Pending (f_dest f) (f_src f) (unat (f_len f)) (mach f) m2"
  proof (cases "f_len f = 0")
    case True
    with mv nf show ?thesis by (auto simp: flush_tail_def intro: moved_0_pending)
  next
    case False
    then have n: "unat (f_len f) \<noteq> 0" by (simp add: unat_eq_0)
    then have fit: "unat (f_dest f) mod 64 + unat (f_len f) \<le> 64" using sn by (simp add: snug_def)
    have "line_of (f_dest f1 AND CACHELINE_UNMASK) = line_of (f_dest f)"
      using snug_rest(1) [OF g(3) r1] n unmask_line by simp
    moreover have "mapped (mach f) (page_of (f_dest f))"
      using rdy n by (auto simp: ready_def valid_def intro: accessible_page)
    ultimately obtain m2 where "clwb (f_dest f1 AND CACHELINE_UNMASK) m1 = Inr m2"
      and "moved x Pending (f_dest f) (f_src f) (unat (f_len f)) (mach f) m2"
      using clwb_pending [OF mv writes fit] by blast
    with False nf show ?thesis
      by (intro exI [of _ m2]) (simp add: flush_tail_def clwb_dest_def on_mach_def)
  qed
  then obtain m2 where f3: "flush_tail (f1\<lparr>mach := m1\<rparr>) = Inr (f1\<lparr>mach := m2\<rparr>)"
    and mv2: "moved x Pending (f_dest f) (f_src f) (unat (f_len f)) (mach f) m2" by blast
  have "run_all ([note_tail] @ [if_ge (1 * 32) B32, if_ge 16 B16] @ [tail_small small] @ [flush_tail]) f
      = Inr (f1\<lparr>mach := m2\<rparr>)"
    by (simp only: run_all_append run_all_single g f1 f2 f3 sum.case)
  with mv2 show ?thesis by auto
qed

lemma flush_cascade:
  assumes rdy: "ready x (enter dest src len m)" and pg: "mapped m (page_of dest)"
  shows "\<exists>m'. leave (run_all [head_16 small, if_bit 16 B16, if_bit 32 B32, flush_head, while_16x32 KL,
      if_ge (8 * 32) K8, if_ge (4 * 32) K4, if_ge (2 * 32) K2, note_tail, if_ge (1 * 32) B32,
      if_ge 16 B16, tail_small small, flush_tail] (enter dest src len m)) = Inr m' \<and>
      moved x Pending dest src (unat len) m m'"
proof -
  let ?f = "enter dest src len m"
  obtain f1 where f1: "head_16 small ?f = Inr f1"
    and r1: "reached x Dirty ?f (head_len (unat (f_dest ?f) mod 64) (unat (f_len ?f))) f1"
    using small.head_16_reached [OF rdy] by blast
  from fine.bits_reached [OF rdy r1] obtain k2 f2 where
    f2: "run_all [if_bit 16 B16, if_bit 32 B32] f1 = Inr f2" and r2: "reached x Dirty ?f k2 f2"
    and s2: "settled (unat (f_dest ?f) mod 64) (unat (f_len ?f)) k2"
    and fit: "unat (f_dest ?f) mod 64 + k2 \<le> 64" and z: "unat (f_dest ?f) mod 64 = 0 \<longrightarrow> k2 = 0"
    by (elim exE conjE) (rule that)
  obtain f3 where f3: "flush_head f2 = Inr f3" and r3: "reached x Pending ?f k2 f3"
    using flush_head_reached [OF r2 writes fit] z pg by auto
  note rdy3 = reached_ready [OF rdy r3]
  from coarse.coarse_reached [OF rdy3 settled_lined [OF r3 s2]] obtain k4 f4 where
    f4: "run_all [while_16x32 KL, if_ge (8 * 32) K8, if_ge (4 * 32) K4, if_ge (2 * 32) K2] f3 = Inr f4"
    and r4: "reached x Pending f3 k4 f4" and sn: "snug f4" by blast
  note r4' = coarse.chain [OF rdy r3 r4]
  obtain f5 where f5: "run_all [note_tail, if_ge (1 * 32) B32, if_ge 16 B16, tail_small small, flush_tail] f4 = Inr f5"
    and mv: "moved x Pending (f_dest f4) (f_src f4) (unat (f_len f4)) (mach f4) (mach f5)"
    using flush_rest [OF reached_ready [OF rdy r4'] sn] by blast
  have "run_all ([head_16 small] @ [if_bit 16 B16, if_bit 32 B32] @ [flush_head] @
      [while_16x32 KL, if_ge (8 * 32) K8, if_ge (4 * 32) K4, if_ge (2 * 32) K2] @
      [note_tail, if_ge (1 * 32) B32, if_ge 16 B16, tail_small small, flush_tail]) ?f = Inr f5"
    by (simp only: run_all_append run_all_single f1 f2 f3 f4 f5 sum.case)
  with reached_finish [OF ready_valid [OF rdy] _ r4' mv] writes show ?thesis by (simp add: leave_def)
qed

end

end
