(* ===== verification/Instr.thy ===== *)
theory Instr
  imports Vector_Asm
begin

text \<open>
  The copy blocks of util/instr.h, one definition per inline function with its instructions in
  the order of the source; for each, the general shape it is an instance of, and the kernel
  contract it keeps.
\<close>

section \<open>The blocks\<close>

definition cpy_16b_load_store_noflush :: "u64 \<Rightarrow> u64 \<Rightarrow> prog" where
  "cpy_16b_load_store_noflush dest src = asm_block src dest [
     LOAD (0*16) (Xmm 0), STORE (Xmm 0) (0*16)]"

definition cpy_32b_load_store_noflush :: "u64 \<Rightarrow> u64 \<Rightarrow> prog" where
  "cpy_32b_load_store_noflush dest src = asm_block src dest [
     LOAD (0*32) (Ymm 0), STORE (Ymm 0) (0*32)]"

definition cpy_2x32b_load_store_noflush :: "u64 \<Rightarrow> u64 \<Rightarrow> prog" where
  "cpy_2x32b_load_store_noflush dest src = asm_block src dest [
     LOAD (0*32) (Ymm 0), LOAD (1*32) (Ymm 1), STORE (Ymm 0) (0*32), STORE (Ymm 1) (1*32)]"

definition cpy_4x32b_load_store_noflush :: "u64 \<Rightarrow> u64 \<Rightarrow> prog" where
  "cpy_4x32b_load_store_noflush dest src = asm_block src dest [
     LOAD (0*32) (Ymm 0), LOAD (1*32) (Ymm 1), LOAD (2*32) (Ymm 2), LOAD (3*32) (Ymm 3),
     STORE (Ymm 0) (0*32), STORE (Ymm 1) (1*32), STORE (Ymm 2) (2*32), STORE (Ymm 3) (3*32)]"

definition cpy_8x32b_load_store_noflush :: "u64 \<Rightarrow> u64 \<Rightarrow> prog" where
  "cpy_8x32b_load_store_noflush dest src = asm_block src dest [
     LOAD (0*32) (Ymm 0), LOAD (1*32) (Ymm 1), LOAD (2*32) (Ymm 2), LOAD (3*32) (Ymm 3),
     LOAD (4*32) (Ymm 4), LOAD (5*32) (Ymm 5), LOAD (6*32) (Ymm 6), LOAD (7*32) (Ymm 7),
     STORE (Ymm 0) (0*32), STORE (Ymm 1) (1*32), STORE (Ymm 2) (2*32), STORE (Ymm 3) (3*32),
     STORE (Ymm 4) (4*32), STORE (Ymm 5) (5*32), STORE (Ymm 6) (6*32), STORE (Ymm 7) (7*32)]"

definition cpy_16x32b_load_store_noflush :: "u64 \<Rightarrow> u64 \<Rightarrow> prog" where
  "cpy_16x32b_load_store_noflush dest src = asm_block src dest [
     LOAD (0*32) (Ymm 0), LOAD (1*32) (Ymm 1), LOAD (2*32) (Ymm 2), LOAD (3*32) (Ymm 3),
     LOAD (4*32) (Ymm 4), LOAD (5*32) (Ymm 5), LOAD (6*32) (Ymm 6), LOAD (7*32) (Ymm 7),
     LOAD (8*32) (Ymm 8), LOAD (9*32) (Ymm 9), LOAD (10*32) (Ymm 10), LOAD (11*32) (Ymm 11),
     LOAD (12*32) (Ymm 12), LOAD (13*32) (Ymm 13), LOAD (14*32) (Ymm 14), LOAD (15*32) (Ymm 15),
     STORE (Ymm 0) (0*32), STORE (Ymm 1) (1*32), STORE (Ymm 2) (2*32), STORE (Ymm 3) (3*32),
     STORE (Ymm 4) (4*32), STORE (Ymm 5) (5*32), STORE (Ymm 6) (6*32), STORE (Ymm 7) (7*32),
     STORE (Ymm 8) (8*32), STORE (Ymm 9) (9*32), STORE (Ymm 10) (10*32), STORE (Ymm 11) (11*32),
     STORE (Ymm 12) (12*32), STORE (Ymm 13) (13*32), STORE (Ymm 14) (14*32),
     STORE (Ymm 15) (15*32)]"

definition cpy_2x32b_load_store_flush :: "u64 \<Rightarrow> u64 \<Rightarrow> prog" where
  "cpy_2x32b_load_store_flush dest src = asm_block src dest [
     LOAD (0*32) (Ymm 0), LOAD (1*32) (Ymm 1), STORE (Ymm 0) (0*32), STORE (Ymm 1) (1*32),
     CLWB (0*32)]"

definition cpy_4x32b_load_store_flush :: "u64 \<Rightarrow> u64 \<Rightarrow> prog" where
  "cpy_4x32b_load_store_flush dest src = asm_block src dest [
     LOAD (0*32) (Ymm 0), LOAD (1*32) (Ymm 1), LOAD (2*32) (Ymm 2), LOAD (3*32) (Ymm 3),
     STORE (Ymm 0) (0*32), STORE (Ymm 1) (1*32), CLWB (0*32), STORE (Ymm 2) (2*32),
     STORE (Ymm 3) (3*32), CLWB (2*32)]"

definition cpy_8x32b_load_store_flush :: "u64 \<Rightarrow> u64 \<Rightarrow> prog" where
  "cpy_8x32b_load_store_flush dest src = asm_block src dest [
     LOAD (0*32) (Ymm 0), LOAD (1*32) (Ymm 1), LOAD (2*32) (Ymm 2), LOAD (3*32) (Ymm 3),
     LOAD (4*32) (Ymm 4), LOAD (5*32) (Ymm 5), LOAD (6*32) (Ymm 6), LOAD (7*32) (Ymm 7),
     STORE (Ymm 0) (0*32), STORE (Ymm 1) (1*32), CLWB (0*32), STORE (Ymm 2) (2*32),
     STORE (Ymm 3) (3*32), CLWB (2*32), STORE (Ymm 4) (4*32), STORE (Ymm 5) (5*32), CLWB (4*32),
     STORE (Ymm 6) (6*32), STORE (Ymm 7) (7*32), CLWB (6*32)]"

definition cpy_16x32b_load_store_flush :: "u64 \<Rightarrow> u64 \<Rightarrow> prog" where
  "cpy_16x32b_load_store_flush dest src = asm_block src dest [
     LOAD (0*32) (Ymm 0), LOAD (1*32) (Ymm 1), LOAD (2*32) (Ymm 2), LOAD (3*32) (Ymm 3),
     LOAD (4*32) (Ymm 4), LOAD (5*32) (Ymm 5), LOAD (6*32) (Ymm 6), LOAD (7*32) (Ymm 7),
     LOAD (8*32) (Ymm 8), LOAD (9*32) (Ymm 9), LOAD (10*32) (Ymm 10), LOAD (11*32) (Ymm 11),
     LOAD (12*32) (Ymm 12), LOAD (13*32) (Ymm 13), LOAD (14*32) (Ymm 14), LOAD (15*32) (Ymm 15),
     STORE (Ymm 0) (0*32), STORE (Ymm 1) (1*32), CLWB (0*32), STORE (Ymm 2) (2*32),
     STORE (Ymm 3) (3*32), CLWB (2*32), STORE (Ymm 4) (4*32), STORE (Ymm 5) (5*32), CLWB (4*32),
     STORE (Ymm 6) (6*32), STORE (Ymm 7) (7*32), CLWB (6*32), STORE (Ymm 8) (8*32),
     STORE (Ymm 9) (9*32), CLWB (8*32), STORE (Ymm 10) (10*32), STORE (Ymm 11) (11*32),
     CLWB (10*32), STORE (Ymm 12) (12*32), STORE (Ymm 13) (13*32), CLWB (12*32),
     STORE (Ymm 14) (14*32), STORE (Ymm 15) (15*32), CLWB (14*32)]"

definition cpy_16b_ntload_store_noflush :: "u64 \<Rightarrow> u64 \<Rightarrow> prog" where
  "cpy_16b_ntload_store_noflush dest src = asm_block src dest [
     NTLOAD (0*16) (Xmm 0), STORE (Xmm 0) (0*16)]"

definition cpy_32b_ntload_store_noflush :: "u64 \<Rightarrow> u64 \<Rightarrow> prog" where
  "cpy_32b_ntload_store_noflush dest src = asm_block src dest [
     NTLOAD (0*32) (Ymm 0), STORE (Ymm 0) (0*32)]"

definition cpy_2x32b_ntload_store_noflush :: "u64 \<Rightarrow> u64 \<Rightarrow> prog" where
  "cpy_2x32b_ntload_store_noflush dest src = asm_block src dest [
     NTLOAD (0*32) (Ymm 0), NTLOAD (1*32) (Ymm 1), STORE (Ymm 0) (0*32), STORE (Ymm 1) (1*32)]"

definition cpy_4x32b_ntload_store_noflush :: "u64 \<Rightarrow> u64 \<Rightarrow> prog" where
  "cpy_4x32b_ntload_store_noflush dest src = asm_block src dest [
     NTLOAD (0*32) (Ymm 0), NTLOAD (1*32) (Ymm 1), NTLOAD (2*32) (Ymm 2), NTLOAD (3*32) (Ymm 3),
     STORE (Ymm 0) (0*32), STORE (Ymm 1) (1*32), STORE (Ymm 2) (2*32), STORE (Ymm 3) (3*32)]"

definition cpy_8x32b_ntload_store_noflush :: "u64 \<Rightarrow> u64 \<Rightarrow> prog" where
  "cpy_8x32b_ntload_store_noflush dest src = asm_block src dest [
     NTLOAD (0*32) (Ymm 0), NTLOAD (1*32) (Ymm 1), NTLOAD (2*32) (Ymm 2), NTLOAD (3*32) (Ymm 3),
     NTLOAD (4*32) (Ymm 4), NTLOAD (5*32) (Ymm 5), NTLOAD (6*32) (Ymm 6), NTLOAD (7*32) (Ymm 7),
     STORE (Ymm 0) (0*32), STORE (Ymm 1) (1*32), STORE (Ymm 2) (2*32), STORE (Ymm 3) (3*32),
     STORE (Ymm 4) (4*32), STORE (Ymm 5) (5*32), STORE (Ymm 6) (6*32), STORE (Ymm 7) (7*32)]"

definition cpy_16x32b_ntload_store_noflush :: "u64 \<Rightarrow> u64 \<Rightarrow> prog" where
  "cpy_16x32b_ntload_store_noflush dest src = asm_block src dest [
     NTLOAD (0*32) (Ymm 0), NTLOAD (1*32) (Ymm 1), NTLOAD (2*32) (Ymm 2), NTLOAD (3*32) (Ymm 3),
     NTLOAD (4*32) (Ymm 4), NTLOAD (5*32) (Ymm 5), NTLOAD (6*32) (Ymm 6), NTLOAD (7*32) (Ymm 7),
     NTLOAD (8*32) (Ymm 8), NTLOAD (9*32) (Ymm 9), NTLOAD (10*32) (Ymm 10),
     NTLOAD (11*32) (Ymm 11), NTLOAD (12*32) (Ymm 12), NTLOAD (13*32) (Ymm 13),
     NTLOAD (14*32) (Ymm 14), NTLOAD (15*32) (Ymm 15), STORE (Ymm 0) (0*32),
     STORE (Ymm 1) (1*32), STORE (Ymm 2) (2*32), STORE (Ymm 3) (3*32), STORE (Ymm 4) (4*32),
     STORE (Ymm 5) (5*32), STORE (Ymm 6) (6*32), STORE (Ymm 7) (7*32), STORE (Ymm 8) (8*32),
     STORE (Ymm 9) (9*32), STORE (Ymm 10) (10*32), STORE (Ymm 11) (11*32),
     STORE (Ymm 12) (12*32), STORE (Ymm 13) (13*32), STORE (Ymm 14) (14*32),
     STORE (Ymm 15) (15*32)]"

definition cpy_2x32b_ntload_store_flush :: "u64 \<Rightarrow> u64 \<Rightarrow> prog" where
  "cpy_2x32b_ntload_store_flush dest src = asm_block src dest [
     NTLOAD (0*32) (Ymm 0), NTLOAD (1*32) (Ymm 1), STORE (Ymm 0) (0*32), STORE (Ymm 1) (1*32),
     CLWB (0*32)]"

definition cpy_4x32b_ntload_store_flush :: "u64 \<Rightarrow> u64 \<Rightarrow> prog" where
  "cpy_4x32b_ntload_store_flush dest src = asm_block src dest [
     NTLOAD (0*32) (Ymm 0), NTLOAD (1*32) (Ymm 1), NTLOAD (2*32) (Ymm 2), NTLOAD (3*32) (Ymm 3),
     STORE (Ymm 0) (0*32), STORE (Ymm 1) (1*32), CLWB (0*32), STORE (Ymm 2) (2*32),
     STORE (Ymm 3) (3*32), CLWB (2*32)]"

definition cpy_8x32b_ntload_store_flush :: "u64 \<Rightarrow> u64 \<Rightarrow> prog" where
  "cpy_8x32b_ntload_store_flush dest src = asm_block src dest [
     NTLOAD (0*32) (Ymm 0), NTLOAD (1*32) (Ymm 1), NTLOAD (2*32) (Ymm 2), NTLOAD (3*32) (Ymm 3),
     NTLOAD (4*32) (Ymm 4), NTLOAD (5*32) (Ymm 5), NTLOAD (6*32) (Ymm 6), NTLOAD (7*32) (Ymm 7),
     STORE (Ymm 0) (0*32), STORE (Ymm 1) (1*32), CLWB (0*32), STORE (Ymm 2) (2*32),
     STORE (Ymm 3) (3*32), CLWB (2*32), STORE (Ymm 4) (4*32), STORE (Ymm 5) (5*32), CLWB (4*32),
     STORE (Ymm 6) (6*32), STORE (Ymm 7) (7*32), CLWB (6*32)]"

definition cpy_16x32b_ntload_store_flush :: "u64 \<Rightarrow> u64 \<Rightarrow> prog" where
  "cpy_16x32b_ntload_store_flush dest src = asm_block src dest [
     NTLOAD (0*32) (Ymm 0), NTLOAD (1*32) (Ymm 1), NTLOAD (2*32) (Ymm 2), NTLOAD (3*32) (Ymm 3),
     NTLOAD (4*32) (Ymm 4), NTLOAD (5*32) (Ymm 5), NTLOAD (6*32) (Ymm 6), NTLOAD (7*32) (Ymm 7),
     NTLOAD (8*32) (Ymm 8), NTLOAD (9*32) (Ymm 9), NTLOAD (10*32) (Ymm 10),
     NTLOAD (11*32) (Ymm 11), NTLOAD (12*32) (Ymm 12), NTLOAD (13*32) (Ymm 13),
     NTLOAD (14*32) (Ymm 14), NTLOAD (15*32) (Ymm 15), STORE (Ymm 0) (0*32),
     STORE (Ymm 1) (1*32), CLWB (0*32), STORE (Ymm 2) (2*32), STORE (Ymm 3) (3*32), CLWB (2*32),
     STORE (Ymm 4) (4*32), STORE (Ymm 5) (5*32), CLWB (4*32), STORE (Ymm 6) (6*32),
     STORE (Ymm 7) (7*32), CLWB (6*32), STORE (Ymm 8) (8*32), STORE (Ymm 9) (9*32), CLWB (8*32),
     STORE (Ymm 10) (10*32), STORE (Ymm 11) (11*32), CLWB (10*32), STORE (Ymm 12) (12*32),
     STORE (Ymm 13) (13*32), CLWB (12*32), STORE (Ymm 14) (14*32), STORE (Ymm 15) (15*32),
     CLWB (14*32)]"

definition cpy_16b_load_ntstore :: "u64 \<Rightarrow> u64 \<Rightarrow> prog" where
  "cpy_16b_load_ntstore dest src = asm_block src dest [
     LOAD (0*16) (Xmm 0), NTSTORE (Xmm 0) (0*16)]"

definition cpy_32b_load_ntstore :: "u64 \<Rightarrow> u64 \<Rightarrow> prog" where
  "cpy_32b_load_ntstore dest src = asm_block src dest [
     LOAD (0*32) (Ymm 0), NTSTORE (Ymm 0) (0*32)]"

definition cpy_2x32b_load_ntstore :: "u64 \<Rightarrow> u64 \<Rightarrow> prog" where
  "cpy_2x32b_load_ntstore dest src = asm_block src dest [
     LOAD (0*32) (Ymm 0), LOAD (1*32) (Ymm 1), NTSTORE (Ymm 0) (0*32), NTSTORE (Ymm 1) (1*32)]"

definition cpy_4x32b_load_ntstore :: "u64 \<Rightarrow> u64 \<Rightarrow> prog" where
  "cpy_4x32b_load_ntstore dest src = asm_block src dest [
     LOAD (0*32) (Ymm 0), LOAD (1*32) (Ymm 1), LOAD (2*32) (Ymm 2), LOAD (3*32) (Ymm 3),
     NTSTORE (Ymm 0) (0*32), NTSTORE (Ymm 1) (1*32), NTSTORE (Ymm 2) (2*32),
     NTSTORE (Ymm 3) (3*32)]"

definition cpy_8x32b_load_ntstore :: "u64 \<Rightarrow> u64 \<Rightarrow> prog" where
  "cpy_8x32b_load_ntstore dest src = asm_block src dest [
     LOAD (0*32) (Ymm 0), LOAD (1*32) (Ymm 1), LOAD (2*32) (Ymm 2), LOAD (3*32) (Ymm 3),
     LOAD (4*32) (Ymm 4), LOAD (5*32) (Ymm 5), LOAD (6*32) (Ymm 6), LOAD (7*32) (Ymm 7),
     NTSTORE (Ymm 0) (0*32), NTSTORE (Ymm 1) (1*32), NTSTORE (Ymm 2) (2*32),
     NTSTORE (Ymm 3) (3*32), NTSTORE (Ymm 4) (4*32), NTSTORE (Ymm 5) (5*32),
     NTSTORE (Ymm 6) (6*32), NTSTORE (Ymm 7) (7*32)]"

definition cpy_16x32b_load_ntstore :: "u64 \<Rightarrow> u64 \<Rightarrow> prog" where
  "cpy_16x32b_load_ntstore dest src = asm_block src dest [
     LOAD (0*32) (Ymm 0), LOAD (1*32) (Ymm 1), LOAD (2*32) (Ymm 2), LOAD (3*32) (Ymm 3),
     LOAD (4*32) (Ymm 4), LOAD (5*32) (Ymm 5), LOAD (6*32) (Ymm 6), LOAD (7*32) (Ymm 7),
     LOAD (8*32) (Ymm 8), LOAD (9*32) (Ymm 9), LOAD (10*32) (Ymm 10), LOAD (11*32) (Ymm 11),
     LOAD (12*32) (Ymm 12), LOAD (13*32) (Ymm 13), LOAD (14*32) (Ymm 14), LOAD (15*32) (Ymm 15),
     NTSTORE (Ymm 0) (0*32), NTSTORE (Ymm 1) (1*32), NTSTORE (Ymm 2) (2*32),
     NTSTORE (Ymm 3) (3*32), NTSTORE (Ymm 4) (4*32), NTSTORE (Ymm 5) (5*32),
     NTSTORE (Ymm 6) (6*32), NTSTORE (Ymm 7) (7*32), NTSTORE (Ymm 8) (8*32),
     NTSTORE (Ymm 9) (9*32), NTSTORE (Ymm 10) (10*32), NTSTORE (Ymm 11) (11*32),
     NTSTORE (Ymm 12) (12*32), NTSTORE (Ymm 13) (13*32), NTSTORE (Ymm 14) (14*32),
     NTSTORE (Ymm 15) (15*32)]"

definition cpy_16b_ntload_ntstore :: "u64 \<Rightarrow> u64 \<Rightarrow> prog" where
  "cpy_16b_ntload_ntstore dest src = asm_block src dest [
     NTLOAD (0*16) (Xmm 0), NTSTORE (Xmm 0) (0*16)]"

definition cpy_32b_ntload_ntstore :: "u64 \<Rightarrow> u64 \<Rightarrow> prog" where
  "cpy_32b_ntload_ntstore dest src = asm_block src dest [
     NTLOAD (0*32) (Ymm 0), NTSTORE (Ymm 0) (0*32)]"

definition cpy_2x32b_ntload_ntstore :: "u64 \<Rightarrow> u64 \<Rightarrow> prog" where
  "cpy_2x32b_ntload_ntstore dest src = asm_block src dest [
     NTLOAD (0*32) (Ymm 0), NTLOAD (1*32) (Ymm 1), NTSTORE (Ymm 0) (0*32),
     NTSTORE (Ymm 1) (1*32)]"

definition cpy_4x32b_ntload_ntstore :: "u64 \<Rightarrow> u64 \<Rightarrow> prog" where
  "cpy_4x32b_ntload_ntstore dest src = asm_block src dest [
     NTLOAD (0*32) (Ymm 0), NTLOAD (1*32) (Ymm 1), NTLOAD (2*32) (Ymm 2), NTLOAD (3*32) (Ymm 3),
     NTSTORE (Ymm 0) (0*32), NTSTORE (Ymm 1) (1*32), NTSTORE (Ymm 2) (2*32),
     NTSTORE (Ymm 3) (3*32)]"

definition cpy_8x32b_ntload_ntstore :: "u64 \<Rightarrow> u64 \<Rightarrow> prog" where
  "cpy_8x32b_ntload_ntstore dest src = asm_block src dest [
     NTLOAD (0*32) (Ymm 0), NTLOAD (1*32) (Ymm 1), NTLOAD (2*32) (Ymm 2), NTLOAD (3*32) (Ymm 3),
     NTLOAD (4*32) (Ymm 4), NTLOAD (5*32) (Ymm 5), NTLOAD (6*32) (Ymm 6), NTLOAD (7*32) (Ymm 7),
     NTSTORE (Ymm 0) (0*32), NTSTORE (Ymm 1) (1*32), NTSTORE (Ymm 2) (2*32),
     NTSTORE (Ymm 3) (3*32), NTSTORE (Ymm 4) (4*32), NTSTORE (Ymm 5) (5*32),
     NTSTORE (Ymm 6) (6*32), NTSTORE (Ymm 7) (7*32)]"

definition cpy_16x32b_ntload_ntstore :: "u64 \<Rightarrow> u64 \<Rightarrow> prog" where
  "cpy_16x32b_ntload_ntstore dest src = asm_block src dest [
     NTLOAD (0*32) (Ymm 0), NTLOAD (1*32) (Ymm 1), NTLOAD (2*32) (Ymm 2), NTLOAD (3*32) (Ymm 3),
     NTLOAD (4*32) (Ymm 4), NTLOAD (5*32) (Ymm 5), NTLOAD (6*32) (Ymm 6), NTLOAD (7*32) (Ymm 7),
     NTLOAD (8*32) (Ymm 8), NTLOAD (9*32) (Ymm 9), NTLOAD (10*32) (Ymm 10),
     NTLOAD (11*32) (Ymm 11), NTLOAD (12*32) (Ymm 12), NTLOAD (13*32) (Ymm 13),
     NTLOAD (14*32) (Ymm 14), NTLOAD (15*32) (Ymm 15), NTSTORE (Ymm 0) (0*32),
     NTSTORE (Ymm 1) (1*32), NTSTORE (Ymm 2) (2*32), NTSTORE (Ymm 3) (3*32),
     NTSTORE (Ymm 4) (4*32), NTSTORE (Ymm 5) (5*32), NTSTORE (Ymm 6) (6*32),
     NTSTORE (Ymm 7) (7*32), NTSTORE (Ymm 8) (8*32), NTSTORE (Ymm 9) (9*32),
     NTSTORE (Ymm 10) (10*32), NTSTORE (Ymm 11) (11*32), NTSTORE (Ymm 12) (12*32),
     NTSTORE (Ymm 13) (13*32), NTSTORE (Ymm 14) (14*32), NTSTORE (Ymm 15) (15*32)]"

section \<open>Every block keeps the kernel contract\<close>

lemma cpy_16b_load_store_noflush_shape: "cpy_16b_load_store_noflush d s = asm_block s d (loads 16 LOAD 1 @ stores 16 STORE 1)"
  by (simp add: cpy_16b_load_store_noflush_def block_shapes)

interpretation k_cpy_16b_load_store_noflush: transfer_kernel Copy Dirty 16 16 16 "cpy_16b_load_store_noflush"
  using copy_block [of LOAD Dirty STORE 16 1] by (simp add: cpy_16b_load_store_noflush_shape [abs_def] block_kinds)

lemma cpy_32b_load_store_noflush_shape: "cpy_32b_load_store_noflush d s = asm_block s d (loads 32 LOAD 1 @ stores 32 STORE 1)"
  by (simp add: cpy_32b_load_store_noflush_def block_shapes)

interpretation k_cpy_32b_load_store_noflush: transfer_kernel Copy Dirty 32 32 32 "cpy_32b_load_store_noflush"
  using copy_block [of LOAD Dirty STORE 32 1] by (simp add: cpy_32b_load_store_noflush_shape [abs_def] block_kinds)

lemma cpy_2x32b_load_store_noflush_shape: "cpy_2x32b_load_store_noflush d s = asm_block s d (loads 32 LOAD 2 @ stores 32 STORE 2)"
  by (simp add: cpy_2x32b_load_store_noflush_def block_shapes)

interpretation k_cpy_2x32b_load_store_noflush: transfer_kernel Copy Dirty 64 32 32 "cpy_2x32b_load_store_noflush"
  using copy_block [of LOAD Dirty STORE 32 2] by (simp add: cpy_2x32b_load_store_noflush_shape [abs_def] block_kinds)

lemma cpy_4x32b_load_store_noflush_shape: "cpy_4x32b_load_store_noflush d s = asm_block s d (loads 32 LOAD 4 @ stores 32 STORE 4)"
  by (simp add: cpy_4x32b_load_store_noflush_def block_shapes)

interpretation k_cpy_4x32b_load_store_noflush: transfer_kernel Copy Dirty 128 32 32 "cpy_4x32b_load_store_noflush"
  using copy_block [of LOAD Dirty STORE 32 4] by (simp add: cpy_4x32b_load_store_noflush_shape [abs_def] block_kinds)

lemma cpy_8x32b_load_store_noflush_shape: "cpy_8x32b_load_store_noflush d s = asm_block s d (loads 32 LOAD 8 @ stores 32 STORE 8)"
  by (simp add: cpy_8x32b_load_store_noflush_def block_shapes)

interpretation k_cpy_8x32b_load_store_noflush: transfer_kernel Copy Dirty 256 32 32 "cpy_8x32b_load_store_noflush"
  using copy_block [of LOAD Dirty STORE 32 8] by (simp add: cpy_8x32b_load_store_noflush_shape [abs_def] block_kinds)

lemma cpy_16x32b_load_store_noflush_shape: "cpy_16x32b_load_store_noflush d s = asm_block s d (loads 32 LOAD 16 @ stores 32 STORE 16)"
  by (simp add: cpy_16x32b_load_store_noflush_def block_shapes)

interpretation k_cpy_16x32b_load_store_noflush: transfer_kernel Copy Dirty 512 32 32 "cpy_16x32b_load_store_noflush"
  using copy_block [of LOAD Dirty STORE 32 16] by (simp add: cpy_16x32b_load_store_noflush_shape [abs_def] block_kinds)

lemma cpy_2x32b_load_store_flush_shape: "cpy_2x32b_load_store_flush d s = asm_block s d (loads 32 LOAD 2 @ flush_stores 1)"
  by (simp add: cpy_2x32b_load_store_flush_def block_shapes)

interpretation k_cpy_2x32b_load_store_flush: transfer_kernel Copy Pending 64 64 32 "cpy_2x32b_load_store_flush"
  using copy_flush_block [of LOAD 1] by (simp add: cpy_2x32b_load_store_flush_shape [abs_def] block_kinds)

lemma cpy_4x32b_load_store_flush_shape: "cpy_4x32b_load_store_flush d s = asm_block s d (loads 32 LOAD 4 @ flush_stores 2)"
  by (simp add: cpy_4x32b_load_store_flush_def block_shapes)

interpretation k_cpy_4x32b_load_store_flush: transfer_kernel Copy Pending 128 64 32 "cpy_4x32b_load_store_flush"
  using copy_flush_block [of LOAD 2] by (simp add: cpy_4x32b_load_store_flush_shape [abs_def] block_kinds)

lemma cpy_8x32b_load_store_flush_shape: "cpy_8x32b_load_store_flush d s = asm_block s d (loads 32 LOAD 8 @ flush_stores 4)"
  by (simp add: cpy_8x32b_load_store_flush_def block_shapes)

interpretation k_cpy_8x32b_load_store_flush: transfer_kernel Copy Pending 256 64 32 "cpy_8x32b_load_store_flush"
  using copy_flush_block [of LOAD 4] by (simp add: cpy_8x32b_load_store_flush_shape [abs_def] block_kinds)

lemma cpy_16x32b_load_store_flush_shape: "cpy_16x32b_load_store_flush d s = asm_block s d (loads 32 LOAD 16 @ flush_stores 8)"
  by (simp add: cpy_16x32b_load_store_flush_def block_shapes)

interpretation k_cpy_16x32b_load_store_flush: transfer_kernel Copy Pending 512 64 32 "cpy_16x32b_load_store_flush"
  using copy_flush_block [of LOAD 8] by (simp add: cpy_16x32b_load_store_flush_shape [abs_def] block_kinds)

lemma cpy_16b_ntload_store_noflush_shape: "cpy_16b_ntload_store_noflush d s = asm_block s d (loads 16 NTLOAD 1 @ stores 16 STORE 1)"
  by (simp add: cpy_16b_ntload_store_noflush_def block_shapes)

interpretation k_cpy_16b_ntload_store_noflush: transfer_kernel Copy Dirty 16 16 16 "cpy_16b_ntload_store_noflush"
  using copy_block [of NTLOAD Dirty STORE 16 1] by (simp add: cpy_16b_ntload_store_noflush_shape [abs_def] block_kinds)

lemma cpy_32b_ntload_store_noflush_shape: "cpy_32b_ntload_store_noflush d s = asm_block s d (loads 32 NTLOAD 1 @ stores 32 STORE 1)"
  by (simp add: cpy_32b_ntload_store_noflush_def block_shapes)

interpretation k_cpy_32b_ntload_store_noflush: transfer_kernel Copy Dirty 32 32 32 "cpy_32b_ntload_store_noflush"
  using copy_block [of NTLOAD Dirty STORE 32 1] by (simp add: cpy_32b_ntload_store_noflush_shape [abs_def] block_kinds)

lemma cpy_2x32b_ntload_store_noflush_shape: "cpy_2x32b_ntload_store_noflush d s = asm_block s d (loads 32 NTLOAD 2 @ stores 32 STORE 2)"
  by (simp add: cpy_2x32b_ntload_store_noflush_def block_shapes)

interpretation k_cpy_2x32b_ntload_store_noflush: transfer_kernel Copy Dirty 64 32 32 "cpy_2x32b_ntload_store_noflush"
  using copy_block [of NTLOAD Dirty STORE 32 2] by (simp add: cpy_2x32b_ntload_store_noflush_shape [abs_def] block_kinds)

lemma cpy_4x32b_ntload_store_noflush_shape: "cpy_4x32b_ntload_store_noflush d s = asm_block s d (loads 32 NTLOAD 4 @ stores 32 STORE 4)"
  by (simp add: cpy_4x32b_ntload_store_noflush_def block_shapes)

interpretation k_cpy_4x32b_ntload_store_noflush: transfer_kernel Copy Dirty 128 32 32 "cpy_4x32b_ntload_store_noflush"
  using copy_block [of NTLOAD Dirty STORE 32 4] by (simp add: cpy_4x32b_ntload_store_noflush_shape [abs_def] block_kinds)

lemma cpy_8x32b_ntload_store_noflush_shape: "cpy_8x32b_ntload_store_noflush d s = asm_block s d (loads 32 NTLOAD 8 @ stores 32 STORE 8)"
  by (simp add: cpy_8x32b_ntload_store_noflush_def block_shapes)

interpretation k_cpy_8x32b_ntload_store_noflush: transfer_kernel Copy Dirty 256 32 32 "cpy_8x32b_ntload_store_noflush"
  using copy_block [of NTLOAD Dirty STORE 32 8] by (simp add: cpy_8x32b_ntload_store_noflush_shape [abs_def] block_kinds)

lemma cpy_16x32b_ntload_store_noflush_shape: "cpy_16x32b_ntload_store_noflush d s = asm_block s d (loads 32 NTLOAD 16 @ stores 32 STORE 16)"
  by (simp add: cpy_16x32b_ntload_store_noflush_def block_shapes)

interpretation k_cpy_16x32b_ntload_store_noflush: transfer_kernel Copy Dirty 512 32 32 "cpy_16x32b_ntload_store_noflush"
  using copy_block [of NTLOAD Dirty STORE 32 16] by (simp add: cpy_16x32b_ntload_store_noflush_shape [abs_def] block_kinds)

lemma cpy_2x32b_ntload_store_flush_shape: "cpy_2x32b_ntload_store_flush d s = asm_block s d (loads 32 NTLOAD 2 @ flush_stores 1)"
  by (simp add: cpy_2x32b_ntload_store_flush_def block_shapes)

interpretation k_cpy_2x32b_ntload_store_flush: transfer_kernel Copy Pending 64 64 32 "cpy_2x32b_ntload_store_flush"
  using copy_flush_block [of NTLOAD 1] by (simp add: cpy_2x32b_ntload_store_flush_shape [abs_def] block_kinds)

lemma cpy_4x32b_ntload_store_flush_shape: "cpy_4x32b_ntload_store_flush d s = asm_block s d (loads 32 NTLOAD 4 @ flush_stores 2)"
  by (simp add: cpy_4x32b_ntload_store_flush_def block_shapes)

interpretation k_cpy_4x32b_ntload_store_flush: transfer_kernel Copy Pending 128 64 32 "cpy_4x32b_ntload_store_flush"
  using copy_flush_block [of NTLOAD 2] by (simp add: cpy_4x32b_ntload_store_flush_shape [abs_def] block_kinds)

lemma cpy_8x32b_ntload_store_flush_shape: "cpy_8x32b_ntload_store_flush d s = asm_block s d (loads 32 NTLOAD 8 @ flush_stores 4)"
  by (simp add: cpy_8x32b_ntload_store_flush_def block_shapes)

interpretation k_cpy_8x32b_ntload_store_flush: transfer_kernel Copy Pending 256 64 32 "cpy_8x32b_ntload_store_flush"
  using copy_flush_block [of NTLOAD 4] by (simp add: cpy_8x32b_ntload_store_flush_shape [abs_def] block_kinds)

lemma cpy_16x32b_ntload_store_flush_shape: "cpy_16x32b_ntload_store_flush d s = asm_block s d (loads 32 NTLOAD 16 @ flush_stores 8)"
  by (simp add: cpy_16x32b_ntload_store_flush_def block_shapes)

interpretation k_cpy_16x32b_ntload_store_flush: transfer_kernel Copy Pending 512 64 32 "cpy_16x32b_ntload_store_flush"
  using copy_flush_block [of NTLOAD 8] by (simp add: cpy_16x32b_ntload_store_flush_shape [abs_def] block_kinds)

lemma cpy_16b_load_ntstore_shape: "cpy_16b_load_ntstore d s = asm_block s d (loads 16 LOAD 1 @ stores 16 NTSTORE 1)"
  by (simp add: cpy_16b_load_ntstore_def block_shapes)

interpretation k_cpy_16b_load_ntstore: transfer_kernel Copy Pending 16 16 16 "cpy_16b_load_ntstore"
  using copy_block [of LOAD Pending NTSTORE 16 1] by (simp add: cpy_16b_load_ntstore_shape [abs_def] block_kinds)

lemma cpy_32b_load_ntstore_shape: "cpy_32b_load_ntstore d s = asm_block s d (loads 32 LOAD 1 @ stores 32 NTSTORE 1)"
  by (simp add: cpy_32b_load_ntstore_def block_shapes)

interpretation k_cpy_32b_load_ntstore: transfer_kernel Copy Pending 32 32 32 "cpy_32b_load_ntstore"
  using copy_block [of LOAD Pending NTSTORE 32 1] by (simp add: cpy_32b_load_ntstore_shape [abs_def] block_kinds)

lemma cpy_2x32b_load_ntstore_shape: "cpy_2x32b_load_ntstore d s = asm_block s d (loads 32 LOAD 2 @ stores 32 NTSTORE 2)"
  by (simp add: cpy_2x32b_load_ntstore_def block_shapes)

interpretation k_cpy_2x32b_load_ntstore: transfer_kernel Copy Pending 64 32 32 "cpy_2x32b_load_ntstore"
  using copy_block [of LOAD Pending NTSTORE 32 2] by (simp add: cpy_2x32b_load_ntstore_shape [abs_def] block_kinds)

lemma cpy_4x32b_load_ntstore_shape: "cpy_4x32b_load_ntstore d s = asm_block s d (loads 32 LOAD 4 @ stores 32 NTSTORE 4)"
  by (simp add: cpy_4x32b_load_ntstore_def block_shapes)

interpretation k_cpy_4x32b_load_ntstore: transfer_kernel Copy Pending 128 32 32 "cpy_4x32b_load_ntstore"
  using copy_block [of LOAD Pending NTSTORE 32 4] by (simp add: cpy_4x32b_load_ntstore_shape [abs_def] block_kinds)

lemma cpy_8x32b_load_ntstore_shape: "cpy_8x32b_load_ntstore d s = asm_block s d (loads 32 LOAD 8 @ stores 32 NTSTORE 8)"
  by (simp add: cpy_8x32b_load_ntstore_def block_shapes)

interpretation k_cpy_8x32b_load_ntstore: transfer_kernel Copy Pending 256 32 32 "cpy_8x32b_load_ntstore"
  using copy_block [of LOAD Pending NTSTORE 32 8] by (simp add: cpy_8x32b_load_ntstore_shape [abs_def] block_kinds)

lemma cpy_16x32b_load_ntstore_shape: "cpy_16x32b_load_ntstore d s = asm_block s d (loads 32 LOAD 16 @ stores 32 NTSTORE 16)"
  by (simp add: cpy_16x32b_load_ntstore_def block_shapes)

interpretation k_cpy_16x32b_load_ntstore: transfer_kernel Copy Pending 512 32 32 "cpy_16x32b_load_ntstore"
  using copy_block [of LOAD Pending NTSTORE 32 16] by (simp add: cpy_16x32b_load_ntstore_shape [abs_def] block_kinds)

lemma cpy_16b_ntload_ntstore_shape: "cpy_16b_ntload_ntstore d s = asm_block s d (loads 16 NTLOAD 1 @ stores 16 NTSTORE 1)"
  by (simp add: cpy_16b_ntload_ntstore_def block_shapes)

interpretation k_cpy_16b_ntload_ntstore: transfer_kernel Copy Pending 16 16 16 "cpy_16b_ntload_ntstore"
  using copy_block [of NTLOAD Pending NTSTORE 16 1] by (simp add: cpy_16b_ntload_ntstore_shape [abs_def] block_kinds)

lemma cpy_32b_ntload_ntstore_shape: "cpy_32b_ntload_ntstore d s = asm_block s d (loads 32 NTLOAD 1 @ stores 32 NTSTORE 1)"
  by (simp add: cpy_32b_ntload_ntstore_def block_shapes)

interpretation k_cpy_32b_ntload_ntstore: transfer_kernel Copy Pending 32 32 32 "cpy_32b_ntload_ntstore"
  using copy_block [of NTLOAD Pending NTSTORE 32 1] by (simp add: cpy_32b_ntload_ntstore_shape [abs_def] block_kinds)

lemma cpy_2x32b_ntload_ntstore_shape: "cpy_2x32b_ntload_ntstore d s = asm_block s d (loads 32 NTLOAD 2 @ stores 32 NTSTORE 2)"
  by (simp add: cpy_2x32b_ntload_ntstore_def block_shapes)

interpretation k_cpy_2x32b_ntload_ntstore: transfer_kernel Copy Pending 64 32 32 "cpy_2x32b_ntload_ntstore"
  using copy_block [of NTLOAD Pending NTSTORE 32 2] by (simp add: cpy_2x32b_ntload_ntstore_shape [abs_def] block_kinds)

lemma cpy_4x32b_ntload_ntstore_shape: "cpy_4x32b_ntload_ntstore d s = asm_block s d (loads 32 NTLOAD 4 @ stores 32 NTSTORE 4)"
  by (simp add: cpy_4x32b_ntload_ntstore_def block_shapes)

interpretation k_cpy_4x32b_ntload_ntstore: transfer_kernel Copy Pending 128 32 32 "cpy_4x32b_ntload_ntstore"
  using copy_block [of NTLOAD Pending NTSTORE 32 4] by (simp add: cpy_4x32b_ntload_ntstore_shape [abs_def] block_kinds)

lemma cpy_8x32b_ntload_ntstore_shape: "cpy_8x32b_ntload_ntstore d s = asm_block s d (loads 32 NTLOAD 8 @ stores 32 NTSTORE 8)"
  by (simp add: cpy_8x32b_ntload_ntstore_def block_shapes)

interpretation k_cpy_8x32b_ntload_ntstore: transfer_kernel Copy Pending 256 32 32 "cpy_8x32b_ntload_ntstore"
  using copy_block [of NTLOAD Pending NTSTORE 32 8] by (simp add: cpy_8x32b_ntload_ntstore_shape [abs_def] block_kinds)

lemma cpy_16x32b_ntload_ntstore_shape: "cpy_16x32b_ntload_ntstore d s = asm_block s d (loads 32 NTLOAD 16 @ stores 32 NTSTORE 16)"
  by (simp add: cpy_16x32b_ntload_ntstore_def block_shapes)

interpretation k_cpy_16x32b_ntload_ntstore: transfer_kernel Copy Pending 512 32 32 "cpy_16x32b_ntload_ntstore"
  using copy_block [of NTLOAD Pending NTSTORE 32 16] by (simp add: cpy_16x32b_ntload_ntstore_shape [abs_def] block_kinds)

end
