(* ===== verification/Aep.thy ===== *)
theory Aep
  imports Cascade Instr
begin

text \<open>
  util/aep.h: the copy and fill routines for persistent memory. The routine for fewer than 16
  bytes, the write-back of a range, the native (memcpy and memset) variants and the six
  vector cascades, each definition listing the statements of the source in their order.
\<close>

section \<open>Fewer than 16 bytes\<close>

text \<open>\<open>*(T * )dest = *(T * )src\<close> for a type of \<open>w\<close> bytes, and the two overlapping windows at both
  ends of the range, both loaded before the first is stored.\<close>

definition copy_word :: "nat \<Rightarrow> u64 \<Rightarrow> u64 \<Rightarrow> prog" where
  "copy_word w dest src m =
     (case load_bytes w src m of Inl e \<Rightarrow> Inl e | Inr d0 \<Rightarrow> store_bytes dest d0 m)"

definition copy_ends :: "nat \<Rightarrow> u64 \<Rightarrow> u64 \<Rightarrow> u64 \<Rightarrow> prog" where
  "copy_ends w dest src len m =
     (case load_bytes w src m of
        Inl e \<Rightarrow> Inl e
      | Inr d0 \<Rightarrow>
          (case load_bytes w (src + len - of_nat w) m of
             Inl e \<Rightarrow> Inl e
           | Inr d1 \<Rightarrow> run_all [store_bytes dest d0, store_bytes (dest + len - of_nat w) d1] m))"

definition cpy_less_16b_noflush :: "u64 \<Rightarrow> u64 \<Rightarrow> u64 \<Rightarrow> prog" where
  "cpy_less_16b_noflush dest src len m =
     (if debug m \<and> \<not> len < 16 then Inl AssertFail
      else if len = 0 then Inr m
      else if len \<le> 8
      then (if len \<le> 2
            then (if len = 2 then copy_word 2 dest src m else copy_word 1 dest src m)
            else if len > 4 then copy_ends 4 dest src len m
            else copy_ends 2 dest src len m)
      else copy_ends 8 dest src len m)"

lemma load_bytes_ok:
  "accessible m a w \<Longrightarrow> load_bytes w a m = Inr (map (\<lambda>i. mem m (a + of_nat i)) [0..<w])"
  by (simp add: load_bytes_def)

lemma nth_window:
  assumes "in_range d w b"
  shows "map (\<lambda>i. mem m (a + of_nat i)) [0..<w] ! unat (b - d) = mem m (a + (b - d))"
  using assms by (simp add: in_range_def)

lemma copy_word_moved:
  assumes "accessible m d w" and "accessible m s w"
  shows "\<exists>m'. copy_word w d s m = Inr m' \<and> moved Copy Dirty d s w m m'"
  using assms nth_window [of d w _ m s]
  by (simp add: copy_word_def load_bytes_ok store_bytes_def moved_def same_env_def outside_def cong: if_cong)

lemma copy_ends_moved:
  assumes w: "w \<le> unat len" "unat len \<le> 2 * w" "w < 16"
    and d: "accessible m d (unat len)" and s: "accessible m s (unat len)"
  shows "\<exists>m'. copy_ends w d s len m = Inr m' \<and> moved Copy Dirty d s (unat len) m m'"
proof -
  let ?j = "unat len - w"
  let ?f = "\<lambda>a. map (\<lambda>i. mem m (a + of_nat i)) [0..<w]"
  have len: "unat len = ?j + w" using w by simp
  have jd: "accessible m (d + of_nat ?j) w" and js: "accessible m (s + of_nat ?j) w"
    using d s accessible_add [of m d ?j w] accessible_add [of m s ?j w] len by simp_all
  have d0: "accessible m d w" and s0: "accessible m s w" using d s w by (auto intro: accessible_mono)
  obtain m1 where m1: "store_bytes d (?f s) m = Inr m1" and e1: "same_env m m1"
    and v1: "\<And>b. mem m1 b = (if in_range d w b then mem m (s + (b - d)) else mem m b)"
    and p1: "\<And>b. pst m1 b = (if in_range d w b then Dirty else pst m b)"
    using store_bytes_ok [of m d "?f s"] d0 by (auto simp: nth_window cong: if_cong)
  have "accessible m1 (d + of_nat ?j) w" using jd accessible_env [OF e1] by simp
  then obtain m2 where m2: "store_bytes (d + of_nat ?j) (?f (s + of_nat ?j)) m1 = Inr m2"
    and e2: "same_env m1 m2"
    and v2: "\<And>b. mem m2 b = (if in_range (d + of_nat ?j) w b
        then mem m (s + of_nat ?j + (b - (d + of_nat ?j))) else mem m1 b)"
    and p2: "\<And>b. pst m2 b = (if in_range (d + of_nat ?j) w b then Dirty else pst m1 b)"
    using store_bytes_ok [of m1 "d + of_nat ?j" "?f (s + of_nat ?j)"]
    by (auto simp: nth_window cong: if_cong)
  have rng: "in_range d (unat len) b \<longleftrightarrow> in_range d w b \<or> in_range (d + of_nat ?j) w b" for b
  proof -
    have "?j + w \<le> 2 ^ 64" using len w by simp
    from in_range_add [OF this, of d b] show ?thesis
      using len w in_range_mono [of d w b "unat len"] in_range_mono [of d ?j b w] by auto
  qed
  have "moved Copy Dirty d s (unat len) m m2"
    unfolding moved_def rng using same_env_trans [OF e1 e2] by (auto simp: v1 v2 p1 p2 outside_def)
  moreover have "copy_ends w d s len m = Inr m2"
    unfolding copy_ends_def window_end [OF w(1,3)] using s0 js m1 m2 by (simp add: load_bytes_ok)
  ultimately show ?thesis by blast
qed

lemma cpy_less_16b_moved:
  assumes n: "unat len < 16" and d: "accessible m d (unat len)" and s: "accessible m s (unat len)"
  shows "\<exists>m'. cpy_less_16b_noflush d s len m = Inr m' \<and> moved Copy Dirty d s (unat len) m m'"
proof -
  note cmp = word_less_nat_alt word_le_nat_alt
  have cases: "unat len = 0 \<or> unat len = 1 \<or> unat len = 2 \<or> 2 < unat len \<and> unat len \<le> 4 \<or>
      4 < unat len \<and> unat len \<le> 8 \<or> 8 < unat len"
    by linarith
  have eq: "len = of_nat (unat len)" by simp
  from cases show ?thesis
  proof (elim disjE conjE)
    assume "unat len = 0"
    then have "len = 0" by (simp add: unat_eq_0)
    then show ?thesis by (simp add: cpy_less_16b_noflush_def)
  next
    assume l: "unat len = 1"
    then have "len = 1" using eq by simp
    then show ?thesis using copy_word_moved [of m d 1 s] d s by (simp add: cpy_less_16b_noflush_def)
  next
    assume l: "unat len = 2"
    then have "len = 2" using eq by simp
    then show ?thesis using copy_word_moved [of m d 2 s] d s by (simp add: cpy_less_16b_noflush_def)
  next
    assume l: "2 < unat len" "unat len \<le> 4"
    have "cpy_less_16b_noflush d s len m = copy_ends 2 d s len m"
      using l by (auto simp: cpy_less_16b_noflush_def cmp unat_eq_0 [symmetric])
    then show ?thesis using copy_ends_moved [of 2 len m d s] d s l by simp
  next
    assume l: "4 < unat len" "unat len \<le> 8"
    have "cpy_less_16b_noflush d s len m = copy_ends 4 d s len m"
      using l by (auto simp: cpy_less_16b_noflush_def cmp unat_eq_0 [symmetric])
    then show ?thesis using copy_ends_moved [of 4 len m d s] d s l by simp
  next
    assume l: "8 < unat len"
    have "cpy_less_16b_noflush d s len m = copy_ends 8 d s len m"
      using l n by (auto simp: cpy_less_16b_noflush_def cmp unat_eq_0 [symmetric])
    then show ?thesis using copy_ends_moved [of 8 len m d s] d s l n by simp
  qed
qed

interpretation small_copy: small_transfer Copy cpy_less_16b_noflush
  by unfold_locales (rule cpy_less_16b_moved, auto)


section \<open>Write-back of a range\<close>

text \<open>
  \<open>for (uptr = addr & ~63; uptr < addr + len; uptr += 64) clwb(uptr)\<close>. Both the limit and the
  counter wrap, so the loop need not end of itself: \<open>None\<close> would be a loop that runs for ever.
\<close>

partial_function (option) clwb_loop :: "u64 \<Rightarrow> u64 \<Rightarrow> machine \<Rightarrow> (fault + machine) option" where
  "clwb_loop uptr lim m =
     (if uptr < lim
      then (case clwb uptr m of Inl e \<Rightarrow> Some (Inl e) | Inr m' \<Rightarrow> clwb_loop (uptr + CACHELINE_SIZE) lim m')
      else Some (Inr m))"

definition clwb_extent :: "u64 \<Rightarrow> u64 \<Rightarrow> machine \<Rightarrow> (fault + machine) option" where
  "clwb_extent addr len m = clwb_loop (addr AND CACHELINE_UNMASK) (addr + len) m"

lemma line_start: "unat (a AND CACHELINE_UNMASK) = 64 * (unat a div 64)"
proof -
  let ?x = "a AND CACHELINE_UNMASK"
  have "(a AND NOT b) AND b = 0" for b :: u64 by (simp add: and.assoc)
  then have "?x AND CACHELINE_MASK = 0" by (simp only: CACHELINE_UNMASK_def)
  then have "unat ?x mod 64 = 0" using masked_offset [of ?x] by simp
  moreover have "unat ?x div 64 = unat a div 64" using unmask_line [of a] by (simp add: line_of_eq_iff)
  ultimately show ?thesis using div_mult_mod_eq [of "unat ?x" 64] by simp
qed

text \<open>The persistence state after writing back the lines from \<open>lo\<close> up to \<open>hi\<close>.\<close>

definition lines_out :: "nat \<Rightarrow> nat \<Rightarrow> (u64 \<Rightarrow> pstat) \<Rightarrow> u64 \<Rightarrow> pstat" where
  "lines_out lo hi p b = (if lo \<le> unat b \<and> 64 * (unat b div 64) < hi \<and> p b = Dirty then Pending else p b)"

lemma lines_out_none:
  assumes "lo mod 64 = 0" and "hi \<le> lo"
  shows "lines_out lo hi p = p"
proof -
  have "\<not> 64 * (unat b div 64) < hi" if "lo \<le> unat b" for b :: u64
  proof -
    have "64 * (lo div 64) \<le> 64 * (unat b div 64)" using that by (simp add: div_le_mono)
    moreover have "64 * (lo div 64) = lo" using assms(1) div_mult_mod_eq [of lo 64] by simp
    ultimately show ?thesis using assms(2) by simp
  qed
  then show ?thesis by (auto simp: lines_out_def fun_eq_iff)
qed

lemma lines_out_step:
  assumes "unat a mod 64 = 0" and "unat a < hi"
  shows "lines_out (unat a + 64) hi (\<lambda>b. if line_of b = line_of a \<and> p b = Dirty then Pending else p b) = lines_out (unat a) hi p"
proof -
  obtain q where q: "unat a = 64 * q" using assms(1) by (auto elim: dvdE)
  have line: "line_of b = line_of a \<longleftrightarrow> unat b div 64 = q" for b by (simp add: line_of_eq_iff q)
  have "64 * q \<le> B \<longleftrightarrow> B div 64 = q \<or> 64 * q + 64 \<le> B" for B :: nat
    using div_mult_mod_eq [of B 64] by auto
  then show ?thesis using assms(2) by (intro ext) (auto simp: lines_out_def line q)
qed

lemma clwb_loop_lines:
  "unat uptr mod 64 = 0 \<Longrightarrow> unat lim + 64 \<le> 2 ^ 64 \<Longrightarrow>
   (\<And>a. unat uptr \<le> unat a \<Longrightarrow> unat a < unat lim \<Longrightarrow> mapped m (page_of a)) \<Longrightarrow>
   \<exists>m'. clwb_loop uptr lim m = Some (Inr m') \<and> same_env m m' \<and> mem m' = mem m \<and>
     pst m' = lines_out (unat uptr) (unat lim) (pst m)"
proof (induction "unat lim - unat uptr" arbitrary: uptr m rule: less_induct)
  case less
  show ?case
  proof (cases "uptr < lim")
    case False
    then show ?thesis using lines_out_none [OF less.prems(1)] by (simp add: clwb_loop.simps word_less_nat_alt)
  next
    case True
    then have lt: "unat uptr < unat lim" by (simp add: word_less_nat_alt)
    define m1 where "m1 = m\<lparr>pst := (\<lambda>b. if line_of b = line_of uptr \<and> pst m b = Dirty
        then Pending else pst m b)\<rparr>"
    have c: "clwb uptr m = Inr m1" using less.prems(3) [of uptr] lt by (simp add: clwb_def m1_def)
    have u: "unat (uptr + CACHELINE_SIZE) = unat uptr + 64"
      using lt less.prems(2) unat_add_lem [of uptr CACHELINE_SIZE] by (simp add: CACHELINE_SIZE_def)
    have "\<exists>m'. clwb_loop (uptr + CACHELINE_SIZE) lim m1 = Some (Inr m') \<and> same_env m1 m' \<and> mem m' = mem m1 \<and>
        pst m' = lines_out (unat (uptr + CACHELINE_SIZE)) (unat lim) (pst m1)"
      by (rule less.hyps) (use less.prems lt u in \<open>auto simp: m1_def\<close>)
    then obtain m' where m': "clwb_loop (uptr + CACHELINE_SIZE) lim m1 = Some (Inr m')" "same_env m1 m'"
      "mem m' = mem m1" "pst m' = lines_out (unat uptr + 64) (unat lim) (pst m1)" unfolding u by blast
    have "pst m' = lines_out (unat uptr) (unat lim) (pst m)"
      unfolding m'(4) using lines_out_step [OF less.prems(1) lt] by (simp add: m1_def)
    moreover have "same_env m m'" using m'(2) by (simp add: same_env_def m1_def)
    ultimately show ?thesis using True c m' by (simp add: clwb_loop.simps [of uptr] m1_def)
  qed
qed

lemmas clwb_loop_ok = clwb_loop_lines [unfolded lines_out_def [abs_def]]

text \<open>How the loop ends when page 0 is not mapped: behind the limit, at the first line that is not mapped, or,
  when the limit is in the last line and the counter wraps, at address 0.\<close>

definition clwb_ends :: "u64 \<Rightarrow> u64 \<Rightarrow> machine \<Rightarrow> fault + machine \<Rightarrow> bool" where
  "clwb_ends start lim m r \<longleftrightarrow> (case r of
     Inl e \<Rightarrow> \<exists>l. e = PageFault l \<and> unat l mod 64 = 0 \<and> \<not> mapped m (page_of l) \<and>
       (if start \<le> l then l < lim else l = 0 \<and> 2 ^ 64 - 64 < unat lim) \<and>
       (\<forall>a. unat a mod 64 = 0 \<and> start \<le> a \<and> a < (if start \<le> l then l else lim) \<longrightarrow> mapped m (page_of a))
   | Inr m' \<Rightarrow> same_env m m' \<and> mem m' = mem m \<and>
       (\<forall>a. unat a mod 64 = 0 \<and> start \<le> a \<and> a < lim \<longrightarrow> mapped m (page_of a)))"

lemma top_line:
  assumes "unat (u :: u64) mod 64 = 0"
  shows "unat u \<le> 2 ^ 64 - 64"
proof -
  obtain q where q: "unat u = 64 * q" using assms by (auto elim: dvdE)
  have "64 * q < 64 * 288230376151711744" using unat_u64_lt [of u] q by simp
  with q show ?thesis by simp
qed

lemma next_line:
  assumes "unat u mod 64 = 0" and "unat a mod 64 = 0" and "u \<le> a" and "unat u + 64 < 2 ^ 64"
  shows "a = u \<or> u + CACHELINE_SIZE \<le> a"
proof -
  have "unat (u + CACHELINE_SIZE) = unat u + 64"
    using assms(4) unat_add_lem [of u CACHELINE_SIZE] by (simp add: CACHELINE_SIZE_def)
  moreover have "unat u \<le> unat a" using assms(3) by (simp add: word_le_nat_alt)
  then have "unat a = unat u \<or> unat u + 64 \<le> unat a" using assms(1,2) by presburger
  ultimately show ?thesis by (auto simp: word_le_nat_alt word_unat_eq_iff)
qed

lemma clwb_ends_env:
  assumes "clwb_ends u lim m1 r" and "same_env m m1" and "mem m1 = mem m"
  shows "clwb_ends u lim m r"
proof -
  have "mapped m1 = mapped m" using assms(2) by (simp add: same_env_def)
  with assms(1,3) same_env_trans [OF assms(2)] show ?thesis by (cases r) (simp_all add: clwb_ends_def)
qed

lemma clwb_ends_step:
  assumes "clwb_ends (u + CACHELINE_SIZE) lim m r" and "unat u mod 64 = 0" and "unat u + 64 < 2 ^ 64"
    and "mapped m (page_of u)" and "u < lim" and "\<not> mapped m (page_of 0)"
  shows "clwb_ends u lim m r"
proof -
  have "unat (u + CACHELINE_SIZE) = unat u + 64"
    using assms(3) unat_add_lem [of u CACHELINE_SIZE] by (simp add: CACHELINE_SIZE_def)
  then have le: "u \<le> a" if "u + CACHELINE_SIZE \<le> a" for a using that by (simp add: word_le_nat_alt)
  have "u \<noteq> 0" using assms(4,6) by auto
  then have z: "\<not> u \<le> 0" by (simp add: word_le_nat_alt unat_eq_zero)
  have all: "mapped m (page_of a)" if "\<forall>a. unat a mod 64 = 0 \<and> u + CACHELINE_SIZE \<le> a \<and> a < k \<longrightarrow> mapped m (page_of a)"
    "unat a mod 64 = 0" "u \<le> a" "a < k" for a k
    using next_line [OF assms(2) that(2,3) assms(3)] that assms(4) by auto
  show ?thesis
  proof (cases r)
    case (Inr m')
    with assms(1) all [of lim] show ?thesis unfolding clwb_ends_def by simp
  next
    case (Inl e)
    with assms(1) obtain l where l: "e = PageFault l" "unat l mod 64 = 0" "\<not> mapped m (page_of l)"
      "if u + CACHELINE_SIZE \<le> l then l < lim else l = 0 \<and> 2 ^ 64 - 64 < unat lim"
      "\<forall>a. unat a mod 64 = 0 \<and> u + CACHELINE_SIZE \<le> a \<and> a < (if u + CACHELINE_SIZE \<le> l then l else lim) \<longrightarrow> mapped m (page_of a)"
      unfolding clwb_ends_def by auto
    have "u + CACHELINE_SIZE \<le> l \<longleftrightarrow> u \<le> l" using le [of l] z l(4) by (auto split: if_splits)
    with l all [OF l(5)] show ?thesis unfolding Inl clwb_ends_def sum.case by (intro exI [of _ l]) simp
  qed
qed

lemma clwb_loop_ends:
  "unat u mod 64 = 0 \<Longrightarrow> \<not> mapped m (page_of 0) \<Longrightarrow> \<exists>r. clwb_loop u lim m = Some r \<and> clwb_ends u lim m r"
proof (induction "2 ^ 64 - unat u" arbitrary: u m rule: less_induct)
  case less
  show ?case
  proof (cases "u < lim \<and> mapped m (page_of u)")
    case False
    with less.prems show ?thesis
      by (cases "u < lim") (auto simp: clwb_loop.simps [of u] clwb_def clwb_ends_def same_env_def)
  next
    case True
    then obtain m1 where m1: "clwb u m = Inr m1" "mapped m1 = mapped m" "same_env m m1" "mem m1 = mem m"
      by (simp add: clwb_def same_env_def)
    have step: "clwb_loop u lim m = clwb_loop (u + CACHELINE_SIZE) lim m1" using True m1(1) by (simp add: clwb_loop.simps [of u])
    show ?thesis
    proof (cases "unat u + 64 < 2 ^ 64")
      case fit: True
      have u: "unat (u + CACHELINE_SIZE) = unat u + 64"
        using fit unat_add_lem [of u CACHELINE_SIZE] by (simp add: CACHELINE_SIZE_def)
      have "\<exists>r. clwb_loop (u + CACHELINE_SIZE) lim m1 = Some r \<and> clwb_ends (u + CACHELINE_SIZE) lim m1 r"
        by (rule less.hyps) (use u fit less.prems m1(2) in \<open>simp_all\<close>)
      then obtain r where r: "clwb_loop (u + CACHELINE_SIZE) lim m1 = Some r" "clwb_ends (u + CACHELINE_SIZE) lim m r"
        using clwb_ends_env [OF _ m1(3,4)] by blast
      with clwb_ends_step [OF r(2) less.prems(1) fit _ _ less.prems(2)] True show ?thesis unfolding step by blast
    next
      case False
      have top: "unat u = 2 ^ 64 - 64" using False top_line [OF less.prems(1)] by simp
      have "u + CACHELINE_SIZE = 0" using top by (simp add: word_unat_eq_iff unat_word_ariths CACHELINE_SIZE_def)
      moreover have lim: "2 ^ 64 - 64 < unat lim" using True top by (simp add: word_less_nat_alt)
      then have "0 < lim" by (simp add: word_less_nat_alt)
      ultimately have "clwb_loop (u + CACHELINE_SIZE) lim m1 = Some (Inl (PageFault 0))"
        using less.prems(2) m1(2) by (simp add: clwb_loop.simps [of 0] clwb_def)
      moreover have "a = u" if "unat a mod 64 = 0" "u \<le> a" for a
        using that(2) top top_line [OF that(1)] by (simp add: word_unat_eq_iff word_le_nat_alt)
      moreover have "\<not> u \<le> 0" using top by (simp add: word_le_nat_alt)
      ultimately show ?thesis using True lim less.prems(2) unfolding step clwb_ends_def by (auto simp: mod_eq_0_iff_dvd)
    qed
  qed
qed

lemma clwb_extent_ok:
  assumes fits: "unat addr + unat len + 64 \<le> 2 ^ 64"
    and acc: "accessible m addr (unat len)" and pg: "mapped m (page_of addr)"
  shows "\<exists>m'. clwb_extent addr len m = Some (Inr m') \<and> same_env m m' \<and> mem m' = mem m \<and>
    pst m' = (\<lambda>b. if unat addr div 64 \<le> unat b div 64 \<and> 64 * (unat b div 64) < unat addr + unat len \<and>
                   pst m b = Dirty then Pending else pst m b)"
proof -
  let ?u = "addr AND CACHELINE_UNMASK"
  have u: "unat ?u = 64 * (unat addr div 64)" by (rule line_start)
  have lim: "unat (addr + len) = unat addr + unat len"
    using fits unat_add_lem [of addr len] by simp
  have low: "64 * (A div 64) \<le> B \<longleftrightarrow> A div 64 \<le> B div 64" for A B :: nat
    by (metis div_le_mono div_mult_self1_is_m less_eq_div_iff_mult_less_eq mult.commute zero_less_numeral)
  have map: "mapped m (page_of a)" if "unat ?u \<le> unat a" "unat a < unat (addr + len)" for a
  proof (cases "unat addr \<le> unat a")
    case True
    then have i: "unat a - unat addr < unat len" using that(2) lim by simp
    have "mapped m (page_of (addr + of_nat i))" if "i < unat len" for i
      using acc that by (simp add: accessible_def)
    from this [OF i] show ?thesis using True by (simp add: of_nat_diff)
  next
    case False
    then have "unat a div 64 \<le> unat addr div 64" by (intro div_le_mono) simp
    moreover have "unat addr div 64 \<le> unat a div 64" using that(1) unfolding u low .
    ultimately have "line_of a = line_of addr" unfolding line_of_eq_iff by (rule le_antisym)
    from same_line_same_page [OF this] show ?thesis using pg by simp
  qed
  have "unat ?u mod 64 = 0" "unat (addr + len) + 64 \<le> 2 ^ 64" using u lim fits by simp_all
  from clwb_loop_ok [OF this map] show ?thesis
    by (auto simp: clwb_extent_def u low lim)
qed

section \<open>Native routines\<close>

text \<open>
  The three parts of memset_native_flush and cpy_native_flush around their memset or memcpy:
  up to the first line boundary, whole lines, the rest.
\<close>

definition native_head :: "(u64 \<Rightarrow> u64 \<Rightarrow> u64 \<Rightarrow> prog) \<Rightarrow> stmt" where
  "native_head op f =
     (if f_dest f AND CACHELINE_MASK > 0
      then let cnt0 = CACHELINE_SIZE - (f_dest f AND CACHELINE_MASK);
               cnt = (if cnt0 > f_len f then f_len f else cnt0)
           in step_by (\<lambda>d s. run_all [op d s cnt, clwb (d AND CACHELINE_UNMASK)]) cnt f
      else Inr f)"

function native_loop :: "(u64 \<Rightarrow> u64 \<Rightarrow> u64 \<Rightarrow> prog) \<Rightarrow> stmt" where
  "native_loop op f =
     (if f_len f \<ge> CACHELINE_SIZE
      then (case step_by (\<lambda>d s. run_all [op d s CACHELINE_SIZE, clwb d]) CACHELINE_SIZE f of
              Inl e \<Rightarrow> Inl e | Inr f' \<Rightarrow> native_loop op f')
      else Inr f)"
  by pat_completeness auto
termination
proof (relation "measure (\<lambda>(op, f). unat (f_len f))")
  fix op :: "u64 \<Rightarrow> u64 \<Rightarrow> u64 \<Rightarrow> prog" and f f' :: frame
  assume "CACHELINE_SIZE \<le> f_len f"
    and "step_by (\<lambda>d s. run_all [op d s CACHELINE_SIZE, clwb d]) CACHELINE_SIZE f = Inr f'"
  then have "f_len f' = f_len f - 64" "64 \<le> f_len f"
    by (auto simp: step_by_def CACHELINE_SIZE_def split: sum.splits)
  then show "((op, f'), op, f) \<in> measure (\<lambda>(op, f). unat (f_len f))"
    by (simp add: unat_sub word_le_nat_alt)
qed simp

declare native_loop.simps [simp del]

definition native_tail :: "(u64 \<Rightarrow> u64 \<Rightarrow> u64 \<Rightarrow> prog) \<Rightarrow> stmt" where
  "native_tail op f =
     (if f_len f = 0 then Inr f
      else on_mach (\<lambda>m. run_all [op (f_dest f) (f_src f) (f_len f), clwb (f_dest f)] m) f)"

definition memset_native_noflush :: "u64 \<Rightarrow> u32 \<Rightarrow> u64 \<Rightarrow> prog" where
  "memset_native_noflush dest c len = memset dest c len"

definition memset_native_flush :: "u64 \<Rightarrow> u32 \<Rightarrow> u64 \<Rightarrow> prog" where
  "memset_native_flush dest c len m =
     leave (run_all [native_head (\<lambda>d s n. memset d c n), native_loop (\<lambda>d s n. memset d c n),
                     native_tail (\<lambda>d s n. memset d c n)] (enter dest dest len m))"

definition cpy_native_noflush :: "u64 \<Rightarrow> u64 \<Rightarrow> u64 \<Rightarrow> prog" where
  "cpy_native_noflush dest src len = memcpy dest src len"

definition cpy_native_flush :: "u64 \<Rightarrow> u64 \<Rightarrow> u64 \<Rightarrow> prog" where
  "cpy_native_flush dest src len m =
     leave (run_all [native_head memcpy, native_loop memcpy, native_tail memcpy] (enter dest src len m))"

text \<open>What the native routines need of memcpy and memset.\<close>

locale byte_op =
  fixes x :: xfer and op :: "u64 \<Rightarrow> u64 \<Rightarrow> u64 \<Rightarrow> prog"
  assumes writes: "x \<noteq> Touch"
    and op_moves: "accessible m d (unat n) \<Longrightarrow> (x = Copy \<Longrightarrow> accessible m s (unat n) \<and> apart (unat n) d s) \<Longrightarrow>
      \<exists>m'. op d s n m = Inr m' \<and> moved x Dirty d s (unat n) m m'"
begin

lemma op_clwb:
  assumes v: "valid x f" and n: "unat n \<le> unat (f_len f)" and fit: "unat (f_dest f) mod 64 + unat n \<le> 64"
    and pg: "mapped (mach f) (page_of (f_dest f))" and a: "line_of a = line_of (f_dest f)"
  shows "\<exists>m'. run_all [op (f_dest f) (f_src f) n, clwb a] (mach f) = Inr m' \<and>
    moved x Pending (f_dest f) (f_src f) (unat n) (mach f) m'"
proof -
  have "accessible (mach f) (f_dest f) (unat n)"
    "x = Copy \<Longrightarrow> accessible (mach f) (f_src f) (unat n) \<and> apart (unat n) (f_dest f) (f_src f)"
    using v n by (auto simp: valid_def intro: accessible_mono apart_mono)
  from op_moves [OF this] obtain m1 where m1: "op (f_dest f) (f_src f) n (mach f) = Inr m1"
    and mv: "moved x Dirty (f_dest f) (f_src f) (unat n) (mach f) m1" by blast
  from clwb_pending [OF mv writes fit a pg] m1 show ?thesis by auto
qed

lemma op_step:
  assumes v: "valid x f" and n: "unat n \<le> unat (f_len f)" and fit: "unat (f_dest f) mod 64 + unat n \<le> 64"
    and pg: "mapped (mach f) (page_of (f_dest f))" and a: "line_of (g (f_dest f)) = line_of (f_dest f)"
  shows "\<exists>f'. step_by (\<lambda>d s. run_all [op d s n, clwb (g d)]) n f = Inr f' \<and> reached x Pending f (unat n) f'"
proof -
  obtain m' where m': "run_all [op (f_dest f) (f_src f) n, clwb (g (f_dest f))] (mach f) = Inr m'"
    and mv: "moved x Pending (f_dest f) (f_src f) (unat n) (mach f) m'"
    using op_clwb [OF v n fit pg a] by blast
  have "unat (f_len f - n) = unat (f_len f) - unat n" using n by (simp add: unat_sub word_le_nat_alt)
  then show ?thesis using m' mv n by (simp add: step_by_def reached_def del: run_all.simps)
qed

lemma native_head_reached:
  assumes v: "valid x f" and pg: "mapped (mach f) (page_of (f_dest f))"
  shows "\<exists>k f'. native_head op f = Inr f' \<and> reached x Pending f k f' \<and>
    (unat (f_dest f') mod 64 = 0 \<or> unat (f_len f') = 0)"
proof (cases "unat (f_dest f) mod 64 = 0")
  case True
  then have "f_dest f AND CACHELINE_MASK = 0" using masked_offset [of "f_dest f"] by simp
  then show ?thesis using True by (auto simp: native_head_def intro: reached_0)
next
  case False
  let ?c0 = "CACHELINE_SIZE - (f_dest f AND CACHELINE_MASK)"
  define cnt where "cnt = (if ?c0 > f_len f then f_len f else ?c0)"
  have mask: "CACHELINE_MASK = 63" by (simp add: CACHELINE_MASK_def CACHELINE_SIZE_def)
  have pos: "f_dest f AND CACHELINE_MASK > 0" using False masked_offset [of "f_dest f"] by (simp add: word_neq_0_conv)
  have "f_dest f AND 63 \<le> 63" by (rule word_and_le1)
  then have le: "f_dest f AND 63 \<le> 64" by (simp add: word_le_nat_alt)
  have c0: "unat ?c0 = 64 - unat (f_dest f) mod 64"
    using unat_sub [OF le] by (simp add: mask CACHELINE_SIZE_def and63_unat)
  have cnt: "unat cnt = min (unat (f_len f)) (64 - unat (f_dest f) mod 64)"
    unfolding cnt_def using c0 by (simp add: word_less_nat_alt)
  have lt: "unat (f_dest f) mod 64 < 64" by simp
  have "unat cnt \<le> unat (f_len f)" "unat (f_dest f) mod 64 + unat cnt \<le> 64" using cnt lt by linarith+
  from op_step [OF v this pg, of "\<lambda>d. d AND CACHELINE_UNMASK"] obtain f' where
    f': "step_by (\<lambda>d s. run_all [op d s cnt, clwb (d AND CACHELINE_UNMASK)]) cnt f = Inr f'"
    and r: "reached x Pending f (unat cnt) f'" by (auto simp: unmask_line)
  have "unat (f_dest f') mod 64 = 0 \<or> unat (f_len f') = 0"
    using reached_frame_mods(1,4) [OF r] cnt lt by (auto simp: min_def split: if_splits)
  with f' r pos show ?thesis by (auto simp: native_head_def Let_def cnt_def)
qed

lemma native_loop_reached:
  "valid x f \<Longrightarrow> unat (f_dest f) mod 64 = 0 \<or> unat (f_len f) = 0 \<Longrightarrow>
   \<exists>k f'. native_loop op f = Inr f' \<and> reached x Pending f k f' \<and> unat (f_len f') < 64 \<and>
     (unat (f_dest f') mod 64 = 0 \<or> unat (f_len f') = 0)"
proof (induction "unat (f_len f)" arbitrary: f rule: less_induct)
  case less
  show ?case
  proof (cases "CACHELINE_SIZE \<le> f_len f")
    case False
    then show ?thesis using less.prems(2)
      by (auto simp: native_loop.simps [of op f] word_le_nat_alt CACHELINE_SIZE_def intro!: reached_0)
  next
    case True
    have c: "unat CACHELINE_SIZE = 64" by (simp add: CACHELINE_SIZE_def)
    with True have n: "unat CACHELINE_SIZE \<le> unat (f_len f)" by (simp add: word_le_nat_alt)
    with c less.prems(2) have d: "unat (f_dest f) mod 64 = 0" by auto
    have fit: "unat (f_dest f) mod 64 + unat CACHELINE_SIZE \<le> 64" using c d by simp
    have "mapped (mach f) (page_of (f_dest f))"
      using less.prems(1) n c by (auto simp: valid_def intro: accessible_page)
    from op_step [OF less.prems(1) n fit this, of "\<lambda>d. d"] obtain f1 where
      f1: "step_by (\<lambda>d s. run_all [op d s CACHELINE_SIZE, clwb d]) CACHELINE_SIZE f = Inr f1"
      and r1: "reached x Pending f 64 f1" by (auto simp: c)
    note mods = reached_frame_mods [OF r1]
    have "unat (f_len f1) < unat (f_len f)" "unat (f_dest f1) mod 64 = 0 \<or> unat (f_len f1) = 0"
      using mods(1,4) n c d by simp_all
    from less.hyps [OF this(1) reached_valid [OF less.prems(1) r1] this(2)] obtain k f2 where
      f2: "native_loop op f1 = Inr f2" "reached x Pending f1 k f2" "unat (f_len f2) < 64"
      "unat (f_dest f2) mod 64 = 0 \<or> unat (f_len f2) = 0" by (elim exE conjE) (rule that)
    have "reached x Pending f (64 + k) f2"
      by (rule reached_trans [OF less.prems(1) _ r1 f2(2)]) (simp add: writes)
    with f1 f2 True show ?thesis by (auto simp: native_loop.simps [of op f])
  qed
qed

lemma native_cascade:
  assumes v: "valid x (enter dest src len m)" and pg: "mapped m (page_of dest)"
  shows "\<exists>m'. leave (run_all [native_head op, native_loop op, native_tail op] (enter dest src len m)) = Inr m' \<and>
    moved x Pending dest src (unat len) m m'"
proof -
  let ?f = "enter dest src len m"
  have tch: "x = Touch \<Longrightarrow> Pending = Dirty" using writes by simp
  from native_head_reached [OF v] pg obtain k f1 where f1: "native_head op ?f = Inr f1"
    and r1: "reached x Pending ?f k f1" and e1: "unat (f_dest f1) mod 64 = 0 \<or> unat (f_len f1) = 0"
    by auto
  from native_loop_reached [OF reached_valid [OF v r1] e1] obtain j f2 where
    f2: "native_loop op f1 = Inr f2" and r2: "reached x Pending f1 j f2" and l2: "unat (f_len f2) < 64"
    and e2: "unat (f_dest f2) mod 64 = 0 \<or> unat (f_len f2) = 0" by (elim exE conjE) (rule that)
  note r = reached_trans [OF v tch r1 r2]
  note v2 = reached_valid [OF v r]
  have "\<exists>m'. native_tail op f2 = Inr (f2\<lparr>mach := m'\<rparr>) \<and>
      moved x Pending (f_dest f2) (f_src f2) (unat (f_len f2)) (mach f2) m'"
  proof (cases "f_len f2 = 0")
    case True
    then show ?thesis by (auto simp: native_tail_def intro!: exI [of _ "mach f2"])
  next
    case False
    then have n: "unat (f_len f2) \<noteq> 0" by (simp add: unat_eq_0)
    then have "unat (f_dest f2) mod 64 + unat (f_len f2) \<le> 64" "mapped (mach f2) (page_of (f_dest f2))"
      using e2 l2 v2 by (auto simp: valid_def intro: accessible_page)
    from op_clwb [OF v2 order.refl this refl] False show ?thesis
      by (auto simp: native_tail_def on_mach_def simp del: run_all.simps)
  qed
  then obtain m' where f3: "native_tail op f2 = Inr (f2\<lparr>mach := m'\<rparr>)"
    and mv: "moved x Pending (f_dest f2) (f_src f2) (unat (f_len f2)) (mach f2) m'" by blast
  have "run_all [native_head op, native_loop op, native_tail op] ?f = Inr (f2\<lparr>mach := m'\<rparr>)"
    by (simp add: f1 f2 f3)
  with reached_finish [OF v tch r mv] show ?thesis by (simp add: leave_def)
qed

end

interpretation op_memcpy: byte_op Copy memcpy
  by unfold_locales (simp_all add: memcpy_moved)

interpretation op_memset: byte_op "FillWith (ucast c)" "\<lambda>d s n. memset d c n" for c
  by unfold_locales (simp_all add: memset_moved)

section \<open>Vector routines\<close>

definition cpy_load_store_noflush :: "u64 \<Rightarrow> u64 \<Rightarrow> u64 \<Rightarrow> prog" where
  "cpy_load_store_noflush dest src len m = leave (run_all [
     head_16 cpy_less_16b_noflush,
     if_bit 16 cpy_16b_load_store_noflush,
     if_bit 32 cpy_32b_load_store_noflush,
     while_16x32 cpy_16x32b_load_store_noflush,
     if_ge (8 * 32) cpy_8x32b_load_store_noflush,
     if_ge (4 * 32) cpy_4x32b_load_store_noflush,
     if_ge (2 * 32) cpy_2x32b_load_store_noflush,
     if_ge (1 * 32) cpy_32b_load_store_noflush,
     if_ge 16 cpy_16b_load_store_noflush,
     tail_small cpy_less_16b_noflush] (enter dest src len m))"

definition cpy_load_store_flush :: "u64 \<Rightarrow> u64 \<Rightarrow> u64 \<Rightarrow> prog" where
  "cpy_load_store_flush dest src len m = leave (run_all [
     head_16 cpy_less_16b_noflush,
     if_bit 16 cpy_16b_load_store_noflush,
     if_bit 32 cpy_32b_load_store_noflush,
     flush_head,
     while_16x32 cpy_16x32b_load_store_flush,
     if_ge (8 * 32) cpy_8x32b_load_store_flush,
     if_ge (4 * 32) cpy_4x32b_load_store_flush,
     if_ge (2 * 32) cpy_2x32b_load_store_flush,
     note_tail,
     if_ge (1 * 32) cpy_32b_load_store_noflush,
     if_ge 16 cpy_16b_load_store_noflush,
     tail_small cpy_less_16b_noflush,
     flush_tail] (enter dest src len m))"

definition cpy_ntload_store_noflush :: "u64 \<Rightarrow> u64 \<Rightarrow> u64 \<Rightarrow> prog" where
  "cpy_ntload_store_noflush dest src len m = leave (run_all [
     head_16 cpy_less_16b_noflush,
     if_bit 16 cpy_16b_ntload_store_noflush,
     if_bit 32 cpy_32b_ntload_store_noflush,
     while_16x32 cpy_16x32b_ntload_store_noflush,
     if_ge (8 * 32) cpy_8x32b_ntload_store_noflush,
     if_ge (4 * 32) cpy_4x32b_ntload_store_noflush,
     if_ge (2 * 32) cpy_2x32b_ntload_store_noflush,
     if_ge (1 * 32) cpy_32b_ntload_store_noflush,
     if_ge 16 cpy_16b_ntload_store_noflush,
     tail_small cpy_less_16b_noflush] (enter dest src len m))"

definition cpy_ntload_store_flush :: "u64 \<Rightarrow> u64 \<Rightarrow> u64 \<Rightarrow> prog" where
  "cpy_ntload_store_flush dest src len m = leave (run_all [
     head_16 cpy_less_16b_noflush,
     if_bit 16 cpy_16b_ntload_store_noflush,
     if_bit 32 cpy_32b_ntload_store_noflush,
     flush_head,
     while_16x32 cpy_16x32b_ntload_store_flush,
     if_ge (8 * 32) cpy_8x32b_ntload_store_flush,
     if_ge (4 * 32) cpy_4x32b_ntload_store_flush,
     if_ge (2 * 32) cpy_2x32b_ntload_store_flush,
     note_tail,
     if_ge (1 * 32) cpy_32b_ntload_store_noflush,
     if_ge 16 cpy_16b_ntload_store_noflush,
     tail_small cpy_less_16b_noflush,
     flush_tail] (enter dest src len m))"

definition cpy_load_ntstore :: "u64 \<Rightarrow> u64 \<Rightarrow> u64 \<Rightarrow> prog" where
  "cpy_load_ntstore dest src len m = leave (run_all [
     head_16_clwb cpy_less_16b_noflush,
     if_bit 16 cpy_16b_load_ntstore,
     if_bit 32 cpy_32b_load_ntstore,
     while_16x32 cpy_16x32b_load_ntstore,
     if_ge (8 * 32) cpy_8x32b_load_ntstore,
     if_ge (4 * 32) cpy_4x32b_load_ntstore,
     if_ge (2 * 32) cpy_2x32b_load_ntstore,
     if_ge (1 * 32) cpy_32b_load_ntstore,
     if_ge 16 cpy_16b_load_ntstore,
     tail_small cpy_less_16b_noflush,
     clwb_dest] (enter dest src len m))"

definition cpy_ntload_ntstore :: "u64 \<Rightarrow> u64 \<Rightarrow> u64 \<Rightarrow> prog" where
  "cpy_ntload_ntstore dest src len m = leave (run_all [
     head_16_clwb cpy_less_16b_noflush,
     if_bit 16 cpy_16b_ntload_ntstore,
     if_bit 32 cpy_32b_ntload_ntstore,
     while_16x32 cpy_16x32b_ntload_ntstore,
     if_ge (8 * 32) cpy_8x32b_ntload_ntstore,
     if_ge (4 * 32) cpy_4x32b_ntload_ntstore,
     if_ge (2 * 32) cpy_2x32b_ntload_ntstore,
     if_ge (1 * 32) cpy_32b_ntload_ntstore,
     if_ge 16 cpy_16b_ntload_ntstore,
     tail_small cpy_less_16b_noflush,
     clwb_dest] (enter dest src len m))"

section \<open>The routines keep the cascade contracts\<close>

interpretation r_load_store: plain_routine Copy cpy_less_16b_noflush
  cpy_16b_load_store_noflush cpy_32b_load_store_noflush 32 cpy_2x32b_load_store_noflush
  cpy_4x32b_load_store_noflush cpy_8x32b_load_store_noflush cpy_16x32b_load_store_noflush
  by unfold_locales simp_all

interpretation r_ntload_store: plain_routine Copy cpy_less_16b_noflush
  cpy_16b_ntload_store_noflush cpy_32b_ntload_store_noflush 32 cpy_2x32b_ntload_store_noflush
  cpy_4x32b_ntload_store_noflush cpy_8x32b_ntload_store_noflush cpy_16x32b_ntload_store_noflush
  by unfold_locales simp_all

interpretation r_load_store_flush: flush_routine Copy cpy_less_16b_noflush
  cpy_16b_load_store_noflush cpy_32b_load_store_noflush 64 cpy_2x32b_load_store_flush
  cpy_4x32b_load_store_flush cpy_8x32b_load_store_flush cpy_16x32b_load_store_flush
  by unfold_locales simp_all

interpretation r_ntload_store_flush: flush_routine Copy cpy_less_16b_noflush
  cpy_16b_ntload_store_noflush cpy_32b_ntload_store_noflush 64 cpy_2x32b_ntload_store_flush
  cpy_4x32b_ntload_store_flush cpy_8x32b_ntload_store_flush cpy_16x32b_ntload_store_flush
  by unfold_locales simp_all

interpretation r_load_ntstore: nt_routine Copy cpy_less_16b_noflush
  cpy_16b_load_ntstore cpy_32b_load_ntstore 32 cpy_2x32b_load_ntstore
  cpy_4x32b_load_ntstore cpy_8x32b_load_ntstore cpy_16x32b_load_ntstore
  by unfold_locales simp_all

interpretation r_ntload_ntstore: nt_routine Copy cpy_less_16b_noflush
  cpy_16b_ntload_ntstore cpy_32b_ntload_ntstore 32 cpy_2x32b_ntload_ntstore
  cpy_4x32b_ntload_ntstore cpy_8x32b_ntload_ntstore cpy_16x32b_ntload_ntstore
  by unfold_locales simp_all

section \<open>Misaligned sources\<close>

definition faults :: "u64 \<Rightarrow> (u64 \<Rightarrow> u64 \<Rightarrow> prog) \<Rightarrow> bool" where
  "faults src K \<longleftrightarrow> (\<forall>d m. K d src m = Inl (GPFault src))"

lemma misaligned_load:
  assumes "unat src mod 16 \<noteq> 0"
  shows "asm_block src d (LOAD 0 r # is) m = Inl (GPFault src)"
    and "asm_block src d (NTLOAD 0 r # is) m = Inl (GPFault src)"
proof -
  have "\<not> aligned 32 src"
    using assms mod_mod_cancel [of 16 32 "unat src"] by (auto simp: aligned_def)
  with assms have "\<not> aligned (vwidth r) src" by (cases r) (simp_all add: aligned_def)
  then show "asm_block src d (LOAD 0 r # is) m = Inl (GPFault src)"
    "asm_block src d (NTLOAD 0 r # is) m = Inl (GPFault src)"
    by (simp_all add: asm_block_def vload_def)
qed

lemma misaligned_blocks:
  assumes "unat src mod 16 \<noteq> 0"
  shows "faults src cpy_16b_load_store_noflush" "faults src cpy_32b_load_store_noflush"
    "faults src cpy_2x32b_load_store_noflush" "faults src cpy_4x32b_load_store_noflush"
    "faults src cpy_8x32b_load_store_noflush" "faults src cpy_16x32b_load_store_noflush"
    "faults src cpy_16b_ntload_store_noflush" "faults src cpy_32b_ntload_store_noflush"
    "faults src cpy_2x32b_ntload_store_noflush" "faults src cpy_4x32b_ntload_store_noflush"
    "faults src cpy_8x32b_ntload_store_noflush" "faults src cpy_16x32b_ntload_store_noflush"
    "faults src cpy_2x32b_load_store_flush" "faults src cpy_4x32b_load_store_flush"
    "faults src cpy_8x32b_load_store_flush" "faults src cpy_16x32b_load_store_flush"
    "faults src cpy_2x32b_ntload_store_flush" "faults src cpy_4x32b_ntload_store_flush"
    "faults src cpy_8x32b_ntload_store_flush" "faults src cpy_16x32b_ntload_store_flush"
    "faults src cpy_16b_load_ntstore" "faults src cpy_32b_load_ntstore"
    "faults src cpy_2x32b_load_ntstore" "faults src cpy_4x32b_load_ntstore"
    "faults src cpy_8x32b_load_ntstore" "faults src cpy_16x32b_load_ntstore"
    "faults src cpy_16b_ntload_ntstore" "faults src cpy_32b_ntload_ntstore"
    "faults src cpy_2x32b_ntload_ntstore" "faults src cpy_4x32b_ntload_ntstore"
    "faults src cpy_8x32b_ntload_ntstore" "faults src cpy_16x32b_ntload_ntstore"
  unfolding faults_def
  by (simp_all add: misaligned_load [OF assms]
      cpy_16b_load_store_noflush_def cpy_32b_load_store_noflush_def cpy_2x32b_load_store_noflush_def
      cpy_4x32b_load_store_noflush_def cpy_8x32b_load_store_noflush_def cpy_16x32b_load_store_noflush_def
      cpy_16b_ntload_store_noflush_def cpy_32b_ntload_store_noflush_def cpy_2x32b_ntload_store_noflush_def
      cpy_4x32b_ntload_store_noflush_def cpy_8x32b_ntload_store_noflush_def cpy_16x32b_ntload_store_noflush_def
      cpy_2x32b_load_store_flush_def cpy_4x32b_load_store_flush_def cpy_8x32b_load_store_flush_def
      cpy_16x32b_load_store_flush_def cpy_2x32b_ntload_store_flush_def cpy_4x32b_ntload_store_flush_def
      cpy_8x32b_ntload_store_flush_def cpy_16x32b_ntload_store_flush_def
      cpy_16b_load_ntstore_def cpy_32b_load_ntstore_def cpy_2x32b_load_ntstore_def
      cpy_4x32b_load_ntstore_def cpy_8x32b_load_ntstore_def cpy_16x32b_load_ntstore_def
      cpy_16b_ntload_ntstore_def cpy_32b_ntload_ntstore_def cpy_2x32b_ntload_ntstore_def
      cpy_4x32b_ntload_ntstore_def cpy_8x32b_ntload_ntstore_def cpy_16x32b_ntload_ntstore_def)

lemma misaligned_start:
  assumes d: "unat dest mod 64 = 0" and len: "16 \<le> len"
    and f: "faults src B16" "faults src B32" "faults src K2" "faults src K4" "faults src K8" "faults src KL"
  shows "run_all [head_16 small, if_bit 16 B16', if_bit 32 B32', while_16x32 KL, if_ge (8 * 32) K8,
      if_ge (4 * 32) K4, if_ge (2 * 32) K2, if_ge (1 * 32) B32, if_ge 16 B16, tail_small small]
      (enter dest src len m) = Inl (GPFault src)"
    and "run_all [head_16_clwb small, if_bit 16 B16', if_bit 32 B32', while_16x32 KL, if_ge (8 * 32) K8,
      if_ge (4 * 32) K4, if_ge (2 * 32) K2, if_ge (1 * 32) B32, if_ge 16 B16, tail_small small, clwb_dest]
      (enter dest src len m) = Inl (GPFault src)"
    and "run_all [head_16 small, if_bit 16 B16', if_bit 32 B32', flush_head, while_16x32 KL, if_ge (8 * 32) K8,
      if_ge (4 * 32) K4, if_ge (2 * 32) K2, note_tail, if_ge (1 * 32) B32, if_ge 16 B16, tail_small small,
      flush_tail] (enter dest src len m) = Inl (GPFault src)"
proof -
  let ?f = "enter dest src len m"
  have "unat dest mod 16 = 0" "unat dest mod 32 < 16" "unat dest mod 64 < 32"
    using d mod_mod_cancel [of 16 64 "unat dest"] mod_mod_cancel [of 32 64 "unat dest"] by simp_all
  then have skip: "head_16 small ?f = Inr ?f" "head_16_clwb small ?f = Inr ?f"
      "if_bit 16 B16' ?f = Inr ?f" "if_bit 32 B32' ?f = Inr ?f" "flush_head ?f = Inr ?f"
    using d masked_offset [of dest] unat_eq_0 [of "dest AND 15"]
    by (simp_all add: head_16_def head_16_clwb_def if_bit_def flush_head_def addr_simps and15_unat)
  have "while_16x32 KL ?f = (if 512 \<le> len then Inl (GPFault src) else Inr ?f)"
    using f(6) by (simp add: while_16x32.simps [of KL ?f] step_by_def faults_def)
  moreover have "if_ge n K g = (if n \<le> f_len g then Inl (GPFault src) else Inr g)"
    if "faults src K" "f_src g = src" for n K g
    using that by (simp add: if_ge_def step_by_def faults_def)
  ultimately show
    "run_all [head_16 small, if_bit 16 B16', if_bit 32 B32', while_16x32 KL, if_ge (8 * 32) K8,
      if_ge (4 * 32) K4, if_ge (2 * 32) K2, if_ge (1 * 32) B32, if_ge 16 B16, tail_small small]
      ?f = Inl (GPFault src)"
    "run_all [head_16_clwb small, if_bit 16 B16', if_bit 32 B32', while_16x32 KL, if_ge (8 * 32) K8,
      if_ge (4 * 32) K4, if_ge (2 * 32) K2, if_ge (1 * 32) B32, if_ge 16 B16, tail_small small, clwb_dest]
      ?f = Inl (GPFault src)"
    "run_all [head_16 small, if_bit 16 B16', if_bit 32 B32', flush_head, while_16x32 KL, if_ge (8 * 32) K8,
      if_ge (4 * 32) K4, if_ge (2 * 32) K2, note_tail, if_ge (1 * 32) B32, if_ge 16 B16, tail_small small,
      flush_tail] ?f = Inl (GPFault src)"
    using f len by (simp_all add: skip note_tail_def)
qed

section \<open>Properties\<close>

text \<open>cpy_load_store_noflush copies exactly: on mapped ranges that do not overlap, with source and
  destination congruent modulo 32, it does not fault for any length and alignment, afterwards
  the destination holds the source's bytes, no other byte of memory changed, and precisely the
  written bytes are dirty in the cache.\<close>

theorem cpy_load_store_noflush_copies:
  assumes "can_copy m dest src len" and "unat src mod 32 = unat dest mod 32"
  shows "\<exists>m'. cpy_load_store_noflush dest src len m = Inr m' \<and>
    mem m' = (\<lambda>a. if in_range dest (unat len) a then mem m (src + (a - dest)) else mem m a) \<and>
    pst m' = (\<lambda>a. if in_range dest (unat len) a then Dirty else pst m a)"
  using r_load_store.plain_cascade [OF ready_copy [OF assms]]
  by (auto simp: cpy_load_store_noflush_def simp del: run_all.simps dest!: moved_Copy_Dirty)

theorem cpy_load_store_noflush_copies_witness:
  "\<exists>m'. cpy_load_store_noflush 4099 12291 1000 demo_machine = Inr m' \<and>
    mem m' = (\<lambda>a. if in_range 4099 1000 a then ucast (12291 + (a - 4099)) else ucast a) \<and>
    pst m' = (\<lambda>a. if in_range 4099 1000 a then Dirty else Durable)"
  using cpy_load_store_noflush_copies [of demo_machine 4099 12291 1000]
  by (simp add: can_copy_def apart_def cong: if_cong)

text \<open>cpy_ntload_store_noflush, the variant with non-temporal loads, copies exactly the requested
  bytes, for any length and alignment, and leaves precisely them dirty in the cache.\<close>

theorem cpy_ntload_store_noflush_copies:
  assumes "can_copy m dest src len" and "unat src mod 32 = unat dest mod 32"
  shows "\<exists>m'. cpy_ntload_store_noflush dest src len m = Inr m' \<and>
    mem m' = (\<lambda>a. if in_range dest (unat len) a then mem m (src + (a - dest)) else mem m a) \<and>
    pst m' = (\<lambda>a. if in_range dest (unat len) a then Dirty else pst m a)"
  using r_ntload_store.plain_cascade [OF ready_copy [OF assms]]
  by (auto simp: cpy_ntload_store_noflush_def simp del: run_all.simps dest!: moved_Copy_Dirty)

theorem cpy_ntload_store_noflush_copies_witness:
  "\<exists>m'. cpy_ntload_store_noflush 4099 12291 1000 demo_machine = Inr m' \<and>
    mem m' = (\<lambda>a. if in_range 4099 1000 a then ucast (12291 + (a - 4099)) else ucast a) \<and>
    pst m' = (\<lambda>a. if in_range 4099 1000 a then Dirty else Durable)"
  using cpy_ntload_store_noflush_copies [of demo_machine 4099 12291 1000]
  by (simp add: can_copy_def apart_def cong: if_cong)

text \<open>C9: cpy_load_store_flush is durable after one fence: it copies exactly the requested bytes, and
  once a store fence follows, every memory image a power failure may leave holds the copied
  bytes in the destination and all data that was durable elsewhere.\<close>

theorem cpy_load_store_flush_durable:
  assumes "can_copy m dest src len" and "unat src mod 32 = unat dest mod 32"
    and "mapped m (page_of dest)"
  shows "\<exists>m'. cpy_load_store_flush dest src len m = Inr m' \<and>
    mem m' = (\<lambda>a. if in_range dest (unat len) a then mem m (src + (a - dest)) else mem m a) \<and>
    (\<forall>img a. crash_image (sfence m') img \<longrightarrow>
       (in_range dest (unat len) a \<longrightarrow> img a = mem m (src + (a - dest))) \<and>
       (\<not> in_range dest (unat len) a \<and> pst m a = Durable \<longrightarrow> img a = mem m a))"
proof -
  obtain m' where "cpy_load_store_flush dest src len m = Inr m'" and mv: "moved Copy Pending dest src (unat len) m m'"
    using r_load_store_flush.flush_cascade [OF ready_copy [OF assms(1,2)] assms(3)] by (auto simp: cpy_load_store_flush_def)
  with moved_Copy_mem [OF mv] moved_crash_Copy [OF mv] show ?thesis by blast
qed

theorem cpy_load_store_flush_durable_witness:
  "\<exists>m'. cpy_load_store_flush 4099 12291 1000 demo_machine = Inr m' \<and>
    mem m' = (\<lambda>a. if in_range 4099 1000 a then ucast (12291 + (a - 4099)) else ucast a) \<and>
    (\<forall>img a. crash_image (sfence m') img \<longrightarrow>
       (in_range 4099 1000 a \<longrightarrow> img a = ucast (12291 + (a - 4099))) \<and>
       (\<not> in_range 4099 1000 a \<longrightarrow> img a = ucast a))"
  using cpy_load_store_flush_durable [of demo_machine 4099 12291 1000]
  by (simp add: can_copy_def apart_def cong: if_cong)

text \<open>cpy_ntload_store_flush copies exactly the requested bytes and is durable after one fence.\<close>

theorem cpy_ntload_store_flush_durable:
  assumes "can_copy m dest src len" and "unat src mod 32 = unat dest mod 32"
    and "mapped m (page_of dest)"
  shows "\<exists>m'. cpy_ntload_store_flush dest src len m = Inr m' \<and>
    mem m' = (\<lambda>a. if in_range dest (unat len) a then mem m (src + (a - dest)) else mem m a) \<and>
    (\<forall>img a. crash_image (sfence m') img \<longrightarrow>
       (in_range dest (unat len) a \<longrightarrow> img a = mem m (src + (a - dest))) \<and>
       (\<not> in_range dest (unat len) a \<and> pst m a = Durable \<longrightarrow> img a = mem m a))"
proof -
  obtain m' where "cpy_ntload_store_flush dest src len m = Inr m'" and mv: "moved Copy Pending dest src (unat len) m m'"
    using r_ntload_store_flush.flush_cascade [OF ready_copy [OF assms(1,2)] assms(3)] by (auto simp: cpy_ntload_store_flush_def)
  with moved_Copy_mem [OF mv] moved_crash_Copy [OF mv] show ?thesis by blast
qed

theorem cpy_ntload_store_flush_durable_witness:
  "\<exists>m'. cpy_ntload_store_flush 4099 12291 1000 demo_machine = Inr m' \<and>
    mem m' = (\<lambda>a. if in_range 4099 1000 a then ucast (12291 + (a - 4099)) else ucast a) \<and>
    (\<forall>img a. crash_image (sfence m') img \<longrightarrow>
       (in_range 4099 1000 a \<longrightarrow> img a = ucast (12291 + (a - 4099))) \<and>
       (\<not> in_range 4099 1000 a \<longrightarrow> img a = ucast a))"
  using cpy_ntload_store_flush_durable [of demo_machine 4099 12291 1000]
  by (simp add: can_copy_def apart_def cong: if_cong)

text \<open>C10: cpy_load_ntstore, with non-temporal stores, copies exactly the requested bytes and is durable
  after one fence, provided that the page of the byte after the destination is mapped as well.\<close>

theorem cpy_load_ntstore_durable:
  assumes "can_copy m dest src len" and "unat src mod 32 = unat dest mod 32"
    and "mapped m (page_of dest)" and "mapped m (page_of (dest + len))"
  shows "\<exists>m'. cpy_load_ntstore dest src len m = Inr m' \<and>
    mem m' = (\<lambda>a. if in_range dest (unat len) a then mem m (src + (a - dest)) else mem m a) \<and>
    (\<forall>img a. crash_image (sfence m') img \<longrightarrow>
       (in_range dest (unat len) a \<longrightarrow> img a = mem m (src + (a - dest))) \<and>
       (\<not> in_range dest (unat len) a \<and> pst m a = Durable \<longrightarrow> img a = mem m a))"
proof -
  obtain m' where "cpy_load_ntstore dest src len m = Inr m'" and mv: "moved Copy Pending dest src (unat len) m m'"
    using r_load_ntstore.nt_cascade [OF ready_copy [OF assms(1,2)] assms(3,4)] by (auto simp: cpy_load_ntstore_def)
  with moved_Copy_mem [OF mv] moved_crash_Copy [OF mv] show ?thesis by blast
qed

theorem cpy_load_ntstore_durable_witness:
  "\<exists>m'. cpy_load_ntstore 4099 12291 1000 demo_machine = Inr m' \<and>
    mem m' = (\<lambda>a. if in_range 4099 1000 a then ucast (12291 + (a - 4099)) else ucast a) \<and>
    (\<forall>img a. crash_image (sfence m') img \<longrightarrow>
       (in_range 4099 1000 a \<longrightarrow> img a = ucast (12291 + (a - 4099))) \<and>
       (\<not> in_range 4099 1000 a \<longrightarrow> img a = ucast a))"
  using cpy_load_ntstore_durable [of demo_machine 4099 12291 1000]
  by (simp add: can_copy_def apart_def cong: if_cong)

text \<open>cpy_ntload_ntstore copies exactly the requested bytes and is durable after one fence, under
  the same proviso.\<close>

theorem cpy_ntload_ntstore_durable:
  assumes "can_copy m dest src len" and "unat src mod 32 = unat dest mod 32"
    and "mapped m (page_of dest)" and "mapped m (page_of (dest + len))"
  shows "\<exists>m'. cpy_ntload_ntstore dest src len m = Inr m' \<and>
    mem m' = (\<lambda>a. if in_range dest (unat len) a then mem m (src + (a - dest)) else mem m a) \<and>
    (\<forall>img a. crash_image (sfence m') img \<longrightarrow>
       (in_range dest (unat len) a \<longrightarrow> img a = mem m (src + (a - dest))) \<and>
       (\<not> in_range dest (unat len) a \<and> pst m a = Durable \<longrightarrow> img a = mem m a))"
proof -
  obtain m' where "cpy_ntload_ntstore dest src len m = Inr m'" and mv: "moved Copy Pending dest src (unat len) m m'"
    using r_ntload_ntstore.nt_cascade [OF ready_copy [OF assms(1,2)] assms(3,4)] by (auto simp: cpy_ntload_ntstore_def)
  with moved_Copy_mem [OF mv] moved_crash_Copy [OF mv] show ?thesis by blast
qed

theorem cpy_ntload_ntstore_durable_witness:
  "\<exists>m'. cpy_ntload_ntstore 4099 12291 1000 demo_machine = Inr m' \<and>
    mem m' = (\<lambda>a. if in_range 4099 1000 a then ucast (12291 + (a - 4099)) else ucast a) \<and>
    (\<forall>img a. crash_image (sfence m') img \<longrightarrow>
       (in_range 4099 1000 a \<longrightarrow> img a = ucast (12291 + (a - 4099))) \<and>
       (\<not> in_range 4099 1000 a \<longrightarrow> img a = ucast a))"
  using cpy_ntload_ntstore_durable [of demo_machine 4099 12291 1000]
  by (simp add: can_copy_def apart_def cong: if_cong)

text \<open>C11: The write-back at the end of the non-temporal copies is unconditional. When the
  destination ends at the end of its cache line and the following page is not mapped, both
  routines fault on an address outside the destination although all arguments are valid.\<close>

theorem cpy_ntstore_overrun:
  assumes "can_copy m dest src len" and "unat src mod 32 = unat dest mod 32"
    and "mapped m (page_of dest)" and "unat (dest + len) mod 64 = 0" and "\<not> mapped m (page_of (dest + len))"
  shows "cpy_load_ntstore dest src len m = Inl (PageFault ((dest + len) AND CACHELINE_UNMASK)) \<and>
    cpy_ntload_ntstore dest src len m = Inl (PageFault ((dest + len) AND CACHELINE_UNMASK))"
  using r_load_ntstore.nt_overrun [OF ready_copy [OF assms(1,2)] assms(3-5)]
    r_ntload_ntstore.nt_overrun [OF ready_copy [OF assms(1,2)] assms(3-5)]
  by (simp add: cpy_load_ntstore_def cpy_ntload_ntstore_def)

theorem cpy_ntstore_overrun_witness:
  "let m = demo_machine\<lparr>mapped := (\<lambda>p. p < 3)\<rparr> in
   cpy_load_ntstore 8192 4096 4096 m = Inl (PageFault (12288 AND CACHELINE_UNMASK)) \<and>
   cpy_ntload_ntstore 8192 4096 4096 m = Inl (PageFault (12288 AND CACHELINE_UNMASK))"
proof -
  let ?m = "demo_machine\<lparr>mapped := (\<lambda>p. p < 3)\<rparr>"
  have "accessible ?m a 4096" if "unat a + 4096 \<le> 12288" for a
  proof -
    have "page_of (a + of_nat i) < 3" if "i < 4096" for i
    proof -
      have "unat (a + of_nat i) = unat a + i"
        using that \<open>unat a + 4096 \<le> 12288\<close> by (simp add: unat_word_ariths unat_of_nat)
      moreover have "unat (page_of b) = unat b div 4096" for b
        using unat_drop_bit_eq [of 12 b] by (simp add: page_of_def drop_bit_eq_div unat_div_distrib)
      ultimately show ?thesis
        using that \<open>unat a + 4096 \<le> 12288\<close> by (simp add: word_less_nat_alt less_mult_imp_div_less)
    qed
    then show ?thesis by (simp add: accessible_def)
  qed
  then have "can_copy ?m 8192 4096 4096" by (simp add: can_copy_def apart_def)
  from cpy_ntstore_overrun [OF this] show ?thesis by (simp add: page_of_def drop_bit_eq_div Let_def)
qed

text \<open>C18: cpy_native_flush, memcpy line by line with write-backs, copies exactly the requested
  bytes for any alignment of either pointer and is durable after one fence.\<close>

theorem cpy_native_flush_durable:
  assumes "can_copy m dest src len" and "mapped m (page_of dest)"
  shows "\<exists>m'. cpy_native_flush dest src len m = Inr m' \<and>
    mem m' = (\<lambda>a. if in_range dest (unat len) a then mem m (src + (a - dest)) else mem m a) \<and>
    (\<forall>img a. crash_image (sfence m') img \<longrightarrow>
       (in_range dest (unat len) a \<longrightarrow> img a = mem m (src + (a - dest))) \<and>
       (\<not> in_range dest (unat len) a \<and> pst m a = Durable \<longrightarrow> img a = mem m a))"
proof -
  have "valid Copy (enter dest src len m)" using assms(1) by (simp add: valid_def can_copy_def)
  from op_memcpy.native_cascade [OF this assms(2)] obtain m' where
    "cpy_native_flush dest src len m = Inr m'" and mv: "moved Copy Pending dest src (unat len) m m'"
    by (auto simp: cpy_native_flush_def)
  with moved_Copy_mem [OF mv] moved_crash_Copy [OF mv] show ?thesis by blast
qed

theorem cpy_native_flush_durable_witness:
  "\<exists>m'. cpy_native_flush 4099 12298 1000 demo_machine = Inr m' \<and>
    mem m' = (\<lambda>a. if in_range 4099 1000 a then ucast (12298 + (a - 4099)) else ucast a) \<and>
    (\<forall>img a. crash_image (sfence m') img \<longrightarrow>
       (in_range 4099 1000 a \<longrightarrow> img a = ucast (12298 + (a - 4099))) \<and>
       (\<not> in_range 4099 1000 a \<longrightarrow> img a = ucast a))"
  using cpy_native_flush_durable [of demo_machine 4099 12298 1000]
  by (simp add: can_copy_def apart_def cong: if_cong)

text \<open>C19: memset_native_flush fills exactly the requested bytes with the low byte of its
  argument and is durable after one fence.\<close>

theorem memset_native_flush_durable:
  assumes "can_access m dest len" and "mapped m (page_of dest)"
  shows "\<exists>m'. memset_native_flush dest c len m = Inr m' \<and>
    mem m' = (\<lambda>a. if in_range dest (unat len) a then ucast c else mem m a) \<and>
    (\<forall>img a. crash_image (sfence m') img \<longrightarrow>
       (in_range dest (unat len) a \<longrightarrow> img a = ucast c) \<and>
       (\<not> in_range dest (unat len) a \<and> pst m a = Durable \<longrightarrow> img a = mem m a))"
proof -
  have "valid (FillWith (ucast c)) (enter dest dest len m)"
    using assms(1) by (simp add: valid_def can_access_def)
  from op_memset.native_cascade [OF this assms(2)] obtain m' where
    "memset_native_flush dest c len m = Inr m'"
    and mv: "moved (FillWith (ucast c)) Pending dest dest (unat len) m m'"
    by (auto simp: memset_native_flush_def)
  with moved_FillWith_mem [OF mv] moved_crash_FillWith [OF mv] show ?thesis by blast
qed

theorem memset_native_flush_durable_witness:
  "\<exists>m'. memset_native_flush 4099 255 1000 demo_machine = Inr m' \<and>
    mem m' = (\<lambda>a. if in_range 4099 1000 a then 255 else ucast a) \<and>
    (\<forall>img a. crash_image (sfence m') img \<longrightarrow>
       (in_range 4099 1000 a \<longrightarrow> img a = 255) \<and> (\<not> in_range 4099 1000 a \<longrightarrow> img a = ucast a))"
  using memset_native_flush_durable [of demo_machine 4099 1000 255]
  by (simp add: can_access_def cong: if_cong)

text \<open>C20: cpy_less_16b_noflush copies any length below 16 exactly, whatever the alignment and
  even when the ranges overlap: every branch loads all it needs before it stores.\<close>

theorem cpy_less_16b_exact:
  assumes "len < 16" and "accessible m dest (unat len)" and "accessible m src (unat len)"
  shows "\<exists>m'. cpy_less_16b_noflush dest src len m = Inr m' \<and>
    mem m' = (\<lambda>a. if in_range dest (unat len) a then mem m (src + (a - dest)) else mem m a) \<and>
    pst m' = (\<lambda>a. if in_range dest (unat len) a then Dirty else pst m a)"
proof -
  have "unat len < 16" using assms(1) by (simp add: word_less_nat_alt)
  from cpy_less_16b_moved [OF this assms(2,3)] show ?thesis
    by (auto dest!: moved_Copy_Dirty)
qed

theorem cpy_less_16b_exact_witness:
  "\<exists>m'. cpy_less_16b_noflush 103 100 11 demo_machine = Inr m' \<and>
    mem m' = (\<lambda>a. if in_range 103 11 a then ucast (100 + (a - 103)) else ucast a) \<and>
    pst m' = (\<lambda>a. if in_range 103 11 a then Dirty else Durable)"
  using cpy_less_16b_exact [of 11 demo_machine 103 100] by (simp cong: if_cong)

text \<open>C21: clwb_extent starts the write-back of exactly the cache lines that meet the range: it
  ends, changes no byte of memory, and a dirty byte becomes pending precisely when its line
  starts before the end of the range and not before the line of its first byte.\<close>

theorem clwb_extent_lines:
  assumes fits: "unat addr + unat len + 64 \<le> 2 ^ 64"
    and acc: "accessible m addr (unat len)" and pg: "mapped m (page_of addr)"
  shows "\<exists>m'. clwb_extent addr len m = Some (Inr m') \<and> mem m' = mem m \<and>
    pst m' = (\<lambda>b. if unat addr div 64 \<le> unat b div 64 \<and> 64 * (unat b div 64) < unat addr + unat len \<and>
                   pst m b = Dirty then Pending else pst m b)"
  using clwb_extent_ok [OF assms] by blast

theorem clwb_extent_lines_witness:
  "\<exists>m'. clwb_extent 100 100 demo_machine = Some (Inr m') \<and> mem m' = mem demo_machine \<and>
    pst m' = (\<lambda>b. if 1 \<le> unat b div 64 \<and> 64 * (unat b div 64) < 200 \<and>
                   pst demo_machine b = Dirty then Pending else pst demo_machine b)"
  using clwb_extent_lines [of 100 100 demo_machine] by simp

text \<open>C22: clwb_extent ends in every process, for every range, also when the sum of address and length wraps.
  With page 0 not mapped it either returns, and then every line of its loop was mapped and memory is
  unchanged, or it faults at a line: the first one of its loop that is not mapped, or address 0 if all
  of them are and the range reaches into the last cache line of the address space, where the counter
  wraps before it passes the limit.\<close>

theorem clwb_extent_ends:
  assumes "\<not> mapped m (page_of 0)"
  shows "\<exists>r. clwb_extent addr len m = Some r \<and> clwb_ends (addr AND CACHELINE_UNMASK) (addr + len) m r"
  unfolding clwb_extent_def by (rule clwb_loop_ends [OF _ assms]) (simp add: line_start)

theorem clwb_extent_ends_witness:
  "\<exists>l. clwb_extent 4196 8192 (demo_machine\<lparr>mapped := (\<lambda>p. p = 1 \<or> p = 2)\<rparr>) = Some (Inl (PageFault l)) \<and> l < 12388"
proof -
  let ?m = "demo_machine\<lparr>mapped := (\<lambda>p. p = 1 \<or> p = 2)\<rparr>"
  have p: "page_of 0 = 0" "page_of 12288 = 3" by (simp_all add: page_of_def drop_bit_eq_div)
  have s: "4196 AND CACHELINE_UNMASK = (4160 :: u64)" by (simp add: CACHELINE_UNMASK_def CACHELINE_MASK_def CACHELINE_SIZE_def)
  obtain r where r: "clwb_extent 4196 8192 ?m = Some r" "clwb_ends 4160 12388 ?m r"
    using clwb_extent_ends [of ?m 4196 8192] by (auto simp: p s)
  from r(2) p(2) obtain l where "r = Inl (PageFault l)" "l < 12388"
    unfolding clwb_ends_def by (fastforce split: sum.splits if_splits dest: spec [of _ "12288 :: u64"])
  with r(1) show ?thesis by blast
qed

text \<open>C23: The vector routines require the source to be aligned along with the destination: with
  a line-aligned destination, at least 16 bytes and a source that is no multiple of 16, each of
  the six raises a general protection fault at the source, whatever memory is mapped.\<close>

theorem cpy_vector_misaligned:
  assumes "unat dest mod 64 = 0" and "16 \<le> len" and "unat src mod 16 \<noteq> 0"
  shows "\<forall>cpy \<in> {cpy_load_store_noflush, cpy_ntload_store_noflush, cpy_load_store_flush,
      cpy_ntload_store_flush, cpy_load_ntstore, cpy_ntload_ntstore}. cpy dest src len m = Inl (GPFault src)"
  using misaligned_start [OF assms(1,2)] misaligned_blocks [of src] assms(3)
  by (simp add: cpy_load_store_noflush_def cpy_ntload_store_noflush_def cpy_load_store_flush_def
      cpy_ntload_store_flush_def cpy_load_ntstore_def cpy_ntload_ntstore_def leave_def
      del: run_all.simps)

theorem cpy_vector_misaligned_witness:
  "cpy_load_store_flush 64 1001 16 demo_machine = Inl (GPFault 1001)"
  using cpy_vector_misaligned [of 64 16 1001 demo_machine] by simp

end
