(* ===== verification/Instr_Just.thy ===== *)
theory Instr_Just
  imports Instr
begin

text \<open>
  The one-sided blocks of util/instr_just.h: loads that keep nothing, and stores of whatever
  the vector registers hold. The names drop the leading underscore of the source.
\<close>

section \<open>The blocks\<close>

definition just_16b_load :: "u64 \<Rightarrow> prog" where
  "just_16b_load src = asm_block src src [
     LOAD (0*16) (Xmm 0)]"

definition just_32b_load :: "u64 \<Rightarrow> prog" where
  "just_32b_load src = asm_block src src [
     LOAD (0*32) (Ymm 0)]"

definition just_2x32b_load :: "u64 \<Rightarrow> prog" where
  "just_2x32b_load src = asm_block src src [
     LOAD (0*32) (Ymm 0), LOAD (1*32) (Ymm 1)]"

definition just_4x32b_load :: "u64 \<Rightarrow> prog" where
  "just_4x32b_load src = asm_block src src [
     LOAD (0*32) (Ymm 0), LOAD (1*32) (Ymm 1), LOAD (2*32) (Ymm 2), LOAD (3*32) (Ymm 3)]"

definition just_8x32b_load :: "u64 \<Rightarrow> prog" where
  "just_8x32b_load src = asm_block src src [
     LOAD (0*32) (Ymm 0), LOAD (1*32) (Ymm 1), LOAD (2*32) (Ymm 2), LOAD (3*32) (Ymm 3),
     LOAD (4*32) (Ymm 4), LOAD (5*32) (Ymm 5), LOAD (6*32) (Ymm 6), LOAD (7*32) (Ymm 7)]"

definition just_16x32b_load :: "u64 \<Rightarrow> prog" where
  "just_16x32b_load src = asm_block src src [
     LOAD (0*32) (Ymm 0), LOAD (1*32) (Ymm 1), LOAD (2*32) (Ymm 2), LOAD (3*32) (Ymm 3),
     LOAD (4*32) (Ymm 4), LOAD (5*32) (Ymm 5), LOAD (6*32) (Ymm 6), LOAD (7*32) (Ymm 7),
     LOAD (8*32) (Ymm 8), LOAD (9*32) (Ymm 9), LOAD (10*32) (Ymm 10), LOAD (11*32) (Ymm 11),
     LOAD (12*32) (Ymm 12), LOAD (13*32) (Ymm 13), LOAD (14*32) (Ymm 14), LOAD (15*32) (Ymm 15)]"

definition just_16b_ntload :: "u64 \<Rightarrow> prog" where
  "just_16b_ntload src = asm_block src src [
     NTLOAD (0*16) (Xmm 0)]"

definition just_32b_ntload :: "u64 \<Rightarrow> prog" where
  "just_32b_ntload src = asm_block src src [
     NTLOAD (0*32) (Ymm 0)]"

definition just_2x32b_ntload :: "u64 \<Rightarrow> prog" where
  "just_2x32b_ntload src = asm_block src src [
     NTLOAD (0*32) (Ymm 0), NTLOAD (1*32) (Ymm 1)]"

definition just_4x32b_ntload :: "u64 \<Rightarrow> prog" where
  "just_4x32b_ntload src = asm_block src src [
     NTLOAD (0*32) (Ymm 0), NTLOAD (1*32) (Ymm 1), NTLOAD (2*32) (Ymm 2), NTLOAD (3*32) (Ymm 3)]"

definition just_8x32b_ntload :: "u64 \<Rightarrow> prog" where
  "just_8x32b_ntload src = asm_block src src [
     NTLOAD (0*32) (Ymm 0), NTLOAD (1*32) (Ymm 1), NTLOAD (2*32) (Ymm 2), NTLOAD (3*32) (Ymm 3),
     NTLOAD (4*32) (Ymm 4), NTLOAD (5*32) (Ymm 5), NTLOAD (6*32) (Ymm 6), NTLOAD (7*32) (Ymm 7)]"

definition just_16x32b_ntload :: "u64 \<Rightarrow> prog" where
  "just_16x32b_ntload src = asm_block src src [
     NTLOAD (0*32) (Ymm 0), NTLOAD (1*32) (Ymm 1), NTLOAD (2*32) (Ymm 2), NTLOAD (3*32) (Ymm 3),
     NTLOAD (4*32) (Ymm 4), NTLOAD (5*32) (Ymm 5), NTLOAD (6*32) (Ymm 6), NTLOAD (7*32) (Ymm 7),
     NTLOAD (8*32) (Ymm 8), NTLOAD (9*32) (Ymm 9), NTLOAD (10*32) (Ymm 10),
     NTLOAD (11*32) (Ymm 11), NTLOAD (12*32) (Ymm 12), NTLOAD (13*32) (Ymm 13),
     NTLOAD (14*32) (Ymm 14), NTLOAD (15*32) (Ymm 15)]"

definition just_16b_store_noflush :: "u64 \<Rightarrow> prog" where
  "just_16b_store_noflush dest = asm_block dest dest [
     STORE (Xmm 0) (0*16)]"

definition just_32b_store_noflush :: "u64 \<Rightarrow> prog" where
  "just_32b_store_noflush dest = asm_block dest dest [
     STORE (Ymm 0) (0*32)]"

definition just_2x32b_store_noflush :: "u64 \<Rightarrow> prog" where
  "just_2x32b_store_noflush dest = asm_block dest dest [
     STORE (Ymm 0) (0*32), STORE (Ymm 1) (1*32)]"

definition just_4x32b_store_noflush :: "u64 \<Rightarrow> prog" where
  "just_4x32b_store_noflush dest = asm_block dest dest [
     STORE (Ymm 0) (0*32), STORE (Ymm 1) (1*32), STORE (Ymm 2) (2*32), STORE (Ymm 3) (3*32)]"

definition just_8x32b_store_noflush :: "u64 \<Rightarrow> prog" where
  "just_8x32b_store_noflush dest = asm_block dest dest [
     STORE (Ymm 0) (0*32), STORE (Ymm 1) (1*32), STORE (Ymm 2) (2*32), STORE (Ymm 3) (3*32),
     STORE (Ymm 4) (4*32), STORE (Ymm 5) (5*32), STORE (Ymm 6) (6*32), STORE (Ymm 7) (7*32)]"

definition just_16x32b_store_noflush :: "u64 \<Rightarrow> prog" where
  "just_16x32b_store_noflush dest = asm_block dest dest [
     STORE (Ymm 0) (0*32), STORE (Ymm 1) (1*32), STORE (Ymm 2) (2*32), STORE (Ymm 3) (3*32),
     STORE (Ymm 4) (4*32), STORE (Ymm 5) (5*32), STORE (Ymm 6) (6*32), STORE (Ymm 7) (7*32),
     STORE (Ymm 8) (8*32), STORE (Ymm 9) (9*32), STORE (Ymm 10) (10*32), STORE (Ymm 11) (11*32),
     STORE (Ymm 12) (12*32), STORE (Ymm 13) (13*32), STORE (Ymm 14) (14*32),
     STORE (Ymm 15) (15*32)]"

definition just_2x32b_store_flush :: "u64 \<Rightarrow> prog" where
  "just_2x32b_store_flush dest = asm_block dest dest [
     STORE (Ymm 0) (0*32), STORE (Ymm 1) (1*32), CLWB (0*32)]"

definition just_4x32b_store_flush :: "u64 \<Rightarrow> prog" where
  "just_4x32b_store_flush dest = asm_block dest dest [
     STORE (Ymm 0) (0*32), STORE (Ymm 1) (1*32), CLWB (0*32), STORE (Ymm 2) (2*32),
     STORE (Ymm 3) (3*32), CLWB (2*32)]"

definition just_8x32b_store_flush :: "u64 \<Rightarrow> prog" where
  "just_8x32b_store_flush dest = asm_block dest dest [
     STORE (Ymm 0) (0*32), STORE (Ymm 1) (1*32), CLWB (0*32), STORE (Ymm 2) (2*32),
     STORE (Ymm 3) (3*32), CLWB (2*32), STORE (Ymm 4) (4*32), STORE (Ymm 5) (5*32), CLWB (4*32),
     STORE (Ymm 6) (6*32), STORE (Ymm 7) (7*32), CLWB (6*32)]"

definition just_16x32b_store_flush :: "u64 \<Rightarrow> prog" where
  "just_16x32b_store_flush dest = asm_block dest dest [
     STORE (Ymm 0) (0*32), STORE (Ymm 1) (1*32), CLWB (0*32), STORE (Ymm 2) (2*32),
     STORE (Ymm 3) (3*32), CLWB (2*32), STORE (Ymm 4) (4*32), STORE (Ymm 5) (5*32), CLWB (4*32),
     STORE (Ymm 6) (6*32), STORE (Ymm 7) (7*32), CLWB (6*32), STORE (Ymm 8) (8*32),
     STORE (Ymm 9) (9*32), CLWB (8*32), STORE (Ymm 10) (10*32), STORE (Ymm 11) (11*32),
     CLWB (10*32), STORE (Ymm 12) (12*32), STORE (Ymm 13) (13*32), CLWB (12*32),
     STORE (Ymm 14) (14*32), STORE (Ymm 15) (15*32), CLWB (14*32)]"

definition just_16b_ntstore :: "u64 \<Rightarrow> prog" where
  "just_16b_ntstore dest = asm_block dest dest [
     NTSTORE (Xmm 0) (0*16)]"

definition just_32b_ntstore :: "u64 \<Rightarrow> prog" where
  "just_32b_ntstore dest = asm_block dest dest [
     NTSTORE (Ymm 0) (0*32)]"

definition just_2x32b_ntstore :: "u64 \<Rightarrow> prog" where
  "just_2x32b_ntstore dest = asm_block dest dest [
     NTSTORE (Ymm 0) (0*32), NTSTORE (Ymm 1) (1*32)]"

definition just_4x32b_ntstore :: "u64 \<Rightarrow> prog" where
  "just_4x32b_ntstore dest = asm_block dest dest [
     NTSTORE (Ymm 0) (0*32), NTSTORE (Ymm 1) (1*32), NTSTORE (Ymm 2) (2*32),
     NTSTORE (Ymm 3) (3*32)]"

definition just_8x32b_ntstore :: "u64 \<Rightarrow> prog" where
  "just_8x32b_ntstore dest = asm_block dest dest [
     NTSTORE (Ymm 0) (0*32), NTSTORE (Ymm 1) (1*32), NTSTORE (Ymm 2) (2*32),
     NTSTORE (Ymm 3) (3*32), NTSTORE (Ymm 4) (4*32), NTSTORE (Ymm 5) (5*32),
     NTSTORE (Ymm 6) (6*32), NTSTORE (Ymm 7) (7*32)]"

definition just_16x32b_ntstore :: "u64 \<Rightarrow> prog" where
  "just_16x32b_ntstore dest = asm_block dest dest [
     NTSTORE (Ymm 0) (0*32), NTSTORE (Ymm 1) (1*32), NTSTORE (Ymm 2) (2*32),
     NTSTORE (Ymm 3) (3*32), NTSTORE (Ymm 4) (4*32), NTSTORE (Ymm 5) (5*32),
     NTSTORE (Ymm 6) (6*32), NTSTORE (Ymm 7) (7*32), NTSTORE (Ymm 8) (8*32),
     NTSTORE (Ymm 9) (9*32), NTSTORE (Ymm 10) (10*32), NTSTORE (Ymm 11) (11*32),
     NTSTORE (Ymm 12) (12*32), NTSTORE (Ymm 13) (13*32), NTSTORE (Ymm 14) (14*32),
     NTSTORE (Ymm 15) (15*32)]"

section \<open>Every block keeps the kernel contract\<close>

lemma just_16b_load_shape: "just_16b_load d = asm_block d d (loads 16 LOAD 1)"
  by (simp add: just_16b_load_def block_shapes)

interpretation k_just_16b_load: transfer_kernel Touch Dirty 16 16 16 "(\<lambda>d s. just_16b_load d)"
  using load_block [of LOAD 16 1] by (simp add: just_16b_load_shape [abs_def] block_kinds)

lemma just_32b_load_shape: "just_32b_load d = asm_block d d (loads 32 LOAD 1)"
  by (simp add: just_32b_load_def block_shapes)

interpretation k_just_32b_load: transfer_kernel Touch Dirty 32 32 32 "(\<lambda>d s. just_32b_load d)"
  using load_block [of LOAD 32 1] by (simp add: just_32b_load_shape [abs_def] block_kinds)

lemma just_2x32b_load_shape: "just_2x32b_load d = asm_block d d (loads 32 LOAD 2)"
  by (simp add: just_2x32b_load_def block_shapes)

interpretation k_just_2x32b_load: transfer_kernel Touch Dirty 64 32 32 "(\<lambda>d s. just_2x32b_load d)"
  using load_block [of LOAD 32 2] by (simp add: just_2x32b_load_shape [abs_def] block_kinds)

lemma just_4x32b_load_shape: "just_4x32b_load d = asm_block d d (loads 32 LOAD 4)"
  by (simp add: just_4x32b_load_def block_shapes)

interpretation k_just_4x32b_load: transfer_kernel Touch Dirty 128 32 32 "(\<lambda>d s. just_4x32b_load d)"
  using load_block [of LOAD 32 4] by (simp add: just_4x32b_load_shape [abs_def] block_kinds)

lemma just_8x32b_load_shape: "just_8x32b_load d = asm_block d d (loads 32 LOAD 8)"
  by (simp add: just_8x32b_load_def block_shapes)

interpretation k_just_8x32b_load: transfer_kernel Touch Dirty 256 32 32 "(\<lambda>d s. just_8x32b_load d)"
  using load_block [of LOAD 32 8] by (simp add: just_8x32b_load_shape [abs_def] block_kinds)

lemma just_16x32b_load_shape: "just_16x32b_load d = asm_block d d (loads 32 LOAD 16)"
  by (simp add: just_16x32b_load_def block_shapes)

interpretation k_just_16x32b_load: transfer_kernel Touch Dirty 512 32 32 "(\<lambda>d s. just_16x32b_load d)"
  using load_block [of LOAD 32 16] by (simp add: just_16x32b_load_shape [abs_def] block_kinds)

lemma just_16b_ntload_shape: "just_16b_ntload d = asm_block d d (loads 16 NTLOAD 1)"
  by (simp add: just_16b_ntload_def block_shapes)

interpretation k_just_16b_ntload: transfer_kernel Touch Dirty 16 16 16 "(\<lambda>d s. just_16b_ntload d)"
  using load_block [of NTLOAD 16 1] by (simp add: just_16b_ntload_shape [abs_def] block_kinds)

lemma just_32b_ntload_shape: "just_32b_ntload d = asm_block d d (loads 32 NTLOAD 1)"
  by (simp add: just_32b_ntload_def block_shapes)

interpretation k_just_32b_ntload: transfer_kernel Touch Dirty 32 32 32 "(\<lambda>d s. just_32b_ntload d)"
  using load_block [of NTLOAD 32 1] by (simp add: just_32b_ntload_shape [abs_def] block_kinds)

lemma just_2x32b_ntload_shape: "just_2x32b_ntload d = asm_block d d (loads 32 NTLOAD 2)"
  by (simp add: just_2x32b_ntload_def block_shapes)

interpretation k_just_2x32b_ntload: transfer_kernel Touch Dirty 64 32 32 "(\<lambda>d s. just_2x32b_ntload d)"
  using load_block [of NTLOAD 32 2] by (simp add: just_2x32b_ntload_shape [abs_def] block_kinds)

lemma just_4x32b_ntload_shape: "just_4x32b_ntload d = asm_block d d (loads 32 NTLOAD 4)"
  by (simp add: just_4x32b_ntload_def block_shapes)

interpretation k_just_4x32b_ntload: transfer_kernel Touch Dirty 128 32 32 "(\<lambda>d s. just_4x32b_ntload d)"
  using load_block [of NTLOAD 32 4] by (simp add: just_4x32b_ntload_shape [abs_def] block_kinds)

lemma just_8x32b_ntload_shape: "just_8x32b_ntload d = asm_block d d (loads 32 NTLOAD 8)"
  by (simp add: just_8x32b_ntload_def block_shapes)

interpretation k_just_8x32b_ntload: transfer_kernel Touch Dirty 256 32 32 "(\<lambda>d s. just_8x32b_ntload d)"
  using load_block [of NTLOAD 32 8] by (simp add: just_8x32b_ntload_shape [abs_def] block_kinds)

lemma just_16x32b_ntload_shape: "just_16x32b_ntload d = asm_block d d (loads 32 NTLOAD 16)"
  by (simp add: just_16x32b_ntload_def block_shapes)

interpretation k_just_16x32b_ntload: transfer_kernel Touch Dirty 512 32 32 "(\<lambda>d s. just_16x32b_ntload d)"
  using load_block [of NTLOAD 32 16] by (simp add: just_16x32b_ntload_shape [abs_def] block_kinds)

lemma just_16b_store_noflush_shape: "just_16b_store_noflush d = asm_block d d (stores 16 STORE 1)"
  by (simp add: just_16b_store_noflush_def block_shapes)

interpretation k_just_16b_store_noflush: transfer_kernel Scribble Dirty 16 16 16 "(\<lambda>d s. just_16b_store_noflush d)"
  using store_block [of Dirty STORE 16 1] by (simp add: just_16b_store_noflush_shape [abs_def] block_kinds)

lemma just_32b_store_noflush_shape: "just_32b_store_noflush d = asm_block d d (stores 32 STORE 1)"
  by (simp add: just_32b_store_noflush_def block_shapes)

interpretation k_just_32b_store_noflush: transfer_kernel Scribble Dirty 32 32 32 "(\<lambda>d s. just_32b_store_noflush d)"
  using store_block [of Dirty STORE 32 1] by (simp add: just_32b_store_noflush_shape [abs_def] block_kinds)

lemma just_2x32b_store_noflush_shape: "just_2x32b_store_noflush d = asm_block d d (stores 32 STORE 2)"
  by (simp add: just_2x32b_store_noflush_def block_shapes)

interpretation k_just_2x32b_store_noflush: transfer_kernel Scribble Dirty 64 32 32 "(\<lambda>d s. just_2x32b_store_noflush d)"
  using store_block [of Dirty STORE 32 2] by (simp add: just_2x32b_store_noflush_shape [abs_def] block_kinds)

lemma just_4x32b_store_noflush_shape: "just_4x32b_store_noflush d = asm_block d d (stores 32 STORE 4)"
  by (simp add: just_4x32b_store_noflush_def block_shapes)

interpretation k_just_4x32b_store_noflush: transfer_kernel Scribble Dirty 128 32 32 "(\<lambda>d s. just_4x32b_store_noflush d)"
  using store_block [of Dirty STORE 32 4] by (simp add: just_4x32b_store_noflush_shape [abs_def] block_kinds)

lemma just_8x32b_store_noflush_shape: "just_8x32b_store_noflush d = asm_block d d (stores 32 STORE 8)"
  by (simp add: just_8x32b_store_noflush_def block_shapes)

interpretation k_just_8x32b_store_noflush: transfer_kernel Scribble Dirty 256 32 32 "(\<lambda>d s. just_8x32b_store_noflush d)"
  using store_block [of Dirty STORE 32 8] by (simp add: just_8x32b_store_noflush_shape [abs_def] block_kinds)

lemma just_16x32b_store_noflush_shape: "just_16x32b_store_noflush d = asm_block d d (stores 32 STORE 16)"
  by (simp add: just_16x32b_store_noflush_def block_shapes)

interpretation k_just_16x32b_store_noflush: transfer_kernel Scribble Dirty 512 32 32 "(\<lambda>d s. just_16x32b_store_noflush d)"
  using store_block [of Dirty STORE 32 16] by (simp add: just_16x32b_store_noflush_shape [abs_def] block_kinds)

lemma just_2x32b_store_flush_shape: "just_2x32b_store_flush d = asm_block d d (flush_stores 1)"
  by (simp add: just_2x32b_store_flush_def block_shapes)

interpretation k_just_2x32b_store_flush: transfer_kernel Scribble Pending 64 64 32 "(\<lambda>d s. just_2x32b_store_flush d)"
  using flush_block [of 1] by (simp add: just_2x32b_store_flush_shape [abs_def] block_kinds)

lemma just_4x32b_store_flush_shape: "just_4x32b_store_flush d = asm_block d d (flush_stores 2)"
  by (simp add: just_4x32b_store_flush_def block_shapes)

interpretation k_just_4x32b_store_flush: transfer_kernel Scribble Pending 128 64 32 "(\<lambda>d s. just_4x32b_store_flush d)"
  using flush_block [of 2] by (simp add: just_4x32b_store_flush_shape [abs_def] block_kinds)

lemma just_8x32b_store_flush_shape: "just_8x32b_store_flush d = asm_block d d (flush_stores 4)"
  by (simp add: just_8x32b_store_flush_def block_shapes)

interpretation k_just_8x32b_store_flush: transfer_kernel Scribble Pending 256 64 32 "(\<lambda>d s. just_8x32b_store_flush d)"
  using flush_block [of 4] by (simp add: just_8x32b_store_flush_shape [abs_def] block_kinds)

lemma just_16x32b_store_flush_shape: "just_16x32b_store_flush d = asm_block d d (flush_stores 8)"
  by (simp add: just_16x32b_store_flush_def block_shapes)

interpretation k_just_16x32b_store_flush: transfer_kernel Scribble Pending 512 64 32 "(\<lambda>d s. just_16x32b_store_flush d)"
  using flush_block [of 8] by (simp add: just_16x32b_store_flush_shape [abs_def] block_kinds)

lemma just_16b_ntstore_shape: "just_16b_ntstore d = asm_block d d (stores 16 NTSTORE 1)"
  by (simp add: just_16b_ntstore_def block_shapes)

interpretation k_just_16b_ntstore: transfer_kernel Scribble Pending 16 16 16 "(\<lambda>d s. just_16b_ntstore d)"
  using store_block [of Pending NTSTORE 16 1] by (simp add: just_16b_ntstore_shape [abs_def] block_kinds)

lemma just_32b_ntstore_shape: "just_32b_ntstore d = asm_block d d (stores 32 NTSTORE 1)"
  by (simp add: just_32b_ntstore_def block_shapes)

interpretation k_just_32b_ntstore: transfer_kernel Scribble Pending 32 32 32 "(\<lambda>d s. just_32b_ntstore d)"
  using store_block [of Pending NTSTORE 32 1] by (simp add: just_32b_ntstore_shape [abs_def] block_kinds)

lemma just_2x32b_ntstore_shape: "just_2x32b_ntstore d = asm_block d d (stores 32 NTSTORE 2)"
  by (simp add: just_2x32b_ntstore_def block_shapes)

interpretation k_just_2x32b_ntstore: transfer_kernel Scribble Pending 64 32 32 "(\<lambda>d s. just_2x32b_ntstore d)"
  using store_block [of Pending NTSTORE 32 2] by (simp add: just_2x32b_ntstore_shape [abs_def] block_kinds)

lemma just_4x32b_ntstore_shape: "just_4x32b_ntstore d = asm_block d d (stores 32 NTSTORE 4)"
  by (simp add: just_4x32b_ntstore_def block_shapes)

interpretation k_just_4x32b_ntstore: transfer_kernel Scribble Pending 128 32 32 "(\<lambda>d s. just_4x32b_ntstore d)"
  using store_block [of Pending NTSTORE 32 4] by (simp add: just_4x32b_ntstore_shape [abs_def] block_kinds)

lemma just_8x32b_ntstore_shape: "just_8x32b_ntstore d = asm_block d d (stores 32 NTSTORE 8)"
  by (simp add: just_8x32b_ntstore_def block_shapes)

interpretation k_just_8x32b_ntstore: transfer_kernel Scribble Pending 256 32 32 "(\<lambda>d s. just_8x32b_ntstore d)"
  using store_block [of Pending NTSTORE 32 8] by (simp add: just_8x32b_ntstore_shape [abs_def] block_kinds)

lemma just_16x32b_ntstore_shape: "just_16x32b_ntstore d = asm_block d d (stores 32 NTSTORE 16)"
  by (simp add: just_16x32b_ntstore_def block_shapes)

interpretation k_just_16x32b_ntstore: transfer_kernel Scribble Pending 512 32 32 "(\<lambda>d s. just_16x32b_ntstore d)"
  using store_block [of Pending NTSTORE 32 16] by (simp add: just_16x32b_ntstore_shape [abs_def] block_kinds)

end
