(* ===== verification/Aep_Just.thy ===== *)
theory Aep_Just
  imports Cascade Instr_Just
begin

text \<open>
  util/aep_just.h: the routines that only load or only store, the halves of the copy cascades.
  A routine with one pointer keeps it in the frame's destination; its name has lost the
  leading underscore of the source.
\<close>

section \<open>Fewer than 16 bytes\<close>

text \<open>Loads into scratch registers: the value is dropped, an unmapped address faults.\<close>

definition touch :: "nat \<Rightarrow> u64 \<Rightarrow> prog" where
  "touch w a m = (case load_bytes w a m of Inl e \<Rightarrow> Inl e | Inr v \<Rightarrow> Inr m)"

text \<open>The block for 9 to 15 bytes has no return: it is followed by the block at label le8.\<close>

definition just_less_16b_load :: "u64 \<Rightarrow> u64 \<Rightarrow> prog" where
  "just_less_16b_load src len m =
     (if debug m \<and> \<not> len < 16 then Inl AssertFail
      else if len = 0 then Inr m
      else run_all
        ((if len \<le> 8 then [] else [touch 8 src, touch 8 (src + len - 8)]) @
         (if len \<le> 2
          then (if len = 2 then [touch 2 src] else [touch 1 src])
          else if len > 4 then [touch 4 src, touch 4 (src + len - 4)]
          else [touch 2 src, touch 2 (src + len - 2)])) m)"

definition ones :: "nat \<Rightarrow> u8 list" where
  "ones w = replicate w 255"

definition just_less_16b_store :: "u64 \<Rightarrow> u64 \<Rightarrow> prog" where
  "just_less_16b_store dest len m =
     (if debug m \<and> \<not> len < 16 then Inl AssertFail
      else if len = 0 then Inr m
      else if len \<le> 8
      then (if len \<le> 2
            then (if len = 2 then store_bytes dest (ones 2) m else store_bytes dest (ones 1) m)
            else if len > 4
            then run_all [store_bytes dest (ones 4), store_bytes (dest + len - 4) (ones 4)] m
            else run_all [store_bytes dest (ones 2), store_bytes (dest + len - 2) (ones 2)] m)
      else run_all [store_bytes dest (ones 8), store_bytes (dest + len - 8) (ones 8)] m)"

section \<open>The routines\<close>

definition just_load :: "u64 \<Rightarrow> u64 \<Rightarrow> prog" where
  "just_load src len m = leave (run_all [
     head_16 (\<lambda>d s. just_less_16b_load d),
     if_bit 16 (\<lambda>d s. just_16b_load d),
     if_bit 32 (\<lambda>d s. just_32b_load d),
     while_16x32 (\<lambda>d s. just_16x32b_load d),
     if_ge (8 * 32) (\<lambda>d s. just_8x32b_load d),
     if_ge (4 * 32) (\<lambda>d s. just_4x32b_load d),
     if_ge (2 * 32) (\<lambda>d s. just_2x32b_load d),
     if_ge (1 * 32) (\<lambda>d s. just_32b_load d),
     if_ge 16 (\<lambda>d s. just_16b_load d),
     tail_small (\<lambda>d s. just_less_16b_load d)] (enter src src len m))"

definition just_ntload :: "u64 \<Rightarrow> u64 \<Rightarrow> prog" where
  "just_ntload src len m = leave (run_all [
     head_16 (\<lambda>d s. just_less_16b_load d),
     if_bit 16 (\<lambda>d s. just_16b_ntload d),
     if_bit 32 (\<lambda>d s. just_32b_ntload d),
     while_16x32 (\<lambda>d s. just_16x32b_ntload d),
     if_ge (8 * 32) (\<lambda>d s. just_8x32b_ntload d),
     if_ge (4 * 32) (\<lambda>d s. just_4x32b_ntload d),
     if_ge (2 * 32) (\<lambda>d s. just_2x32b_ntload d),
     if_ge (1 * 32) (\<lambda>d s. just_32b_ntload d),
     if_ge 16 (\<lambda>d s. just_16b_ntload d),
     tail_small (\<lambda>d s. just_less_16b_load d)] (enter src src len m))"

definition just_store_noflush :: "u64 \<Rightarrow> u64 \<Rightarrow> prog" where
  "just_store_noflush dest len m = leave (run_all [
     head_16 (\<lambda>d s. just_less_16b_store d),
     if_bit 16 (\<lambda>d s. just_16b_store_noflush d),
     if_bit 32 (\<lambda>d s. just_32b_store_noflush d),
     while_16x32 (\<lambda>d s. just_16x32b_store_noflush d),
     if_ge (8 * 32) (\<lambda>d s. just_8x32b_store_noflush d),
     if_ge (4 * 32) (\<lambda>d s. just_4x32b_store_noflush d),
     if_ge (2 * 32) (\<lambda>d s. just_2x32b_store_noflush d),
     if_ge (1 * 32) (\<lambda>d s. just_32b_store_noflush d),
     if_ge 16 (\<lambda>d s. just_16b_store_noflush d),
     tail_small (\<lambda>d s. just_less_16b_store d)] (enter dest dest len m))"

definition just_store_flush :: "u64 \<Rightarrow> u64 \<Rightarrow> prog" where
  "just_store_flush dest len m = leave (run_all [
     head_16 (\<lambda>d s. just_less_16b_store d),
     if_bit 16 (\<lambda>d s. just_16b_store_noflush d),
     if_bit 32 (\<lambda>d s. just_32b_store_noflush d),
     flush_head,
     while_16x32 (\<lambda>d s. just_16x32b_store_flush d),
     if_ge (8 * 32) (\<lambda>d s. just_8x32b_store_flush d),
     if_ge (4 * 32) (\<lambda>d s. just_4x32b_store_flush d),
     if_ge (2 * 32) (\<lambda>d s. just_2x32b_store_flush d),
     note_tail,
     if_ge (1 * 32) (\<lambda>d s. just_32b_store_noflush d),
     if_ge 16 (\<lambda>d s. just_16b_store_noflush d),
     tail_small (\<lambda>d s. just_less_16b_store d),
     flush_tail] (enter dest dest len m))"

definition just_ntstore :: "u64 \<Rightarrow> u64 \<Rightarrow> prog" where
  "just_ntstore dest len m = leave (run_all [
     head_16_clwb (\<lambda>d s. just_less_16b_store d),
     if_bit 16 (\<lambda>d s. just_16b_ntstore d),
     if_bit 32 (\<lambda>d s. just_32b_ntstore d),
     while_16x32 (\<lambda>d s. just_16x32b_ntstore d),
     if_ge (8 * 32) (\<lambda>d s. just_8x32b_ntstore d),
     if_ge (4 * 32) (\<lambda>d s. just_4x32b_ntstore d),
     if_ge (2 * 32) (\<lambda>d s. just_2x32b_ntstore d),
     if_ge (1 * 32) (\<lambda>d s. just_32b_ntstore d),
     if_ge 16 (\<lambda>d s. just_16b_ntstore d),
     tail_small (\<lambda>d s. just_less_16b_store d),
     clwb_dest] (enter dest dest len m))"

section \<open>The routines keep the cascade contracts\<close>

lemma touch_ok: "accessible m a w \<Longrightarrow> touch w a m = Inr m"
  by (simp add: touch_def load_bytes_def)

lemma touch_end:
  fixes a len :: u64
  assumes "w \<le> unat len" and "w < 16" and "accessible m a (unat len)"
  shows "touch w (a + len - of_nat w) m = Inr m"
proof -
  have "accessible m (a + of_nat (unat len - w)) w"
    using assms accessible_add [of m a "unat len - w" w] by simp
  then show ?thesis unfolding window_end [OF assms(1,2)] by (rule touch_ok)
qed

lemma just_less_16b_load_ok:
  assumes n: "unat len < 16" and a: "accessible m src (unat len)"
  shows "just_less_16b_load src len m = Inr m"
proof -
  have t: "touch w src m = Inr m" if "w \<le> unat len" for w
    using accessible_mono [OF a that] by (rule touch_ok)
  have e: "touch 8 (src + len - 8) m = Inr m" if "8 \<le> unat len"
    using touch_end [OF that _ a] by simp
  have e4: "touch 4 (src + len - 4) m = Inr m" if "4 \<le> unat len"
    using touch_end [OF that _ a] by simp
  have e2: "touch 2 (src + len - 2) m = Inr m" if "2 \<le> unat len"
    using touch_end [OF that _ a] by simp
  have "len = 0 \<longleftrightarrow> unat len = 0" "len = 2 \<longleftrightarrow> unat len = 2"
    using word_unat_eq_iff [of len 0] word_unat_eq_iff [of len 2] by simp_all
  then show ?thesis
    using n by (auto simp: just_less_16b_load_def word_less_nat_alt word_le_nat_alt t e e4 e2)
qed

lemma store_ends:
  fixes d len :: u64
  assumes w: "w \<le> unat len" "unat len \<le> 2 * w" "w < 16" and bs: "length bs = w"
    and d: "accessible m d (unat len)"
  shows "\<exists>m'. run_all [store_bytes d bs, store_bytes (d + len - of_nat w) bs] m = Inr m' \<and>
    moved Scribble Dirty d s (unat len) m m'"
proof -
  let ?j = "unat len - w"
  have len: "unat len = ?j + w" using w by simp
  have jd: "accessible m (d + of_nat ?j) w" using d accessible_add [of m d ?j w] len by simp
  have d0: "accessible m d w" using d w by (auto intro: accessible_mono)
  have rng: "in_range d (unat len) b \<longleftrightarrow> in_range d w b \<or> in_range (d + of_nat ?j) w b" for b
  proof -
    have "?j + w \<le> 2 ^ 64" using len w by simp
    from in_range_add [OF this, of d b] show ?thesis
      using len w in_range_mono [of d w b "unat len"] in_range_mono [of d ?j b w] by auto
  qed
  obtain m1 where m1: "store_bytes d bs m = Inr m1" and e1: "same_env m m1"
    and v1: "\<And>b. mem m1 b = (if in_range d w b then bs ! unat (b - d) else mem m b)"
    and p1: "\<And>b. pst m1 b = (if in_range d w b then Dirty else pst m b)"
    using store_bytes_ok [of m d bs] d0 bs by (auto cong: if_cong)
  have "accessible m1 (d + of_nat ?j) w" using jd accessible_env [OF e1] by simp
  then obtain m2 where m2: "store_bytes (d + of_nat ?j) bs m1 = Inr m2" and e2: "same_env m1 m2"
    and v2: "\<And>b. mem m2 b = (if in_range (d + of_nat ?j) w b then bs ! unat (b - (d + of_nat ?j)) else mem m1 b)"
    and p2: "\<And>b. pst m2 b = (if in_range (d + of_nat ?j) w b then Dirty else pst m1 b)"
    using store_bytes_ok [of m1 "d + of_nat ?j" bs] bs by (auto cong: if_cong)
  have "moved Scribble Dirty d s (unat len) m m2"
    unfolding moved_def rng using same_env_trans [OF e1 e2] by (auto simp: v1 v2 p1 p2 outside_def)
  then show ?thesis unfolding window_end [OF w(1,3)] using m1 m2 by simp
qed

lemma store_one:
  assumes "accessible m d (length bs)"
  shows "\<exists>m'. store_bytes d bs m = Inr m' \<and> moved Scribble Dirty d s (length bs) m m'"
  using assms by (simp add: store_bytes_def moved_def same_env_def outside_def)

lemma just_less_16b_store_moved:
  assumes n: "unat len < 16" and d: "accessible m d (unat len)"
  shows "\<exists>m'. just_less_16b_store d len m = Inr m' \<and> moved Scribble Dirty d s (unat len) m m'"
proof -
  note cmp = word_less_nat_alt word_le_nat_alt
  have z: "len = 0 \<longleftrightarrow> unat len = 0" "len = 1 \<longleftrightarrow> unat len = 1" "len = 2 \<longleftrightarrow> unat len = 2"
    using word_unat_eq_iff [of len 0] word_unat_eq_iff [of len 1] word_unat_eq_iff [of len 2] by simp_all
  have ends: "\<exists>m'. run_all [store_bytes d (ones w), store_bytes (d + len - of_nat w) (ones w)] m = Inr m' \<and>
      moved Scribble Dirty d s (unat len) m m'" if "w \<le> unat len" "unat len \<le> 2 * w" "w < 16" for w
    using store_ends [OF that _ d] by (simp add: ones_def)
  have one: "\<exists>m'. store_bytes d (ones (unat len)) m = Inr m' \<and> moved Scribble Dirty d s (unat len) m m'"
    using store_one [of m d "ones (unat len)" s] d by (simp add: ones_def)
  consider "unat len = 0" | "unat len = 1 \<or> unat len = 2" | "2 < unat len" "unat len \<le> 4"
    | "4 < unat len" "unat len \<le> 8" | "8 < unat len" by linarith
  then show ?thesis
  proof cases
    case 1
    then have "len = 0" by (simp only: z)
    then show ?thesis by (simp add: just_less_16b_store_def)
  next
    case 2
    then have "just_less_16b_store d len m = store_bytes d (ones (unat len)) m"
      by (auto simp: just_less_16b_store_def cmp z)
    with one show ?thesis by simp
  next
    case 3
    then have "just_less_16b_store d len m = run_all [store_bytes d (ones 2), store_bytes (d + len - of_nat 2) (ones 2)] m"
      by (auto simp: just_less_16b_store_def cmp z)
    with ends [of 2] 3 show ?thesis by simp
  next
    case 4
    then have "just_less_16b_store d len m = run_all [store_bytes d (ones 4), store_bytes (d + len - of_nat 4) (ones 4)] m"
      by (auto simp: just_less_16b_store_def cmp z)
    with ends [of 4] 4 show ?thesis by simp
  next
    case 5
    then have "just_less_16b_store d len m = run_all [store_bytes d (ones 8), store_bytes (d + len - of_nat 8) (ones 8)] m"
      using n by (auto simp: just_less_16b_store_def cmp z)
    with ends [of 8] 5 n show ?thesis by simp
  qed
qed

interpretation small_load: small_transfer Touch "\<lambda>d s. just_less_16b_load d"
  by unfold_locales (simp add: just_less_16b_load_ok moved_Touch_refl)

interpretation small_store: small_transfer Scribble "\<lambda>d s. just_less_16b_store d"
  by unfold_locales (rule just_less_16b_store_moved, auto)

interpretation r_just_load: plain_routine Touch "\<lambda>d s. just_less_16b_load d"
  "\<lambda>d s. just_16b_load d" "\<lambda>d s. just_32b_load d" 32
  "\<lambda>d s. just_2x32b_load d" "\<lambda>d s. just_4x32b_load d"
  "\<lambda>d s. just_8x32b_load d" "\<lambda>d s. just_16x32b_load d"
  by unfold_locales simp_all

interpretation r_just_ntload: plain_routine Touch "\<lambda>d s. just_less_16b_load d"
  "\<lambda>d s. just_16b_ntload d" "\<lambda>d s. just_32b_ntload d" 32
  "\<lambda>d s. just_2x32b_ntload d" "\<lambda>d s. just_4x32b_ntload d"
  "\<lambda>d s. just_8x32b_ntload d" "\<lambda>d s. just_16x32b_ntload d"
  by unfold_locales simp_all

interpretation r_just_store_noflush: plain_routine Scribble "\<lambda>d s. just_less_16b_store d"
  "\<lambda>d s. just_16b_store_noflush d" "\<lambda>d s. just_32b_store_noflush d" 32
  "\<lambda>d s. just_2x32b_store_noflush d" "\<lambda>d s. just_4x32b_store_noflush d"
  "\<lambda>d s. just_8x32b_store_noflush d" "\<lambda>d s. just_16x32b_store_noflush d"
  by unfold_locales simp_all

interpretation r_just_store_flush: flush_routine Scribble "\<lambda>d s. just_less_16b_store d"
  "\<lambda>d s. just_16b_store_noflush d" "\<lambda>d s. just_32b_store_noflush d" 64
  "\<lambda>d s. just_2x32b_store_flush d" "\<lambda>d s. just_4x32b_store_flush d"
  "\<lambda>d s. just_8x32b_store_flush d" "\<lambda>d s. just_16x32b_store_flush d"
  by unfold_locales simp_all

interpretation r_just_ntstore: nt_routine Scribble "\<lambda>d s. just_less_16b_store d"
  "\<lambda>d s. just_16b_ntstore d" "\<lambda>d s. just_32b_ntstore d" 32
  "\<lambda>d s. just_2x32b_ntstore d" "\<lambda>d s. just_4x32b_ntstore d"
  "\<lambda>d s. just_8x32b_ntstore d" "\<lambda>d s. just_16x32b_ntstore d"
  by unfold_locales simp_all

section \<open>Properties\<close>

text \<open>just_load and just_ntload only read: on mapped memory, at any alignment and for any
  length, they end without a fault and change neither memory nor what is durable.\<close>

theorem just_load_reads:
  assumes "can_access m src len"
  shows "(\<exists>m'. just_load src len m = Inr m' \<and> mem m' = mem m \<and> pst m' = pst m) \<and>
    (\<exists>m'. just_ntload src len m = Inr m' \<and> mem m' = mem m \<and> pst m' = pst m)"
proof -
  have rdy: "ready Touch (enter src src len m)" by (rule ready_access [OF assms]) simp
  show ?thesis
    using r_just_load.plain_cascade [OF rdy] r_just_ntload.plain_cascade [OF rdy]
    by (auto simp: just_load_def just_ntload_def simp del: run_all.simps dest!: moved_Touch_same)
qed

theorem just_load_reads_witness:
  "\<exists>m'. just_load 4099 1000 demo_machine = Inr m' \<and> mem m' = ucast \<and> pst m' = (\<lambda>_. Durable)"
  using just_load_reads [of demo_machine 4099 1000] by (simp add: can_access_def)

text \<open>just_store_noflush writes exactly the requested bytes: nothing outside the range
  changes, and precisely the bytes within it are dirty afterwards.\<close>

theorem just_store_noflush_extent:
  assumes "can_access m dest len"
  shows "\<exists>m'. just_store_noflush dest len m = Inr m' \<and>
    (\<forall>a. \<not> in_range dest (unat len) a \<longrightarrow> mem m' a = mem m a) \<and>
    pst m' = (\<lambda>a. if in_range dest (unat len) a then Dirty else pst m a)"
proof -
  have rdy: "ready Scribble (enter dest dest len m)" by (rule ready_access [OF assms]) simp
  from r_just_store_noflush.plain_cascade [OF rdy] obtain m' where
    "just_store_noflush dest len m = Inr m'" and mv: "moved Scribble Dirty dest dest (unat len) m m'"
    by (auto simp: just_store_noflush_def simp del: run_all.simps)
  with moved_Dirty_pst [OF mv] moved_frame [OF mv] show ?thesis by auto
qed

theorem just_store_noflush_extent_witness:
  "\<exists>m'. just_store_noflush 4099 1000 demo_machine = Inr m' \<and>
    (\<forall>a. \<not> in_range 4099 1000 a \<longrightarrow> mem m' a = ucast a) \<and>
    pst m' = (\<lambda>a. if in_range 4099 1000 a then Dirty else Durable)"
  using just_store_noflush_extent [of demo_machine 4099 1000] by (simp add: can_access_def cong: if_cong)

text \<open>just_store_flush writes exactly the requested bytes and all of them are durable after
  one fence.\<close>

theorem just_store_flush_durable:
  assumes "can_access m dest len" and "mapped m (page_of dest)"
  shows "\<exists>m'. just_store_flush dest len m = Inr m' \<and>
    (\<forall>a. \<not> in_range dest (unat len) a \<longrightarrow> mem m' a = mem m a) \<and>
    (\<forall>a. in_range dest (unat len) a \<longrightarrow> pst (sfence m') a = Durable)"
proof -
  have rdy: "ready Scribble (enter dest dest len m)" by (rule ready_access [OF assms(1)]) simp
  from r_just_store_flush.flush_cascade [OF rdy assms(2)] obtain m' where
    "just_store_flush dest len m = Inr m'" and mv: "moved Scribble Pending dest dest (unat len) m m'"
    by (auto simp: just_store_flush_def simp del: run_all.simps)
  with moved_sfence_durable [OF mv] moved_frame [OF mv] show ?thesis by auto
qed

theorem just_store_flush_durable_witness:
  "\<exists>m'. just_store_flush 4099 1000 demo_machine = Inr m' \<and>
    (\<forall>a. \<not> in_range 4099 1000 a \<longrightarrow> mem m' a = ucast a) \<and>
    (\<forall>a. in_range 4099 1000 a \<longrightarrow> pst (sfence m') a = Durable)"
  using just_store_flush_durable [of demo_machine 4099 1000] by (simp add: can_access_def)

text \<open>just_ntstore writes exactly the requested bytes and all of them are durable after one
  fence, provided that the page of the byte after the range is mapped as well.\<close>

theorem just_ntstore_durable:
  assumes "can_access m dest len" and "mapped m (page_of dest)" and "mapped m (page_of (dest + len))"
  shows "\<exists>m'. just_ntstore dest len m = Inr m' \<and>
    (\<forall>a. \<not> in_range dest (unat len) a \<longrightarrow> mem m' a = mem m a) \<and>
    (\<forall>a. in_range dest (unat len) a \<longrightarrow> pst (sfence m') a = Durable)"
proof -
  have rdy: "ready Scribble (enter dest dest len m)" by (rule ready_access [OF assms(1)]) simp
  from r_just_ntstore.nt_cascade [OF rdy assms(2,3)] obtain m' where
    "just_ntstore dest len m = Inr m'" and mv: "moved Scribble Pending dest dest (unat len) m m'"
    by (auto simp: just_ntstore_def simp del: run_all.simps)
  with moved_sfence_durable [OF mv] moved_frame [OF mv] show ?thesis by auto
qed

theorem just_ntstore_durable_witness:
  "\<exists>m'. just_ntstore 4099 1000 demo_machine = Inr m' \<and>
    (\<forall>a. \<not> in_range 4099 1000 a \<longrightarrow> mem m' a = ucast a) \<and>
    (\<forall>a. in_range 4099 1000 a \<longrightarrow> pst (sfence m') a = Durable)"
  using just_ntstore_durable [of demo_machine 4099 1000] by (simp add: can_access_def)

end
