(* ===== verification/Cpu.thy ===== *)
theory Cpu
  imports Machine
begin

text \<open>
  util/cpu.h and util/cpu.cc: the timestamps, read from the machine's clock, and the binding
  of threads to cores, over the scheduler state that the two pthread calls read and change.
\<close>

section \<open>Timestamps\<close>

text \<open>A call of clock_gettime consumes the next answer of the clock, seconds and nanoseconds.\<close>

definition clock_gettime :: "machine \<Rightarrow> (u64 \<times> u64) \<times> machine" where
  "clock_gettime m = (clock_src m (clock_pos m), m\<lparr>clock_pos := Suc (clock_pos m)\<rparr>)"

definition GetTsNsec :: "machine \<Rightarrow> u64 \<times> machine" where
  "GetTsNsec m = (let (tp, m') = clock_gettime m in (fst tp * 1000000000 + snd tp, m'))"

text \<open>The other two clocks as functions of what gettimeofday and rdtscp answer.\<close>

definition GetTsUsec :: "u64 \<times> u64 \<Rightarrow> u64" where
  "GetTsUsec tv = fst tv * 1000000 + snd tv"

definition GetTsTick :: "u32 \<times> u32 \<Rightarrow> u64" where
  "GetTsTick edx_eax =
     (let lo = snd edx_eax; hi = fst edx_eax; o1 = ucast hi; o2 = push_bit 32 o1 in o2 OR ucast lo)"

lemma GetTsNsec_env [simp]:
  "mem (snd (GetTsNsec m)) = mem m" "pst (snd (GetTsNsec m)) = pst m"
  "mapped (snd (GetTsNsec m)) = mapped m" "accessible (snd (GetTsNsec m)) = accessible m"
  "clock_src (snd (GetTsNsec m)) = clock_src m" "clock_pos (snd (GetTsNsec m)) = Suc (clock_pos m)"
  "debug (snd (GetTsNsec m)) = debug m"
  by (auto simp: GetTsNsec_def clock_gettime_def Let_def accessible_def fun_eq_iff)

definition ts_at :: "machine \<Rightarrow> nat \<Rightarrow> u64" where
  "ts_at m i = fst (clock_src m i) * 1000000000 + snd (clock_src m i)"

lemma GetTsNsec_value [simp]: "fst (GetTsNsec m) = ts_at m (clock_pos m)"
  by (simp add: GetTsNsec_def clock_gettime_def ts_at_def)

section \<open>Dropping the caches\<close>

text \<open>wbinvd writes every modified line back; outside the kernel it is a general protection fault.\<close>

definition DropCache :: "bool \<Rightarrow> prog" where
  "DropCache ring0 m =
     (if \<not> ring0 then Inl (GPFault 0)
      else Inr (mfence (m\<lparr>pst := (\<lambda>a. if pst m a = Dirty then Pending else pst m a)\<rparr>)))"

lemma DropCache_durable:
  assumes "DropCache ring0 m = Inr m'" and "crash_image m' img"
  shows "img = mem m"
proof
  fix a
  from assms(1) have "mem m' = mem m" "pst m' a = Durable"
    by (cases "pst m a"; auto simp: DropCache_def mfence_def sfence_def split: if_splits)+
  with assms(2) show "img a = mem m a" by (simp add: crash_image_def)
qed

section \<open>Core binding\<close>

text \<open>A cpu_set_t holds 1024 bits; setting a bit beyond them does nothing. The kernel keeps the
  intersection of the requested set with the cores it has, and refuses an empty one.\<close>

type_synonym cpu_set = "nat \<Rightarrow> bool"

record sched =
  online :: "nat list"
  affinity :: "nat \<Rightarrow> cpu_set"  \<comment> \<open>by thread\<close>

definition CPU_SETSIZE :: nat where
  "CPU_SETSIZE = 1024"

definition CPU_ZERO :: cpu_set where
  "CPU_ZERO = (\<lambda>_. False)"

definition CPU_SET :: "nat \<Rightarrow> cpu_set \<Rightarrow> cpu_set" where
  "CPU_SET core s = (if core < CPU_SETSIZE then s(core := True) else s)"

definition EINVAL :: int where
  "EINVAL = 22"

definition pthread_setaffinity_np :: "nat \<Rightarrow> cpu_set \<Rightarrow> sched \<Rightarrow> int \<times> sched" where
  "pthread_setaffinity_np t s w =
     (if list_ex s (online w)
      then (0, w\<lparr>affinity := (affinity w)(t := (\<lambda>c. s c \<and> c \<in> set (online w)))\<rparr>)
      else (EINVAL, w))"

definition CoreBind :: "nat \<Rightarrow> u32 \<Rightarrow> sched \<Rightarrow> bool \<times> sched" where
  "CoreBind t core_id w =
     (let cpuset = CPU_SET (unat core_id) CPU_ZERO;
          (ret_error, w') = pthread_setaffinity_np t cpuset w
      in (ret_error = 0, w'))"

text \<open>The query reads the calling thread's set: its own argument is not used.\<close>

definition CoreBindQuery :: "nat \<Rightarrow> nat \<Rightarrow> sched \<Rightarrow> nat list" where
  "CoreBindQuery self t w = filter (affinity w self) [0..<CPU_SETSIZE]"

lemma CoreBind_cases:
  "CoreBind t core w =
     (if unat core < CPU_SETSIZE \<and> unat core \<in> set (online w)
      then (True, w\<lparr>affinity := (affinity w)(t := (\<lambda>c. c = unat core))\<rparr>) else (False, w))"
  by (auto simp: CoreBind_def CPU_SET_def CPU_ZERO_def pthread_setaffinity_np_def list_ex_iff
      EINVAL_def fun_eq_iff intro!: arg_cong [of _ _ "\<lambda>f. w\<lparr>affinity := f\<rparr>"])

lemma filter_one: "k < n \<Longrightarrow> filter (\<lambda>c. c = k) [0..<n] = [k]"
  by (induction n) (auto simp: filter_empty_conv less_Suc_eq)

section \<open>Properties\<close>

text \<open>A thread that binds itself to a core and then asks for its binding gets exactly that
  core back, and a binding succeeds exactly for an existing core that a cpu set can hold.\<close>

theorem core_bind_query:
  "fst (CoreBind self core w) = (unat core < CPU_SETSIZE \<and> unat core \<in> set (online w)) \<and>
   (fst (CoreBind self core w) \<longrightarrow> CoreBindQuery self t (snd (CoreBind self core w)) = [unat core]) \<and>
   (\<not> fst (CoreBind self core w) \<longrightarrow> snd (CoreBind self core w) = w)"
  by (auto simp: CoreBind_cases CoreBindQuery_def filter_one)

theorem core_bind_query_witness:
  "fst (CoreBind 7 2 \<lparr>online = [0, 1, 2, 3], affinity = (\<lambda>_ _. True)\<rparr>) = True"
  using core_bind_query [of 7 2 "\<lparr>online = [0, 1, 2, 3], affinity = (\<lambda>_ _. True)\<rparr>" 0]
  by (simp add: CPU_SETSIZE_def)

text \<open>The binding query ignores the thread it is asked about: binding another thread to a
  core does not change the answer for that thread, which is the caller's own binding.\<close>

theorem core_bind_query_other:
  assumes "t \<noteq> self"
  shows "CoreBindQuery self t (snd (CoreBind t core w)) = CoreBindQuery self self w"
  using assms by (simp add: CoreBind_cases CoreBindQuery_def)

theorem core_bind_query_other_witness:
  "CoreBindQuery 0 1 (snd (CoreBind 1 2 \<lparr>online = [0, 1, 2, 3], affinity = (\<lambda>_ c. c = 3)\<rparr>)) = [3]"
  using core_bind_query_other [of 1 0 2 "\<lparr>online = [0, 1, 2, 3], affinity = (\<lambda>_ c. c = 3)\<rparr>"]
    filter_one [of 3 CPU_SETSIZE]
  by (simp add: CoreBindQuery_def CPU_SETSIZE_def)

text \<open>The tick counter joins the two halves without loss: its value is the high word times
  2^32 plus the low word.\<close>

theorem ticks_join: "unat (GetTsTick (hi, lo)) = unat hi * 2 ^ 32 + unat lo"
proof -
  have d: "push_bit 32 (ucast hi :: u64) AND ucast lo = 0"
    by (rule bit_word_eqI) (auto simp: bit_simps dest: bit_imp_le_length)
  have h: "unat (push_bit 32 (ucast hi :: u64)) = unat hi * 2 ^ 32"
  proof -
    have "unat hi < 2 ^ 32" using unsigned_less [of hi, where ?'a = nat] by simp
    then have "unat hi * 2 ^ 32 < 2 ^ 64" by simp
    then show ?thesis by (simp add: push_bit_eq_mult unat_word_ariths unsigned_ucast_eq take_bit_nat_eq_self)
  qed
  have l: "unat (ucast lo :: u64) = unat lo"
    by (simp add: unsigned_ucast_eq take_bit_nat_eq_self unsigned_less [THEN less_le_trans])
  have lt: "unat hi * 2 ^ 32 + unat lo < 2 ^ 64"
    using unsigned_less [of hi, where ?'a = nat] unsigned_less [of lo, where ?'a = nat] by simp
  have "push_bit 32 (ucast hi :: u64) OR ucast lo = push_bit 32 (ucast hi) + ucast lo"
    using disjunctive_add_eq_or [OF d] by simp
  moreover have "unat (push_bit 32 (ucast hi :: u64) + ucast lo) = unat hi * 2 ^ 32 + unat lo"
    using unat_add_lem [of "push_bit 32 (ucast hi :: u64)" "ucast lo"] lt by (simp add: h l)
  ultimately show ?thesis by (simp add: GetTsTick_def Let_def)
qed

end
