(* ===== verification/Study_Ops.thy ===== *)
theory Study_Ops
  imports Aep Aep_Just Cpu
begin

text \<open>
  bgtest/AEP/aep_study.h: the operations the benchmark times, one definition per inline
  function, and the tables it picks them from. libpmem2 is not part of the repository: its
  memcpy and memset are the parameter \<open>pmdk\<close>.
\<close>

section \<open>Timed bodies\<close>

text \<open>A body may fault, and clwb_extent may run for ever (\<open>None\<close>).\<close>

type_synonym outcome = "(fault + machine) option"
type_synonym op_fn = "u64 \<Rightarrow> u64 \<Rightarrow> u64 \<Rightarrow> machine \<Rightarrow> (fault + u64 \<times> machine) option"

definition run_prog :: "prog \<Rightarrow> machine \<Rightarrow> outcome" where
  "run_prog c m = Some (c m)"

definition fence :: "machine \<Rightarrow> outcome" where
  "fence m = Some (Inr (sfence m))"

text \<open>\<open>start = GetTsNsec(); barrier(); ...; barrier(); end = GetTsNsec(); return end - start;\<close>\<close>

definition timed :: "(machine \<Rightarrow> outcome) list \<Rightarrow> machine \<Rightarrow> (fault + u64 \<times> machine) option" where
  "timed body m =
     (let (ts_start, m1) = GetTsNsec m
      in (case do_all body (barrier m1) of
            None \<Rightarrow> None
          | Some (Inl e) \<Rightarrow> Some (Inl e)
          | Some (Inr m2) \<Rightarrow>
              (let (ts_end, m3) = GetTsNsec (barrier m2) in Some (Inr (ts_end - ts_start, m3)))))"

section \<open>What the operations call\<close>

datatype pmem2_flag = PMEM2_F_NONE | PMEM2_F_MEM_NOFLUSH | PMEM2_F_MEM_TEMPORAL | PMEM2_F_MEM_NONTEMPORAL

record pmdk =
  pmdk_memcpy :: "u64 \<Rightarrow> u64 \<Rightarrow> u64 \<Rightarrow> pmem2_flag \<Rightarrow> prog"
  pmdk_memset :: "u64 \<Rightarrow> u32 \<Rightarrow> u64 \<Rightarrow> pmem2_flag \<Rightarrow> prog"

text \<open>The argument \<open>*c\<close>: one byte is loaded and promoted to int.\<close>

definition with_char :: "u64 \<Rightarrow> (u32 \<Rightarrow> prog) \<Rightarrow> prog" where
  "with_char c k m = (case load_bytes 1 c m of Inl e \<Rightarrow> Inl e | Inr bs \<Rightarrow> k (scast (bs ! 0)) m)"

text \<open>
  \<open>for (int i = 0; i < len; i += sizeof(uint64_t)) dst[i] = src[i];\<close> with pointers to 64-bit
  words. The counter is a 32-bit int, the comparison and the addition are done in 64 bits.
\<close>

partial_function (option) store_words :: "u64 \<Rightarrow> u64 \<Rightarrow> u64 \<Rightarrow> u32 \<Rightarrow> machine \<Rightarrow> outcome" where
  "store_words dst src len i m =
     (if (scast i :: u64) < len
      then (case copy_word 8 (dst + 8 * scast i) (src + 8 * scast i) m of
              Inl e \<Rightarrow> Some (Inl e)
            | Inr m' \<Rightarrow> store_words dst src len (ucast ((scast i :: u64) + 8)) m')
      else Some (Inr m))"

section \<open>The operations\<close>

definition aep_read_baseline :: "op_fn" where
  "aep_read_baseline dest addr len = timed []"

definition aep_just_load :: "op_fn" where
  "aep_just_load dest addr len = timed [run_prog (just_load addr len)]"

definition aep_just_ntload :: "op_fn" where
  "aep_just_ntload dest addr len = timed [run_prog (just_ntload addr len)]"

definition aep_load_to_dram :: "op_fn" where
  "aep_load_to_dram dram aep len = timed [run_prog (cpy_load_store_noflush dram aep len)]"

definition aep_ntload_to_dram :: "op_fn" where
  "aep_ntload_to_dram dram aep len = timed [run_prog (cpy_ntload_store_noflush dram aep len)]"

definition aep_native_cpy_to_dram :: "op_fn" where
  "aep_native_cpy_to_dram dram aep len = timed [run_prog (cpy_native_noflush dram aep len)]"

definition aep_pmem2_cpy_to_dram :: "pmdk \<Rightarrow> op_fn" where
  "aep_pmem2_cpy_to_dram P dram aep len = timed [run_prog (pmdk_memcpy P dram aep len PMEM2_F_MEM_NOFLUSH)]"

definition aep_write_baseline :: "op_fn" where
  "aep_write_baseline addr src len = timed []"

definition aep_just_store_flush_by_all :: "op_fn" where
  "aep_just_store_flush_by_all addr src len = timed [run_prog (just_store_noflush addr len),
     clwb_extent addr len,
     fence]"

definition aep_just_store_flush_by_cacheline :: "op_fn" where
  "aep_just_store_flush_by_cacheline addr src len = timed [run_prog (just_store_flush addr len),
     fence]"

definition aep_just_ntstore :: "op_fn" where
  "aep_just_ntstore addr src len = timed [run_prog (just_ntstore addr len),
     fence]"

definition aep_store_from_dram_flush_by_all :: "op_fn" where
  "aep_store_from_dram_flush_by_all aep dram len = timed [run_prog (cpy_load_store_noflush aep dram len),
     clwb_extent aep len,
     fence]"

definition aep_store_from_dram_flush_by_cacheline :: "op_fn" where
  "aep_store_from_dram_flush_by_cacheline aep dram len = timed [run_prog (cpy_load_store_flush aep dram len),
     fence]"

definition aep_ntstore_from_dram :: "op_fn" where
  "aep_ntstore_from_dram aep dram len = timed [run_prog (cpy_load_ntstore aep dram len),
     fence]"

definition aep_native_cpy_dram_by_all :: "op_fn" where
  "aep_native_cpy_dram_by_all aep_dest dram len = timed [run_prog (cpy_native_noflush aep_dest dram len),
     clwb_extent aep_dest len,
     fence]"

definition aep_native_cpy_dram_by_cacheline :: "op_fn" where
  "aep_native_cpy_dram_by_cacheline aep_dest dram len = timed [run_prog (cpy_native_flush aep_dest dram len),
     fence]"

definition aep_pmem2_cpy_dram_com :: "pmdk \<Rightarrow> op_fn" where
  "aep_pmem2_cpy_dram_com P aep dram len = timed [run_prog (pmdk_memcpy P aep dram len PMEM2_F_NONE)]"

definition aep_native_store_dram :: "op_fn" where
  "aep_native_store_dram aep dram len = timed [store_words aep dram len 0,
     clwb_extent aep len,
     fence]"

definition aep_pmem2_cpy_dram_t :: "pmdk \<Rightarrow> op_fn" where
  "aep_pmem2_cpy_dram_t P aep dram len = timed [run_prog (pmdk_memcpy P aep dram len PMEM2_F_MEM_TEMPORAL)]"

definition aep_pmem2_cpy_dram_nt :: "pmdk \<Rightarrow> op_fn" where
  "aep_pmem2_cpy_dram_nt P aep dram len = timed [run_prog (pmdk_memcpy P aep dram len PMEM2_F_MEM_NONTEMPORAL)]"

definition aep_cpy_baseline :: "op_fn" where
  "aep_cpy_baseline aep_dest aep_src len = timed []"

definition aep_cpy_native_by_all :: "op_fn" where
  "aep_cpy_native_by_all aep_dest aep_src len = timed [run_prog (cpy_native_noflush aep_dest aep_src len),
     clwb_extent aep_dest len,
     fence]"

definition aep_cpy_native_by_cacheline :: "op_fn" where
  "aep_cpy_native_by_cacheline aep_dest aep_src len = timed [run_prog (cpy_native_flush aep_dest aep_src len),
     fence]"

definition aep_cpy_load_store_by_all :: "op_fn" where
  "aep_cpy_load_store_by_all aep_dest aep_src len = timed [run_prog (cpy_load_store_noflush aep_dest aep_src len),
     clwb_extent aep_dest len,
     fence]"

definition aep_cpy_load_store_by_cacheline :: "op_fn" where
  "aep_cpy_load_store_by_cacheline aep_dest aep_src len = timed [run_prog (cpy_load_store_flush aep_dest aep_src len),
     fence]"

definition aep_cpy_load_ntstore :: "op_fn" where
  "aep_cpy_load_ntstore aep_dest aep_src len = timed [run_prog (cpy_load_ntstore aep_dest aep_src len),
     fence]"

definition aep_cpy_ntload_store_by_all :: "op_fn" where
  "aep_cpy_ntload_store_by_all aep_dest aep_src len = timed [run_prog (cpy_ntload_store_noflush aep_dest aep_src len),
     clwb_extent aep_dest len,
     fence]"

definition aep_cpy_ntload_store_by_cacheline :: "op_fn" where
  "aep_cpy_ntload_store_by_cacheline aep_dest aep_src len = timed [run_prog (cpy_ntload_store_flush aep_dest aep_src len),
     fence]"

definition aep_cpy_ntload_ntstore :: "op_fn" where
  "aep_cpy_ntload_ntstore aep_dest aep_src len = timed [run_prog (cpy_ntload_ntstore aep_dest aep_src len),
     fence]"

definition aep_cpy_pmem2_memcpy_com :: "pmdk \<Rightarrow> op_fn" where
  "aep_cpy_pmem2_memcpy_com P aep_dest aep_src len = timed [run_prog (pmdk_memcpy P aep_dest aep_src len PMEM2_F_NONE)]"

definition aep_cpy_pmem2_memcpy_t :: "pmdk \<Rightarrow> op_fn" where
  "aep_cpy_pmem2_memcpy_t P aep_dest aep_src len = timed [run_prog (pmdk_memcpy P aep_dest aep_src len PMEM2_F_MEM_TEMPORAL)]"

definition aep_cpy_pmem2_memcpy_nt :: "pmdk \<Rightarrow> op_fn" where
  "aep_cpy_pmem2_memcpy_nt P aep_dest aep_src len = timed [run_prog (pmdk_memcpy P aep_dest aep_src len PMEM2_F_MEM_NONTEMPORAL)]"

definition aep_memset_baseline :: "op_fn" where
  "aep_memset_baseline aep_dest c len = timed []"

definition aep_memset_native_by_all :: "op_fn" where
  "aep_memset_native_by_all aep_dest c len = timed [run_prog (with_char c (\<lambda>v. memset_native_noflush aep_dest v len)),
     clwb_extent aep_dest len,
     fence]"

definition aep_memset_native_by_cacheline :: "op_fn" where
  "aep_memset_native_by_cacheline aep_dest c len = timed [run_prog (with_char c (\<lambda>v. memset_native_flush aep_dest v len)),
     fence]"

definition aep_memset_pmem2_com :: "pmdk \<Rightarrow> op_fn" where
  "aep_memset_pmem2_com P aep_dest c len = timed [run_prog (with_char c (\<lambda>v. pmdk_memset P aep_dest v len PMEM2_F_NONE))]"

definition aep_memset_pmem2_t :: "pmdk \<Rightarrow> op_fn" where
  "aep_memset_pmem2_t P aep_dest c len = timed [run_prog (with_char c (\<lambda>v. pmdk_memset P aep_dest v len PMEM2_F_MEM_TEMPORAL))]"

definition aep_memset_pmem2_nt :: "pmdk \<Rightarrow> op_fn" where
  "aep_memset_pmem2_nt P aep_dest c len = timed [run_prog (with_char c (\<lambda>v. pmdk_memset P aep_dest v len PMEM2_F_MEM_NONTEMPORAL))]"

section \<open>The tables\<close>

definition aep_read_funcs :: "op_fn list" where
  "aep_read_funcs = [aep_read_baseline, aep_just_load, aep_just_ntload]"

definition aep_read_func_labels :: "string list" where
  "aep_read_func_labels = [''read_baseline'', ''just_load'', ''just_ntload'']"

definition AEP_READ_FUNC_NUM :: nat where
  "AEP_READ_FUNC_NUM = length aep_read_funcs"

definition aep_write_funcs :: "pmdk \<Rightarrow> op_fn list" where
  "aep_write_funcs P = [aep_write_baseline, aep_pmem2_cpy_dram_t P, aep_pmem2_cpy_dram_nt P]"

definition aep_write_func_labels :: "string list" where
  "aep_write_func_labels = [''write_baseline'', ''pmem2_cpy_dram_t'', ''pmem2_cpy_dram_nt'']"

definition AEP_WRITE_FUNC_NUM :: "pmdk \<Rightarrow> nat" where
  "AEP_WRITE_FUNC_NUM P = length (aep_write_funcs P)"

definition aep_cpy_funcs :: "pmdk \<Rightarrow> op_fn list" where
  "aep_cpy_funcs P = [aep_cpy_baseline, aep_cpy_pmem2_memcpy_com P, aep_cpy_pmem2_memcpy_t P,
     aep_cpy_pmem2_memcpy_nt P]"

definition aep_cpy_func_labels :: "string list" where
  "aep_cpy_func_labels = [''cpy_baseline'', ''cpy_pmem2_memcpy_com'', ''cpy_pmem2_memcpy_t'',
     ''cpy_pmem2_memcpy_nt'']"

definition AEP_CPY_FUNC_NUM :: "pmdk \<Rightarrow> nat" where
  "AEP_CPY_FUNC_NUM P = length (aep_cpy_funcs P)"

definition aep_memset_funcs :: "pmdk \<Rightarrow> op_fn list" where
  "aep_memset_funcs P = [aep_memset_baseline, aep_memset_pmem2_com P, aep_memset_pmem2_t P,
     aep_memset_pmem2_nt P]"

definition aep_memset_func_labels :: "string list" where
  "aep_memset_func_labels = [''aep_memset_baseline'', ''aep_memset_pmem2_com'', ''aep_memset_pmem2_t'',
     ''aep_memset_pmem2_nt'']"

definition AEP_MEMSET_FUNC_NUM :: "pmdk \<Rightarrow> nat" where
  "AEP_MEMSET_FUNC_NUM P = length (aep_memset_funcs P)"

section \<open>The contract of a persistent copy operation\<close>

lemma GetTsNsec_snd: "snd (GetTsNsec m) = m\<lparr>clock_pos := Suc (clock_pos m)\<rparr>"
  by (simp add: GetTsNsec_def clock_gettime_def Let_def)

lemma timed_result:
  assumes "do_all body (m\<lparr>clock_pos := Suc (clock_pos m)\<rparr>) = Some (Inr m2)"
    and "same_env (m\<lparr>clock_pos := Suc (clock_pos m)\<rparr>) m2"
  shows "timed body m = Some (Inr (ts_at m (Suc (clock_pos m)) - ts_at m (clock_pos m),
    m2\<lparr>clock_pos := Suc (Suc (clock_pos m))\<rparr>))"
proof -
  have "clock_pos m2 = Suc (clock_pos m)" "clock_src m2 = clock_src m"
    using assms(2) by (simp_all add: same_env_def)
  then show ?thesis
    using assms(1) by (simp add: timed_def GetTsNsec_def clock_gettime_def ts_at_def barrier_def Let_def)
qed

lemma same_env_sfence [simp]: "same_env m (sfence m') = same_env m m'"
  by (simp add: same_env_def sfence_def)

text \<open>Writing the whole range back after it was stored.\<close>

lemma moved_clwb_extent:
  assumes mv: "moved x Dirty d s (unat n) m m1" and x: "x \<noteq> Touch"
    and fits: "unat d + unat n + 64 \<le> 2 ^ 64" and acc: "accessible m d (unat n)" and pg: "mapped m (page_of d)"
  shows "\<exists>m2. clwb_extent d n m1 = Some (Inr m2) \<and> moved x Pending d s (unat n) m m2"
proof -
  note env = moved_env [OF mv]
  have "accessible m1 d (unat n)" "mapped m1 (page_of d)"
    using acc pg env by (simp_all add: accessible_env [OF env]) (simp add: same_env_def)
  from clwb_extent_ok [OF fits this] obtain m2 where m2: "clwb_extent d n m1 = Some (Inr m2)"
    and e: "same_env m1 m2" and mem: "mem m2 = mem m1"
    and pst: "pst m2 = (\<lambda>b. if unat d div 64 \<le> unat b div 64 \<and> 64 * (unat b div 64) < unat d + unat n \<and>
      pst m1 b = Dirty then Pending else pst m1 b)" by blast
  have hit: "unat d div 64 \<le> unat b div 64 \<and> 64 * (unat b div 64) < unat d + unat n"
    if "in_range d (unat n) b" for b
  proof -
    have "unat d + unat n \<le> 2 ^ 64" using fits by simp
    from in_range_unat [OF that this] have b: "unat d \<le> unat b" "unat b < unat d + unat n" .
    have "64 * (unat b div 64) \<le> unat b" by simp
    from le_less_trans [OF this b(2)] div_le_mono [OF b(1)] show ?thesis by blast
  qed
  have ins: "inside x Pending v p (b, Pending) \<and> q = Dirty" if "inside x Dirty v p (b, q)" for v p b q
    using that x by (cases x; cases p) auto
  have "moved x Pending d s (unat n) m m2"
    unfolding moved_def
  proof (intro conjI allI impI)
    show "same_env m m2" using env e by (rule same_env_trans)
  next
    fix b assume "\<not> in_range d (unat n) b"
    with mv show "mem m2 b = mem m b" "outside Pending (pst m b) (pst m2 b)"
      by (simp_all add: moved_def mem pst outside_def aged_def)
  next
    fix b assume r: "in_range d (unat n) b"
    with mv have "inside x Dirty (mem m (s + (b - d))) (mem m b, pst m b) (mem m1 b, pst m1 b)"
      by (simp add: moved_def)
    from ins [OF this] hit [OF r]
    show "inside x Pending (mem m (s + (b - d))) (mem m b, pst m b) (mem m2 b, pst m2 b)"
      by (simp add: mem pst)
  qed
  with m2 show ?thesis by blast
qed

text \<open>
  A persistent copy operation copies and fences. \<open>al\<close> says whether its two pointers must agree
  modulo 32.
\<close>

definition copy_args :: "bool \<Rightarrow> machine \<Rightarrow> u64 \<Rightarrow> u64 \<Rightarrow> u64 \<Rightarrow> bool" where
  "copy_args al m d s n \<longleftrightarrow> can_copy m d s n \<and> (al \<longrightarrow> unat s mod 32 = unat d mod 32) \<and>
     mapped m (page_of d) \<and> mapped m (page_of (d + n)) \<and> unat d + unat n + 64 \<le> 2 ^ 64"

text \<open>The operation reports the time between its two clock readings, copies exactly, and what it
  copied survives a crash right after it returns.\<close>

definition copies_durably :: "op_fn \<Rightarrow> machine \<Rightarrow> u64 \<Rightarrow> u64 \<Rightarrow> u64 \<Rightarrow> bool" where
  "copies_durably op m d s n \<longleftrightarrow>
     (\<exists>m'. op d s n m = Some (Inr (ts_at m (Suc (clock_pos m)) - ts_at m (clock_pos m), m')) \<and>
        mem m' = (\<lambda>a. if in_range d (unat n) a then mem m (s + (a - d)) else mem m a) \<and>
        (\<forall>img a. crash_image m' img \<longrightarrow>
           (in_range d (unat n) a \<longrightarrow> img a = mem m (s + (a - d))) \<and>
           (\<not> in_range d (unat n) a \<and> pst m a = Durable \<longrightarrow> img a = mem m a)))"

locale persistent_copy =
  fixes al :: bool and op :: op_fn and body :: "u64 \<Rightarrow> u64 \<Rightarrow> u64 \<Rightarrow> (machine \<Rightarrow> outcome) list"
  assumes op_body: "op d s n = timed (body d s n)"
    and body_moves: "copy_args al m d s n \<Longrightarrow>
      \<exists>m2. do_all (body d s n) m = Some (Inr (sfence m2)) \<and> moved Copy Pending d s (unat n) m m2"
begin

lemma copy_durable:
  assumes "copy_args al m d s n"
  shows "copies_durably op m d s n"
proof -
  let ?m = "m\<lparr>clock_pos := Suc (clock_pos m)\<rparr>"
  have "copy_args al ?m d s n"
    using assms by (simp add: copy_args_def can_copy_def accessible_def)
  from body_moves [OF this] obtain m2 where b: "do_all (body d s n) ?m = Some (Inr (sfence m2))"
    and mv: "moved Copy Pending d s (unat n) ?m m2" by blast
  let ?r = "(sfence m2)\<lparr>clock_pos := Suc (Suc (clock_pos m))\<rparr>"
  have "same_env ?m (sfence m2)" using moved_env [OF mv] by simp
  from timed_result [OF b this]
  have r: "op d s n m = Some (Inr (ts_at m (Suc (clock_pos m)) - ts_at m (clock_pos m), ?r))"
    by (simp add: op_body)
  have mem: "mem ?r = (\<lambda>a. if in_range d (unat n) a then mem m (s + (a - d)) else mem m a)"
    using moved_Copy_mem [OF mv] by (simp add: sfence_def cong: if_cong)
  have img: "crash_image ?r = crash_image (sfence m2)" by (simp add: crash_image_def fun_eq_iff)
  have crash: "(in_range d (unat n) a \<longrightarrow> img a = mem m (s + (a - d))) \<and>
      (\<not> in_range d (unat n) a \<and> pst m a = Durable \<longrightarrow> img a = mem m a)" if "crash_image ?r img" for img a
    using moved_crash_Copy [OF mv that [unfolded img]] by simp
  show ?thesis unfolding copies_durably_def
    by (intro exI [of _ ?r] conjI allI impI r mem) (use crash in blast)+
qed

end

text \<open>The two ways to flush, and the non-temporal way.\<close>

lemma by_all_moves:
  assumes c: "\<And>m d s n. copy_args al m d s n \<Longrightarrow>
      \<exists>m1. c d s n m = Inr m1 \<and> moved Copy Dirty d s (unat n) m m1"
    and a: "copy_args al m d s n"
  shows "\<exists>m2. do_all [run_prog (c d s n), clwb_extent d n, fence] m = Some (Inr (sfence m2)) \<and>
    moved Copy Pending d s (unat n) m m2"
proof -
  from c [OF a] obtain m1 where m1: "c d s n m = Inr m1" "moved Copy Dirty d s (unat n) m m1" by blast
  from a have "unat d + unat n + 64 \<le> 2 ^ 64" "accessible m d (unat n)" "mapped m (page_of d)"
    by (simp_all add: copy_args_def can_copy_def)
  from moved_clwb_extent [OF m1(2) _ this] m1(1) show ?thesis by (auto simp: run_prog_def fence_def)
qed

lemma by_line_moves:
  assumes c: "\<And>m d s n. copy_args al m d s n \<Longrightarrow>
      \<exists>m1. c d s n m = Inr m1 \<and> moved Copy Pending d s (unat n) m m1"
    and a: "copy_args al m d s n"
  shows "\<exists>m2. do_all [run_prog (c d s n), fence] m = Some (Inr (sfence m2)) \<and> moved Copy Pending d s (unat n) m m2"
  using c [OF a] by (auto simp: run_prog_def fence_def)

lemma copy_args_ready: "copy_args True m d s n \<Longrightarrow> ready Copy (enter d s n m)"
  by (simp add: copy_args_def ready_copy)

lemma routines_move:
  "copy_args True m d s n \<Longrightarrow> \<exists>m1. cpy_load_store_noflush d s n m = Inr m1 \<and> moved Copy Dirty d s (unat n) m m1"
  "copy_args True m d s n \<Longrightarrow> \<exists>m1. cpy_ntload_store_noflush d s n m = Inr m1 \<and> moved Copy Dirty d s (unat n) m m1"
  "copy_args True m d s n \<Longrightarrow> \<exists>m1. cpy_load_store_flush d s n m = Inr m1 \<and> moved Copy Pending d s (unat n) m m1"
  "copy_args True m d s n \<Longrightarrow> \<exists>m1. cpy_ntload_store_flush d s n m = Inr m1 \<and> moved Copy Pending d s (unat n) m m1"
  "copy_args True m d s n \<Longrightarrow> \<exists>m1. cpy_load_ntstore d s n m = Inr m1 \<and> moved Copy Pending d s (unat n) m m1"
  "copy_args True m d s n \<Longrightarrow> \<exists>m1. cpy_ntload_ntstore d s n m = Inr m1 \<and> moved Copy Pending d s (unat n) m m1"
  "copy_args False m d s n \<Longrightarrow> \<exists>m1. cpy_native_noflush d s n m = Inr m1 \<and> moved Copy Dirty d s (unat n) m m1"
  "copy_args False m d s n \<Longrightarrow> \<exists>m1. cpy_native_flush d s n m = Inr m1 \<and> moved Copy Pending d s (unat n) m m1"
proof -
  assume a: "copy_args True m d s n"
  note rdy = copy_args_ready [OF a]
  from a have pg: "mapped m (page_of d)" "mapped m (page_of (d + n))" by (simp_all add: copy_args_def)
  show "\<exists>m1. cpy_load_store_noflush d s n m = Inr m1 \<and> moved Copy Dirty d s (unat n) m m1"
    using r_load_store.plain_cascade [OF rdy] by (simp only: cpy_load_store_noflush_def)
  show "\<exists>m1. cpy_ntload_store_noflush d s n m = Inr m1 \<and> moved Copy Dirty d s (unat n) m m1"
    using r_ntload_store.plain_cascade [OF rdy] by (simp only: cpy_ntload_store_noflush_def)
  show "\<exists>m1. cpy_load_store_flush d s n m = Inr m1 \<and> moved Copy Pending d s (unat n) m m1"
    using r_load_store_flush.flush_cascade [OF rdy pg(1)] by (simp only: cpy_load_store_flush_def)
  show "\<exists>m1. cpy_ntload_store_flush d s n m = Inr m1 \<and> moved Copy Pending d s (unat n) m m1"
    using r_ntload_store_flush.flush_cascade [OF rdy pg(1)] by (simp only: cpy_ntload_store_flush_def)
  show "\<exists>m1. cpy_load_ntstore d s n m = Inr m1 \<and> moved Copy Pending d s (unat n) m m1"
    using r_load_ntstore.nt_cascade [OF rdy pg] by (simp only: cpy_load_ntstore_def)
  show "\<exists>m1. cpy_ntload_ntstore d s n m = Inr m1 \<and> moved Copy Pending d s (unat n) m m1"
    using r_ntload_ntstore.nt_cascade [OF rdy pg] by (simp only: cpy_ntload_ntstore_def)
next
  assume a: "copy_args False m d s n"
  then have c: "can_copy m d s n" and pg: "mapped m (page_of d)" by (simp_all add: copy_args_def)
  from c have v: "valid Copy (enter d s n m)" by (simp add: valid_def can_copy_def)
  show "\<exists>m1. cpy_native_noflush d s n m = Inr m1 \<and> moved Copy Dirty d s (unat n) m m1"
    using memcpy_moved c by (simp add: cpy_native_noflush_def can_copy_def)
  show "\<exists>m1. cpy_native_flush d s n m = Inr m1 \<and> moved Copy Pending d s (unat n) m m1"
    using op_memcpy.native_cascade [OF v] pg by (simp only: cpy_native_flush_def)
qed

interpretation o_cpy_load_store_by_all: persistent_copy True aep_cpy_load_store_by_all
  "\<lambda>d s n. [run_prog (cpy_load_store_noflush d s n), clwb_extent d n, fence]"
  by unfold_locales (simp only: aep_cpy_load_store_by_all_def, rule by_all_moves, erule routines_move, assumption)

interpretation o_cpy_ntload_store_by_all: persistent_copy True aep_cpy_ntload_store_by_all
  "\<lambda>d s n. [run_prog (cpy_ntload_store_noflush d s n), clwb_extent d n, fence]"
  by unfold_locales (simp only: aep_cpy_ntload_store_by_all_def, rule by_all_moves, erule routines_move, assumption)

interpretation o_cpy_native_by_all: persistent_copy False aep_cpy_native_by_all
  "\<lambda>d s n. [run_prog (cpy_native_noflush d s n), clwb_extent d n, fence]"
  by unfold_locales (simp only: aep_cpy_native_by_all_def, rule by_all_moves, erule routines_move, assumption)

interpretation o_cpy_load_store_by_cacheline: persistent_copy True aep_cpy_load_store_by_cacheline
  "\<lambda>d s n. [run_prog (cpy_load_store_flush d s n), fence]"
  by unfold_locales (simp only: aep_cpy_load_store_by_cacheline_def, rule by_line_moves, erule routines_move, assumption)

interpretation o_cpy_ntload_store_by_cacheline: persistent_copy True aep_cpy_ntload_store_by_cacheline
  "\<lambda>d s n. [run_prog (cpy_ntload_store_flush d s n), fence]"
  by unfold_locales (simp only: aep_cpy_ntload_store_by_cacheline_def, rule by_line_moves, erule routines_move, assumption)

interpretation o_cpy_native_by_cacheline: persistent_copy False aep_cpy_native_by_cacheline
  "\<lambda>d s n. [run_prog (cpy_native_flush d s n), fence]"
  by unfold_locales (simp only: aep_cpy_native_by_cacheline_def, rule by_line_moves, erule routines_move, assumption)

interpretation o_cpy_load_ntstore: persistent_copy True aep_cpy_load_ntstore
  "\<lambda>d s n. [run_prog (cpy_load_ntstore d s n), fence]"
  by unfold_locales (simp only: aep_cpy_load_ntstore_def, rule by_line_moves, erule routines_move, assumption)

interpretation o_cpy_ntload_ntstore: persistent_copy True aep_cpy_ntload_ntstore
  "\<lambda>d s n. [run_prog (cpy_ntload_ntstore d s n), fence]"
  by unfold_locales (simp only: aep_cpy_ntload_ntstore_def, rule by_line_moves, erule routines_move, assumption)

interpretation o_store_from_dram_flush_by_all: persistent_copy True aep_store_from_dram_flush_by_all
  "\<lambda>d s n. [run_prog (cpy_load_store_noflush d s n), clwb_extent d n, fence]"
  by unfold_locales (simp only: aep_store_from_dram_flush_by_all_def, rule by_all_moves, erule routines_move, assumption)

interpretation o_store_from_dram_flush_by_cacheline: persistent_copy True aep_store_from_dram_flush_by_cacheline
  "\<lambda>d s n. [run_prog (cpy_load_store_flush d s n), fence]"
  by unfold_locales (simp only: aep_store_from_dram_flush_by_cacheline_def, rule by_line_moves, erule routines_move, assumption)

interpretation o_ntstore_from_dram: persistent_copy True aep_ntstore_from_dram
  "\<lambda>d s n. [run_prog (cpy_load_ntstore d s n), fence]"
  by unfold_locales (simp only: aep_ntstore_from_dram_def, rule by_line_moves, erule routines_move, assumption)

interpretation o_native_cpy_dram_by_all: persistent_copy False aep_native_cpy_dram_by_all
  "\<lambda>d s n. [run_prog (cpy_native_noflush d s n), clwb_extent d n, fence]"
  by unfold_locales (simp only: aep_native_cpy_dram_by_all_def, rule by_all_moves, erule routines_move, assumption)

interpretation o_native_cpy_dram_by_cacheline: persistent_copy False aep_native_cpy_dram_by_cacheline
  "\<lambda>d s n. [run_prog (cpy_native_flush d s n), fence]"
  by unfold_locales (simp only: aep_native_cpy_dram_by_cacheline_def, rule by_line_moves, erule routines_move, assumption)

section \<open>The strided store\<close>

lemma scast_nat: "n < 2 ^ 31 \<Longrightarrow> scast (of_nat n :: u32) = (of_nat n :: u64)"
  by (simp add: signed_of_nat signed_take_bit_int_eq_self)

lemma ucast_nat: "n < 2 ^ 64 \<Longrightarrow> ucast (of_nat n :: u64) = (of_nat n :: u32)"
  using unsigned_of_nat [of n, where ?'b = 64 and ?'a = u32] by (simp add: take_bit_nat_eq_self)

lemma in_word:
  assumes "64 * i + 64 \<le> 2 ^ 64"
  shows "in_range (d + of_nat (64 * i)) 8 a \<longleftrightarrow> unat (a - d) div 64 = i \<and> unat (a - d) mod 64 < 8"
proof -
  let ?o = "unat (a - d)"
  have lt: "64 * i < 2 ^ 64" using assms by simp
  have eq: "a - (d + of_nat (64 * i)) = (a - d) - of_nat (64 * i)" by simp
  have split: "B - 64 * i < 8 \<longleftrightarrow> q = i \<and> r < 8" if "B = 64 * q + r" "r < 64" "64 * i \<le> B" for B q r :: nat
  proof -
    consider "q < i" | "q = i" | "i < q" by linarith
    then show ?thesis using that by cases auto
  qed
  show ?thesis
  proof (cases "64 * i \<le> ?o")
    case True
    then show ?thesis
      unfolding in_range_def eq unat_diff_of_nat [OF lt] using split [OF _ _ True, of "?o div 64" "?o mod 64"] True by simp
  next
    case False
    then have "?o div 64 \<noteq> i" using div_mult_mod_eq [of ?o 64] by auto
    moreover have "\<not> ?o + 2 ^ 64 - 64 * i < 8" using assms by simp
    ultimately show ?thesis
      unfolding in_range_def eq unat_diff_of_nat [OF lt] using False by simp
  qed
qed

text \<open>Memory after the words \<open>j\<close> to \<open>k - 1\<close> were copied, one in each line.\<close>

definition words_copied :: "u64 \<Rightarrow> u64 \<Rightarrow> nat \<Rightarrow> nat \<Rightarrow> (u64 \<Rightarrow> u8) \<Rightarrow> u64 \<Rightarrow> u8" where
  "words_copied d s j k M a =
     (if j \<le> unat (a - d) div 64 \<and> unat (a - d) div 64 < k \<and> unat (a - d) mod 64 < 8 then M (s + (a - d)) else M a)"

lemma store_words_step:
  assumes k: "k < 2 ^ 27" and jk: "j < k" and acc: "accessible m d (64 * k)" "accessible m s (64 * k)"
  shows "\<exists>m1. moved Copy Dirty (d + of_nat (64 * j)) (s + of_nat (64 * j)) 8 m m1 \<and>
    store_words d s (of_nat (8 * k)) (of_nat (8 * j)) m = store_words d s (of_nat (8 * k)) (of_nat (8 * Suc j)) m1"
proof -
  let ?d = "d + of_nat (64 * j)" and ?s = "s + of_nat (64 * j)"
  have sc: "scast (of_nat (8 * j) :: u32) = (of_nat (8 * j) :: u64)" using k jk by (intro scast_nat) simp
  have lt: "(of_nat (8 * j) :: u64) < of_nat (8 * k)"
    using k jk by (simp add: word_less_nat_alt unat_of_nat del: of_nat_mult)
  have nx: "ucast ((of_nat (8 * j) :: u64) + 8) = (of_nat (8 * Suc j) :: u32)"
    using ucast_nat [of "8 * Suc j"] k jk by (simp add: add.commute)
  have len: "64 * k = 64 * j + (8 + (64 * k - (64 * j + 8)))" using jk by simp
  have "accessible m d (64 * j + (8 + (64 * k - (64 * j + 8))))"
    "accessible m s (64 * j + (8 + (64 * k - (64 * j + 8))))"
    using acc len by simp_all
  then have "accessible m ?d 8" "accessible m ?s 8" unfolding accessible_add by blast+
  from copy_word_moved [OF this] obtain m1 where m1: "copy_word 8 ?d ?s m = Inr m1"
    and mv: "moved Copy Dirty ?d ?s 8 m m1" by blast
  have "8 * of_nat (8 * j) = (of_nat (64 * j) :: u64)" by simp
  then have "store_words d s (of_nat (8 * k)) (of_nat (8 * j)) m = store_words d s (of_nat (8 * k)) (of_nat (8 * Suc j)) m1"
    by (subst store_words.simps) (simp only: sc lt if_True m1 sum.case nx)
  with mv show ?thesis by blast
qed

lemma words_copied_step:
  assumes k: "k < 2 ^ 27" and jk: "j < k" and ap: "apart (64 * k) d s"
    and mv: "moved Copy Dirty (d + of_nat (64 * j)) (s + of_nat (64 * j)) 8 m m1"
  shows "words_copied d s (Suc j) k (mem m1) = words_copied d s j k (mem m)"
proof
  fix a
  have rng: "in_range (d + of_nat (64 * j)) 8 a \<longleftrightarrow> unat (a - d) div 64 = j \<and> unat (a - d) mod 64 < 8" for a
    by (rule in_word) (use jk k in simp)
  have mem1: "mem m1 a = (if unat (a - d) div 64 = j \<and> unat (a - d) mod 64 < 8 then mem m (s + (a - d)) else mem m a)" for a
    using mv by (auto simp: moved_def rng simp del: of_nat_mult)
  have inr: "in_range d (64 * k) a" if "unat (a - d) div 64 < k" for a
    using that by (simp add: in_range_def div_less_iff_less_mult mult.commute)
  have "mem m1 (s + (a - d)) = mem m (s + (a - d))" if "unat (a - d) div 64 < k" for a
  proof -
    have "in_range s (64 * k) (s + (a - d))" using inr [OF that] by (simp add: in_range_def)
    then have "\<not> in_range d (64 * k) (s + (a - d))" using apart_disjoint [OF ap] by blast
    then have "\<not> unat (s + (a - d) - d) div 64 < k" using inr by blast
    with jk show ?thesis by (auto simp: mem1)
  qed
  then show "words_copied d s (Suc j) k (mem m1) a = words_copied d s j k (mem m) a"
    using jk by (auto simp: words_copied_def mem1 [of a])
qed

lemma store_words_ok:
  assumes k: "k < 2 ^ 27" and ap: "apart (64 * k) d s"
  shows "j \<le> k \<Longrightarrow> accessible m d (64 * k) \<Longrightarrow> accessible m s (64 * k) \<Longrightarrow>
    \<exists>m'. store_words d s (of_nat (8 * k)) (of_nat (8 * j)) m = Some (Inr m') \<and> same_env m m' \<and>
      mem m' = (\<lambda>a. if j \<le> unat (a - d) div 64 \<and> unat (a - d) div 64 < k \<and> unat (a - d) mod 64 < 8
                   then mem m (s + (a - d)) else mem m a)"
  unfolding words_copied_def [symmetric]
proof (induction "k - j" arbitrary: j m)
  case 0
  then have "j = k" by simp
  moreover have "scast (of_nat (8 * k) :: u32) = (of_nat (8 * k) :: u64)" using k by (intro scast_nat) simp
  moreover have "words_copied d s k k (mem m) = mem m" by (auto simp: words_copied_def fun_eq_iff)
  ultimately show ?case by (simp add: store_words.simps del: of_nat_mult)
next
  case (Suc n)
  then have jk: "j < k" by simp
  from store_words_step [OF k jk Suc.prems(2,3)] obtain m1 where
    mv: "moved Copy Dirty (d + of_nat (64 * j)) (s + of_nat (64 * j)) 8 m m1" and
    st: "store_words d s (of_nat (8 * k)) (of_nat (8 * j)) m = store_words d s (of_nat (8 * k)) (of_nat (8 * Suc j)) m1" by blast
  note env = moved_env [OF mv]
  have "\<exists>m'. store_words d s (of_nat (8 * k)) (of_nat (8 * Suc j)) m1 = Some (Inr m') \<and> same_env m1 m' \<and>
      mem m' = words_copied d s (Suc j) k (mem m1)"
    by (rule Suc.hyps(1)) (use Suc.hyps(2) Suc.prems jk accessible_env [OF env] in auto)
  then show ?case using same_env_trans [OF env] unfolding st words_copied_step [OF k jk ap mv] by blast
qed

section \<open>Properties\<close>

text \<open>C17: Every vector copy operation of the benchmark that fences, whether it writes the range
  back at the end or line by line or stores around the cache, copies exactly, reports the time
  between its clock readings, and leaves a copy that survives a crash.\<close>

theorem vector_ops_durable:
  assumes "copy_args True m dest src len"
  shows "\<forall>op \<in> {aep_cpy_load_store_by_all, aep_cpy_load_store_by_cacheline, aep_cpy_ntload_store_by_all,
      aep_cpy_ntload_store_by_cacheline, aep_cpy_load_ntstore, aep_cpy_ntload_ntstore,
      aep_store_from_dram_flush_by_all, aep_store_from_dram_flush_by_cacheline, aep_ntstore_from_dram}.
    copies_durably op m dest src len"
  using assms o_cpy_load_store_by_all.copy_durable o_cpy_load_store_by_cacheline.copy_durable
    o_cpy_ntload_store_by_all.copy_durable o_cpy_ntload_store_by_cacheline.copy_durable
    o_cpy_load_ntstore.copy_durable o_cpy_ntload_ntstore.copy_durable
    o_store_from_dram_flush_by_all.copy_durable o_store_from_dram_flush_by_cacheline.copy_durable
    o_ntstore_from_dram.copy_durable by simp

theorem vector_ops_durable_witness:
  "copies_durably aep_cpy_load_store_by_all demo_machine 4099 12291 1000"
  using vector_ops_durable [of demo_machine 4099 12291 1000]
  by (simp add: copy_args_def can_copy_def apart_def)

text \<open>The operations built on memcpy are durable copies too, for pointers of any alignment.\<close>

theorem native_ops_durable:
  assumes "copy_args False m dest src len"
  shows "\<forall>op \<in> {aep_cpy_native_by_all, aep_cpy_native_by_cacheline, aep_native_cpy_dram_by_all,
      aep_native_cpy_dram_by_cacheline}. copies_durably op m dest src len"
  using assms o_cpy_native_by_all.copy_durable o_cpy_native_by_cacheline.copy_durable
    o_native_cpy_dram_by_all.copy_durable o_native_cpy_dram_by_cacheline.copy_durable by simp

theorem native_ops_durable_witness:
  "copies_durably aep_cpy_native_by_all demo_machine 4099 12298 1000"
  using native_ops_durable [of demo_machine 4099 12298 1000]
  by (simp add: copy_args_def can_copy_def apart_def)

text \<open>What the documentation of libpmem2 says of its memcpy: with any flag but NOFLUSH it copies
  and persists what it copied.\<close>

definition pmem2_memcpy_persists :: "pmdk \<Rightarrow> bool" where
  "pmem2_memcpy_persists P \<longleftrightarrow>
     (\<forall>m d s n fl. fl \<noteq> PMEM2_F_MEM_NOFLUSH \<and> can_copy m d s n \<longrightarrow>
        (\<exists>m'. pmdk_memcpy P d s n fl m = Inr m' \<and> same_env m m' \<and>
           mem m' = (\<lambda>a. if in_range d (unat n) a then mem m (s + (a - d)) else mem m a) \<and>
           (\<forall>a. in_range d (unat n) a \<or> pst m a = Durable \<longrightarrow> pst m' a = Durable)))"

definition demo_pmdk :: pmdk where
  "demo_pmdk = \<lparr>pmdk_memcpy = (\<lambda>d s n fl m. if can_copy m d s n
       then Inr (m\<lparr>mem := (\<lambda>a. if in_range d (unat n) a then mem m (s + (a - d)) else mem m a),
                   pst := (\<lambda>a. if in_range d (unat n) a then Durable else pst m a)\<rparr>)
       else Inl UndefinedBehaviour),
     pmdk_memset = (\<lambda>d c n fl m. if accessible m d (unat n)
       then Inr (m\<lparr>mem := (\<lambda>a. if in_range d (unat n) a then ucast c else mem m a),
                   pst := (\<lambda>a. if in_range d (unat n) a then Durable else pst m a)\<rparr>)
       else Inl (PageFault d))\<rparr>"

text \<open>The baseline operations of the four tables measure the clock alone: they report the
  difference of two successive clock readings and change nothing else.\<close>

theorem baselines_measure_clock:
  "\<forall>op \<in> {hd aep_read_funcs, hd (aep_write_funcs P), hd (aep_cpy_funcs P), hd (aep_memset_funcs P)}.
     op dest src len m = Some (Inr (ts_at m (Suc (clock_pos m)) - ts_at m (clock_pos m),
       m\<lparr>clock_pos := Suc (Suc (clock_pos m))\<rparr>))"
proof -
  have "timed [] m = Some (Inr (ts_at m (Suc (clock_pos m)) - ts_at m (clock_pos m),
      m\<lparr>clock_pos := Suc (Suc (clock_pos m))\<rparr>))"
    using timed_result [of "[]" m "m\<lparr>clock_pos := Suc (clock_pos m)\<rparr>"] by simp
  then show ?thesis
    by (simp add: aep_read_funcs_def aep_write_funcs_def aep_cpy_funcs_def aep_memset_funcs_def
        aep_read_baseline_def aep_write_baseline_def aep_cpy_baseline_def aep_memset_baseline_def)
qed

theorem baselines_measure_clock_witness:
  "aep_cpy_baseline 1 2 3 demo_machine = Some (Inr (1000000000, demo_machine\<lparr>clock_pos := 2\<rparr>))"
  using baselines_measure_clock [of demo_pmdk 1 2 3 demo_machine]
  by (simp add: aep_cpy_funcs_def ts_at_def demo_machine_def numeral_2_eq_2)

text \<open>C38: aep_native_store_dram does not copy its range. Its counter advances by 8 but indexes
  64-bit words, so it copies 8 bytes out of every 64 and reaches 8 times as far as its length:
  for a length of 8k bytes it changes the first 8 bytes of each of the k blocks of 64 bytes,
  and nothing else.\<close>

theorem aep_native_store_dram_strided:
  assumes "k < 2 ^ 27" and "apart (64 * k) dest src" and "accessible m dest (64 * k)"
    and "accessible m src (64 * k)" and "unat dest + 8 * k + 64 \<le> 2 ^ 64" and "mapped m (page_of dest)"
  shows "\<exists>t m'. aep_native_store_dram dest src (of_nat (8 * k)) m = Some (Inr (t, m')) \<and>
    mem m' = (\<lambda>a. if unat (a - dest) div 64 < k \<and> unat (a - dest) mod 64 < 8
                 then mem m (src + (a - dest)) else mem m a)"
proof -
  let ?m = "m\<lparr>clock_pos := Suc (clock_pos m)\<rparr>"
  have "accessible ?m dest (64 * k)" "accessible ?m src (64 * k)"
    using assms(3,4) by (simp_all add: accessible_def)
  from store_words_ok [OF assms(1,2) _ this, of 0] obtain m1 where
    m1: "store_words dest src (of_nat (8 * k)) 0 ?m = Some (Inr m1)" and e1: "same_env ?m m1"
    and mem1: "mem m1 = (\<lambda>a. if unat (a - dest) div 64 < k \<and> unat (a - dest) mod 64 < 8
                 then mem m (src + (a - dest)) else mem m a)" by (auto simp del: of_nat_mult cong: if_cong)
  have u: "unat (of_nat (8 * k) :: u64) = 8 * k" using assms(1) by (simp add: unat_of_nat del: of_nat_mult)
  have "accessible m dest (8 * k)" by (rule accessible_mono [OF assms(3)]) simp
  then have "accessible m1 dest (unat (of_nat (8 * k) :: u64))" "mapped m1 (page_of dest)"
    using e1 assms(6) unfolding u accessible_env [OF e1] by (simp_all add: accessible_def same_env_def)
  from clwb_extent_ok [OF _ this] assms(5) u obtain m2 where
    m2: "clwb_extent dest (of_nat (8 * k)) m1 = Some (Inr m2)" and e2: "same_env m1 m2" and mem2: "mem m2 = mem m1"
    by auto
  have "do_all [store_words dest src (of_nat (8 * k)) 0, clwb_extent dest (of_nat (8 * k)), fence] ?m = Some (Inr (sfence m2))"
    using m1 m2 by (simp add: fence_def del: of_nat_mult)
  from timed_result [OF this] same_env_trans [OF e1 e2] mem1 mem2 show ?thesis
    by (simp add: aep_native_store_dram_def sfence_def same_env_def del: of_nat_mult cong: if_cong)
qed

theorem aep_native_store_dram_strided_witness:
  "\<exists>t m'. aep_native_store_dram 4096 12288 16 demo_machine = Some (Inr (t, m')) \<and>
    mem m' = (\<lambda>a. if unat (a - 4096) div 64 < 2 \<and> unat (a - 4096) mod 64 < 8
                 then ucast (12288 + (a - 4096)) else ucast a)"
  using aep_native_store_dram_strided [of 2 4096 12288 demo_machine] by (simp add: apart_def cong: if_cong)

end
