(* ===== verification/Bitops.thy ===== *)
theory Bitops
  imports HLFS_Prelude
begin

text \<open>
  util/bitops.h: the bit scans and the power-of-two test. bsf and bsr leave their destination
  undefined for a zero operand, so a scan of zero is \<open>None\<close>. The leading underscores of the
  source are dropped: \<open>ffs_word\<close> is __ffs and \<open>fls_word\<close> is __fls.
\<close>

section \<open>The scans\<close>

definition bsf :: "u64 \<Rightarrow> u64 option" where
  "bsf w = (if w = 0 then None else Some (of_nat (length (takeWhile (\<lambda>i. \<not> bit w i) [0..<64]))))"

definition bsr :: "u64 \<Rightarrow> u64 option" where
  "bsr w = (if w = 0 then None else Some (63 - of_nat (length (takeWhile (\<lambda>i. \<not> bit w i) (rev [0..<64])))))"

definition ffs_word :: "u64 \<Rightarrow> u64 option" where
  "ffs_word word = bsf word"

definition ffz :: "u64 \<Rightarrow> u64 option" where
  "ffz word = bsf (NOT word)"

definition fls_word :: "u64 \<Rightarrow> u64 option" where
  "fls_word word = bsr word"

text \<open>The result is an int: the sum is truncated to 32 bits.\<close>

definition fls :: "u64 \<Rightarrow> u32 option" where
  "fls x = (if x = 0 then Some 0
            else (case fls_word x of None \<Rightarrow> None | Some k \<Rightarrow> Some (ucast (k + 1))))"

definition is_pow2 :: "u64 \<Rightarrow> bool" where
  "is_pow2 v \<longleftrightarrow> v \<noteq> 0 \<and> v AND (v - 1) = 0"

section \<open>What they find\<close>

lemma takeWhile_upt_first:
  assumes "k < n" and "P k" and "\<And>i. i < k \<Longrightarrow> \<not> P i"
  shows "takeWhile (\<lambda>i. \<not> P i) [0..<n] = [0..<k]"
proof -
  have "[0..<n] = [0..<k] @ k # [Suc k..<n]"
    using assms(1) by (metis le0 less_imp_le upt_add_eq_append upt_conv_Cons le_add_diff_inverse)
  then show ?thesis using assms(2,3) by (simp add: takeWhile_append)
qed

lemma takeWhile_rev_last:
  assumes "k < n" and "P k" and "\<And>i. k < i \<Longrightarrow> i < n \<Longrightarrow> \<not> P i"
  shows "takeWhile (\<lambda>i. \<not> P i) (rev [0..<n]) = rev [Suc k..<n]"
proof -
  have "[0..<n] = [0..<k] @ k # [Suc k..<n]"
    using assms(1) by (metis le0 less_imp_le upt_add_eq_append upt_conv_Cons le_add_diff_inverse)
  then show ?thesis using assms(2,3) by (simp add: takeWhile_append)
qed

lemma bsf_bit:
  assumes "k < 64" and "bit w k" and "\<And>i. i < k \<Longrightarrow> \<not> bit w i"
  shows "bsf w = Some (of_nat k)"
proof -
  have "takeWhile (\<lambda>i. \<not> bit w i) [0..<64] = [0..<k]" by (rule takeWhile_upt_first) (use assms in auto)
  moreover have "w \<noteq> 0" using assms(2) by auto
  ultimately show ?thesis by (simp add: bsf_def)
qed

lemma bsr_bit:
  assumes k: "k < 64" and "bit w k" and "\<And>i. k < i \<Longrightarrow> i < 64 \<Longrightarrow> \<not> bit w i"
  shows "bsr w = Some (of_nat k)"
proof -
  have "takeWhile (\<lambda>i. \<not> bit w i) (rev [0..<64]) = rev [Suc k..<64]"
    by (rule takeWhile_rev_last) (use assms in auto)
  moreover have "w \<noteq> 0" using assms(2) by auto
  moreover have "63 - of_nat (63 - k) = (of_nat k :: u64)" using k by (simp add: of_nat_diff)
  ultimately show ?thesis by (simp add: bsr_def)
qed

lemma bit_u64_lt: "bit (w :: u64) i \<Longrightarrow> i < 64"
  using bit_imp_le_length [of w i] by simp

lemma nonzero_bit: "(w :: u64) \<noteq> 0 \<Longrightarrow> \<exists>i<64. bit w i"
  by (metis bit_u64_lt bit_eqI bit_0_eq bot_apply bot_bool_def)

lemma log_bit:
  assumes "w \<noteq> (0 :: u64)"
  obtains k where "k < 64" and "bit w k" and "\<And>i. k < i \<Longrightarrow> \<not> bit w i"
    and "2 ^ k \<le> unat w" and "unat w < 2 ^ (k + 1)"
proof -
  define k where "k = Max {i. bit w i}"
  have fin: "finite {i. bit w i}" by (rule finite_subset [of _ "{..<64}"]) (auto dest: bit_u64_lt)
  have ne: "{i. bit w i} \<noteq> {}" using nonzero_bit [OF assms] by auto
  have k: "bit w k" using Max_in [OF fin ne] by (simp add: k_def)
  have top: "\<not> bit w i" if "k < i" for i
  proof
    assume "bit w i"
    then have "i \<le> k" unfolding k_def by (intro Max_ge [OF fin]) simp
    with that show False by simp
  qed
  have "n < k + 1" if "bit w n" for n using top [of n] that by (cases "k < n") auto
  then have "take_bit (k + 1) w = w" by (intro bit_eqI) (auto simp: bit_take_bit_iff)
  then have "unat w mod 2 ^ (k + 1) = unat w"
    using unsigned_take_bit_eq [of "k + 1" w, where ?'a = nat] by (simp add: take_bit_eq_mod)
  then have lt: "unat w < 2 ^ (k + 1)" by (metis mod_less_divisor zero_less_numeral zero_less_power)
  have "bit (unat w) k" using k by (auto simp: bit_unsigned_iff dest: bit_u64_lt)
  then have "unat w div 2 ^ k \<noteq> 0" by (metis bit_iff_odd even_zero)
  then have le: "2 ^ k \<le> unat w" by (metis div_less not_le)
  show thesis by (rule that) (use k top lt le bit_u64_lt in auto)
qed

lemma fls_word_log:
  assumes "w \<noteq> 0"
  obtains k where "k < 64" and "fls_word w = Some (of_nat k)" and "2 ^ k \<le> unat w" and "unat w < 2 ^ (k + 1)"
  using log_bit [OF assms] bsr_bit unfolding fls_word_def by metis

lemma fls_word_exp: "k < 64 \<Longrightarrow> fls_word (2 ^ k) = Some (of_nat k)"
  unfolding fls_word_def by (rule bsr_bit) (auto simp: bit_exp_iff)

lemma first_bit:
  assumes "w \<noteq> (0 :: u64)"
  obtains k where "k < 64" and "bit w k" and "\<And>i. i < k \<Longrightarrow> \<not> bit w i"
proof -
  obtain j where "bit w j" using nonzero_bit [OF assms] by blast
  then have "bit w (LEAST i. bit w i)" by (rule LeastI)
  moreover have "\<not> bit w i" if "i < (LEAST i. bit w i)" for i using that by (rule not_less_Least)
  ultimately show thesis using that bit_u64_lt by blast
qed

lemma is_pow2_exp: "k < 64 \<Longrightarrow> is_pow2 (2 ^ k)"
proof -
  assume k: "k < 64"
  have "(2 ^ k :: u64) AND (2 ^ k - 1) = 0"
    unfolding mask_eq_exp_minus_1 [symmetric]
    by (rule bit_eqI) (auto simp: bit_and_iff bit_exp_iff bit_mask_iff)
  with k show ?thesis by (simp add: is_pow2_def)
qed

lemma is_pow2_imp_exp:
  assumes "is_pow2 v"
  obtains k where "k < 64" and "v = 2 ^ k"
proof -
  from assms have v: "v \<noteq> 0" "v AND (v - 1) = 0" by (simp_all add: is_pow2_def)
  obtain k where k: "k < 64" "bit v k" "2 ^ k \<le> unat v" "unat v < 2 ^ (k + 1)"
    using log_bit [OF v(1)] by metis
  have "unat v = 2 ^ k"
  proof (rule ccontr)
    assume "unat v \<noteq> 2 ^ k"
    moreover have "1 \<le> v" using v(1) by (simp add: word_le_nat_alt unat_gt_0 Suc_le_eq)
    then have "unat (v - 1) = unat v - 1" by (simp add: unat_sub)
    ultimately have "unat (v - 1) div 2 ^ k = 1" using k(3,4)
      by (intro div_nat_eqI) auto
    then have "bit (unat (v - 1)) k" by (simp add: bit_iff_odd)
    then have "bit (v - 1) k" by (simp add: bit_unsigned_iff)
    with k(2) v(2) show False by (metis bit_0_eq bit_and_iff bot_apply bot_bool_def)
  qed
  then have "of_nat (unat v) = (of_nat (2 ^ k) :: u64)" by simp
  with k(1) show thesis using that by simp
qed

section \<open>Properties\<close>

text \<open>The scan for the last set bit is the integer logarithm: for a non-zero word it finds
  the k with 2^k at most the word and the word below 2^(k+1), and fls is one more.\<close>

theorem fls_word_log2:
  assumes "w \<noteq> 0"
  shows "\<exists>k<64. fls_word w = Some (of_nat k) \<and> fls w = Some (of_nat (k + 1)) \<and>
    2 ^ k \<le> unat w \<and> unat w < 2 ^ (k + 1)"
proof -
  obtain k where k: "k < 64" "fls_word w = Some (of_nat k)" "2 ^ k \<le> unat w" "unat w < 2 ^ (k + 1)"
    using fls_word_log [OF assms] by metis
  have "take_bit LENGTH(64) (k + 1) = k + 1" using k(1) by (intro take_bit_nat_eq_self) simp
  then have "ucast (of_nat (k + 1) :: u64) = (of_nat (k + 1) :: u32)" by (simp only: unsigned_of_nat)
  moreover have "of_nat k + 1 = (of_nat (k + 1) :: u64)" by simp
  ultimately have "ucast (of_nat k + 1 :: u64) = (of_nat (k + 1) :: u32)" by (simp only:)
  then have "fls w = Some (of_nat (k + 1))" using assms k(2) by (simp add: fls_def)
  with k show ?thesis by blast
qed

theorem fls_word_log2_witness:
  "\<exists>k<64. fls_word 4096 = Some (of_nat k) \<and> fls 4096 = Some (of_nat (k + 1)) \<and>
    2 ^ k \<le> (4096 :: nat) \<and> (4096 :: nat) < 2 ^ (k + 1)"
  using fls_word_log2 [of 4096] by simp

text \<open>C40: The two power-of-two tests of the code agree: is_pow2 accepts a word exactly when
  shifting 1 by its last set bit gives the word back, and exactly when it is 2^k for some k.\<close>

theorem is_pow2_iff:
  "(is_pow2 v \<longleftrightarrow> (\<exists>k. fls_word v = Some k \<and> push_bit (unat k) 1 = v)) \<and>
   (is_pow2 v \<longleftrightarrow> (\<exists>k<64. v = 2 ^ k))"
proof -
  have exp: "fls_word (2 ^ k) = Some (of_nat k) \<and> push_bit (unat (of_nat k :: u64)) 1 = (2 ^ k :: u64)"
    if "k < 64" for k
    using that fls_word_exp [OF that] by (simp add: unat_of_nat push_bit_eq_mult)
  have z: "fls_word 0 = None" by (simp add: fls_word_def bsr_def)
  have two: "is_pow2 v \<longleftrightarrow> (\<exists>k<64. v = 2 ^ k)"
    using is_pow2_imp_exp is_pow2_exp by metis
  moreover have "is_pow2 v \<longleftrightarrow> (\<exists>k. fls_word v = Some k \<and> push_bit (unat k) 1 = v)"
  proof
    assume "is_pow2 v"
    then show "\<exists>k. fls_word v = Some k \<and> push_bit (unat k) 1 = v"
      using exp unfolding two by blast
  next
    assume "\<exists>k. fls_word v = Some k \<and> push_bit (unat k) 1 = v"
    then obtain k where k: "fls_word v = Some k" "push_bit (unat k) 1 = v" by blast
    with z have "v \<noteq> 0" by auto
    from fls_word_log [OF this] k(1) obtain j where "j < 64" "k = of_nat j" by auto
    then have "v = 2 ^ j" using k(2) by (simp add: unat_of_nat push_bit_eq_mult)
    with \<open>j < 64\<close> show "is_pow2 v" unfolding two by blast
  qed
  ultimately show ?thesis by blast
qed

text \<open>The scans for the first bit: ffs_word finds the lowest set bit of a word that has one
  and ffz the lowest clear bit of a word that has one.\<close>

theorem first_bit_scans:
  "(w \<noteq> 0 \<longrightarrow> (\<exists>k<64. ffs_word w = Some (of_nat k) \<and> bit w k \<and> (\<forall>i<k. \<not> bit w i))) \<and>
   (w \<noteq> NOT 0 \<longrightarrow> (\<exists>k<64. ffz w = Some (of_nat k) \<and> \<not> bit w k \<and> (\<forall>i<k. bit w i)))"
proof (intro conjI impI)
  assume "w \<noteq> 0"
  from first_bit [OF this] show "\<exists>k<64. ffs_word w = Some (of_nat k) \<and> bit w k \<and> (\<forall>i<k. \<not> bit w i)"
    using bsf_bit unfolding ffs_word_def by metis
next
  assume "w \<noteq> NOT 0"
  then have "NOT w \<noteq> 0" by (metis bit.double_compl)
  from first_bit [OF this] obtain k where k: "k < 64" "bit (NOT w) k" "\<And>i. i < k \<Longrightarrow> \<not> bit (NOT w) i"
    by metis
  then have "ffz w = Some (of_nat k)" using bsf_bit unfolding ffz_def by metis
  moreover have "bit (NOT w) i \<longleftrightarrow> \<not> bit w i" if "i < 64" for i using that by (simp add: bit_not_iff)
  ultimately show "\<exists>k<64. ffz w = Some (of_nat k) \<and> \<not> bit w k \<and> (\<forall>i<k. bit w i)"
    using k by (metis less_trans)
qed

theorem first_bit_scans_witness:
  "(\<exists>k<64. ffs_word 8 = Some (of_nat k) \<and> bit (8 :: u64) k \<and> (\<forall>i<k. \<not> bit (8 :: u64) i)) \<and>
   (\<exists>k<64. ffz 7 = Some (of_nat k) \<and> \<not> bit (7 :: u64) k \<and> (\<forall>i<k. bit (7 :: u64) i))"
proof -
  have "(8 :: u64) \<noteq> 0" "(7 :: u64) \<noteq> NOT 0" by simp_all
  with first_bit_scans [of 8] first_bit_scans [of 7] show ?thesis by blast
qed

end
