(* ===== verification/Files.thy ===== *)
theory Files
  imports HLFS_Prelude "HOL-Library.AList"
begin

text \<open>
  util/file.cc on a model of the file system: a tree of directories, regular files (size and
  mode) and other nodes, the process's open descriptors and directory streams, and the free
  space. The system calls the file uses are the first group of definitions; they answer like
  the calls do for a process that passes every permission check, with errno as the result of
  a failure.
\<close>

section \<open>State\<close>

datatype node = Reg u64 u32 | Dir "(string \<times> node) list" | Other

record fsys =
  fs_root :: node
  fds :: "(int \<times> string list) list"
  open_dirs :: nat          \<comment> \<open>directory streams opened and not closed\<close>
  fs_free :: nat            \<comment> \<open>bytes the medium can still allocate\<close>
  fs_umask :: u32
  fs_dir_size :: u64        \<comment> \<open>what stat reports as the size of a directory or special file\<close>

definition ENOENT :: int where "ENOENT = 2"
definition EEXIST :: int where "EEXIST = 17"
definition ENOTDIR :: int where "ENOTDIR = 20"
definition EISDIR :: int where "EISDIR = 21"
definition EINVAL :: int where "EINVAL = 22"
definition ENOSPC :: int where "ENOSPC = 28"
definition EBUSY :: int where "EBUSY = 16"
definition ENOTEMPTY :: int where "ENOTEMPTY = 39"

lemmas errnos = ENOENT_def EEXIST_def ENOTDIR_def EISDIR_def ENOSPC_def EBUSY_def EINVAL_def ENOTEMPTY_def

section \<open>Paths and trees\<close>

text \<open>A path string names the list of its non-empty components, from the root.\<close>

fun split_slash :: "string \<Rightarrow> string list" where
  "split_slash [] = [[]]"
| "split_slash (c # cs) =
     (if c = CHR ''/'' then [] # split_slash cs
      else (case split_slash cs of [] \<Rightarrow> [[c]] | w # ws \<Rightarrow> (c # w) # ws))"

definition comps :: "string \<Rightarrow> string list" where
  "comps s = filter (\<lambda>w. w \<noteq> []) (split_slash s)"

fun lookup :: "node \<Rightarrow> string list \<Rightarrow> node option" where
  "lookup t [] = Some t"
| "lookup (Dir cs) (x # p) = (case map_of cs x of None \<Rightarrow> None | Some t \<Rightarrow> lookup t p)"
| "lookup _ (x # p) = None"

text \<open>Replace (\<open>Some\<close>) or remove (\<open>None\<close>) what a path names; the parent must be a directory.\<close>

fun put :: "string list \<Rightarrow> node option \<Rightarrow> node \<Rightarrow> node" where
  "put [] v t = (case v of None \<Rightarrow> t | Some n \<Rightarrow> n)"
| "put (x # p) v (Dir cs) =
     Dir (case map_of cs x of
            None \<Rightarrow> (case v of None \<Rightarrow> cs | Some n \<Rightarrow> if p = [] then AList.update x n cs else cs)
          | Some t \<Rightarrow> if p = [] \<and> v = None then AList.delete x cs else AList.update x (put p v t) cs)"
| "put (x # p) v t = t"

definition is_dir :: "node \<Rightarrow> bool" where
  "is_dir t = (case t of Dir cs \<Rightarrow> True | _ \<Rightarrow> False)"

definition parent_ok :: "fsys \<Rightarrow> string list \<Rightarrow> bool" where
  "parent_ok fs p = (p \<noteq> [] \<and> (case lookup (fs_root fs) (butlast p) of Some (Dir cs) \<Rightarrow> True | _ \<Rightarrow> False))"

section \<open>System calls\<close>

text \<open>The lowest free descriptor; 0 to 2 are the standard streams.\<close>

definition new_fd :: "fsys \<Rightarrow> int" where
  "new_fd fs = hd (filter (\<lambda>i. i \<notin> fst ` set (fds fs)) [3..4 + int (length (fds fs))])"

definition sys_open :: "bool \<Rightarrow> string \<Rightarrow> u32 \<Rightarrow> fsys \<Rightarrow> int \<times> fsys" where
  "sys_open creat path mode fs =
     (let p = comps path in
      case lookup (fs_root fs) p of
        Some (Dir cs) \<Rightarrow> (- 1, fs)
      | Some t \<Rightarrow> (new_fd fs, fs\<lparr>fds := (new_fd fs, p) # fds fs\<rparr>)
      | None \<Rightarrow>
          if creat \<and> parent_ok fs p
          then (new_fd fs, fs\<lparr>fds := (new_fd fs, p) # fds fs,
                              fs_root := put p (Some (Reg 0 (mode AND NOT (fs_umask fs)))) (fs_root fs)\<rparr>)
          else (- 1, fs))"

definition sys_close :: "int \<Rightarrow> fsys \<Rightarrow> fsys" where
  "sys_close fd fs = fs\<lparr>fds := filter (\<lambda>e. fst e \<noteq> fd) (fds fs)\<rparr>"

definition sys_ftruncate :: "int \<Rightarrow> u64 \<Rightarrow> fsys \<Rightarrow> int \<times> fsys" where
  "sys_ftruncate fd sz fs =
     (case map_of (fds fs) fd of
        None \<Rightarrow> (- 1, fs)
      | Some p \<Rightarrow>
          (case lookup (fs_root fs) p of
             Some (Reg s m) \<Rightarrow>
               if bit sz 63 then (- 1, fs)
               else (0, fs\<lparr>fs_root := put p (Some (Reg sz m)) (fs_root fs)\<rparr>)
           | _ \<Rightarrow> (- 1, fs)))"

definition sys_fallocate :: "int \<Rightarrow> u64 \<Rightarrow> fsys \<Rightarrow> int \<times> fsys" where
  "sys_fallocate fd sz fs =
     (if unat sz \<le> fs_free fs then (0, fs\<lparr>fs_free := fs_free fs - unat sz\<rparr>) else (ENOSPC, fs))"

definition sys_unlink :: "string \<Rightarrow> fsys \<Rightarrow> int \<times> fsys" where
  "sys_unlink path fs =
     (let p = comps path in
      case lookup (fs_root fs) p of
        None \<Rightarrow> (ENOENT, fs)
      | Some (Dir cs) \<Rightarrow> (EISDIR, fs)
      | Some t \<Rightarrow> (0, fs\<lparr>fs_root := put p None (fs_root fs)\<rparr>))"

definition sys_mkdir :: "string \<Rightarrow> fsys \<Rightarrow> int \<times> fsys" where
  "sys_mkdir path fs =
     (let p = comps path in
      if lookup (fs_root fs) p \<noteq> None then (EEXIST, fs)
      else if \<not> parent_ok fs p then (ENOENT, fs)
      else (0, fs\<lparr>fs_root := put p (Some (Dir [])) (fs_root fs)\<rparr>))"

definition sys_rmdir :: "string \<Rightarrow> fsys \<Rightarrow> int \<times> fsys" where
  "sys_rmdir path fs =
     (let p = comps path in
      case lookup (fs_root fs) p of
        None \<Rightarrow> (ENOENT, fs)
      | Some (Dir []) \<Rightarrow> (0, fs\<lparr>fs_root := put p None (fs_root fs)\<rparr>)
      | Some (Dir cs) \<Rightarrow> (ENOTEMPTY, fs)
      | Some t \<Rightarrow> (ENOTDIR, fs))"

text \<open>The names a directory stream yields, with the entries for the directory and its parent.\<close>

definition dir_names :: "(string \<times> node) list \<Rightarrow> string list" where
  "dir_names cs = ''.'' # ''..'' # map fst cs"

section \<open>The functions of util/file.cc\<close>

text \<open>The third argument of both calls of open is the decimal number 666.\<close>

definition OpenAndAllocAtSize :: "string \<Rightarrow> u64 \<Rightarrow> fsys \<Rightarrow> int \<times> fsys" where
  "OpenAndAllocAtSize filename sz fs =
     (let (fd, fs1) = sys_open True filename 666 fs in
      if fd < 0 then (- 1, fs1)
      else if sz = 0 then (fd, fs1)
      else
        (let (ret, fs2) = sys_ftruncate fd sz fs1 in
         if ret \<noteq> 0 then (- 1, sys_close fd fs2)
         else
           (let (ret', fs3) = sys_fallocate fd sz fs2 in
            if ret' \<noteq> 0 then (- 1, sys_close fd fs3) else (fd, fs3))))"

definition OpenSimple :: "string \<Rightarrow> fsys \<Rightarrow> int \<times> fsys" where
  "OpenSimple filename fs = sys_open False filename 666 fs"

definition Close :: "int \<Rightarrow> fsys \<Rightarrow> fsys" where
  "Close fd fs = sys_close fd fs"

definition FileExists :: "string \<Rightarrow> fsys \<Rightarrow> bool" where
  "FileExists filename fs = (lookup (fs_root fs) (comps filename) \<noteq> None)"

definition GetChildren :: "string \<Rightarrow> fsys \<Rightarrow> int \<times> string list" where
  "GetChildren directory_path fs =
     (case lookup (fs_root fs) (comps directory_path) of
        None \<Rightarrow> (ENOENT, [])
      | Some (Dir cs) \<Rightarrow> (0, dir_names cs)
      | Some t \<Rightarrow> (ENOTDIR, []))"

definition RemoveFile :: "string \<Rightarrow> fsys \<Rightarrow> int \<times> fsys" where
  "RemoveFile filename fs = sys_unlink filename fs"

definition CreateDir :: "string \<Rightarrow> fsys \<Rightarrow> int \<times> fsys" where
  "CreateDir dirname fs = sys_mkdir dirname fs"

definition RemoveDir :: "string \<Rightarrow> fsys \<Rightarrow> int \<times> fsys" where
  "RemoveDir dirname fs = sys_rmdir dirname fs"

text \<open>
  The recursion descends one directory level per call; \<open>fuel\<close> bounds the depth, and running out
  of it (\<open>None\<close>) is excluded below for a fuel of one more than the depth of the tree. \<open>Some None\<close>
  is the overflow of the 512-byte path buffer. A directory is read to its end before it is
  closed; an error of a child returns at once and leaves the stream open.
\<close>

fun remove_children :: "(string \<Rightarrow> fsys \<Rightarrow> (int \<times> fsys) option option) \<Rightarrow> string \<Rightarrow> string list \<Rightarrow> fsys \<Rightarrow>
    (int \<times> fsys) option option" where
  "remove_children rec dirname [] fs = Some (Some (0, fs))"
| "remove_children rec dirname (d_name # ds) fs =
     (if ''.'' = d_name \<or> ''..'' = d_name then remove_children rec dirname ds fs
      else if length dirname + 1 + length d_name \<ge> 512 then Some None
      else (case rec (dirname @ ''/'' @ d_name) fs of
              None \<Rightarrow> None
            | Some None \<Rightarrow> Some None
            | Some (Some (ret, fs')) \<Rightarrow>
                if ret \<noteq> 0 then Some (Some (ret, fs')) else remove_children rec dirname ds fs'))"

fun RemoveDirRecursive :: "nat \<Rightarrow> string \<Rightarrow> fsys \<Rightarrow> (int \<times> fsys) option option" where
  "RemoveDirRecursive 0 dirname fs = None"
| "RemoveDirRecursive (Suc fuel) dirname fs =
     (case lookup (fs_root fs) (comps dirname) of
        None \<Rightarrow> Some (Some (ENOENT, fs))
      | Some (Reg s m) \<Rightarrow> Some (Some (0, snd (sys_unlink dirname fs)))
      | Some (Dir cs) \<Rightarrow>
          (case remove_children (RemoveDirRecursive fuel) dirname (dir_names cs) (fs\<lparr>open_dirs := open_dirs fs + 1\<rparr>) of
             None \<Rightarrow> None
           | Some None \<Rightarrow> Some None
           | Some (Some (ret, fs1)) \<Rightarrow>
               if ret \<noteq> 0 then Some (Some (ret, fs1))
               else Some (Some (0, snd (sys_rmdir dirname (fs1\<lparr>open_dirs := open_dirs fs1 - 1\<rparr>)))))
      | Some Other \<Rightarrow> Some (Some (- 1, fs)))"

definition GetFileSize :: "string \<Rightarrow> fsys \<Rightarrow> int \<times> u64" where
  "GetFileSize filename fs =
     (case lookup (fs_root fs) (comps filename) of
        None \<Rightarrow> (ENOENT, 0)
      | Some (Reg s m) \<Rightarrow> (0, s)
      | Some t \<Rightarrow> (0, fs_dir_size fs))"

text \<open>rename moves files and whole directories, and replaces a file by a file or an empty
  directory by a directory.\<close>

definition sys_rename :: "string \<Rightarrow> string \<Rightarrow> fsys \<Rightarrow> int \<times> fsys" where
  "sys_rename from_path to_path fs =
     (let p = comps from_path; q = comps to_path in
      case lookup (fs_root fs) p of
        None \<Rightarrow> (ENOENT, fs)
      | Some t \<Rightarrow>
          if p = [] \<or> q = [] then (EBUSY, fs)
          else if p = q then (0, fs)
          else if \<not> parent_ok fs q then (ENOENT, fs)
          else if is_dir t \<and> take (length p) q = p then (EINVAL, fs)
          else (case lookup (fs_root fs) q of
                  None \<Rightarrow> (0, fs\<lparr>fs_root := put q (Some t) (put p None (fs_root fs))\<rparr>)
                | Some (Dir cs) \<Rightarrow>
                    if \<not> is_dir t then (EISDIR, fs)
                    else if cs \<noteq> [] then (ENOTEMPTY, fs)
                    else (0, fs\<lparr>fs_root := put q (Some t) (put p None (fs_root fs))\<rparr>)
                | Some u \<Rightarrow>
                    if is_dir t then (ENOTDIR, fs)
                    else (0, fs\<lparr>fs_root := put q (Some t) (put p None (fs_root fs))\<rparr>)))"

definition RenameFile :: "string \<Rightarrow> string \<Rightarrow> fsys \<Rightarrow> int \<times> fsys" where
  "RenameFile from_path to_path fs = sys_rename from_path to_path fs"

section \<open>Tree lemmas\<close>

lemma split_slash_ne: "split_slash s \<noteq> []"
  by (induction s) (auto split: list.splits)

lemma split_slash_append: "split_slash (s @ ''/'' @ n) = split_slash s @ split_slash n"
  by (induction s) (auto split: list.splits simp: split_slash_ne)

definition good_name :: "string \<Rightarrow> bool" where
  "good_name n \<longleftrightarrow> n \<noteq> [] \<and> n \<noteq> ''.'' \<and> n \<noteq> ''..'' \<and> CHR ''/'' \<notin> set n"

lemma split_slash_name: "CHR ''/'' \<notin> set n \<Longrightarrow> split_slash n = [n]"
  by (induction n) auto

lemma comps_child: "good_name n \<Longrightarrow> comps (s @ ''/'' @ n) = comps s @ [n]"
  unfolding comps_def split_slash_append by (simp add: good_name_def split_slash_name)

lemma update_same: "map_of cs x = Some v \<Longrightarrow> AList.update x v cs = cs"
  by (induction cs) (auto split: if_splits)

lemma update_twice: "AList.update x a (AList.update x b cs) = AList.update x a cs"
  by (induction cs) auto

lemma lookup_append: "lookup t (p @ q) = (case lookup t p of None \<Rightarrow> None | Some u \<Rightarrow> lookup u q)"
  by (induction t p rule: lookup.induct) (auto split: option.splits)

lemma put_same: "lookup t p = Some n \<Longrightarrow> put p (Some n) t = t"
  by (induction t p rule: lookup.induct) (auto split: option.splits simp: update_same)

lemma lookup_put: "lookup t p \<noteq> None \<Longrightarrow> lookup (put p (Some n) t) p = Some n"
  by (induction t p rule: lookup.induct) (auto split: option.splits simp: update_conv)

lemma lookup_put_new:
  "p \<noteq> [] \<Longrightarrow> lookup t (butlast p) = Some (Dir cs) \<Longrightarrow> lookup (put p (Some n) t) p = Some n"
  by (induction t p rule: lookup.induct) (auto split: option.splits if_splits simp: update_conv)

lemma lookup_put_None: "p \<noteq> [] \<Longrightarrow> lookup (put p None t) p = None"
proof (induction t p rule: lookup.induct)
  case (2 cs x p)
  then show ?case by (cases p) (auto split: option.splits simp: update_conv delete_conv)
qed auto

lemma put_put: "lookup t p \<noteq> None \<Longrightarrow> p \<noteq> [] \<or> v \<noteq> None \<Longrightarrow> put p v (put p (Some b) t) = put p v t"
proof (induction t p rule: lookup.induct)
  case (1 t)
  then show ?case by auto
next
  case (2 cs x p)
  then obtain u where u: "map_of cs x = Some u" "lookup u p \<noteq> None" by (auto split: option.splits)
  with 2 show ?case by (auto simp: update_conv update_twice AList.delete_update_same)
qed auto

lemma put_child:
  "lookup t p = Some (Dir cs) \<Longrightarrow> map_of cs x \<noteq> None \<Longrightarrow>
   put (p @ [x]) None t = put p (Some (Dir (AList.delete x cs))) t"
  by (induction t p rule: lookup.induct) (auto split: option.splits)

lemma lookup_put_other:
  "\<not> (\<exists>r. q = p @ r) \<Longrightarrow> \<not> (\<exists>r. p = q @ r) \<Longrightarrow> lookup (put p v t) q = lookup t q"
proof (induction p v t arbitrary: q rule: put.induct)
  case (2 x p v cs)
  from 2(3) obtain y q' where q: "q = y # q'" by (cases q) auto
  show ?case
  proof (cases "y = x")
    case False
    then show ?thesis using q by (auto split: option.splits simp: update_conv delete_conv)
  next
    case True
    with 2(2,3) q have ne: "\<not> (\<exists>r. q' = p @ r)" "\<not> (\<exists>r. p = q' @ r)" by auto
    then have "p \<noteq> []" "q' \<noteq> []" by auto
    then show ?thesis using 2(1) ne True q by (auto split: option.splits simp: update_conv)
  qed
qed auto

section \<open>Removing a tree\<close>

text \<open>
  What makes a tree removable from a path of \<open>l\<close> characters: distinct proper names, no special
  files, and no path of 512 characters or more.
\<close>

fun removable :: "nat \<Rightarrow> node \<Rightarrow> bool" where
  "removable l (Reg s m) = True"
| "removable l (Dir cs) = (distinct (map fst cs) \<and>
     (\<forall>e\<in>set cs. good_name (fst e) \<and> l + 1 + length (fst e) < 512 \<and> removable (l + 1 + length (fst e)) (snd e)))"
| "removable l Other = False"

fun depth :: "node \<Rightarrow> nat" where
  "depth (Dir cs) = Suc (foldr max (map (\<lambda>e. depth (snd e)) cs) 0)"
| "depth _ = 0"

lemma depth_child: "(n, t) \<in> set cs \<Longrightarrow> depth t < depth (Dir cs)"
  by (induction cs) auto

lemma remove_children_all:
  assumes rec: "\<And>n t fs'. (n, t) \<in> set cs0 \<Longrightarrow> lookup (fs_root fs') (p @ [n]) = Some t \<Longrightarrow>
      rec (s @ ''/'' @ n) fs' = Some (Some (0, fs'\<lparr>fs_root := put (p @ [n]) None (fs_root fs')\<rparr>))"
  shows "set cs \<subseteq> set cs0 \<Longrightarrow> distinct (map fst cs) \<Longrightarrow>
    \<forall>e\<in>set cs. good_name (fst e) \<and> length s + 1 + length (fst e) < 512 \<Longrightarrow>
    lookup (fs_root fs) p = Some (Dir cs) \<Longrightarrow>
    remove_children rec s (map fst cs) fs = Some (Some (0, fs\<lparr>fs_root := put p (Some (Dir [])) (fs_root fs)\<rparr>))"
proof (induction cs arbitrary: fs)
  case Nil
  then show ?case by (simp add: put_same)
next
  case (Cons e cs)
  obtain n t where e: "e = (n, t)" by (cases e)
  let ?fs = "fs\<lparr>fs_root := put p (Some (Dir cs)) (fs_root fs)\<rparr>"
  have "lookup (fs_root fs) (p @ [n]) = Some t" using Cons.prems(4) e by (simp add: lookup_append)
  with rec [of n t fs] Cons.prems(1) e
  have r: "rec (s @ ''/'' @ n) fs = Some (Some (0, fs\<lparr>fs_root := put (p @ [n]) None (fs_root fs)\<rparr>))"
    by simp
  have "AList.delete n (e # cs) = cs" using Cons.prems(2) e by (simp add: AList.delete_idem)
  then have "put (p @ [n]) None (fs_root fs) = put p (Some (Dir cs)) (fs_root fs)"
    using put_child [OF Cons.prems(4), of n] e by simp
  with r have r: "rec (s @ ''/'' @ n) fs = Some (Some (0, ?fs))" by simp
  have "lookup (fs_root ?fs) p = Some (Dir cs)" using Cons.prems(4) by (simp add: lookup_put)
  from Cons.IH [OF _ _ _ this] Cons.prems
  have "remove_children rec s (map fst cs) ?fs = Some (Some (0, fs\<lparr>fs_root := put p (Some (Dir [])) (fs_root fs)\<rparr>))"
    by (simp add: put_put)
  moreover have "''.'' \<noteq> n" "''..'' \<noteq> n" using Cons.prems(3) e by (auto simp: good_name_def)
  ultimately show ?case using r Cons.prems(3) e by simp
qed

lemma remove_tree:
  "depth t < fuel \<Longrightarrow> comps s \<noteq> [] \<Longrightarrow> lookup (fs_root fs) (comps s) = Some t \<Longrightarrow> removable (length s) t \<Longrightarrow>
   RemoveDirRecursive fuel s fs = Some (Some (0, fs\<lparr>fs_root := put (comps s) None (fs_root fs)\<rparr>))"
proof (induction fuel arbitrary: s fs t)
  case 0
  then show ?case by simp
next
  case (Suc fuel)
  let ?p = "comps s"
  show ?case
  proof (cases t)
    case (Reg z m)
    then show ?thesis using Suc.prems by (simp add: sys_unlink_def Let_def)
  next
    case Other
    then show ?thesis using Suc.prems by simp
  next
    case (Dir cs)
    let ?fs = "fs\<lparr>open_dirs := open_dirs fs + 1\<rparr>"
    from Suc.prems(4) Dir have dist: "distinct (map fst cs)"
      and names: "\<forall>e\<in>set cs. good_name (fst e) \<and> length s + 1 + length (fst e) < 512" by auto
    have rec: "RemoveDirRecursive fuel (s @ ''/'' @ n) fs' =
        Some (Some (0, fs'\<lparr>fs_root := put (?p @ [n]) None (fs_root fs')\<rparr>))"
      if "(n, u) \<in> set cs" "lookup (fs_root fs') (?p @ [n]) = Some u" for n u fs'
    proof -
      have c: "comps (s @ ''/'' @ n) = ?p @ [n]" using names that(1) by (intro comps_child) auto
      have "depth u < fuel" using depth_child [OF that(1)] Suc.prems(1) Dir by simp
      moreover have "removable (length (s @ ''/'' @ n)) u" using Suc.prems(4) Dir that(1) by auto
      ultimately show ?thesis using Suc.IH [of u "s @ ''/'' @ n" fs'] that(2) by (simp add: c [simplified])
    qed
    have "remove_children (RemoveDirRecursive fuel) s (map fst cs) ?fs =
        Some (Some (0, ?fs\<lparr>fs_root := put ?p (Some (Dir [])) (fs_root ?fs)\<rparr>))"
      by (rule remove_children_all [OF rec]) (use dist names Suc.prems(3) Dir in auto)
    then have "remove_children (RemoveDirRecursive fuel) s (dir_names cs) ?fs =
        Some (Some (0, ?fs\<lparr>fs_root := put ?p (Some (Dir [])) (fs_root fs)\<rparr>))" by (simp add: dir_names_def)
    moreover have "lookup (put ?p (Some (Dir [])) (fs_root fs)) ?p = Some (Dir [])"
      using Suc.prems(3) by (simp add: lookup_put)
    moreover have "put ?p None (put ?p (Some (Dir [])) (fs_root fs)) = put ?p None (fs_root fs)"
      using Suc.prems(2,3) by (simp add: put_put)
    ultimately show ?thesis using Suc.prems(3) Dir by (simp add: sys_rmdir_def Let_def)
  qed
qed

section \<open>Descriptors\<close>

lemma new_fd_fresh: "new_fd fs \<notin> fst ` set (fds fs) \<and> 3 \<le> new_fd fs"
proof -
  let ?used = "fst ` set (fds fs)" and ?xs = "[3..4 + int (length (fds fs))]"
  have "\<not> set ?xs \<subseteq> ?used"
  proof
    assume "set ?xs \<subseteq> ?used"
    then have "card (set ?xs) \<le> card ?used" by (intro card_mono) simp_all
    also have "\<dots> \<le> length (fds fs)" by (metis card_image_le card_length finite_set le_trans)
    finally show False by simp
  qed
  then have ne: "filter (\<lambda>i. i \<notin> ?used) ?xs \<noteq> []" by (auto simp: filter_empty_conv)
  have "new_fd fs \<in> set (filter (\<lambda>i. i \<notin> ?used) ?xs)"
    unfolding new_fd_def using ne by (rule hd_in_set)
  then show ?thesis by auto
qed

lemma close_new: "filter (\<lambda>e. fst e \<noteq> new_fd fs) (fds fs) = fds fs"
  using new_fd_fresh [of fs] by (force simp: filter_id_conv)

lemma sys_open_create:
  "(fd, fs') = sys_open True f mode fs \<Longrightarrow>
   fd = - 1 \<and> fs' = fs \<or>
   fd = new_fd fs \<and> fds fs' = (new_fd fs, comps f) # fds fs \<and> lookup (fs_root fs') (comps f) \<noteq> None"
  by (auto simp: sys_open_def Let_def parent_ok_def lookup_put_new split: option.splits node.splits if_splits)

lemma OpenAndAllocAtSize_ok:
  "case OpenAndAllocAtSize f sz fs of (fd, fs') \<Rightarrow>
     if fd < 0 then fd = - 1 \<and> fds fs' = fds fs
     else fd \<notin> fst ` set (fds fs) \<and> fds fs' = (fd, comps f) # fds fs \<and>
       lookup (fs_root fs') (comps f) \<noteq> None \<and>
       (sz \<noteq> 0 \<longrightarrow> (\<exists>m. lookup (fs_root fs') (comps f) = Some (Reg sz m)))"
proof -
  obtain fd fs1 where o: "sys_open True f 666 fs = (fd, fs1)" by fastforce
  from sys_open_create [OF o [symmetric]] consider
    (fail) "fd = - 1" "fs1 = fs"
    | (ok) "fd = new_fd fs" "fds fs1 = (fd, comps f) # fds fs" "lookup (fs_root fs1) (comps f) \<noteq> None"
    by auto
  then show ?thesis
  proof cases
    case fail
    then show ?thesis using o by (simp add: OpenAndAllocAtSize_def)
  next
    case ok
    have fresh: "fd \<notin> fst ` set (fds fs)" "0 \<le> fd" and cl: "filter (\<lambda>e. fst e \<noteq> fd) (fds fs) = fds fs"
      using new_fd_fresh [of fs] close_new [of fs] ok(1) by simp_all
    have put: "lookup (put (comps f) (Some n) (fs_root fs1)) (comps f) = Some n" for n
      using ok(3) by (rule lookup_put)
    show ?thesis
      using o ok(2,3) fresh cl put
      by (auto simp: OpenAndAllocAtSize_def sys_ftruncate_def sys_fallocate_def sys_close_def Let_def
          split: node.splits option.splits if_splits prod.splits)
  qed
qed

lemma OpenAndAllocAtSize_fds:
  assumes "OpenAndAllocAtSize f sz fs = (fd, fs')"
  shows "if fd < 0 then fds fs' = fds fs else fds (Close fd fs') = fds fs"
  using OpenAndAllocAtSize_ok [where f = f and sz = sz and fs = fs] assms
  by (auto simp: Close_def sys_close_def filter_id_conv split: if_splits)

section \<open>Properties\<close>

text \<open>C28: RemoveDirRecursive removes exactly the named subtree: on a tree without special files
  whose paths fit the buffer it returns 0, the path names nothing afterwards, every path outside
  the subtree and its ancestors names what it did, and no directory stream stays open. A fuel
  above the depth of the tree is enough.\<close>

theorem RemoveDirRecursive_removes:
  assumes "lookup (fs_root fs) (comps s) = Some t" and "comps s \<noteq> []" and "removable (length s) t"
    and "depth t < fuel"
  shows "\<exists>fs'. RemoveDirRecursive fuel s fs = Some (Some (0, fs')) \<and> lookup (fs_root fs') (comps s) = None \<and>
    (\<forall>q. \<not> (\<exists>r. q = comps s @ r) \<and> \<not> (\<exists>r. comps s = q @ r) \<longrightarrow> lookup (fs_root fs') q = lookup (fs_root fs) q) \<and>
    open_dirs fs' = open_dirs fs \<and> fds fs' = fds fs"
  using remove_tree [OF assms(4,2,1,3)] assms(2) by (simp add: lookup_put_None lookup_put_other)

definition demo_fs :: fsys where
  "demo_fs = \<lparr>fs_root = Dir [(''rep'', Dir [(''a'', Reg 5 420), (''sub'', Dir [(''b'', Reg 7 420)])]), (''keep'', Reg 1 420)],
     fds = [], open_dirs = 0, fs_free = 1000, fs_umask = 18, fs_dir_size = 4096\<rparr>"

theorem RemoveDirRecursive_removes_witness:
  "\<exists>fs'. RemoveDirRecursive 5 ''/rep'' demo_fs = Some (Some (0, fs')) \<and> lookup (fs_root fs') [''rep''] = None \<and>
    lookup (fs_root fs') [''keep''] = Some (Reg 1 420) \<and> open_dirs fs' = 0"
proof -
  let ?t = "Dir [(''a'', Reg 5 420), (''sub'', Dir [(''b'', Reg 7 420)])]"
  have c: "comps ''/rep'' = [''rep'']" by (simp add: comps_def)
  have "lookup (fs_root demo_fs) (comps ''/rep'') = Some ?t" by (simp add: c demo_fs_def)
  moreover have "removable (length ''/rep'') ?t" by (simp add: good_name_def)
  ultimately obtain fs' where "RemoveDirRecursive 5 ''/rep'' demo_fs = Some (Some (0, fs'))"
    "lookup (fs_root fs') (comps ''/rep'') = None"
    and keep: "\<forall>q. \<not> (\<exists>r. q = comps ''/rep'' @ r) \<and> \<not> (\<exists>r. comps ''/rep'' = q @ r) \<longrightarrow>
      lookup (fs_root fs') q = lookup (fs_root demo_fs) q"
    and "open_dirs fs' = open_dirs demo_fs"
    using RemoveDirRecursive_removes [of demo_fs "''/rep''" ?t 5] by (auto simp: c)
  moreover have "lookup (fs_root fs') [''keep''] = lookup (fs_root demo_fs) [''keep'']"
    using keep by (auto simp: c)
  ultimately show ?thesis by (auto simp: c demo_fs_def)
qed

text \<open>C30: OpenAndAllocAtSize leaves no descriptor behind on any failure, and on success the
  descriptor is a fresh one open on the named file, whose size is the requested one when that
  is not 0.\<close>

theorem OpenAndAllocAtSize_result:
  "case OpenAndAllocAtSize f sz fs of (fd, fs') \<Rightarrow>
     if fd < 0 then fd = - 1 \<and> fds fs' = fds fs
     else fd \<notin> fst ` set (fds fs) \<and> fds fs' = (fd, comps f) # fds fs \<and>
       lookup (fs_root fs') (comps f) \<noteq> None \<and>
       (sz \<noteq> 0 \<longrightarrow> (\<exists>m. lookup (fs_root fs') (comps f) = Some (Reg sz m)))"
  by (rule OpenAndAllocAtSize_ok)

theorem OpenAndAllocAtSize_result_witness:
  "\<exists>fd fs'. OpenAndAllocAtSize ''/rep/c'' 100 demo_fs = (fd, fs') \<and> 0 \<le> fd \<and>
    (\<exists>m. lookup (fs_root fs') [''rep'', ''c''] = Some (Reg 100 m))"
proof -
  have c: "comps ''/rep/c'' = [''rep'', ''c'']" by (simp add: comps_def)
  obtain fd fs' where r: "OpenAndAllocAtSize ''/rep/c'' 100 demo_fs = (fd, fs')" by fastforce
  moreover have "0 \<le> fd"
    using r by (auto simp: OpenAndAllocAtSize_def sys_open_def sys_ftruncate_def sys_fallocate_def c demo_fs_def
        parent_ok_def Let_def new_fd_def bit_iff_odd split: if_splits)
  ultimately show ?thesis using OpenAndAllocAtSize_result [where f = "''/rep/c''" and sz = 100 and fs = demo_fs] by (auto simp: c)
qed

text \<open>A file that OpenAndAllocAtSize creates is not readable by its owner: the mode is the
  decimal number 666, whose owner bits are write only, whatever the umask.\<close>

theorem created_file_mode:
  assumes "lookup (fs_root fs) (comps f) = None" and "parent_ok fs (comps f)"
  shows "\<exists>m fs'. OpenAndAllocAtSize f 0 fs = (new_fd fs, fs') \<and>
    lookup (fs_root fs') (comps f) = Some (Reg 0 m) \<and> \<not> bit m 8"
proof -
  have b: "\<not> bit (666 AND NOT (fs_umask fs)) 8" by (simp add: bit_and_iff bit_iff_odd [of "666 :: u32"])
  from assms(2) obtain cs where p: "comps f \<noteq> []" "lookup (fs_root fs) (butlast (comps f)) = Some (Dir cs)"
    by (auto simp: parent_ok_def split: option.splits node.splits)
  have "\<not> new_fd fs < 0" using new_fd_fresh [of fs] by simp
  then show ?thesis
    using assms lookup_put_new [OF p] b by (simp add: OpenAndAllocAtSize_def sys_open_def Let_def)
qed

theorem created_file_mode_witness:
  "\<exists>m fs'. OpenAndAllocAtSize ''/rep/c'' 0 demo_fs = (new_fd demo_fs, fs') \<and>
    lookup (fs_root fs') [''rep'', ''c''] = Some (Reg 0 m) \<and> \<not> bit m 8"
proof -
  have c: "comps ''/rep/c'' = [''rep'', ''c'']" by (simp add: comps_def)
  show ?thesis using created_file_mode [of demo_fs "''/rep/c''"] by (simp add: c demo_fs_def parent_ok_def)
qed

text \<open>When a directory holds a special file, RemoveDirRecursive returns -1 and leaves the
  directory's stream open: nothing closes it on the error path.\<close>

theorem RemoveDirRecursive_leaks:
  assumes "lookup (fs_root fs) (comps s) = Some (Dir ((n, Other) # cs))" and "good_name n"
    and "length s + 1 + length n < 512"
  shows "RemoveDirRecursive (Suc (Suc fuel)) s fs = Some (Some (- 1, fs\<lparr>open_dirs := open_dirs fs + 1\<rparr>))"
proof -
  let ?fs = "fs\<lparr>open_dirs := open_dirs fs + 1\<rparr>"
  have "lookup (fs_root ?fs) (comps (s @ ''/'' @ n)) = Some Other"
    unfolding comps_child [OF assms(2)] using assms(1) by (simp add: lookup_append)
  then have "RemoveDirRecursive (Suc fuel) (s @ ''/'' @ n) ?fs = Some (Some (- 1, ?fs))" by simp
  moreover have "''.'' \<noteq> n" "''..'' \<noteq> n" using assms(2) by (auto simp: good_name_def)
  ultimately have "remove_children (RemoveDirRecursive (Suc fuel)) s (dir_names ((n, Other) # cs)) ?fs =
      Some (Some (- 1, ?fs))"
    using assms(3) by (simp add: dir_names_def del: RemoveDirRecursive.simps)
  then show ?thesis by (subst RemoveDirRecursive.simps) (simp add: assms(1) del: RemoveDirRecursive.simps)
qed

theorem RemoveDirRecursive_leaks_witness:
  "let fs = demo_fs\<lparr>fs_root := Dir [(''rep'', Dir [(''fifo'', Other)])]\<rparr> in
   RemoveDirRecursive 2 ''/rep'' fs = Some (Some (- 1, fs\<lparr>open_dirs := 1\<rparr>))"
proof -
  let ?fs = "demo_fs\<lparr>fs_root := Dir [(''rep'', Dir [(''fifo'', Other)])]\<rparr>"
  have "lookup (fs_root ?fs) (comps ''/rep'') = Some (Dir [(''fifo'', Other)])" by (simp add: comps_def)
  moreover have "good_name ''fifo''" by (simp add: good_name_def)
  moreover have "length ''/rep'' + 1 + length ''fifo'' < 512" by code_simp
  ultimately have "RemoveDirRecursive (Suc (Suc 0)) ''/rep'' ?fs = Some (Some (- 1, ?fs\<lparr>open_dirs := open_dirs ?fs + 1\<rparr>))"
    by (rule RemoveDirRecursive_leaks)
  moreover have "Suc (Suc 0) = 2" by simp
  ultimately show ?thesis by (simp only: Let_def) (simp add: demo_fs_def)
qed

end
