(* ===== verification/Pmem_Map.thy ===== *)
theory Pmem_Map
  imports Files
begin

text \<open>
  util/aep.cc: mapping a device or a file through libpmem2. The library is not part of the
  repository; what its calls answer is the parameter \<open>pmem2\<close>. The state counts the library
  objects that are live, so that what the error paths forget shows.
\<close>

section \<open>State and parameters\<close>

record pmem2 =
  config_new_rc :: int
  source_from_fd_rc :: "int \<Rightarrow> int"
  set_granularity_rc :: int
  map_new_rc :: "int \<Rightarrow> int"
  mapping :: "int \<Rightarrow> u64 \<times> u64"   \<comment> \<open>address and size of the mapping of a descriptor\<close>

record pm_state =
  pm_fs :: fsys
  live_cfgs :: nat
  live_srcs :: nat
  live_maps :: nat

type_synonym pmem2_map = "u64 \<times> u64"

section \<open>The functions of util/aep.cc\<close>

definition Pmem2MapFromFd :: "pmem2 \<Rightarrow> int \<Rightarrow> pm_state \<Rightarrow> pmem2_map option \<times> pm_state" where
  "Pmem2MapFromFd L fd s =
     (if config_new_rc L \<noteq> 0 then (None, s)
      else
        (let s1 = s\<lparr>live_cfgs := live_cfgs s + 1\<rparr> in
         if source_from_fd_rc L fd \<noteq> 0 then (None, s1)
         else
           (let s2 = s1\<lparr>live_srcs := live_srcs s1 + 1\<rparr> in
            if set_granularity_rc L \<noteq> 0 then (None, s2)
            else if map_new_rc L fd \<noteq> 0 then (None, s2)
            else
              (let s3 = s2\<lparr>live_maps := live_maps s2 + 1\<rparr>;
                   s4 = s3\<lparr>live_srcs := live_srcs s3 - 1\<rparr>;
                   s5 = s4\<lparr>live_cfgs := live_cfgs s4 - 1\<rparr>
               in (Some (mapping L fd), s5)))))"

definition Pmem2Map :: "pmem2 \<Rightarrow> string \<Rightarrow> pm_state \<Rightarrow> pmem2_map option \<times> pm_state" where
  "Pmem2Map L dev_file s =
     (let (fd, fs) = OpenSimple dev_file (pm_fs s) in
      if fd < 0 then (None, s\<lparr>pm_fs := fs\<rparr>)
      else (let (m, s') = Pmem2MapFromFd L fd (s\<lparr>pm_fs := fs\<rparr>)
            in (m, s'\<lparr>pm_fs := Close fd (pm_fs s')\<rparr>)))"

definition Pmem2MapAndTruncate :: "pmem2 \<Rightarrow> string \<Rightarrow> u64 \<Rightarrow> pm_state \<Rightarrow> pmem2_map option \<times> pm_state" where
  "Pmem2MapAndTruncate L path sz s =
     (let (fd, fs) = OpenAndAllocAtSize path sz (pm_fs s) in
      if fd < 0 then (None, s\<lparr>pm_fs := fs\<rparr>)
      else (let (m, s') = Pmem2MapFromFd L fd (s\<lparr>pm_fs := fs\<rparr>)
            in (m, s'\<lparr>pm_fs := Close fd (pm_fs s')\<rparr>)))"

definition Pmem2UnMap :: "pm_state \<Rightarrow> pm_state" where
  "Pmem2UnMap s = s\<lparr>live_maps := live_maps s - 1\<rparr>"

lemma from_fd_fs: "pm_fs (snd (Pmem2MapFromFd L fd s)) = pm_fs s"
  by (simp add: Pmem2MapFromFd_def Let_def)

lemma from_fd_live:
  "case Pmem2MapFromFd L fd s of
     (Some mp, s') \<Rightarrow> live_cfgs s' = live_cfgs s \<and> live_srcs s' = live_srcs s \<and> live_maps s' = live_maps s + 1
   | (None, s') \<Rightarrow> live_maps s' = live_maps s \<and>
       live_cfgs s' = live_cfgs s + (if config_new_rc L = 0 then 1 else 0) \<and>
       live_srcs s' = live_srcs s + (if config_new_rc L = 0 \<and> source_from_fd_rc L fd = 0 then 1 else 0)"
  by (simp add: Pmem2MapFromFd_def Let_def)

lemma close_opened:
  assumes "sys_open creat f mode fs = (fd, fs')" and "0 \<le> fd"
  shows "fds (Close fd fs') = fds fs"
  using assms close_new [of fs]
  by (auto simp: sys_open_def Close_def sys_close_def Let_def split: option.splits node.splits if_splits)

section \<open>Properties\<close>

text \<open>C31: Mapping a device leaves the descriptor table as it was, whatever fails. A success adds
  one mapping and nothing else; a failure adds no mapping, but a failure after the first library
  call leaves the configuration behind, and one after the second the source too.\<close>

theorem Pmem2Map_resources:
  "case Pmem2Map L dev s of (r, s') \<Rightarrow> fds (pm_fs s') = fds (pm_fs s) \<and>
     (case r of
        Some mp \<Rightarrow> live_maps s' = live_maps s + 1 \<and> live_cfgs s' = live_cfgs s \<and> live_srcs s' = live_srcs s
      | None \<Rightarrow> live_maps s' = live_maps s \<and>
          (fst (OpenSimple dev (pm_fs s)) \<ge> 0 \<and> config_new_rc L = 0 \<longrightarrow> live_cfgs s' = live_cfgs s + 1) \<and>
          (fst (OpenSimple dev (pm_fs s)) \<ge> 0 \<and> config_new_rc L = 0 \<and>
           source_from_fd_rc L (fst (OpenSimple dev (pm_fs s))) = 0 \<longrightarrow> live_srcs s' = live_srcs s + 1))"
proof -
  obtain fd fs where o: "OpenSimple dev (pm_fs s) = (fd, fs)" by fastforce
  show ?thesis
  proof (cases "fd < 0")
    case True
    then have "fds fs = fds (pm_fs s)"
      using o new_fd_fresh [of "pm_fs s"]
      by (auto simp: OpenSimple_def sys_open_def Let_def split: option.splits node.splits)
    with True o show ?thesis by (simp add: Pmem2Map_def)
  next
    case False
    obtain r t where r: "Pmem2MapFromFd L fd (s\<lparr>pm_fs := fs\<rparr>) = (r, t)" by fastforce
    have "fds (Close fd fs) = fds (pm_fs s)"
      using False o by (intro close_opened) (auto simp: OpenSimple_def)
    then show ?thesis
      using False o r from_fd_fs [of L fd "s\<lparr>pm_fs := fs\<rparr>"] from_fd_live [where L = L and fd = fd and s = "s\<lparr>pm_fs := fs\<rparr>"]
      by (auto simp: Pmem2Map_def split: option.splits)
  qed
qed

definition demo_pmem2 :: pmem2 where
  "demo_pmem2 = \<lparr>config_new_rc = 0, source_from_fd_rc = (\<lambda>_. 0), set_granularity_rc = - 1,
     map_new_rc = (\<lambda>_. 0), mapping = (\<lambda>fd. (4096, 8192))\<rparr>"

theorem Pmem2Map_resources_witness:
  "live_srcs (snd (Pmem2Map demo_pmem2 ''/keep'' \<lparr>pm_fs = demo_fs, live_cfgs = 0, live_srcs = 0, live_maps = 0\<rparr>)) = 1"
  using Pmem2Map_resources [where L = demo_pmem2 and dev = "''/keep''"
      and s = "\<lparr>pm_fs = demo_fs, live_cfgs = 0, live_srcs = 0, live_maps = 0\<rparr>"]
  by (simp add: Pmem2Map_def Pmem2MapFromFd_def OpenSimple_def sys_open_def comps_def demo_fs_def demo_pmem2_def
      new_fd_def Let_def)

text \<open>Creating and mapping a file leaves the descriptor table as it was, and a success means
  the file exists with the requested size, unless that is 0, and one more mapping is live.\<close>

theorem Pmem2MapAndTruncate_maps:
  "case Pmem2MapAndTruncate L path sz s of (r, s') \<Rightarrow> fds (pm_fs s') = fds (pm_fs s) \<and>
     (\<forall>mp. r = Some mp \<longrightarrow> live_maps s' = live_maps s + 1 \<and> lookup (fs_root (pm_fs s')) (comps path) \<noteq> None \<and>
        (sz \<noteq> 0 \<longrightarrow> (\<exists>m. lookup (fs_root (pm_fs s')) (comps path) = Some (Reg sz m))))"
proof -
  obtain fd fs where o: "OpenAndAllocAtSize path sz (pm_fs s) = (fd, fs)" by fastforce
  obtain r t where r: "Pmem2MapFromFd L fd (s\<lparr>pm_fs := fs\<rparr>) = (r, t)" by fastforce
  have "fs_root (Close fd fs) = fs_root fs" by (simp add: Close_def sys_close_def)
  then show ?thesis
    using o r OpenAndAllocAtSize_fds [OF o] OpenAndAllocAtSize_ok [where f = path and sz = sz and fs = "pm_fs s"]
      from_fd_fs [of L fd "s\<lparr>pm_fs := fs\<rparr>"] from_fd_live [where L = L and fd = fd and s = "s\<lparr>pm_fs := fs\<rparr>"]
    by (auto simp: Pmem2MapAndTruncate_def split: if_splits)
qed

theorem Pmem2MapAndTruncate_maps_witness:
  "fds (pm_fs (snd (Pmem2MapAndTruncate (demo_pmem2\<lparr>set_granularity_rc := 0\<rparr>) ''/rep/d'' 64
     \<lparr>pm_fs = demo_fs, live_cfgs = 0, live_srcs = 0, live_maps = 0\<rparr>))) = []"
  using Pmem2MapAndTruncate_maps [where L = "demo_pmem2\<lparr>set_granularity_rc := 0\<rparr>" and path = "''/rep/d''" and sz = 64
      and s = "\<lparr>pm_fs = demo_fs, live_cfgs = 0, live_srcs = 0, live_maps = 0\<rparr>"]
  by (auto simp: demo_fs_def split: prod.splits)

end
