(* ===== verification/Study_Config.thy ===== *)
theory Study_Config
  imports Study_Ops Bitops Pmem_Map
begin

text \<open>
  The configuration half of bgtest/AEP/aep_study.cc: the enumerations and their names, the
  global variables, the flag validators, InitGlobalCfg, CheckGlobalCfg and the recomputation of
  sizes when the thread number changes. libnuma is a parameter (\<open>numa\<close>), as is the time that
  seeds the generator.
\<close>

section \<open>Enumerations and their names\<close>

datatype RwType = kRead | kWrite | kCpy | kMemset
datatype AccessMode = kSeq | kRandom

definition rw_type_2_str :: "(RwType \<times> string) list" where
  "rw_type_2_str = [(kRead, ''read''), (kWrite, ''write''), (kCpy, ''cpy''), (kMemset, ''memset'')]"

definition str_2_rw_type :: "(string \<times> RwType) list" where
  "str_2_rw_type = [(''read'', kRead), (''write'', kWrite), (''cpy'', kCpy), (''memset'', kMemset)]"

definition access_mode_2_str :: "(AccessMode \<times> string) list" where
  "access_mode_2_str = [(kSeq, ''seq''), (kRandom, ''random'')]"

definition str_2_access_mode :: "(string \<times> AccessMode) list" where
  "str_2_access_mode = [(''seq'', kSeq), (''random'', kRandom)]"

text \<open>Indexing an unordered_map with a missing key yields the value 0: the empty string or the
  first enumerator.\<close>

definition RwType2Str :: "RwType \<Rightarrow> string" where
  "RwType2Str t = (case map_of rw_type_2_str t of None \<Rightarrow> '''' | Some s \<Rightarrow> s)"

definition Str2RwType :: "string \<Rightarrow> RwType" where
  "Str2RwType s = (case map_of str_2_rw_type s of None \<Rightarrow> kRead | Some t \<Rightarrow> t)"

definition AccessMode2Str :: "AccessMode \<Rightarrow> string" where
  "AccessMode2Str m = (case map_of access_mode_2_str m of None \<Rightarrow> '''' | Some s \<Rightarrow> s)"

definition Str2AccessMode :: "string \<Rightarrow> AccessMode" where
  "Str2AccessMode s = (case map_of str_2_access_mode s of None \<Rightarrow> kSeq | Some m \<Rightarrow> m)"

section \<open>Sizes in words\<close>

fun to_string :: "nat \<Rightarrow> string" where
  "to_string n = (if n < 10 then [char_of (48 + n)] else to_string (n div 10) @ [char_of (48 + n mod 10)])"

declare to_string.simps [simp del]

definition Size2HumanStr :: "u64 \<Rightarrow> string" where
  "Size2HumanStr sz =
     (if sz \<ge> 1024 * 1024 * 1024 then to_string (unat (sz div (1024 * 1024 * 1024))) @ ''G''
      else if sz \<ge> 1024 * 1024 then to_string (unat (sz div (1024 * 1024))) @ ''M''
      else if sz \<ge> 1024 then to_string (unat (sz div 1024)) @ ''K''
      else to_string (unat sz) @ ''B'')"

section \<open>Global variables\<close>

definition MAX_THREAD_NUM :: nat where
  "MAX_THREAD_NUM = 32"

definition MAX_CORE_ID :: nat where
  "MAX_CORE_ID = 79"

definition AEP_SIZE :: u64 where
  "AEP_SIZE = 64 * 1024 * 1024 * 1024"

record globals =
  aep_dev_path :: string
  thread_num :: u32
  buffer_size :: u64
  rw_type :: RwType
  access_mode :: AccessMode
  access_size :: u32
  access_size_bits :: u32
  runtime :: u32
  iters :: u32
  socket :: u32
  core_ids :: "u32 list"       \<comment> \<open>MAX_THREAD_NUM entries\<close>
  core_num :: u32
  rep_dir_path :: string
  buf_slots :: u64
  buf_slots_mask :: u32
  seed :: u32
  aep_map :: "pmem2_map option"
  aep_buf :: u64
  aep_buf_size :: u64
  g_pm :: pm_state

definition initial_globals :: "pm_state \<Rightarrow> globals" where
  "initial_globals pm =
     \<lparr>aep_dev_path = ''/dev/dax1.0'', thread_num = 1, buffer_size = 1024, rw_type = kRead,
      access_mode = kSeq, access_size = 16, access_size_bits = 4, runtime = 5, iters = 10, socket = 1,
      core_ids = replicate MAX_THREAD_NUM 0, core_num = 1, rep_dir_path = ''/mnt/pmem2/aep_test'',
      buf_slots = 0, buf_slots_mask = 0, seed = 0, aep_map = None, aep_buf = 0, aep_buf_size = 0,
      g_pm = pm\<rparr>"

record flags =
  FLAGS_aep_dev_path :: string
  FLAGS_thread_num :: u32
  FLAGS_buffer_size :: u64
  FLAGS_rw_type :: string
  FLAGS_access_mode :: string
  FLAGS_access_size :: u32
  FLAGS_runtime :: u32
  FLAGS_iters :: u32
  FLAGS_socket :: u32
  FLAGS_core_ids :: string
  FLAGS_rep_dir_path :: string
  FLAGS_clean_rep_dir :: bool
  FLAGS_report_to_stdout :: bool
  FLAGS_vary_access_size :: bool
  FLAGS_vary_thread_num :: bool

record numa =
  numa_num_possible_cpus :: nat
  numa_parse_cpustring :: "string \<Rightarrow> (nat \<Rightarrow> bool) option"
  numa_max_node :: nat
  numa_node_of_cpu :: "u32 \<Rightarrow> u32"

datatype stop =
    Exit int            \<comment> \<open>exit with this status\<close>
  | Aborted             \<comment> \<open>a failed log_assert or CHECK\<close>
  | Undefined string    \<comment> \<open>undefined behaviour of C++\<close>
  | Crashed fault       \<comment> \<open>an operation faulted\<close>

section \<open>Flag validators\<close>

definition ValidateThreadNum :: "u32 \<Rightarrow> bool" where
  "ValidateThreadNum v = (v < of_nat MAX_THREAD_NUM)"

definition ValidateRwType :: "string \<Rightarrow> bool" where
  "ValidateRwType v = (map_of str_2_rw_type v \<noteq> None)"

definition ValidateAccessMode :: "string \<Rightarrow> bool" where
  "ValidateAccessMode v = (map_of str_2_access_mode v \<noteq> None)"

definition ValidateIters :: "u32 \<Rightarrow> bool" where
  "ValidateIters v = (v > 0)"

text \<open>The loop of ValidateCoreIds over the processors it is given: it gives the verdict so far and the globals;
  a store behind the 32 entries of core_ids has no defined behaviour.\<close>

fun collect_cores :: "(nat \<Rightarrow> bool) \<Rightarrow> nat list \<Rightarrow> globals \<Rightarrow> stop + bool \<times> globals" where
  "collect_cores cpus [] g = Inr (True, g)"
| "collect_cores cpus (i # js) g =
     (if cpus i
      then if i > MAX_CORE_ID then Inr (False, g)
           else if unat (core_num g) \<ge> MAX_THREAD_NUM then Inl (Undefined ''core_ids out of bounds'')
           else collect_cores cpus js
                  (g\<lparr>core_ids := (core_ids g)[unat (core_num g) := of_nat i], core_num := core_num g + 1\<rparr>)
      else collect_cores cpus js g)"

definition ValidateCoreIds :: "numa \<Rightarrow> string \<Rightarrow> globals \<Rightarrow> stop + bool \<times> globals" where
  "ValidateCoreIds N v g =
     (let g0 = g\<lparr>core_num := 0\<rparr> in
      case numa_parse_cpustring N v of
        None \<Rightarrow> Inr (False, g0)
      | Some cpus \<Rightarrow>
          (case collect_cores cpus [0..<numa_num_possible_cpus N] g0 of
             Inl e \<Rightarrow> Inl e
           | Inr (ok, g1) \<Rightarrow> Inr (ok \<and> core_num g1 \<noteq> 0, g1)))"

text \<open>gflags runs every validator on the value it found; a rejected value ends the program.\<close>

definition ParseAndValidateFlags :: "numa \<Rightarrow> flags \<Rightarrow> globals \<Rightarrow> stop + globals" where
  "ParseAndValidateFlags N F g =
     (case ValidateCoreIds N (FLAGS_core_ids F) g of
        Inl e \<Rightarrow> Inl e
      | Inr (ok, g1) \<Rightarrow>
          if ok \<and> ValidateThreadNum (FLAGS_thread_num F) \<and> ValidateRwType (FLAGS_rw_type F) \<and>
             ValidateAccessMode (FLAGS_access_mode F) \<and> ValidateIters (FLAGS_iters F)
          then Inr g1 else Inl (Exit 1))"

section \<open>Initialisation\<close>

text \<open>A bit scan of zero is undefined; its result is truncated to uint32_t.\<close>

definition fls32 :: "u64 \<Rightarrow> stop + u32" where
  "fls32 w = (case fls_word w of None \<Rightarrow> Inl (Undefined ''bsr of 0'') | Some k \<Rightarrow> Inr (ucast k))"

definition load_flags :: "flags \<Rightarrow> globals \<Rightarrow> globals" where
  "load_flags F g = g\<lparr>aep_dev_path := FLAGS_aep_dev_path F, thread_num := FLAGS_thread_num F,
     buffer_size := FLAGS_buffer_size F, rw_type := Str2RwType (FLAGS_rw_type F),
     access_mode := Str2AccessMode (FLAGS_access_mode F), access_size := FLAGS_access_size F,
     runtime := FLAGS_runtime F, iters := FLAGS_iters F, socket := FLAGS_socket F,
     rep_dir_path := FLAGS_rep_dir_path F\<rparr>"

definition map_device :: "pmem2 \<Rightarrow> globals \<Rightarrow> stop + globals" where
  "map_device L g =
     (if aep_map g \<noteq> None then Inl Aborted
      else
        (let (mp, pm) = Pmem2Map L (aep_dev_path g) (g_pm g) in
         case mp of
           None \<Rightarrow> Inl Aborted
         | Some (addr, sz) \<Rightarrow>
             if addr = 0 then Inl Aborted
             else Inr (g\<lparr>aep_map := mp, g_pm := pm, aep_buf := addr, aep_buf_size := sz\<rparr>)))"

definition derive_sizes :: "u32 \<Rightarrow> globals \<Rightarrow> stop + globals" where
  "derive_sizes now g =
     (if access_size g = 0 then Inl (Undefined ''division by 0'')
      else
        (let slots = buffer_size g div ucast (access_size g) in
         case fls32 slots of
           Inl e \<Rightarrow> Inl e
         | Inr slots_bits \<Rightarrow>
             (case fls32 (ucast (access_size g)) of
                Inl e \<Rightarrow> Inl e
              | Inr a_bits \<Rightarrow>
                  Inr (g\<lparr>buf_slots := slots,
                         buf_slots_mask := ucast (push_bit (unat slots_bits) (1 :: u64) - 1),
                         access_size_bits := a_bits, seed := now\<rparr>))))"

definition InitGlobalCfg :: "pmem2 \<Rightarrow> flags \<Rightarrow> u32 \<Rightarrow> bool \<Rightarrow> globals \<Rightarrow> stop + globals" where
  "InitGlobalCfg L F now first_time g =
     run_all ((if first_time then [\<lambda>g. Inr (load_flags F g), map_device L] else []) @ [derive_sizes now]) g"

definition DestroyGlobalCfg :: "globals \<Rightarrow> globals" where
  "DestroyGlobalCfg g = g\<lparr>g_pm := Pmem2UnMap (g_pm g), aep_map := None, aep_buf := 0\<rparr>"

definition log_assert :: "bool \<Rightarrow> globals \<Rightarrow> stop + globals" where
  "log_assert c g = (if c then Inr g else Inl Aborted)"

definition check_numa :: "numa \<Rightarrow> globals \<Rightarrow> stop + globals" where
  "check_numa N g =
     (if socket g > of_nat (numa_max_node N) then Inl (Exit (- 1))
      else if core_num g \<noteq> thread_num g then Inl (Exit (- 1))
      else if unat (thread_num g) > length (core_ids g) then Inl (Undefined ''core_ids out of bounds'')
      else if list_ex (\<lambda>c. numa_node_of_cpu N c \<noteq> socket g) (take (unat (thread_num g)) (core_ids g))
      then Inl (Exit (- 1))
      else Inr g)"

text \<open>\<open>(1UL << __fls(v)) == v\<close>\<close>

definition assert_pow2 :: "u64 \<Rightarrow> globals \<Rightarrow> stop + globals" where
  "assert_pow2 v g =
     (case fls32 v of Inl e \<Rightarrow> Inl e | Inr b \<Rightarrow> log_assert (push_bit (unat b) (1 :: u64) = v) g)"

definition CheckGlobalCfg :: "numa \<Rightarrow> globals \<Rightarrow> stop + globals" where
  "CheckGlobalCfg N = run_all [check_numa N,
     \<lambda>g. log_assert (aep_buf_size g \<ge> AEP_SIZE) g,
     \<lambda>g. log_assert (buffer_size g * ucast (thread_num g) \<le> AEP_SIZE div 2) g,
     \<lambda>g. assert_pow2 (buffer_size g) g,
     \<lambda>g. log_assert (push_bit (unat (access_size_bits g)) (1 :: u64) = ucast (access_size g)) g,
     \<lambda>g. log_assert (buf_slots g > 0) g,
     \<lambda>g. assert_pow2 (buf_slots g) g]"

section \<open>Sizes that follow the thread number and the access size\<close>

definition gen_iters :: "u32 \<Rightarrow> u32" where
  "gen_iters sz =
     (if sz \<ge> 32 * 1024 then 500000
      else if sz \<ge> 8 * 1024 then 500000 * 2
      else if sz \<ge> 4 * 1024 then 500000 * 2 * 2
      else if sz \<ge> 1 * 1024 then 4000000
      else 8000000)"

definition ReCfgWhenThreadNumChange :: "globals \<Rightarrow> stop + globals" where
  "ReCfgWhenThreadNumChange g =
     (if thread_num g = 0 \<or> access_size g = 0 then Inl (Undefined ''division by 0'')
      else
        (let bs = AEP_SIZE div 2 div ucast (thread_num g);
             it = ucast (bs div ucast (access_size g)) :: u32
         in Inr (g\<lparr>buffer_size := bs,
                   iters := (if it > 2500000 then 2500000 else if it < 500000 then 500000 else it)\<rparr>)))"

section \<open>Operations by type\<close>

definition GetSubOpNum :: "pmdk \<Rightarrow> RwType \<Rightarrow> nat" where
  "GetSubOpNum P t =
     (case t of kRead \<Rightarrow> AEP_READ_FUNC_NUM | kWrite \<Rightarrow> AEP_WRITE_FUNC_NUM P
      | kCpy \<Rightarrow> AEP_CPY_FUNC_NUM P | kMemset \<Rightarrow> AEP_MEMSET_FUNC_NUM P)"

text \<open>The assertion bounds the index from above only; a negative index reads before the table.\<close>

definition index_table :: "nat \<Rightarrow> 'a list \<Rightarrow> int \<Rightarrow> stop + 'a" where
  "index_table num tbl sub_op =
     (if \<not> sub_op < int num then Inl Aborted
      else if sub_op < 0 \<or> length tbl \<le> nat sub_op then Inl (Undefined ''table index out of bounds'')
      else Inr (tbl ! nat sub_op))"

definition GetOpFn :: "pmdk \<Rightarrow> RwType \<Rightarrow> int \<Rightarrow> stop + op_fn" where
  "GetOpFn P t sub_op =
     index_table (GetSubOpNum P t)
       (case t of kRead \<Rightarrow> aep_read_funcs | kWrite \<Rightarrow> aep_write_funcs P
        | kCpy \<Rightarrow> aep_cpy_funcs P | kMemset \<Rightarrow> aep_memset_funcs P) sub_op"

definition GetOpLabel :: "pmdk \<Rightarrow> RwType \<Rightarrow> int \<Rightarrow> stop + string" where
  "GetOpLabel P t sub_op =
     index_table (GetSubOpNum P t)
       (case t of kRead \<Rightarrow> aep_read_func_labels | kWrite \<Rightarrow> aep_write_func_labels
        | kCpy \<Rightarrow> aep_cpy_func_labels | kMemset \<Rightarrow> aep_memset_func_labels) sub_op"


section \<open>Powers of two\<close>

lemma fls32_exp: "k < 64 \<Longrightarrow> fls32 (2 ^ k) = Inr (of_nat k)"
  using unsigned_of_nat [of k, where ?'b = 64 and ?'a = u32]
  by (simp add: fls32_def fls_word_exp take_bit_nat_eq_self)

lemma fls32_cases:
  assumes "fls32 w = Inr b"
  obtains "unat b < 64" and "2 ^ unat b \<le> unat w" and "unat w < 2 ^ (unat b + 1)"
proof (cases "w = 0")
  case True
  with assms show thesis by (simp add: fls32_def fls_word_def bsr_def)
next
  case False
  from fls_word_log [OF this] obtain k where k: "k < 64" "fls_word w = Some (of_nat k)"
    "2 ^ k \<le> unat w" "unat w < 2 ^ (k + 1)" .
  have "b = of_nat k"
    using assms k(2) unsigned_of_nat [of k, where ?'b = 64 and ?'a = u32] k(1)
    by (simp add: fls32_def take_bit_nat_eq_self)
  moreover have "k < 2 ^ 32" using k(1) by simp
  ultimately have "unat b = k" by (simp add: unat_of_nat)
  with k that show thesis by simp
qed

lemma unat_exp_u64: "k < 64 \<Longrightarrow> unat (2 ^ k :: u64) = 2 ^ k"
  using unat_of_nat_u64 [of "2 ^ k"] power_strict_increasing [of k 64 "2 :: nat"] by simp

lemma unat_exp_u32: "k < 32 \<Longrightarrow> unat (2 ^ k :: u32) = 2 ^ k"
  using unat_of_nat [of "2 ^ k", where ?'a = 32] power_strict_increasing [of k 32 "2 :: nat"] by simp

lemma push_bit_1: "push_bit k (1 :: u64) = 2 ^ k"
  by (simp add: push_bit_eq_mult)

lemma assert_pow2_Inr:
  assumes "assert_pow2 v g = Inr g'"
  obtains k where "k < 64" and "v = 2 ^ k" and "g' = g"
proof (cases "fls32 v")
  case (Inl e)
  with assms show thesis by (simp add: assert_pow2_def)
next
  case (Inr b)
  with assms have "v = 2 ^ unat b" "g' = g"
    by (auto simp: assert_pow2_def log_assert_def push_bit_1 split: if_splits)
  with fls32_cases [OF Inr] that show thesis by blast
qed

lemma unat_ucast_u32 [simp]: "unat (ucast (x :: u32) :: u64) = unat x"
  using unsigned_less [of x, where ?'a = nat]
  by (simp add: unsigned_ucast_eq take_bit_nat_eq_self)

lemma exp_div_u64:
  assumes "a \<le> b" and "b < 64"
  shows "(2 ^ b :: u64) div 2 ^ a = 2 ^ (b - a)"
proof -
  have "unat ((2 ^ b :: u64) div 2 ^ a) = unat (2 ^ (b - a) :: u64)"
    using assms by (simp add: unat_div_distrib unat_exp_u64 power_diff)
  then show ?thesis by (simp only: word_unat_eq_iff)
qed


lemma log_assert_Inr [simp]: "log_assert c g = Inr g' \<longleftrightarrow> c \<and> g' = g"
  by (auto simp: log_assert_def)

lemma check_numa_same: "check_numa N g = Inr g' \<Longrightarrow> g' = g"
  by (auto simp: check_numa_def split: if_splits)

lemma assert_pow2_same: "assert_pow2 v g = Inr g' \<Longrightarrow> g' = g"
  by (auto elim: assert_pow2_Inr)

lemma CheckGlobalCfg_Inr:
  "CheckGlobalCfg N g = Inr g' \<longleftrightarrow> g' = g \<and> check_numa N g = Inr g \<and> AEP_SIZE \<le> aep_buf_size g \<and>
     buffer_size g * ucast (thread_num g) \<le> AEP_SIZE div 2 \<and> assert_pow2 (buffer_size g) g = Inr g \<and>
     push_bit (unat (access_size_bits g)) (1 :: u64) = ucast (access_size g) \<and> 0 < buf_slots g \<and>
     assert_pow2 (buf_slots g) g = Inr g"
  unfolding CheckGlobalCfg_def
  by (subst run_all_guards) (auto dest: check_numa_same assert_pow2_same)

text \<open>The sizes after initialisation, as powers of two.\<close>

definition sized :: "globals \<Rightarrow> bool" where
  "sized g \<longleftrightarrow> (\<exists>a b. a \<le> b \<and> a < 32 \<and> b < 64 \<and> buffer_size g = 2 ^ b \<and> access_size g = 2 ^ a \<and>
     access_size_bits g = of_nat a \<and> buf_slots g = 2 ^ (b - a) \<and>
     buf_slots_mask g = ucast (2 ^ (b - a) - 1 :: u64))"

lemma derive_sizes_pow2:
  assumes "a \<le> b" and "a < 32" and "b < 64" and "buffer_size g = 2 ^ b" and "access_size g = 2 ^ a"
  shows "derive_sizes now g = Inr (g\<lparr>buf_slots := 2 ^ (b - a), buf_slots_mask := ucast (2 ^ (b - a) - 1 :: u64),
    access_size_bits := of_nat a, seed := now\<rparr>)"
proof -
  have u: "ucast (2 ^ a :: u32) = (2 ^ a :: u64)"
    using assms(2) unsigned_of_nat [of "2 ^ a", where ?'b = 32 and ?'a = u64] power_strict_increasing [of a 32 "2 :: nat"]
    by (simp add: take_bit_nat_eq_self)
  have "(2 ^ a :: u32) \<noteq> 0" using assms(2) by simp
  moreover have "unat (of_nat (b - a) :: u32) = b - a" using assms(3) by (simp add: unat_of_nat)
  ultimately show ?thesis
    using assms fls32_exp [of "b - a"] fls32_exp [of a]
    by (simp add: derive_sizes_def Let_def u exp_div_u64 push_bit_1 del: of_nat_diff)
qed

lemma derived_checked_sized:
  assumes d: "derive_sizes now g0 = Inr g" and c: "CheckGlobalCfg N g = Inr g'"
  shows "sized g"
proof -
  from d obtain sb where sb: "fls32 (buffer_size g0 div ucast (access_size g0)) = Inr sb"
    and ab: "fls32 (ucast (access_size g0)) = Inr (access_size_bits g)"
    and g: "buf_slots g = buffer_size g0 div ucast (access_size g0)" "access_size g = access_size g0"
      "buffer_size g = buffer_size g0" "buf_slots_mask g = ucast (push_bit (unat sb) (1 :: u64) - 1)"
    by (auto simp: derive_sizes_def Let_def split: if_splits sum.splits)
  define a where "a = unat (access_size_bits g)"
  from c have as: "ucast (access_size g) = (2 ^ a :: u64)"
    and "0 < buf_slots g" and p: "assert_pow2 (buffer_size g) g = Inr g"
    by (simp_all add: CheckGlobalCfg_Inr push_bit_1 a_def)
  from p obtain b where b: "b < 64" "buffer_size g = 2 ^ b" by (auto elim: assert_pow2_Inr)
  have a64: "a < 64" using fls32_cases [OF ab] by (simp add: a_def)
  have ua: "unat (access_size g) = 2 ^ a"
    using arg_cong [OF as, of unat] a64 by (simp add: unat_exp_u64)
  have "(2 :: nat) ^ a < 2 ^ 32" using ua unsigned_less [of "access_size g", where ?'a = nat] by simp
  then have a32: "a < 32" using power_less_imp_less_exp [of "2 :: nat" a 32] by simp
  have as': "access_size g = 2 ^ a" by (rule word_unat_eq_iff [THEN iffD2]) (use ua a32 in \<open>simp add: unat_exp_u32\<close>)
  have le: "a \<le> b"
  proof (rule ccontr)
    assume "\<not> a \<le> b"
    then have "buf_slots g = 0"
      using b a64 by (simp add: g(1) g(2,3) [symmetric] as word_unat_eq_iff unat_div_distrib unat_exp_u64 power_strict_increasing)
    with \<open>0 < buf_slots g\<close> show False by simp
  qed
  have "buf_slots g = 2 ^ (b - a)" using exp_div_u64 [OF le b(1)] b(2) as by (simp add: g)
  moreover from derive_sizes_pow2 [OF le a32 b(1), of g0 now] b(2) as' d g(2,3)
  have "access_size_bits g = of_nat a" "buf_slots_mask g = ucast (2 ^ (b - a) - 1 :: u64)" by auto
  ultimately show ?thesis unfolding sized_def using le a32 b as' by blast
qed


section \<open>Core lists\<close>

lemma collect_cores_spec:
  assumes "length (core_ids g) = MAX_THREAD_NUM" and "unat (core_num g) \<le> MAX_THREAD_NUM"
  shows "collect_cores cpus js g =
    (let low = takeWhile (\<lambda>c. c \<le> MAX_CORE_ID) (filter cpus js); n = unat (core_num g) in
     if n + length low > MAX_THREAD_NUM then Inl (Undefined ''core_ids out of bounds'')
     else Inr (low = filter cpus js,
       g\<lparr>core_ids := take n (core_ids g) @ map of_nat low @ drop (n + length low) (core_ids g),
         core_num := of_nat (n + length low)\<rparr>))"
  using assms
proof (induction cpus js g rule: collect_cores.induct)
  case (1 cpus g)
  then show ?case by (simp add: Let_def)
next
  case (2 cpus i js g)
  let ?n = "unat (core_num g)"
  let ?g = "g\<lparr>core_ids := (core_ids g)[?n := of_nat i], core_num := core_num g + 1\<rparr>"
  show ?case
  proof (cases "cpus i \<and> i \<le> MAX_CORE_ID \<and> ?n < MAX_THREAD_NUM")
    case True
    then have n: "unat (core_num g + 1) = Suc ?n"
      using unsigned_less [of "core_num g", where ?'a = nat]
      by (simp add: MAX_THREAD_NUM_def unat_word_ariths)
    have t: "take (Suc ?n) ((core_ids g)[?n := of_nat i]) = take ?n (core_ids g) @ [of_nat i]"
      using True 2(3) by (simp add: take_Suc_conv_app_nth)
    have "collect_cores cpus (i # js) g = collect_cores cpus js ?g" using True by simp
    also have "\<dots> = (let low = takeWhile (\<lambda>c. c \<le> MAX_CORE_ID) (filter cpus js); n = unat (core_num ?g) in
     if n + length low > MAX_THREAD_NUM then Inl (Undefined ''core_ids out of bounds'')
     else Inr (low = filter cpus js,
       ?g\<lparr>core_ids := take n (core_ids ?g) @ map of_nat low @ drop (n + length low) (core_ids ?g),
         core_num := of_nat (n + length low)\<rparr>))"
      by (rule 2(1)) (use True 2(3,4) n in \<open>simp_all add: MAX_THREAD_NUM_def\<close>)
    finally show ?thesis using True by (simp add: n t Let_def)
  next
    case False
    with 2 show ?thesis by (auto simp: Let_def)
  qed
qed

section \<open>Decimal numerals and size names\<close>

lemma to_string_digit: "n < 10 \<Longrightarrow> to_string n = [char_of (48 + n)]"
  by (simp add: to_string.simps)

lemma to_string_step: "10 \<le> n \<Longrightarrow> to_string n = to_string (n div 10) @ [char_of (48 + n mod 10)]"
  by (subst to_string.simps) simp

lemma digit_inj: "a < 10 \<Longrightarrow> b < 10 \<Longrightarrow> char_of (48 + a) = (char_of (48 + b) :: char) \<Longrightarrow> a = (b :: nat)"
  using arg_cong [of "char_of (48 + a)" "char_of (48 + b)" "of_char :: char \<Rightarrow> nat"]
  by (simp add: of_char_of)

lemma to_string_not_Nil: "to_string n \<noteq> []"
  by (subst to_string.simps) simp

lemma to_string_inj: "to_string m = to_string n \<Longrightarrow> m = n"
proof (induction m arbitrary: n rule: to_string.induct)
  case (1 m)
  show ?case
  proof (cases "m < 10 \<longleftrightarrow> n < 10")
    case True
    show ?thesis
    proof (cases "m < 10")
      case True
      with \<open>m < 10 \<longleftrightarrow> n < 10\<close> 1(2) show ?thesis by (auto simp: to_string_digit intro: digit_inj)
    next
      case False
      with \<open>m < 10 \<longleftrightarrow> n < 10\<close> 1(2)
      have "to_string (m div 10) = to_string (n div 10)" "char_of (48 + m mod 10) = (char_of (48 + n mod 10) :: char)"
        by (simp_all add: to_string_step)
      with 1(1) [OF False] digit_inj [of "m mod 10" "n mod 10"]
      have "m div 10 = n div 10" "m mod 10 = n mod 10" by simp_all
      then show ?thesis by (metis div_mult_mod_eq)
    qed
  next
    case False
    with 1(2) to_string_not_Nil [of "m div 10"] to_string_not_Nil [of "n div 10"] show ?thesis
      by (auto simp: to_string_digit to_string_step not_less)
  qed
qed


section \<open>Properties\<close>

text \<open>C14: A configuration that is initialised and passes the checks has powers of two for its
  buffer and access sizes, and what is derived from them agrees: the shift is the logarithm of the
  access size, the slots divide the buffer, and the mask is one less than the number of slots
  (kept to 32 bits). The device is large enough and every thread has a core, on the socket.\<close>

theorem checked_cfg_sizes:
  assumes "InitGlobalCfg L F now first_time g0 = Inr g1" and "CheckGlobalCfg N g1 = Inr g"
  shows "sized g \<and> AEP_SIZE \<le> aep_buf_size g \<and> core_num g = thread_num g \<and>
    (\<forall>i < unat (thread_num g). numa_node_of_cpu N (core_ids g ! i) = socket g)"
proof -
  from assms(1) obtain g' where "derive_sizes now g' = Inr g1"
    by (auto simp: InitGlobalCfg_def run_all_append split: sum.splits if_splits)
  from derived_checked_sized [OF this assms(2)] assms(2) show ?thesis
    by (auto simp: CheckGlobalCfg_Inr check_numa_def list_ex_iff split: if_splits)
       (metis in_set_conv_nth length_take min.absorb2 not_less nth_take)
qed

definition demo_device :: pmem2 where
  "demo_device = \<lparr>config_new_rc = 0, source_from_fd_rc = (\<lambda>_. 0), set_granularity_rc = 0,
     map_new_rc = (\<lambda>_. 0), mapping = (\<lambda>fd. (2 ^ 40, 64 * 1024 * 1024 * 1024))\<rparr>"

definition demo_pm :: pm_state where
  "demo_pm = \<lparr>pm_fs = demo_fs, live_cfgs = 0, live_srcs = 0, live_maps = 0\<rparr>"

definition demo_flags :: flags where
  "demo_flags = \<lparr>FLAGS_aep_dev_path = ''/keep'', FLAGS_thread_num = 1, FLAGS_buffer_size = 1024,
     FLAGS_rw_type = ''cpy'', FLAGS_access_mode = ''seq'', FLAGS_access_size = 16, FLAGS_runtime = 5,
     FLAGS_iters = 10, FLAGS_socket = 1, FLAGS_core_ids = ''20'', FLAGS_rep_dir_path = ''/r'',
     FLAGS_clean_rep_dir = False, FLAGS_report_to_stdout = False, FLAGS_vary_access_size = False,
     FLAGS_vary_thread_num = False\<rparr>"

definition demo_numa :: numa where
  "demo_numa = \<lparr>numa_num_possible_cpus = 80, numa_parse_cpustring = (\<lambda>v. if v = ''20'' then Some (\<lambda>c. c = 20) else None),
     numa_max_node = 1, numa_node_of_cpu = (\<lambda>c. if c < 20 then 0 else 1)\<rparr>"

definition demo_cfg :: globals where
  "demo_cfg = (initial_globals demo_pm)\<lparr>core_ids := 20 # replicate 31 0, aep_dev_path := ''/keep'',
     rw_type := kCpy, rep_dir_path := ''/r'', aep_map := Some (2 ^ 40, 64 * 1024 * 1024 * 1024), aep_buf := 2 ^ 40,
     aep_buf_size := 64 * 1024 * 1024 * 1024, buf_slots := 64, buf_slots_mask := 63, seed := 7,
     g_pm := demo_pm\<lparr>live_maps := 1\<rparr>\<rparr>"

lemma fls32_demo: "fls32 16 = Inr 4" "fls32 64 = Inr 6" "fls32 1024 = Inr 10"
  using fls32_exp [of 4] fls32_exp [of 6] fls32_exp [of 10] by simp_all

lemma demo_initialised:
  "InitGlobalCfg demo_device demo_flags 7 True
     ((initial_globals demo_pm)\<lparr>core_ids := 20 # replicate 31 0\<rparr>) = Inr demo_cfg"
  by (simp add: InitGlobalCfg_def load_flags_def map_device_def derive_sizes_def demo_cfg_def demo_flags_def
      initial_globals_def demo_pm_def demo_device_def Pmem2Map_def Pmem2MapFromFd_def OpenSimple_def sys_open_def
      comps_def demo_fs_def new_fd_def Close_def sys_close_def fls32_demo push_bit_1 Str2RwType_def str_2_rw_type_def
      Str2AccessMode_def str_2_access_mode_def Let_def)

lemma demo_checked: "CheckGlobalCfg demo_numa demo_cfg = Inr demo_cfg"
  by (simp add: CheckGlobalCfg_Inr check_numa_def demo_cfg_def demo_numa_def initial_globals_def AEP_SIZE_def
      MAX_THREAD_NUM_def assert_pow2_def fls32_demo push_bit_1)

theorem checked_cfg_sizes_witness: "sized demo_cfg \<and> numa_node_of_cpu demo_numa 20 = socket demo_cfg"
  using checked_cfg_sizes [OF demo_initialised demo_checked]
  by (simp add: demo_cfg_def initial_globals_def MAX_THREAD_NUM_def)


text \<open>C27: ValidateCoreIds stores the chosen processors in increasing order and counts them. It
  accepts exactly the non-empty sets whose members are at most 79; but nothing bounds their
  number, and more than 32 of them up to 79 write behind the array.\<close>

theorem ValidateCoreIds_result:
  assumes "numa_parse_cpustring N v = Some cpus" and "length (core_ids g) = MAX_THREAD_NUM"
    and sel: "sel = filter cpus [0..<numa_num_possible_cpus N]"
    and low: "low = takeWhile (\<lambda>c. c \<le> MAX_CORE_ID) sel"
  shows "ValidateCoreIds N v g =
    (if length low > MAX_THREAD_NUM then Inl (Undefined ''core_ids out of bounds'')
     else Inr (low = sel \<and> sel \<noteq> [],
       g\<lparr>core_ids := map of_nat low @ drop (length low) (core_ids g), core_num := of_nat (length low)\<rparr>))"
proof -
  have z: "(of_nat k :: u32) = 0 \<longleftrightarrow> k = 0" if "k \<le> MAX_THREAD_NUM" for k
    using that by (auto simp: MAX_THREAD_NUM_def word_of_nat_eq_0_iff dest: dvd_imp_le)
  have "low = sel \<Longrightarrow> sel = [] \<longleftrightarrow> low = []" by simp
  with assms(1,2) collect_cores_spec [of "g\<lparr>core_num := 0\<rparr>" cpus "[0..<numa_num_possible_cpus N]"] z [of "length low"]
  show ?thesis by (auto simp: ValidateCoreIds_def Let_def sel [symmetric] low [symmetric])
qed

theorem ValidateCoreIds_result_witness:
  "ValidateCoreIds demo_numa ''20'' demo_cfg =
     Inr (True, demo_cfg\<lparr>core_ids := 20 # replicate 31 0, core_num := 1\<rparr>) \<and>
   ValidateCoreIds (demo_numa\<lparr>numa_parse_cpustring := \<lambda>_. Some (\<lambda>c. c < 33)\<rparr>) ''0-32'' demo_cfg =
     Inl (Undefined ''core_ids out of bounds'')"
proof -
  have one: "filter (\<lambda>c. c = 20) [0..<80] = [20 :: nat]" by (simp add: upt_rec)
  have many: "filter (\<lambda>c. c < 33) [0..<80] = [0..<33 :: nat]" by (simp add: upt_rec)
  have low: "takeWhile (\<lambda>c. c \<le> MAX_CORE_ID) [0..<33] = [0..<33]"
    by (simp add: takeWhile_eq_all_conv MAX_CORE_ID_def)
  have ids: "core_ids demo_cfg = 20 # replicate 31 0" by (simp add: demo_cfg_def)
  show ?thesis
    using ValidateCoreIds_result [of demo_numa "''20''" "\<lambda>c. c = 20" demo_cfg "[20]" "[20]"]
      ValidateCoreIds_result [of "demo_numa\<lparr>numa_parse_cpustring := \<lambda>_. Some (\<lambda>c. c < 33)\<rparr>" "''0-32''" "\<lambda>c. c < 33" demo_cfg "[0..<33]" "[0..<33]"]
    by (simp add: demo_numa_def MAX_THREAD_NUM_def one many low ids) (simp add: MAX_CORE_ID_def ids)
qed

text \<open>The names of the operation types and access modes are read back as what they name, and
  the validators accept only names that are.\<close>

theorem names_roundtrip:
  "Str2RwType (RwType2Str t) = t \<and> Str2AccessMode (AccessMode2Str a) = a \<and>
   (ValidateRwType v \<longleftrightarrow> (\<exists>t. v = RwType2Str t)) \<and> (ValidateAccessMode v \<longleftrightarrow> (\<exists>a. v = AccessMode2Str a))"
proof -
  have "Str2RwType (RwType2Str t) = t"
    by (cases t) (simp_all add: Str2RwType_def RwType2Str_def rw_type_2_str_def str_2_rw_type_def)
  moreover have "Str2AccessMode (AccessMode2Str a) = a"
    by (cases a) (simp_all add: Str2AccessMode_def AccessMode2Str_def access_mode_2_str_def str_2_access_mode_def)
  moreover have "(\<exists>t. v = RwType2Str t) \<longleftrightarrow> v = RwType2Str kRead \<or> v = RwType2Str kWrite \<or> v = RwType2Str kCpy \<or> v = RwType2Str kMemset"
    by (metis RwType.exhaust)
  moreover have "(\<exists>a. v = AccessMode2Str a) \<longleftrightarrow> v = AccessMode2Str kSeq \<or> v = AccessMode2Str kRandom"
    by (metis AccessMode.exhaust)
  ultimately show ?thesis
    by (simp add: ValidateRwType_def ValidateAccessMode_def RwType2Str_def AccessMode2Str_def rw_type_2_str_def
        str_2_rw_type_def access_mode_2_str_def str_2_access_mode_def)
qed

lemma GetOpFn_iff: "(\<exists>f. GetOpFn P t i = Inr f) \<longleftrightarrow> 0 \<le> i \<and> i < int (GetSubOpNum P t)"
  by (cases t)
     (auto simp: GetOpFn_def GetSubOpNum_def index_table_def AEP_READ_FUNC_NUM_def AEP_WRITE_FUNC_NUM_def
       AEP_CPY_FUNC_NUM_def AEP_MEMSET_FUNC_NUM_def aep_read_funcs_def aep_write_funcs_def aep_cpy_funcs_def
       aep_memset_funcs_def)

lemma GetOpLabel_iff: "(\<exists>l. GetOpLabel P t i = Inr l) \<longleftrightarrow> 0 \<le> i \<and> i < int (GetSubOpNum P t)"
  by (cases t)
     (auto simp: GetOpLabel_def GetSubOpNum_def index_table_def AEP_READ_FUNC_NUM_def AEP_WRITE_FUNC_NUM_def
       AEP_CPY_FUNC_NUM_def AEP_MEMSET_FUNC_NUM_def aep_read_funcs_def aep_write_funcs_def aep_cpy_funcs_def
       aep_memset_funcs_def aep_read_func_labels_def aep_write_func_labels_def aep_cpy_func_labels_def
       aep_memset_func_labels_def)

text \<open>A sub-operation has a function and a label exactly when its number is from 0 to the number
  of operations of its type: the tables are as long as the counts say.\<close>

theorem GetOp_defined:
  "((\<exists>f. GetOpFn P t i = Inr f) \<longleftrightarrow> 0 \<le> i \<and> i < int (GetSubOpNum P t)) \<and>
   ((\<exists>l. GetOpLabel P t i = Inr l) \<longleftrightarrow> 0 \<le> i \<and> i < int (GetSubOpNum P t))"
  using GetOpFn_iff GetOpLabel_iff by blast


lemma le_exp_u64: "j < 64 \<Longrightarrow> k < 64 \<Longrightarrow> (2 ^ j :: u64) \<le> 2 ^ k \<longleftrightarrow> j \<le> k"
  by (simp add: word_le_nat_alt unat_exp_u64 power_increasing_iff)

lemma Size2HumanStr_exp:
  assumes "k < 64"
  shows "Size2HumanStr (2 ^ k) =
    (if 30 \<le> k then to_string (2 ^ (k - 30)) @ ''G'' else if 20 \<le> k then to_string (2 ^ (k - 20)) @ ''M''
     else if 10 \<le> k then to_string (2 ^ (k - 10)) @ ''K'' else to_string (2 ^ k) @ ''B'')"
proof -
  have u: "1024 * 1024 * 1024 = (2 ^ 30 :: u64)" "1024 * 1024 = (2 ^ 20 :: u64)" "1024 = (2 ^ 10 :: u64)" by simp_all
  have d: "unat ((2 ^ k :: u64) div 2 ^ j) = 2 ^ (k - j)" if "j \<le> k" for j
    using exp_div_u64 [OF that assms] assms by (simp add: unat_exp_u64)
  show ?thesis
    unfolding Size2HumanStr_def u
    using assms le_exp_u64 [of 30 k] le_exp_u64 [of 20 k] le_exp_u64 [of 10 k] d [of 30] d [of 20] d [of 10]
    by (simp only: if_True if_False unat_exp_u64 split: if_splits) simp
qed

text \<open>The names of the result files tell powers of two apart: no two of the sizes the
  benchmark runs with are written alike.\<close>

theorem Size2HumanStr_inj:
  assumes "i < 64" and "j < 64"
  shows "Size2HumanStr (2 ^ i) = Size2HumanStr (2 ^ j) \<longleftrightarrow> i = j"
  using assms
  by (auto simp: Size2HumanStr_exp dest!: to_string_inj split: if_splits)

theorem Size2HumanStr_inj_witness: "Size2HumanStr (2 ^ 10) \<noteq> Size2HumanStr (2 ^ 20)"
  using Size2HumanStr_inj [of 10 20] by simp

text \<open>The check that all threads' buffers fit into half of the device multiplies modulo
  \<open>2 ^ 64\<close>: two threads with buffers of \<open>2 ^ 63\<close> bytes pass it.\<close>

theorem CheckGlobalCfg_wraps:
  assumes "check_numa N g = Inr g" and "AEP_SIZE \<le> aep_buf_size g" and "sized g"
    and "buffer_size g = 2 ^ 63" and "thread_num g = 2"
  shows "CheckGlobalCfg N g = Inr g \<and> unat (buffer_size g) * unat (thread_num g) > unat AEP_SIZE"
proof -
  from assms(3) obtain a b where ab: "a \<le> b" "a < 32" "b < 64" "access_size g = 2 ^ a"
    "access_size_bits g = of_nat a" "buf_slots g = 2 ^ (b - a)" unfolding sized_def by blast
  have p: "assert_pow2 (2 ^ k) g = Inr g" if "k < 64" for k
    using that fls32_exp [of k] by (simp add: assert_pow2_def push_bit_1 unat_of_nat)
  have "(2 ^ (b - a) :: u64) > 0" using ab by (simp add: word_less_nat_alt unat_exp_u64)
  moreover have "ucast (2 ^ a :: u32) = (2 ^ a :: u64)"
    using ab(2) by (simp add: word_unat_eq_iff unat_exp_u64 unat_exp_u32)
  ultimately show ?thesis
    using assms ab p [of 63] p [of "b - a"]
    by (simp add: CheckGlobalCfg_Inr push_bit_1 unat_of_nat AEP_SIZE_def)
qed

definition demo_huge :: globals where
  "demo_huge = demo_cfg\<lparr>buffer_size := 2 ^ 63, thread_num := 2, core_num := 2,
     core_ids := 20 # 21 # replicate 30 0, buf_slots := 2 ^ 59, buf_slots_mask := ucast (2 ^ 59 - 1 :: u64)\<rparr>"

theorem CheckGlobalCfg_wraps_witness: "CheckGlobalCfg demo_numa demo_huge = Inr demo_huge"
proof -
  have "sized demo_huge" unfolding sized_def
    by (intro exI [of _ 4] exI [of _ 63]) (simp add: demo_huge_def demo_cfg_def initial_globals_def)
  moreover have "check_numa demo_numa demo_huge = Inr demo_huge"
    by (simp add: check_numa_def demo_huge_def demo_cfg_def demo_numa_def initial_globals_def)
  moreover have "AEP_SIZE \<le> aep_buf_size demo_huge" by (simp add: demo_huge_def demo_cfg_def AEP_SIZE_def)
  ultimately show ?thesis
    using CheckGlobalCfg_wraps [of demo_numa demo_huge] by (simp add: demo_huge_def)
qed

end
