(* ===== verification/Study_Task.thy ===== *)
theory Study_Task
  imports Study_Config
begin

text \<open>
  The objects of one benchmark run in bgtest/AEP/aep_study.cc: the task of a thread (Task), its
  result file (RunData), the array of thread contexts, and what main prepares before it creates
  them (SetEnv, InitRepDir). The generator behind rand, the allocator and the stack addresses of
  the threads are parameters (\<open>env\<close>).
\<close>

section \<open>State and parameters\<close>

record env =
  e_pmdk :: pmdk
  e_pmem2 :: pmem2
  e_numa :: numa
  rand_of :: "u32 \<Rightarrow> nat \<Rightarrow> u32"    \<comment> \<open>the k-th value of rand after srand with a seed\<close>
  malloc_of :: "nat \<Rightarrow> u64 \<Rightarrow> u64"  \<comment> \<open>what the k-th call of malloc answers for a size\<close>

record task =
  thread_idx :: nat
  core_id :: u32
  t_socket :: u32
  buf :: u64
  buf_size :: u64
  t_rw_type :: RwType
  t_access_mode :: AccessMode
  t_access_size :: u32
  t_runtime :: u32
  t_iters :: u32
  t_access_size_bits :: u32
  idx_addr :: u64             \<comment> \<open>the block behind idx_\<close>
  idx_val :: "nat \<Rightarrow> u32"     \<comment> \<open>its elements\<close>
  mem_cpy_buf :: u64
  sub_op :: int
  op_of :: "op_fn option"     \<comment> \<open>fn_, \<open>None\<close> for nullptr\<close>

text \<open>The mapped result file: the mapping and its elements.\<close>

record run_data =
  data_map :: "pmem2_map option"
  run_times :: "u32 list"

type_synonym thread_context = "task \<times> run_data"

record world =
  cfg :: globals
  w_mach :: machine
  w_sched :: sched
  rand_seed :: u32
  rand_pos :: nat
  heap_pos :: nat             \<comment> \<open>calls of malloc so far\<close>
  heap_live :: nat            \<comment> \<open>blocks allocated and not freed\<close>
  membind :: "u32 list"       \<comment> \<open>memory nodes the process is bound to\<close>
  thread_contexts :: "thread_context option list"

definition malloc :: "env \<Rightarrow> u64 \<Rightarrow> world \<Rightarrow> u64 \<times> world" where
  "malloc E sz w =
     (let p = malloc_of E (heap_pos w) sz
      in (p, w\<lparr>heap_pos := Suc (heap_pos w), heap_live := (if p = 0 then heap_live w else Suc (heap_live w))\<rparr>))"

definition free :: "u64 \<Rightarrow> world \<Rightarrow> world" where
  "free p w = (if p = 0 then w else w\<lparr>heap_live := heap_live w - 1\<rparr>)"

section \<open>Tasks\<close>

definition MAX_IDX_SIZE :: nat where
  "MAX_IDX_SIZE = 10485760"

definition AEP_TAIL_READ_SIZE :: u64 where
  "AEP_TAIL_READ_SIZE = 2 * 1024 * 1024"

text \<open>\<open>for (int i = n - 1; i >= 0; --i) idx_[i] = rand() & buf_slots_mask;\<close>\<close>

fun fill_idx :: "(nat \<Rightarrow> u32) \<Rightarrow> u32 \<Rightarrow> nat \<Rightarrow> nat \<times> (nat \<Rightarrow> u32) \<Rightarrow> nat \<times> (nat \<Rightarrow> u32)" where
  "fill_idx r msk 0 s = s"
| "fill_idx r msk (Suc i) (pos, v) = fill_idx r msk i (Suc pos, v(i := r pos AND msk))"

text \<open>The constructor. An element that is never written is unspecified; every element is.\<close>

definition new_Task :: "env \<Rightarrow> nat \<Rightarrow> u64 \<Rightarrow> world \<Rightarrow> stop + task \<times> world" where
  "new_Task E i buf0 w =
     (let g = cfg w in
      if length (core_ids g) \<le> i then Inl (Undefined ''core_ids out of bounds'')
      else
        (case fls32 (ucast (access_size g)) of
           Inl e \<Rightarrow> Inl e
         | Inr bits \<Rightarrow>
             (let (p, w1) = malloc E (of_nat (MAX_IDX_SIZE * 4)) w in
              if p = 0 then Inl Aborted
              else
                (let (pos, v) = fill_idx (rand_of E (rand_seed w1)) (buf_slots_mask g) MAX_IDX_SIZE (rand_pos w1, \<lambda>_. 0);
                     (b, w2) = malloc E (ucast (access_size g)) (w1\<lparr>rand_pos := pos\<rparr>)
                 in if b = 0 then Inl Aborted
                    else Inr (\<lparr>thread_idx = i, core_id = core_ids g ! i, t_socket = socket g, buf = buf0,
                               buf_size = buffer_size g, t_rw_type = rw_type g, t_access_mode = access_mode g,
                               t_access_size = access_size g, t_runtime = runtime g, t_iters = iters g,
                               t_access_size_bits = bits, idx_addr = p, idx_val = v, mem_cpy_buf = b,
                               sub_op = 0, op_of = None\<rparr>, w2)))))"

definition delete_Task :: "task \<Rightarrow> world \<Rightarrow> world" where
  "delete_Task t w = free (mem_cpy_buf t) (free (idx_addr t) w)"

definition SetSubOp :: "pmdk \<Rightarrow> int \<Rightarrow> task \<Rightarrow> stop + task" where
  "SetSubOp P k t =
     (case GetOpFn P (t_rw_type t) k of
        Inl e \<Rightarrow> Inl e
      | Inr f \<Rightarrow> Inr (t\<lparr>sub_op := k, op_of := Some f\<rparr>))"

section \<open>Result files\<close>

definition rep_internal_dir :: string where
  "rep_internal_dir = ''internal''"

definition rep_report_dir :: string where
  "rep_report_dir = ''report''"

definition rep_file_prefix :: string where
  "rep_file_prefix = ''aep_test''"

definition rep_data_suffix :: string where
  "rep_data_suffix = ''data.dat''"

definition rep_report_suffix :: string where
  "rep_report_suffix = ''report.txt''"

definition data_path :: "globals \<Rightarrow> task \<Rightarrow> string \<Rightarrow> string" where
  "data_path g t time =
     (let b = Size2HumanStr (buf_size t) @ ''-'' @ RwType2Str (t_rw_type t) @ ''-'' @ AccessMode2Str (t_access_mode t) @
            ''-'' @ Size2HumanStr (ucast (t_access_size t)) @ ''-'' @ to_string (thread_idx t);
          file_common_part = time @ ''-'' @ b
      in rep_dir_path g @ ''/'' @ rep_internal_dir @ ''/'' @ rep_file_prefix @ ''-'' @ file_common_part @ ''-'' @
         rep_data_suffix)"

text \<open>The constructor. The file is new, so its elements read as 0; \<open>data\<close> is an array that replaces
  them, if one is given.\<close>

definition new_RunData :: "env \<Rightarrow> task \<Rightarrow> string \<Rightarrow> u32 list option \<Rightarrow> world \<Rightarrow> stop + run_data \<times> world" where
  "new_RunData E t time data w =
     (let g = cfg w; pm = g_pm g;
          data_size = ucast (t_iters t) * 4;
          (fd, fs) = OpenAndAllocAtSize (data_path g t time) data_size (pm_fs pm)
      in if \<not> fd > 0 then Inl Aborted
         else
           (let (mp, pm1) = Pmem2MapFromFd (e_pmem2 E) fd (pm\<lparr>pm_fs := fs\<rparr>) in
            if mp = None then Inl Aborted
            else Inr (\<lparr>data_map = mp,
                       run_times = (case data of None \<Rightarrow> replicate (unat (t_iters t)) 0 | Some d \<Rightarrow> d)\<rparr>,
                      w\<lparr>cfg := g\<lparr>g_pm := pm1\<lparr>pm_fs := Close fd (pm_fs pm1)\<rparr>\<rparr>\<rparr>)))"

definition delete_RunData :: "run_data \<Rightarrow> world \<Rightarrow> world" where
  "delete_RunData d w = w\<lparr>cfg := (cfg w)\<lparr>g_pm := Pmem2UnMap (g_pm (cfg w))\<rparr>\<rparr>"

section \<open>Thread contexts\<close>

definition init_context :: "env \<Rightarrow> string \<Rightarrow> u32 list option \<Rightarrow> nat \<Rightarrow> world \<Rightarrow> stop + world" where
  "init_context E time data i w =
     (if length (thread_contexts w) \<le> i then Inl (Undefined ''thread_contexts out of bounds'')
      else
        (case new_Task E i (aep_buf (cfg w) + of_nat i * buffer_size (cfg w)) w of
           Inl e \<Rightarrow> Inl e
         | Inr (t, w1) \<Rightarrow>
             (case new_RunData E t time data w1 of
                Inl e \<Rightarrow> Inl e
              | Inr (d, w2) \<Rightarrow> Inr (w2\<lparr>thread_contexts := (thread_contexts w2)[i := Some (t, d)]\<rparr>))))"

definition InitThreadContext :: "env \<Rightarrow> string \<Rightarrow> u32 list option \<Rightarrow> world \<Rightarrow> stop + world" where
  "InitThreadContext E time data w =
     run_all (map (init_context E time data) [0..<unat (thread_num (cfg w))]) w"

text \<open>A context that was not initialised holds null pointers.\<close>

definition set_context_op :: "env \<Rightarrow> int \<Rightarrow> nat \<Rightarrow> world \<Rightarrow> stop + world" where
  "set_context_op E k i w =
     (if length (thread_contexts w) \<le> i then Inl (Undefined ''thread_contexts out of bounds'')
      else
        (case thread_contexts w ! i of
           None \<Rightarrow> Inl (Undefined ''null task'')
         | Some (t, d) \<Rightarrow>
             (case SetSubOp (e_pmdk E) k t of
                Inl e \<Rightarrow> Inl e
              | Inr t' \<Rightarrow> Inr (w\<lparr>thread_contexts := (thread_contexts w)[i := Some (t', d)]\<rparr>))))"

definition ThreadContextSetSubOp :: "env \<Rightarrow> int \<Rightarrow> world \<Rightarrow> stop + world" where
  "ThreadContextSetSubOp E k w =
     run_all (map (set_context_op E k) [0..<unat (thread_num (cfg w))]) w"

text \<open>Deleting leaves dangling pointers in the array, which are not modelled as values: the entry is
  cleared. Deleting a null pointer does nothing.\<close>

definition destroy_context :: "nat \<Rightarrow> world \<Rightarrow> stop + world" where
  "destroy_context i w =
     (if length (thread_contexts w) \<le> i then Inl (Undefined ''thread_contexts out of bounds'')
      else
        (case thread_contexts w ! i of
           None \<Rightarrow> Inr w
         | Some (t, d) \<Rightarrow>
             Inr ((delete_RunData d (delete_Task t w))\<lparr>thread_contexts := (thread_contexts w)[i := None]\<rparr>)))"

definition DestroyThreadContext :: "world \<Rightarrow> stop + world" where
  "DestroyThreadContext w = run_all (map destroy_context [0..<unat (thread_num (cfg w))]) w"

section \<open>The report directory and the environment\<close>

definition make_dir :: "string \<Rightarrow> fsys \<Rightarrow> stop + fsys" where
  "make_dir path fs = (let (ret, fs') = CreateDir path fs in if ret = 0 then Inr fs' else Inl Aborted)"

definition InitRepDir :: "string \<Rightarrow> fsys \<Rightarrow> stop + fsys" where
  "InitRepDir rep fs =
     (let internal_dir = rep @ ''/'' @ rep_internal_dir; report_dir = rep @ ''/'' @ rep_report_dir in
      if \<not> FileExists rep fs then run_all [make_dir rep, make_dir internal_dir, make_dir report_dir] fs
      else run_all
        [\<lambda>fs. if \<not> FileExists internal_dir fs then make_dir internal_dir fs else Inr fs,
         \<lambda>fs. if \<not> FileExists report_dir fs then make_dir report_dir fs else Inr fs] fs)"

text \<open>The node set holds the socket if the library knows that node. The asserts are compiled out of
  a release build.\<close>

definition SetEnv :: "env \<Rightarrow> world \<Rightarrow> stop + world" where
  "SetEnv E w =
     (let g = cfg w;
          node_mask = (if unat (socket g) \<le> numa_max_node (e_numa E) then [socket g] else []);
          w1 = w\<lparr>membind := node_mask\<rparr>
      in if debug (w_mach w1) \<and> \<not> (length (membind w1) = 1 \<and> socket g \<in> set (membind w1)) then Inl Aborted
         else
           (let w2 = w1\<lparr>rand_seed := seed g, rand_pos := 0\<rparr> in
            case InitRepDir (rep_dir_path g) (pm_fs (g_pm g)) of
              Inl e \<Rightarrow> Inl e
            | Inr fs \<Rightarrow> Inr (w2\<lparr>cfg := g\<lparr>g_pm := (g_pm g)\<lparr>pm_fs := fs\<rparr>\<rparr>\<rparr>)))"

text \<open>GetLocalTime formats the fields of localtime's answer (\<open>tm\<close>): years since 1900, months since
  January.\<close>

record tm =
  tm_year :: nat
  tm_mon :: nat
  tm_mday :: nat
  tm_hour :: nat
  tm_min :: nat
  tm_sec :: nat

definition pad0 :: "nat \<Rightarrow> nat \<Rightarrow> string" where
  "pad0 k n = (let s = to_string n in replicate (k - length s) CHR ''0'' @ s)"

definition GetLocalTime :: "tm \<Rightarrow> string" where
  "GetLocalTime T =
     (let year = tm_year T + 1900; month = tm_mon T + 1 in
      pad0 4 year @ ''-'' @ pad0 2 month @ ''-'' @ pad0 2 (tm_mday T) @ ''T'' @ pad0 2 (tm_hour T) @ '':'' @
      pad0 2 (tm_min T) @ '':'' @ pad0 2 (tm_sec T))"


section \<open>Lemmas\<close>

lemma fill_idx_spec:
  "fill_idx r msk n (pos, v) = (pos + n, \<lambda>i. if i < n then r (pos + (n - 1 - i)) AND msk else v i)"
proof (induction n arbitrary: pos v)
  case 0
  then show ?case by (simp add: fun_eq_iff)
next
  case (Suc n)
  have "n = i" if "i < Suc n" "\<not> i < n" for i using that by simp
  then show ?case by (auto simp: Suc fun_eq_iff less_Suc_eq Suc_diff_Suc intro!: arg_cong2 [where f = "(AND)"] arg_cong [where f = r])
qed

text \<open>What a task constructor gives when it succeeds.\<close>

lemma new_Task_Inr:
  assumes "new_Task E i b0 w = Inr (t, w1)"
  shows "\<exists>bits p b v. fls32 (ucast (access_size (cfg w))) = Inr bits \<and> i < length (core_ids (cfg w)) \<and> p \<noteq> 0 \<and> b \<noteq> 0 \<and>
    p = malloc_of E (heap_pos w) (of_nat (MAX_IDX_SIZE * 4)) \<and>
    b = malloc_of E (Suc (heap_pos w)) (ucast (access_size (cfg w))) \<and>
    v = (\<lambda>k. if k < MAX_IDX_SIZE then rand_of E (rand_seed w) (rand_pos w + (MAX_IDX_SIZE - 1 - k)) AND buf_slots_mask (cfg w) else 0) \<and>
    t = \<lparr>thread_idx = i, core_id = core_ids (cfg w) ! i, t_socket = socket (cfg w), buf = b0,
         buf_size = buffer_size (cfg w), t_rw_type = rw_type (cfg w), t_access_mode = access_mode (cfg w),
         t_access_size = access_size (cfg w), t_runtime = runtime (cfg w), t_iters = iters (cfg w),
         t_access_size_bits = bits, idx_addr = p, idx_val = v, mem_cpy_buf = b, sub_op = 0, op_of = None\<rparr> \<and>
    w1 = w\<lparr>heap_pos := heap_pos w + 2, heap_live := heap_live w + 2, rand_pos := rand_pos w + MAX_IDX_SIZE\<rparr>"
  using assms
  by (auto simp: new_Task_def malloc_def Let_def fill_idx_spec split: if_splits sum.splits)

lemma new_RunData_Inr:
  assumes "new_RunData E t time data w = Inr (d, w1)"
  shows "\<exists>pm. w1 = w\<lparr>cfg := (cfg w)\<lparr>g_pm := pm\<rparr>\<rparr> \<and> fds (pm_fs pm) = fds (pm_fs (g_pm (cfg w))) \<and>
    live_maps pm = live_maps (g_pm (cfg w)) + 1 \<and> live_cfgs pm = live_cfgs (g_pm (cfg w)) \<and>
    live_srcs pm = live_srcs (g_pm (cfg w)) \<and>
    run_times d = (case data of None \<Rightarrow> replicate (unat (t_iters t)) 0 | Some x \<Rightarrow> x)"
proof -
  obtain fd fs where o: "OpenAndAllocAtSize (data_path (cfg w) t time) (ucast (t_iters t) * 4) (pm_fs (g_pm (cfg w))) = (fd, fs)"
    by fastforce
  obtain mp pm where m: "Pmem2MapFromFd (e_pmem2 E) fd ((g_pm (cfg w))\<lparr>pm_fs := fs\<rparr>) = (mp, pm)" by fastforce
  from OpenAndAllocAtSize_fds [OF o] from_fd_live [where L = "e_pmem2 E" and fd = fd and s = "(g_pm (cfg w))\<lparr>pm_fs := fs\<rparr>"]
    from_fd_fs [of "e_pmem2 E" fd "(g_pm (cfg w))\<lparr>pm_fs := fs\<rparr>"] assms show ?thesis
    by (auto simp: new_RunData_def o m Let_def split: if_splits)
qed


text \<open>The task that InitThreadContext makes for thread \<open>k\<close>, up to the operation chosen later: its
  buffer is the k-th of the device, its indices the k-th block of the generator's values.\<close>

definition made :: "env \<Rightarrow> world \<Rightarrow> nat \<Rightarrow> task \<Rightarrow> bool" where
  "made E w k t \<longleftrightarrow> k < length (core_ids (cfg w)) \<and> idx_addr t \<noteq> 0 \<and> mem_cpy_buf t \<noteq> 0 \<and>
     fls32 (ucast (access_size (cfg w))) = Inr (t_access_size_bits t) \<and>
     t = \<lparr>thread_idx = k, core_id = core_ids (cfg w) ! k, t_socket = socket (cfg w),
          buf = aep_buf (cfg w) + of_nat k * buffer_size (cfg w),
          buf_size = buffer_size (cfg w), t_rw_type = rw_type (cfg w), t_access_mode = access_mode (cfg w),
          t_access_size = access_size (cfg w), t_runtime = runtime (cfg w), t_iters = iters (cfg w),
          t_access_size_bits = t_access_size_bits t,
          idx_addr = malloc_of E (heap_pos w + 2 * k) (of_nat (MAX_IDX_SIZE * 4)),
          idx_val = (\<lambda>j. if j < MAX_IDX_SIZE
             then rand_of E (rand_seed w) (rand_pos w + k * MAX_IDX_SIZE + (MAX_IDX_SIZE - 1 - j)) AND buf_slots_mask (cfg w) else 0),
          mem_cpy_buf = malloc_of E (Suc (heap_pos w + 2 * k)) (ucast (access_size (cfg w))),
          sub_op = sub_op t, op_of = op_of t\<rparr>"

lemma made_fields:
  assumes "made E w k t"
  shows "thread_idx t = k" "buf t = aep_buf (cfg w) + of_nat k * buffer_size (cfg w)" "buf_size t = buffer_size (cfg w)"
    "t_rw_type t = rw_type (cfg w)" "t_access_mode t = access_mode (cfg w)" "t_access_size t = access_size (cfg w)"
    "t_iters t = iters (cfg w)" "core_id t = core_ids (cfg w) ! k"
    "fls32 (ucast (access_size (cfg w))) = Inr (t_access_size_bits t)"
    "idx_val t = (\<lambda>j. if j < MAX_IDX_SIZE
       then rand_of E (rand_seed w) (rand_pos w + k * MAX_IDX_SIZE + (MAX_IDX_SIZE - 1 - j)) AND buf_slots_mask (cfg w) else 0)"
  using assms by (cases t; simp add: made_def)+

text \<open>The state after \<open>n\<close> contexts were initialised in \<open>w\<close>.\<close>

definition contexts_made :: "env \<Rightarrow> world \<Rightarrow> u32 list option \<Rightarrow> nat \<Rightarrow> world \<Rightarrow> bool" where
  "contexts_made E w data n u \<longleftrightarrow> length (thread_contexts u) = length (thread_contexts w) \<and> n \<le> length (thread_contexts w) \<and>
     heap_live u = heap_live w + 2 * n \<and>
     heap_pos u = heap_pos w + 2 * n \<and> rand_pos u = rand_pos w + n * MAX_IDX_SIZE \<and> rand_seed u = rand_seed w \<and>
     w_mach u = w_mach w \<and> w_sched u = w_sched w \<and> (\<exists>pm. cfg u = (cfg w)\<lparr>g_pm := pm\<rparr>) \<and>
     fds (pm_fs (g_pm (cfg u))) = fds (pm_fs (g_pm (cfg w))) \<and>
     live_maps (g_pm (cfg u)) = live_maps (g_pm (cfg w)) + n \<and>
     live_cfgs (g_pm (cfg u)) = live_cfgs (g_pm (cfg w)) \<and> live_srcs (g_pm (cfg u)) = live_srcs (g_pm (cfg w)) \<and>
     (\<forall>k<n. \<exists>t d. thread_contexts u ! k = Some (t, d) \<and> made E w k t \<and>
        run_times d = (case data of None \<Rightarrow> replicate (unat (iters (cfg w))) 0 | Some x \<Rightarrow> x))"

lemma init_context_made:
  assumes "contexts_made E w data i u" and "init_context E time data i u = Inr v"
  shows "contexts_made E w data (Suc i) v"
proof -
  from assms(2) obtain t w1 d w2 where i: "i < length (thread_contexts u)"
    and t: "new_Task E i (aep_buf (cfg u) + of_nat i * buffer_size (cfg u)) u = Inr (t, w1)"
    and d: "new_RunData E t time data w1 = Inr (d, w2)"
    and v: "v = w2\<lparr>thread_contexts := (thread_contexts w2)[i := Some (t, d)]\<rparr>"
    by (auto simp: init_context_def split: if_splits sum.splits)
  from new_RunData_Inr [OF d] obtain pm where pm: "w2 = w1\<lparr>cfg := (cfg w1)\<lparr>g_pm := pm\<rparr>\<rparr>"
    "fds (pm_fs pm) = fds (pm_fs (g_pm (cfg w1)))" "live_maps pm = live_maps (g_pm (cfg w1)) + 1"
    "live_cfgs pm = live_cfgs (g_pm (cfg w1))" "live_srcs pm = live_srcs (g_pm (cfg w1))"
    "run_times d = (case data of None \<Rightarrow> replicate (unat (t_iters t)) 0 | Some x \<Rightarrow> x)" by blast
  from new_Task_Inr [OF t] have w1: "w1 = u\<lparr>heap_pos := heap_pos u + 2, heap_live := heap_live u + 2, rand_pos := rand_pos u + MAX_IDX_SIZE\<rparr>"
    by blast
  from assms(1) obtain pm0 where g: "cfg u = (cfg w)\<lparr>g_pm := pm0\<rparr>" by (auto simp: contexts_made_def)
  have "made E w i t"
    using new_Task_Inr [OF t] assms(1) by (auto simp: made_def contexts_made_def g algebra_simps)
  moreover have "t_iters t = iters (cfg w)" using new_Task_Inr [OF t] by (auto simp: g)
  with pm(6) have "run_times d = (case data of None \<Rightarrow> replicate (unat (iters (cfg w))) 0 | Some x \<Rightarrow> x)"
    by (cases data) simp_all
  ultimately show ?thesis
    using assms(1) i pm(1-5) w1 by (auto simp: contexts_made_def v g nth_list_update less_Suc_eq)
qed

lemma contexts_made_0: "contexts_made E w data 0 w"
  by (simp add: contexts_made_def exI [of _ "g_pm (cfg w)"])

lemma InitThreadContext_made:
  assumes "InitThreadContext E time data w = Inr u"
  shows "contexts_made E w data (unat (thread_num (cfg w))) u"
  using assms unfolding InitThreadContext_def
  by (rule run_all_upt) (auto intro: contexts_made_0 init_context_made)

lemma SetSubOp_Inr:
  assumes "SetSubOp P k t = Inr t'"
  obtains f where "GetOpFn P (t_rw_type t) k = Inr f" and "t' = t\<lparr>sub_op := k, op_of := Some f\<rparr>"
  using assms by (auto simp: SetSubOp_def split: sum.splits)

lemma made_SetSubOp: "made E w k t \<Longrightarrow> SetSubOp P j t = Inr t' \<Longrightarrow> made E w k t'"
  by (erule SetSubOp_Inr) (cases t, simp add: made_def)

lemma set_context_op_made:
  assumes "contexts_made E w data n u" and "set_context_op E k i u = Inr v"
  shows "contexts_made E w data n v"
proof -
  from assms(2) obtain t d t' where i: "i < length (thread_contexts u)" "thread_contexts u ! i = Some (t, d)"
    and t': "SetSubOp (e_pmdk E) k t = Inr t'"
    and v: "v = u\<lparr>thread_contexts := (thread_contexts u)[i := Some (t', d)]\<rparr>"
    by (auto simp: set_context_op_def split: if_splits option.splits sum.splits)
  have "made E w i t'" if "i < n"
    using assms(1) that i(2) made_SetSubOp [OF _ t'] by (auto simp: contexts_made_def)
  then show ?thesis using assms(1) i by (auto simp: contexts_made_def v nth_list_update)
qed

lemma ThreadContextSetSubOp_made:
  assumes "ThreadContextSetSubOp E k u = Inr v" and "contexts_made E w data n u"
  shows "contexts_made E w data n v"
  using assms unfolding ThreadContextSetSubOp_def
  by (rule run_all_upt [where P = "\<lambda>_. contexts_made E w data n"]) (auto intro: set_context_op_made)

text \<open>What of this outlives runs: the contexts are there, and their tasks are still the ones made.\<close>

definition contexts_live :: "env \<Rightarrow> world \<Rightarrow> nat \<Rightarrow> world \<Rightarrow> bool" where
  "contexts_live E w n u \<longleftrightarrow> n \<le> length (thread_contexts u) \<and> (\<exists>pm. cfg u = (cfg w)\<lparr>g_pm := pm\<rparr>) \<and>
     (\<forall>k<n. \<exists>t d. thread_contexts u ! k = Some (t, d) \<and> made E w k t)"

lemma contexts_made_live: "contexts_made E w data n u \<Longrightarrow> contexts_live E w n u"
  by (fastforce simp: contexts_made_def contexts_live_def)

text \<open>The state after the first \<open>i\<close> contexts of \<open>u\<close> were destroyed.\<close>

definition contexts_gone :: "world \<Rightarrow> nat \<Rightarrow> world \<Rightarrow> bool" where
  "contexts_gone u i v \<longleftrightarrow> length (thread_contexts v) = length (thread_contexts u) \<and>
     heap_pos v = heap_pos u \<and> w_mach v = w_mach u \<and> w_sched v = w_sched u \<and> (\<exists>pm. cfg v = (cfg u)\<lparr>g_pm := pm\<rparr> \<and> pm_fs pm = pm_fs (g_pm (cfg u))) \<and>
     heap_live v = heap_live u - 2 * i \<and> live_maps (g_pm (cfg v)) = live_maps (g_pm (cfg u)) - i \<and>
     live_cfgs (g_pm (cfg v)) = live_cfgs (g_pm (cfg u)) \<and> live_srcs (g_pm (cfg v)) = live_srcs (g_pm (cfg u)) \<and>
     fds (pm_fs (g_pm (cfg v))) = fds (pm_fs (g_pm (cfg u))) \<and>
     (\<forall>k. i \<le> k \<longrightarrow> thread_contexts v ! k = thread_contexts u ! k) \<and> (\<forall>k<i. thread_contexts v ! k = None)"

lemma DestroyThreadContext_gone:
  assumes "contexts_live E w n u" and "n = unat (thread_num (cfg u))"
  shows "\<exists>v. DestroyThreadContext u = Inr v \<and> contexts_gone u n v"
  unfolding DestroyThreadContext_def assms(2) [symmetric]
proof (rule run_all_upt_total [where P = "contexts_gone u"])
  show "contexts_gone u 0 u" by (simp add: contexts_gone_def exI [of _ "g_pm (cfg u)"])
next
  fix i v assume i: "i < n" and g: "contexts_gone u i v"
  from assms(1) i obtain t d where "thread_contexts u ! i = Some (t, d)" "made E w i t" "i < length (thread_contexts u)"
    by (auto simp: contexts_live_def)
  with g have c: "thread_contexts v ! i = Some (t, d)" "made E w i t" "i < length (thread_contexts v)"
    by (simp_all add: contexts_gone_def)
  let ?v = "(delete_RunData d (delete_Task t v))\<lparr>thread_contexts := (thread_contexts v)[i := None]\<rparr>"
  from g obtain pm where pm: "cfg v = (cfg u)\<lparr>g_pm := pm\<rparr>" "pm_fs pm = pm_fs (g_pm (cfg u))" by (auto simp: contexts_gone_def)
  have v: "cfg ?v = (cfg u)\<lparr>g_pm := Pmem2UnMap pm\<rparr>" "heap_live ?v = heap_live v - 2" "heap_pos ?v = heap_pos v"
    "w_mach ?v = w_mach v" "w_sched ?v = w_sched v"
    using c(2) by (simp_all add: delete_RunData_def delete_Task_def free_def pm(1) made_def)
  have "\<exists>pm'. cfg ?v = (cfg u)\<lparr>g_pm := pm'\<rparr> \<and> pm_fs pm' = pm_fs (g_pm (cfg u))"
    unfolding v(1) by (rule exI [of _ "Pmem2UnMap pm"]) (simp add: Pmem2UnMap_def pm(2))
  then have "contexts_gone u (Suc i) ?v"
    using g c v by (simp add: contexts_gone_def nth_list_update less_Suc_eq Pmem2UnMap_def pm(1))
  with c show "\<exists>v'. destroy_context i v = Inr v' \<and> contexts_gone u (Suc i) v'"
    by (intro exI [of _ ?v]) (simp add: destroy_context_def)
qed

section \<open>Properties\<close>

text \<open>C15: The objects of a run are balanced. After the thread contexts were created, whatever
  operations were selected in between, destroying them succeeds and releases everything: memory
  blocks, mappings, library objects and descriptors are what they were, and no context is left.\<close>

theorem thread_contexts_balanced:
  assumes "InitThreadContext E time data w = Inr u" and "run_all (map (ThreadContextSetSubOp E) ks) u = Inr v"
  shows "\<exists>z. DestroyThreadContext v = Inr z \<and> heap_live z = heap_live w \<and>
    live_maps (g_pm (cfg z)) = live_maps (g_pm (cfg w)) \<and> live_cfgs (g_pm (cfg z)) = live_cfgs (g_pm (cfg w)) \<and>
    live_srcs (g_pm (cfg z)) = live_srcs (g_pm (cfg w)) \<and>
    fds (pm_fs (g_pm (cfg z))) = fds (pm_fs (g_pm (cfg w))) \<and>
    (\<forall>k < unat (thread_num (cfg w)). thread_contexts z ! k = None)"
proof -
  let ?n = "unat (thread_num (cfg w))"
  have made: "contexts_made E w data ?n u" using assms(1) by (rule InitThreadContext_made)
  have "contexts_made E w data ?n v"
    using assms(2) made by (induction ks arbitrary: u) (auto split: sum.splits dest: ThreadContextSetSubOp_made)
  then have v: "contexts_made E w data ?n v" .
  moreover from v have "?n = unat (thread_num (cfg v))" by (auto simp: contexts_made_def)
  ultimately obtain z where "DestroyThreadContext v = Inr z" "contexts_gone v ?n z"
    using DestroyThreadContext_gone [OF contexts_made_live] by blast
  with v show ?thesis by (intro exI [of _ z]) (simp add: contexts_made_def contexts_gone_def)
qed


definition demo_env :: env where
  "demo_env = \<lparr>e_pmdk = demo_pmdk, e_pmem2 = demo_device, e_numa = demo_numa, rand_of = (\<lambda>s k. s + of_nat k * 7),
     malloc_of = (\<lambda>k sz. 4096 + of_nat k * 2 ^ 32)\<rparr>"

definition demo_rep_fs :: fsys where
  "demo_rep_fs = \<lparr>fs_root = Dir [(''r'', Dir [(''internal'', Dir []), (''report'', Dir [])])],
     fds = [], open_dirs = 0, fs_free = 1000, fs_umask = 18, fs_dir_size = 4096\<rparr>"

definition demo_world :: world where
  "demo_world = \<lparr>cfg = demo_cfg\<lparr>g_pm := \<lparr>pm_fs = demo_rep_fs, live_cfgs = 0, live_srcs = 0, live_maps = 1\<rparr>\<rparr>,
     w_mach = demo_machine, w_sched = \<lparr>online = [0..<80], affinity = (\<lambda>_ _. True)\<rparr>, rand_seed = 7, rand_pos = 0,
     heap_pos = 0, heap_live = 0, membind = [1], thread_contexts = replicate 32 None\<rparr>"

lemma demo_new_Task: "\<exists>t w1. new_Task demo_env 0 (2 ^ 40) demo_world = Inr (t, w1) \<and>
    t_rw_type t = kCpy \<and> t_access_mode t = kSeq \<and> t_access_size t = 16 \<and> buf_size t = 1024 \<and> thread_idx t = 0 \<and>
    t_iters t = 10 \<and> cfg w1 = cfg demo_world \<and> thread_contexts w1 = replicate 32 None"
  by (simp add: new_Task_def demo_world_def demo_cfg_def initial_globals_def malloc_def demo_env_def fill_idx_spec
      fls32_demo Let_def)

lemma digit_chars:
  "char_of (48 :: nat) = CHR ''0''" "char_of (49 :: nat) = CHR ''1''" "char_of (54 :: nat) = CHR ''6''"
  by (simp_all add: char_of_def bit_0)

lemma demo_data_path:
  assumes "t_rw_type t = kCpy" and "t_access_mode t = kSeq" and "t_access_size t = 16" and "buf_size t = 1024"
    and "thread_idx t = 0"
  shows "comps (data_path (cfg demo_world) t ''T'') =
    [''r'', ''internal'', ''aep_test-T-1K-cpy-seq-16B-0-data.dat'']"
  using assms
  by (simp add: data_path_def demo_world_def demo_cfg_def Size2HumanStr_def to_string.simps RwType2Str_def rw_type_2_str_def
      AccessMode2Str_def access_mode_2_str_def rep_internal_dir_def rep_file_prefix_def rep_data_suffix_def Let_def comps_def digit_chars)

lemma demo_InitThreadContext: "\<exists>u. InitThreadContext demo_env ''T'' None demo_world = Inr u"
proof -
  from demo_new_Task obtain t w1 where t: "new_Task demo_env 0 (2 ^ 40) demo_world = Inr (t, w1)"
    and f: "t_rw_type t = kCpy" "t_access_mode t = kSeq" "t_access_size t = 16" "buf_size t = 1024" "thread_idx t = 0"
      "t_iters t = 10" "cfg w1 = cfg demo_world" "thread_contexts w1 = replicate 32 None" by blast
  have "\<exists>d w2. new_RunData demo_env t ''T'' None w1 = Inr (d, w2) \<and> thread_contexts w2 = replicate 32 None"
    unfolding new_RunData_def f(7) Let_def OpenAndAllocAtSize_def sys_open_def demo_data_path [OF f(1-5)]
    by (simp add: f demo_world_def demo_env_def demo_device_def demo_rep_fs_def parent_ok_def sys_ftruncate_def
        sys_fallocate_def new_fd_def Pmem2MapFromFd_def Let_def)
  then obtain d w2 where d: "new_RunData demo_env t ''T'' None w1 = Inr (d, w2)" by blast
  have "unat (thread_num (cfg demo_world)) = 1" "aep_buf (cfg demo_world) = 2 ^ 40" "length (thread_contexts demo_world) = 32"
    by (simp_all add: demo_world_def demo_cfg_def initial_globals_def)
  with t d show ?thesis by (simp add: InitThreadContext_def init_context_def)
qed

theorem thread_contexts_balanced_witness:
  "\<exists>u z. InitThreadContext demo_env ''T'' None demo_world = Inr u \<and> DestroyThreadContext u = Inr z \<and> heap_live z = 0"
proof -
  obtain u where "InitThreadContext demo_env ''T'' None demo_world = Inr u" using demo_InitThreadContext by blast
  moreover from this have "\<exists>z. DestroyThreadContext u = Inr z \<and> heap_live z = heap_live demo_world"
    using thread_contexts_balanced [where ks = "[]" and v = u] by fastforce
  ultimately show ?thesis by (fastforce simp: demo_world_def)
qed

text \<open>The threads of a run write to different result files.\<close>

theorem data_path_inj:
  assumes "made E w i t" and "made E w j t'"
  shows "data_path g t time = data_path g t' time \<longleftrightarrow> i = j"
  by (auto simp: data_path_def Let_def made_fields [OF assms(1)] made_fields [OF assms(2)] dest: to_string_inj)


definition demo_task :: "nat \<Rightarrow> task" where
  "demo_task k = \<lparr>thread_idx = k, core_id = core_ids demo_cfg ! k, t_socket = 1, buf = 2 ^ 40 + of_nat k * 1024,
     buf_size = 1024, t_rw_type = kCpy, t_access_mode = kSeq, t_access_size = 16, t_runtime = 5, t_iters = 10,
     t_access_size_bits = 4, idx_addr = 4096 + of_nat (2 * k) * 2 ^ 32,
     idx_val = (\<lambda>j. if j < MAX_IDX_SIZE then (7 + of_nat (k * MAX_IDX_SIZE + (MAX_IDX_SIZE - 1 - j)) * 7) AND 63 else 0),
     mem_cpy_buf = 4096 + of_nat (Suc (2 * k)) * 2 ^ 32, sub_op = 0, op_of = None\<rparr>"

lemma made_demo_task:
  assumes "k < 2"
  shows "made demo_env demo_world k (demo_task k)"
  using assms less_2_cases [OF assms]
  by (auto simp: made_def demo_task_def demo_world_def demo_cfg_def initial_globals_def demo_env_def fls32_demo
      simp del: of_nat_add of_nat_mult)

theorem data_path_inj_witness:
  "data_path demo_cfg (demo_task 0) ''T'' \<noteq> data_path demo_cfg (demo_task 1) ''T''"
  using data_path_inj [OF made_demo_task made_demo_task, of 0 1 demo_cfg "''T''"] by simp

lemma lookup_put_mono: "lookup t p = None \<Longrightarrow> lookup t q \<noteq> None \<Longrightarrow> lookup (put p (Some n) t) q \<noteq> None"
proof (induction t p arbitrary: q rule: lookup.induct)
  case (2 cs x p)
  then show ?case
    by (cases q) (auto split: option.splits if_splits simp: update_conv)
qed auto

lemma make_dir_Inr:
  assumes "make_dir path fs = Inr fs'"
  shows "\<not> FileExists path fs \<and> FileExists path fs' \<and> (\<forall>p. FileExists p fs \<longrightarrow> FileExists p fs')"
proof -
  from assms have new: "lookup (fs_root fs) (comps path) = None" "parent_ok fs (comps path)"
    and fs': "fs' = fs\<lparr>fs_root := put (comps path) (Some (Dir [])) (fs_root fs)\<rparr>"
    by (auto simp: make_dir_def CreateDir_def sys_mkdir_def EEXIST_def ENOENT_def Let_def split: if_splits)
  from new(2) have "lookup (put (comps path) (Some (Dir [])) (fs_root fs)) (comps path) = Some (Dir [])"
    unfolding parent_ok_def by (auto split: option.splits node.splits intro: lookup_put_new)
  with new(1) lookup_put_mono [OF new(1)] show ?thesis by (auto simp: FileExists_def fs')
qed

text \<open>When InitRepDir returns, the report directory and its two parts exist and whatever existed
  before still does; running it again then changes nothing.\<close>

theorem InitRepDir_makes:
  assumes "InitRepDir rep fs = Inr fs'"
  shows "FileExists rep fs' \<and> FileExists (rep @ ''/'' @ rep_internal_dir) fs' \<and>
    FileExists (rep @ ''/'' @ rep_report_dir) fs' \<and> (\<forall>p. FileExists p fs \<longrightarrow> FileExists p fs') \<and>
    InitRepDir rep fs' = Inr fs'"
  using assms
  by (auto simp: InitRepDir_def Let_def split: if_splits sum.splits dest: make_dir_Inr) (meson make_dir_Inr)+

theorem InitRepDir_makes_witness:
  "\<exists>fs'. InitRepDir ''/new'' demo_rep_fs = Inr fs' \<and> FileExists ''/new/report'' fs'"
proof -
  have "\<exists>fs'. InitRepDir ''/new'' demo_rep_fs = Inr fs'"
    by (simp add: InitRepDir_def make_dir_def CreateDir_def sys_mkdir_def FileExists_def demo_rep_fs_def parent_ok_def
        comps_def rep_internal_dir_def rep_report_dir_def Let_def)
  then show ?thesis using InitRepDir_makes [of "''/new''" demo_rep_fs] by (auto simp: rep_report_dir_def)
qed

end
