(* ===== verification/Device_Op.thy ===== *)
theory Device_Op
  imports Study_Config
begin

text \<open>
  What ThreadJob relies on when it calls an operation of a table, as a locale: on arguments that
  are in order for the operation's type it returns the time between its two clock readings,
  changes only its destination, and leaves the mapping, the build mode and the clock's source
  alone. Every entry of the four tables meets it: the baselines and the loads by the model of
  this repository, the libpmem2 calls when libpmem2 does what it documents.
\<close>

section \<open>The contract\<close>

definition op_args :: "RwType \<Rightarrow> machine \<Rightarrow> u64 \<Rightarrow> u64 \<Rightarrow> u64 \<Rightarrow> bool" where
  "op_args rt m a1 a2 n =
     (case rt of
        kRead \<Rightarrow> accessible m a2 (unat n)
      | kWrite \<Rightarrow> can_copy m a1 a2 n
      | kCpy \<Rightarrow> can_copy m a1 a2 n
      | kMemset \<Rightarrow> accessible m a1 (unat n) \<and> accessible m a2 1)"

definition writes :: "RwType \<Rightarrow> u64 \<Rightarrow> u64 \<Rightarrow> u64 \<Rightarrow> bool" where
  "writes rt a1 n a \<longleftrightarrow> rt \<noteq> kRead \<and> in_range a1 (unat n) a"

locale device_op =
  fixes rt :: RwType and f :: op_fn
  assumes op_runs: "op_args rt m a1 a2 n \<Longrightarrow>
    \<exists>m'. f a1 a2 n m = Some (Inr (ts_at m (Suc (clock_pos m)) - ts_at m (clock_pos m), m')) \<and>
      mapped m' = mapped m \<and> debug m' = debug m \<and> clock_src m' = clock_src m \<and> clock_pos m' = clock_pos m + 2 \<and>
      (\<forall>a. \<not> writes rt a1 n a \<longrightarrow> mem m' a = mem m a)"
begin

text \<open>An operation that returned did so with these effects.\<close>

lemma op_result:
  assumes "op_args rt m a1 a2 n" and "f a1 a2 n m = Some (Inr (ts, m'))"
  shows "ts = ts_at m (Suc (clock_pos m)) - ts_at m (clock_pos m)" and "mapped m' = mapped m"
    and "debug m' = debug m" and "clock_src m' = clock_src m" and "clock_pos m' = clock_pos m + 2"
    and "\<not> writes rt a1 n a \<Longrightarrow> mem m' a = mem m a"
  using op_runs [OF assms(1)] assms(2) by auto

lemma op_accessible:
  assumes "op_args rt m a1 a2 n" and "f a1 a2 n m = Some (Inr (ts, m'))"
  shows "accessible m' = accessible m"
  using op_result(2) [OF assms] by (simp add: accessible_def fun_eq_iff)

end

text \<open>A copy operation also transfers the source, durably.\<close>

definition device_copy :: "RwType \<Rightarrow> op_fn \<Rightarrow> bool" where
  "device_copy rt f \<longleftrightarrow> device_op rt f \<and>
     (\<forall>m a1 a2 n ts m'. op_args rt m a1 a2 n \<and> f a1 a2 n m = Some (Inr (ts, m')) \<longrightarrow>
        (\<forall>a. in_range a1 (unat n) a \<longrightarrow> mem m' a = mem m (a2 + (a - a1)) \<and> pst m' a = Durable) \<and>
        (\<forall>a. pst m a = Durable \<longrightarrow> pst m' a = Durable))"

section \<open>Bodies\<close>

text \<open>A timed body that moves the machine within one environment.\<close>

lemma timed_runs:
  assumes "\<exists>m2. do_all body (m\<lparr>clock_pos := Suc (clock_pos m)\<rparr>) = Some (Inr m2) \<and>
      same_env (m\<lparr>clock_pos := Suc (clock_pos m)\<rparr>) m2 \<and> (\<forall>a. \<not> W a \<longrightarrow> mem m2 a = mem m a)"
  shows "\<exists>m'. timed body m = Some (Inr (ts_at m (Suc (clock_pos m)) - ts_at m (clock_pos m), m')) \<and>
      mapped m' = mapped m \<and> debug m' = debug m \<and> clock_src m' = clock_src m \<and> clock_pos m' = clock_pos m + 2 \<and>
      (\<forall>a. \<not> W a \<longrightarrow> mem m' a = mem m a)"
proof -
  from assms obtain m2 where b: "do_all body (m\<lparr>clock_pos := Suc (clock_pos m)\<rparr>) = Some (Inr m2)"
    and e: "same_env (m\<lparr>clock_pos := Suc (clock_pos m)\<rparr>) m2" and w: "\<forall>a. \<not> W a \<longrightarrow> mem m2 a = mem m a" by blast
  show ?thesis
    by (rule exI, rule conjI, rule timed_result [OF b e]) (use e w in \<open>simp add: same_env_def\<close>)
qed

lemma device_op_baseline: "(\<And>a1 a2 n. f a1 a2 n = timed []) \<Longrightarrow> device_op rt f"
  by (rule device_op.intro) (simp only:, rule timed_runs, simp add: same_env_def)

lemma just_loads_run:
  assumes "accessible m src (unat len)"
  shows "\<exists>m'. just_load src len m = Inr m' \<and> same_env m m' \<and> mem m' = mem m \<and> pst m' = pst m"
    and "\<exists>m'. just_ntload src len m = Inr m' \<and> same_env m m' \<and> mem m' = mem m \<and> pst m' = pst m"
proof -
  have rdy: "ready Touch (enter src src len m)"
    by (rule ready_access) (use assms in \<open>simp_all add: can_access_def\<close>)
  show "\<exists>m'. just_load src len m = Inr m' \<and> same_env m m' \<and> mem m' = mem m \<and> pst m' = pst m"
    using r_just_load.plain_cascade [OF rdy]
    by (auto simp: just_load_def simp del: run_all.simps dest: moved_env moved_Touch_same)
  show "\<exists>m'. just_ntload src len m = Inr m' \<and> same_env m m' \<and> mem m' = mem m \<and> pst m' = pst m"
    using r_just_ntload.plain_cascade [OF rdy]
    by (auto simp: just_ntload_def simp del: run_all.simps dest: moved_env moved_Touch_same)
qed

lemma accessible_clock [simp]: "accessible (m\<lparr>clock_pos := k\<rparr>) a n = accessible m a n"
  by (simp add: accessible_def)

lemma can_copy_clock [simp]: "can_copy (m\<lparr>clock_pos := k\<rparr>) d s n = can_copy m d s n"
  by (simp add: can_copy_def)

interpretation o_just_load: device_op kRead aep_just_load
proof
  fix m a1 a2 n assume "op_args kRead m a1 a2 n"
  then have "accessible (m\<lparr>clock_pos := Suc (clock_pos m)\<rparr>) a2 (unat n)" by (simp add: op_args_def)
  from just_loads_run(1) [OF this]
  show "\<exists>m'. aep_just_load a1 a2 n m = Some (Inr (ts_at m (Suc (clock_pos m)) - ts_at m (clock_pos m), m')) \<and>
      mapped m' = mapped m \<and> debug m' = debug m \<and> clock_src m' = clock_src m \<and> clock_pos m' = clock_pos m + 2 \<and>
      (\<forall>a. \<not> writes kRead a1 n a \<longrightarrow> mem m' a = mem m a)"
    unfolding aep_just_load_def by (intro timed_runs) (auto simp: run_prog_def)
qed

interpretation o_just_ntload: device_op kRead aep_just_ntload
proof
  fix m a1 a2 n assume "op_args kRead m a1 a2 n"
  then have "accessible (m\<lparr>clock_pos := Suc (clock_pos m)\<rparr>) a2 (unat n)" by (simp add: op_args_def)
  from just_loads_run(2) [OF this]
  show "\<exists>m'. aep_just_ntload a1 a2 n m = Some (Inr (ts_at m (Suc (clock_pos m)) - ts_at m (clock_pos m), m')) \<and>
      mapped m' = mapped m \<and> debug m' = debug m \<and> clock_src m' = clock_src m \<and> clock_pos m' = clock_pos m + 2 \<and>
      (\<forall>a. \<not> writes kRead a1 n a \<longrightarrow> mem m' a = mem m a)"
    unfolding aep_just_ntload_def by (intro timed_runs) (auto simp: run_prog_def)
qed

section \<open>libpmem2\<close>

text \<open>The documentation of libpmem2's memset: the range is filled with the value's low byte and, with
  any flag but NOFLUSH, persisted.\<close>

definition pmem2_memset_persists :: "pmdk \<Rightarrow> bool" where
  "pmem2_memset_persists P \<longleftrightarrow>
     (\<forall>m d c n fl. fl \<noteq> PMEM2_F_MEM_NOFLUSH \<and> accessible m d (unat n) \<longrightarrow>
        (\<exists>m'. pmdk_memset P d c n fl m = Inr m' \<and> same_env m m' \<and>
           mem m' = (\<lambda>a. if in_range d (unat n) a then ucast c else mem m a) \<and>
           (\<forall>a. in_range d (unat n) a \<or> pst m a = Durable \<longrightarrow> pst m' a = Durable)))"

definition pmem2_documented :: "pmdk \<Rightarrow> bool" where
  "pmem2_documented P \<longleftrightarrow> pmem2_memcpy_persists P \<and> pmem2_memset_persists P"

text \<open>A memcpy of libpmem2 between the clock readings.\<close>

lemma pmem2_call:
  assumes P: "pmem2_memcpy_persists P" and fl: "fl \<noteq> PMEM2_F_MEM_NOFLUSH" and rt: "rt = kWrite \<or> rt = kCpy"
    and a: "op_args rt m d s n"
  shows "\<exists>m2. do_all [run_prog (pmdk_memcpy P d s n fl)] (m\<lparr>clock_pos := Suc (clock_pos m)\<rparr>) = Some (Inr m2) \<and>
      same_env (m\<lparr>clock_pos := Suc (clock_pos m)\<rparr>) m2 \<and>
      mem m2 = (\<lambda>a. if in_range d (unat n) a then mem m (s + (a - d)) else mem m a) \<and>
      (\<forall>a. in_range d (unat n) a \<or> pst m a = Durable \<longrightarrow> pst m2 a = Durable)"
proof -
  let ?m = "m\<lparr>clock_pos := Suc (clock_pos m)\<rparr>"
  have c: "can_copy ?m d s n" using a rt by (auto simp: op_args_def)
  from P fl c have "\<exists>m'. pmdk_memcpy P d s n fl ?m = Inr m' \<and> same_env ?m m' \<and>
      mem m' = (\<lambda>a. if in_range d (unat n) a then mem ?m (s + (a - d)) else mem ?m a) \<and>
      (\<forall>a. in_range d (unat n) a \<or> pst ?m a = Durable \<longrightarrow> pst m' a = Durable)"
    unfolding pmem2_memcpy_persists_def by blast
  then show ?thesis by (auto simp: run_prog_def cong: if_cong)
qed

lemma pmem2_result:
  assumes P: "pmem2_memcpy_persists P" and fl: "fl \<noteq> PMEM2_F_MEM_NOFLUSH" and rt: "rt = kWrite \<or> rt = kCpy"
    and a: "op_args rt m d s n" and run: "timed [run_prog (pmdk_memcpy P d s n fl)] m = Some (Inr (ts, m'))"
  shows "in_range d (unat n) a \<Longrightarrow> mem m' a = mem m (s + (a - d)) \<and> pst m' a = Durable"
    and "pst m a = Durable \<Longrightarrow> pst m' a = Durable"
proof -
  from pmem2_call [OF P fl rt a] obtain m2 where
    b: "do_all [run_prog (pmdk_memcpy P d s n fl)] (m\<lparr>clock_pos := Suc (clock_pos m)\<rparr>) = Some (Inr m2)"
    and e: "same_env (m\<lparr>clock_pos := Suc (clock_pos m)\<rparr>) m2"
    and r: "mem m2 = (\<lambda>a. if in_range d (unat n) a then mem m (s + (a - d)) else mem m a)"
      "\<forall>a. in_range d (unat n) a \<or> pst m a = Durable \<longrightarrow> pst m2 a = Durable" by blast
  from run timed_result [OF b e] have "m' = m2\<lparr>clock_pos := Suc (Suc (clock_pos m))\<rparr>" by simp
  with r show "in_range d (unat n) a \<Longrightarrow> mem m' a = mem m (s + (a - d)) \<and> pst m' a = Durable"
    "pst m a = Durable \<Longrightarrow> pst m' a = Durable" by simp_all
qed

lemma device_copy_pmem2:
  assumes P: "pmem2_memcpy_persists P" and fl: "fl \<noteq> PMEM2_F_MEM_NOFLUSH" and rt: "rt = kWrite \<or> rt = kCpy"
    and op: "\<And>d s n. op d s n = timed [run_prog (pmdk_memcpy P d s n fl)]"
  shows "device_copy rt op"
proof -
  have "device_op rt op"
  proof
    fix m a1 a2 n assume a: "op_args rt m a1 a2 n"
    show "\<exists>m'. op a1 a2 n m = Some (Inr (ts_at m (Suc (clock_pos m)) - ts_at m (clock_pos m), m')) \<and>
      mapped m' = mapped m \<and> debug m' = debug m \<and> clock_src m' = clock_src m \<and> clock_pos m' = clock_pos m + 2 \<and>
      (\<forall>a. \<not> writes rt a1 n a \<longrightarrow> mem m' a = mem m a)"
      unfolding op by (rule timed_runs) (use pmem2_call [OF P fl rt a] rt in \<open>fastforce simp: writes_def\<close>)
  qed
  then show ?thesis using pmem2_result [OF P fl rt] unfolding device_copy_def op by blast
qed

lemma device_copy_op: "device_copy rt f \<Longrightarrow> device_op rt f"
  by (simp add: device_copy_def)

lemma device_op_pmem2_memset:
  assumes P: "pmem2_memset_persists P" and fl: "fl \<noteq> PMEM2_F_MEM_NOFLUSH"
    and op: "\<And>d c n. op d c n = timed [run_prog (with_char c (\<lambda>v. pmdk_memset P d v n fl))]"
  shows "device_op kMemset op"
proof
  fix m d c n assume a: "op_args kMemset m d c n"
  let ?m = "m\<lparr>clock_pos := Suc (clock_pos m)\<rparr>"
  from a have acc: "accessible ?m d (unat n)" "accessible ?m c 1" by (simp_all add: op_args_def)
  have c: "with_char c k ?m = k (scast (mem m c)) ?m" for k
    using acc(2) by (simp add: with_char_def load_bytes_def)
  from P fl acc(1) have "\<exists>m'. pmdk_memset P d (scast (mem m c)) n fl ?m = Inr m' \<and> same_env ?m m' \<and>
      mem m' = (\<lambda>a. if in_range d (unat n) a then ucast (scast (mem m c) :: u32) else mem ?m a)"
    unfolding pmem2_memset_persists_def by blast
  then have "\<exists>m2. do_all [run_prog (with_char c (\<lambda>v. pmdk_memset P d v n fl))] ?m = Some (Inr m2) \<and>
      same_env ?m m2 \<and> (\<forall>a. \<not> writes kMemset d n a \<longrightarrow> mem m2 a = mem m a)"
    by (auto simp: run_prog_def c writes_def)
  then show "\<exists>m'. op d c n m = Some (Inr (ts_at m (Suc (clock_pos m)) - ts_at m (clock_pos m), m')) \<and>
      mapped m' = mapped m \<and> debug m' = debug m \<and> clock_src m' = clock_src m \<and> clock_pos m' = clock_pos m + 2 \<and>
      (\<forall>a. \<not> writes kMemset d n a \<longrightarrow> mem m' a = mem m a)"
    unfolding op by (rule timed_runs)
qed

section \<open>The tables\<close>

lemma write_table_copies:
  assumes "pmem2_memcpy_persists P"
  shows "device_copy kWrite (aep_pmem2_cpy_dram_t P)" and "device_copy kWrite (aep_pmem2_cpy_dram_nt P)"
    and "device_copy kCpy (aep_cpy_pmem2_memcpy_com P)" and "device_copy kCpy (aep_cpy_pmem2_memcpy_t P)"
    and "device_copy kCpy (aep_cpy_pmem2_memcpy_nt P)"
proof -
  note c = device_copy_pmem2 [OF assms]
  show "device_copy kWrite (aep_pmem2_cpy_dram_t P)"
    by (rule c [where fl = PMEM2_F_MEM_TEMPORAL]) (simp_all add: aep_pmem2_cpy_dram_t_def)
  show "device_copy kWrite (aep_pmem2_cpy_dram_nt P)"
    by (rule c [where fl = PMEM2_F_MEM_NONTEMPORAL]) (simp_all add: aep_pmem2_cpy_dram_nt_def)
  show "device_copy kCpy (aep_cpy_pmem2_memcpy_com P)"
    by (rule c [where fl = PMEM2_F_NONE]) (simp_all add: aep_cpy_pmem2_memcpy_com_def)
  show "device_copy kCpy (aep_cpy_pmem2_memcpy_t P)"
    by (rule c [where fl = PMEM2_F_MEM_TEMPORAL]) (simp_all add: aep_cpy_pmem2_memcpy_t_def)
  show "device_copy kCpy (aep_cpy_pmem2_memcpy_nt P)"
    by (rule c [where fl = PMEM2_F_MEM_NONTEMPORAL]) (simp_all add: aep_cpy_pmem2_memcpy_nt_def)
qed

lemma memset_table_ops:
  assumes "pmem2_memset_persists P"
  shows "device_op kMemset (aep_memset_pmem2_com P)" and "device_op kMemset (aep_memset_pmem2_t P)"
    and "device_op kMemset (aep_memset_pmem2_nt P)"
proof -
  note c = device_op_pmem2_memset [OF assms]
  show "device_op kMemset (aep_memset_pmem2_com P)"
    by (rule c [where fl = PMEM2_F_NONE]) (simp_all add: aep_memset_pmem2_com_def)
  show "device_op kMemset (aep_memset_pmem2_t P)"
    by (rule c [where fl = PMEM2_F_MEM_TEMPORAL]) (simp_all add: aep_memset_pmem2_t_def)
  show "device_op kMemset (aep_memset_pmem2_nt P)"
    by (rule c [where fl = PMEM2_F_MEM_NONTEMPORAL]) (simp_all add: aep_memset_pmem2_nt_def)
qed

text \<open>Every function that GetOpFn finds meets the contract of its type.\<close>

lemma GetOpFn_device_op:
  assumes P: "pmem2_documented P" and f: "GetOpFn P rt k = Inr f"
  shows "device_op rt f"
proof -
  from f have f: "f \<in> set (case rt of kRead \<Rightarrow> aep_read_funcs | kWrite \<Rightarrow> aep_write_funcs P
      | kCpy \<Rightarrow> aep_cpy_funcs P | kMemset \<Rightarrow> aep_memset_funcs P)"
    by (auto simp: GetOpFn_def index_table_def split: if_splits)
  have base: "device_op rt aep_read_baseline" "device_op rt aep_write_baseline" "device_op rt aep_cpy_baseline"
    "device_op rt aep_memset_baseline"
    by (rule device_op_baseline, simp add: aep_read_baseline_def aep_write_baseline_def aep_cpy_baseline_def
        aep_memset_baseline_def)+
  note cp = write_table_copies [of P, THEN device_copy_op] and ms = memset_table_ops [of P]
  show ?thesis
  proof (cases rt)
    case kRead
    then show ?thesis using f base o_just_load.device_op_axioms o_just_ntload.device_op_axioms
      by (auto simp: aep_read_funcs_def)
  next
    case kWrite
    then show ?thesis using f base P cp by (auto simp: aep_write_funcs_def pmem2_documented_def)
  next
    case kCpy
    then show ?thesis using f base P cp by (auto simp: aep_cpy_funcs_def pmem2_documented_def)
  next
    case kMemset
    then show ?thesis using f base P ms by (auto simp: aep_memset_funcs_def pmem2_documented_def)
  qed
qed

section \<open>Properties\<close>

text \<open>C16: Every function that GetOpFn can select implements the contract ThreadJob relies on. With libpmem2
  as documented, and on arguments that are in order for its type, it returns without fault the time
  between its two clock readings, changes no byte outside its destination (none at all for reads),
  and leaves page map, build mode and clock source alone.\<close>

theorem GetOpFn_contract:
  assumes "pmem2_documented P" and "GetOpFn P rt k = Inr f" and "op_args rt m a1 a2 n"
  shows "\<exists>m'. f a1 a2 n m = Some (Inr (ts_at m (Suc (clock_pos m)) - ts_at m (clock_pos m), m')) \<and>
    mapped m' = mapped m \<and> debug m' = debug m \<and> clock_src m' = clock_src m \<and> clock_pos m' = clock_pos m + 2 \<and>
    (\<forall>a. \<not> (rt \<noteq> kRead \<and> in_range a1 (unat n) a) \<longrightarrow> mem m' a = mem m a)"
  using device_op.op_runs [OF GetOpFn_device_op [OF assms(1,2)] assms(3)] by (simp add: writes_def)

lemma demo_documented: "pmem2_documented demo_pmdk"
  by (simp add: pmem2_documented_def pmem2_memcpy_persists_def pmem2_memset_persists_def demo_pmdk_def same_env_def)

theorem GetOpFn_contract_witness:
  "\<exists>f m'. GetOpFn demo_pmdk kMemset 3 = Inr f \<and> f 4096 8192 100 demo_machine = Some (Inr (1000000000, m')) \<and>
     mem m' 5000 = mem demo_machine 5000"
proof -
  obtain f where f: "GetOpFn demo_pmdk kMemset 3 = Inr f"
    using GetOpFn_iff [of demo_pmdk kMemset 3]
    by (auto simp: GetSubOpNum_def AEP_MEMSET_FUNC_NUM_def aep_memset_funcs_def)
  have "op_args kMemset demo_machine 4096 8192 100" by (simp add: op_args_def)
  from GetOpFn_contract [OF demo_documented f this] obtain m' where
    m': "f 4096 8192 100 demo_machine = Some (Inr (ts_at demo_machine (Suc (clock_pos demo_machine)) -
      ts_at demo_machine (clock_pos demo_machine), m'))"
    and fr: "\<forall>a. \<not> (kMemset \<noteq> kRead \<and> in_range 4096 (unat (100 :: u64)) a) \<longrightarrow> mem m' a = mem demo_machine a" by blast
  have "\<not> in_range 4096 (unat (100 :: u64)) 5000" by (simp add: in_range_def)
  with fr have "mem m' 5000 = mem demo_machine 5000" by blast
  moreover have "ts_at demo_machine (Suc (clock_pos demo_machine)) - ts_at demo_machine (clock_pos demo_machine) = 1000000000"
    by (simp add: ts_at_def demo_machine_def)
  ultimately show ?thesis using f m' by auto
qed

end
