(* ===== verification/Study_Job.thy ===== *)
theory Study_Job
  imports Study_Task Device_Op
begin

text \<open>
  ThreadJob and PrepareJob of bgtest/AEP/aep_study.cc, for one thread and for all threads at
  once. A thread binds itself, warms up, and then runs one operation per iteration; the threads
  of a run interleave between these steps and share the machine and the scheduler. Where a
  thread keeps its local char is a parameter (\<open>stack\<close>).
\<close>

section \<open>Warming up\<close>

text \<open>\<open>hash ^= ((uint64_t* )a)[i]\<close> for the indices of a loop: the loads count, the hash is unused.\<close>

definition touch_words :: "u64 \<Rightarrow> nat list \<Rightarrow> prog" where
  "touch_words a js = run_all (map (\<lambda>i. touch 8 (a + of_nat (8 * i))) js)"

text \<open>The loop over the index block starts at \<open>MAX_IDX_SIZE / 2\<close>, one word behind its end.\<close>

definition PrepareJob :: "task \<Rightarrow> prog" where
  "PrepareJob t = run_all [
     just_ntload (buf t) AEP_TAIL_READ_SIZE,
     just_ntload (buf t + AEP_SIZE div 2) AEP_TAIL_READ_SIZE,
     touch_words (mem_cpy_buf t) [0..<unat (t_access_size t) div 8],
     touch_words (idx_addr t) (rev [0..<Suc (MAX_IDX_SIZE div 2)]),
     \<lambda>m. if buf_size t \<le> 64 * 1024 * 1024 then touch_words (buf t) [0..<unat (buf_size t) div 8] m else Inr m]"

section \<open>One iteration\<close>

definition slot_of :: "u32 \<Rightarrow> task \<Rightarrow> nat \<Rightarrow> u64" where
  "slot_of msk t i =
     (if t_access_mode t = kRandom then ucast (idx_val t (i mod MAX_IDX_SIZE)) else ucast (of_nat i AND msk))"

text \<open>The two addresses an operation gets: \<open>c\<close> is the address of the local char.\<close>

definition op_addrs :: "u32 \<Rightarrow> u64 \<Rightarrow> task \<Rightarrow> nat \<Rightarrow> u64 \<times> u64" where
  "op_addrs msk c t i =
     (let dram_addr = mem_cpy_buf t;
          a = buf t + push_bit (unat (t_access_size_bits t)) (slot_of msk t i)
      in (case t_rw_type t of
            kRead \<Rightarrow> (dram_addr, a)
          | kWrite \<Rightarrow> (a, dram_addr)
          | kMemset \<Rightarrow> (a, c)
          | kCpy \<Rightarrow> (a, a + AEP_SIZE div 2)))"

definition job_iter :: "u32 \<Rightarrow> u64 \<Rightarrow> task \<Rightarrow> nat \<Rightarrow> u32 list \<times> machine \<Rightarrow> (stop + u32 list \<times> machine) option" where
  "job_iter msk c t i s =
     (let (data, m) = s; (addr1, addr2) = op_addrs msk c t i in
      case op_of t of
        None \<Rightarrow> Some (Inl (Undefined ''null function''))
      | Some fn \<Rightarrow>
          (case fn addr1 addr2 (ucast (t_access_size t)) m of
             None \<Rightarrow> None
           | Some (Inl e) \<Rightarrow> Some (Inl (Crashed e))
           | Some (Inr (ts, m')) \<Rightarrow>
               if length data \<le> i then Some (Inl (Undefined ''data_ out of bounds''))
               else if debug m' \<and> \<not> (ts > 0 \<and> ts < 2147483647) then Some (Inl Aborted)
               else Some (Inr (data[i := ucast ts], m'))))"

section \<open>The thread function\<close>

text \<open>The two asserts on the binding are compiled out of a release build.\<close>

definition bind_thread :: "bool \<Rightarrow> nat \<Rightarrow> task \<Rightarrow> sched \<Rightarrow> stop + sched" where
  "bind_thread dbg self t w =
     (let (ret, w') = CoreBind self (core_id t) w;
          core_binds = CoreBindQuery self self w'
      in if dbg \<and> \<not> ret then Inl Aborted
         else if dbg \<and> \<not> (length core_binds = 1 \<and> core_binds ! 0 = unat (core_id t)) then Inl Aborted
         else Inr w')"

text \<open>\<open>char c = 1\<close>\<close>

definition init_char :: "u64 \<Rightarrow> prog" where
  "init_char c = store_bytes c [1]"

definition crash :: "fault + 'a \<Rightarrow> stop + 'a" where
  "crash r = (case r of Inl e \<Rightarrow> Inl (Crashed e) | Inr x \<Rightarrow> Inr x)"

text \<open>\<open>for (int i = 0; i < task->iters_; ++i)\<close>: the bound is unsigned, the counter is an int whose
  increment beyond 2147483647 is undefined.\<close>

function job_loop :: "u32 \<Rightarrow> u64 \<Rightarrow> task \<Rightarrow> nat \<Rightarrow> u32 list \<times> machine \<Rightarrow> (stop + u32 list \<times> machine) option" where
  "job_loop msk c t i s =
     (if i < unat (t_iters t)
      then (case job_iter msk c t i s of
              None \<Rightarrow> None
            | Some (Inl e) \<Rightarrow> Some (Inl e)
            | Some (Inr s') \<Rightarrow>
                if Suc i \<ge> 2 ^ 31 then Some (Inl (Undefined ''int overflow''))
                else job_loop msk c t (Suc i) s')
      else Some (Inr s))"
  by pat_completeness auto
termination by (relation "measure (\<lambda>(msk, c, t, i, s). unat (t_iters t) - i)") auto

declare job_loop.simps [simp del]

definition ThreadJob :: "u32 \<Rightarrow> u64 \<Rightarrow> nat \<Rightarrow> thread_context \<Rightarrow> machine \<times> sched \<Rightarrow>
    (stop + u32 list \<times> machine \<times> sched) option" where
  "ThreadJob msk c self ctx s =
     (let (t, d) = ctx; (m, w) = s in
      case bind_thread (debug m) self t w of
        Inl e \<Rightarrow> Some (Inl e)
      | Inr w' \<Rightarrow>
          (case crash (run_all [PrepareJob t, init_char c] m) of
             Inl e \<Rightarrow> Some (Inl e)
           | Inr m' \<Rightarrow>
               (case job_loop msk c t 0 (run_times d, m') of
                  None \<Rightarrow> None
                | Some (Inl e) \<Rightarrow> Some (Inl e)
                | Some (Inr (data, m'')) \<Rightarrow> Some (Inr (data, m'', w')))))"

section \<open>All threads\<close>

text \<open>Where a thread is: before the binding, before the warm-up, before an iteration, or returned.\<close>

datatype pc = Bind | Prepare | Iter nat | Finished

record job =
  j_task :: task
  j_data :: "u32 list"
  j_pc :: pc

record sys =
  s_mach :: machine
  s_sched :: sched
  s_jobs :: "job list"

definition job_step :: "u32 \<Rightarrow> u64 \<Rightarrow> nat \<Rightarrow> job \<Rightarrow> machine \<times> sched \<Rightarrow> (stop + job \<times> machine \<times> sched) option" where
  "job_step msk c self j s =
     (let (m, w) = s; t = j_task j in
      case j_pc j of
        Bind \<Rightarrow>
          (case bind_thread (debug m) self t w of
             Inl e \<Rightarrow> Some (Inl e)
           | Inr w' \<Rightarrow> Some (Inr (j\<lparr>j_pc := Prepare\<rparr>, m, w')))
      | Prepare \<Rightarrow>
          (case crash (run_all [PrepareJob t, init_char c] m) of
             Inl e \<Rightarrow> Some (Inl e)
           | Inr m' \<Rightarrow> Some (Inr (j\<lparr>j_pc := Iter 0\<rparr>, m', w)))
      | Iter i \<Rightarrow>
          if i < unat (t_iters t)
          then (case job_iter msk c t i (j_data j, m) of
                  None \<Rightarrow> None
                | Some (Inl e) \<Rightarrow> Some (Inl e)
                | Some (Inr (data, m')) \<Rightarrow>
                    if Suc i \<ge> 2 ^ 31 then Some (Inl (Undefined ''int overflow''))
                    else Some (Inr (j\<lparr>j_data := data, j_pc := Iter (Suc i)\<rparr>, m', w)))
          else Some (Inr (j\<lparr>j_pc := Finished\<rparr>, m, w))
      | Finished \<Rightarrow> Some (Inr (j, m, w)))"

text \<open>A step of a run: some thread that has not returned takes its next step.\<close>

inductive sys_step :: "u32 \<Rightarrow> (nat \<Rightarrow> u64) \<Rightarrow> sys \<Rightarrow> sys \<Rightarrow> bool" for msk stack where
  thread: "k < length (s_jobs s) \<Longrightarrow> j_pc (s_jobs s ! k) \<noteq> Finished \<Longrightarrow>
     job_step msk (stack k) k (s_jobs s ! k) (s_mach s, s_sched s) = Some (Inr (j, m, w)) \<Longrightarrow>
     sys_step msk stack s (s\<lparr>s_mach := m, s_sched := w, s_jobs := (s_jobs s)[k := j]\<rparr>)"

inductive_cases sys_stepE: "sys_step msk stack s s'"

text \<open>What pthread_create starts from the contexts, and what pthread_join waits for.\<close>

definition start_jobs :: "thread_context list \<Rightarrow> machine \<Rightarrow> sched \<Rightarrow> sys" where
  "start_jobs ctxs m w = \<lparr>s_mach = m, s_sched = w,
     s_jobs = map (\<lambda>(t, d). \<lparr>j_task = t, j_data = run_times d, j_pc = Bind\<rparr>) ctxs\<rparr>"

definition joined :: "sys \<Rightarrow> bool" where
  "joined s \<longleftrightarrow> list_all (\<lambda>j. j_pc j = Finished) (s_jobs s)"


section \<open>One thread\<close>

lemma touch_words_ok:
  assumes "accessible m a (8 * n)" and "\<forall>i \<in> set js. i < n"
  shows "touch_words a js m = Inr m"
  using assms(2)
proof (induction js)
  case Nil
  then show ?case by (simp add: touch_words_def)
next
  case (Cons i js)
  have "accessible m (a + of_nat (8 * i)) 8"
    unfolding accessible_def
  proof (intro allI impI)
    fix k :: nat assume "k < 8"
    with Cons.prems have "8 * i + k < 8 * n" by auto
    with assms(1) have "mapped m (page_of (a + of_nat (8 * i + k)))" unfolding accessible_def by blast
    then show "mapped m (page_of (a + of_nat (8 * i) + of_nat k))" by (simp add: add.assoc)
  qed
  then have "touch 8 (a + of_nat (8 * i)) m = Inr m" by (simp add: touch_def load_bytes_def)
  with Cons show ?case by (simp add: touch_words_def)
qed

text \<open>What a thread needs of the machine: its addresses are mapped, the operation it runs meets
  the contract, the slots of its iterations do not go beyond \<open>sp\<close> bytes from the start of its
  buffer, which may be more than the buffer has. \<open>asz\<close> is the logarithm of its access size.\<close>

definition needs :: "u32 \<Rightarrow> u64 \<Rightarrow> machine \<Rightarrow> sched \<Rightarrow> task \<Rightarrow> nat \<Rightarrow> nat \<Rightarrow> bool" where
  "needs msk c m w t asz sp \<longleftrightarrow>
     (\<exists>f. op_of t = Some f \<and> device_op (t_rw_type t) f) \<and>
     sp \<le> 2 ^ 35 \<and> asz < 32 \<and> t_access_size t = 2 ^ asz \<and> t_access_size_bits t = of_nat asz \<and> unat (buf_size t) \<le> sp \<and>
     (\<forall>i < unat (t_iters t). unat (slot_of msk t i) * 2 ^ asz + 2 ^ asz \<le> sp) \<and> unat (t_iters t) < 2 ^ 31 \<and>
     accessible m (buf t) sp \<and> (t_rw_type t = kCpy \<longrightarrow> accessible m (buf t + AEP_SIZE div 2) sp) \<and>
     accessible m (buf t) (unat AEP_TAIL_READ_SIZE) \<and> accessible m (buf t + AEP_SIZE div 2) (unat AEP_TAIL_READ_SIZE) \<and>
     accessible m (mem_cpy_buf t) (2 ^ asz) \<and> accessible m (idx_addr t) (4 * MAX_IDX_SIZE + 8) \<and> accessible m c 1 \<and>
     (\<forall>a. \<not> (in_range (buf t) sp a \<and> in_range (mem_cpy_buf t) (2 ^ asz) a)) \<and>
     (debug m \<longrightarrow> (\<forall>p. 0 < ts_at m (Suc p) - ts_at m p \<and> ts_at m (Suc p) - ts_at m p < 2147483647) \<and>
        unat (core_id t) < CPU_SETSIZE \<and> unat (core_id t) \<in> set (online w))"

lemma accessible_same: "mapped m' = mapped m \<Longrightarrow> accessible m' = accessible m"
  by (simp add: accessible_def fun_eq_iff)

lemma needs_same:
  assumes "mapped m' = mapped m" and "debug m' = debug m" and "clock_src m' = clock_src m" and "online w' = online w"
  shows "needs msk c m' w' t asz sp = needs msk c m w t asz sp"
  using assms(2-4) by (simp add: needs_def accessible_same [OF assms(1)] ts_at_def)

lemma unat_AEP_half: "unat (AEP_SIZE div 2) = 2 ^ 35"
  by (simp add: AEP_SIZE_def)

lemma PrepareJob_ok:
  assumes "needs msk c m w t asz sp"
  shows "\<exists>m'. PrepareJob t m = Inr m' \<and> same_env m m' \<and> mem m' = mem m \<and> pst m' = pst m"
proof -
  from assms have ac: "accessible m (buf t) (unat AEP_TAIL_READ_SIZE)" "accessible m (buf t + AEP_SIZE div 2) (unat AEP_TAIL_READ_SIZE)"
    "accessible m (mem_cpy_buf t) (2 ^ asz)" "accessible m (idx_addr t) (4 * MAX_IDX_SIZE + 8)" "accessible m (buf t) sp"
    and sz: "unat (t_access_size t) = 2 ^ asz" and bz: "unat (buf_size t) \<le> sp"
    by (auto simp: needs_def unat_exp_u32)
  from just_loads_run(2) [OF ac(1)] obtain m1 where m1: "just_ntload (buf t) AEP_TAIL_READ_SIZE m = Inr m1"
    "same_env m m1" "mem m1 = mem m" "pst m1 = pst m" by blast
  have a1: "accessible m1 = accessible m" using m1(2) by (intro accessible_same) (simp add: same_env_def)
  from just_loads_run(2) [of m1 "buf t + AEP_SIZE div 2" AEP_TAIL_READ_SIZE] ac(2) obtain m2 where
    m2: "just_ntload (buf t + AEP_SIZE div 2) AEP_TAIL_READ_SIZE m1 = Inr m2" "same_env m1 m2" "mem m2 = mem m1" "pst m2 = pst m1"
    unfolding a1 by blast
  have a2: "accessible m2 = accessible m" using m2(2) a1 accessible_same [of m2 m1] by (simp add: same_env_def)
  have "touch_words (mem_cpy_buf t) [0..<unat (t_access_size t) div 8] m2 = Inr m2"
    by (rule touch_words_ok [where n = "2 ^ asz div 8"]) (auto simp: sz a2 intro: accessible_mono [OF ac(3)])
  moreover have "touch_words (idx_addr t) (rev [0..<Suc (MAX_IDX_SIZE div 2)]) m2 = Inr m2"
    by (rule touch_words_ok [where n = "Suc (MAX_IDX_SIZE div 2)"])
       (use ac(4) in \<open>simp_all add: a2 MAX_IDX_SIZE_def less_Suc_eq_le del: upt_Suc upt_conv_Cons_Cons\<close>)
  moreover have "touch_words (buf t) [0..<unat (buf_size t) div 8] m2 = Inr m2"
    by (rule touch_words_ok [where n = "unat (buf_size t) div 8"]) (use bz in \<open>auto simp: a2 intro: accessible_mono [OF ac(5)]\<close>)
  ultimately have "PrepareJob t m = Inr m2"
    unfolding PrepareJob_def by (simp only: run_all.simps m1(1) m2(1) sum.case if_cancel)
  moreover have "same_env m m2" using m1(2) m2(2) by (rule same_env_trans)
  ultimately show ?thesis using m1 m2 by auto
qed


lemma apart_half: "n \<le> 2 ^ 35 \<Longrightarrow> apart n d (d + AEP_SIZE div 2)"
  by (simp add: apart_def AEP_SIZE_def)

text \<open>The slot of iteration \<open>i\<close>, as an offset into the buffer.\<close>

definition slot_addr :: "u32 \<Rightarrow> task \<Rightarrow> nat \<Rightarrow> u64" where
  "slot_addr msk t i = buf t + push_bit (unat (t_access_size_bits t)) (slot_of msk t i)"

definition in_slot :: "u32 \<Rightarrow> task \<Rightarrow> nat \<Rightarrow> u64 \<Rightarrow> bool" where
  "in_slot msk t i a \<longleftrightarrow> in_range (slot_addr msk t i) (unat (t_access_size t)) a"

definition visits :: "u32 \<Rightarrow> task \<Rightarrow> u64 \<Rightarrow> bool" where
  "visits msk t a \<longleftrightarrow> (\<exists>i < unat (t_iters t). in_slot msk t i a)"

lemma visitsI: "i < unat (t_iters t) \<Longrightarrow> in_slot msk t i a \<Longrightarrow> visits msk t a"
  by (auto simp: visits_def)

lemma slot_addr_offset:
  assumes "needs msk c m w t asz sp"
  shows "slot_addr msk t i = buf t + of_nat (unat (slot_of msk t i) * 2 ^ asz)"
    and "i < unat (t_iters t) \<Longrightarrow> unat (slot_of msk t i) * 2 ^ asz + 2 ^ asz \<le> sp"
proof -
  from assms have "asz < 32" "t_access_size_bits t = of_nat asz" by (auto simp: needs_def)
  then have "unat (t_access_size_bits t) = asz" by (simp add: unat_of_nat)
  then show "slot_addr msk t i = buf t + of_nat (unat (slot_of msk t i) * 2 ^ asz)"
    by (simp add: slot_addr_def push_bit_eq_mult)
  assume "i < unat (t_iters t)"
  with assms show "unat (slot_of msk t i) * 2 ^ asz + 2 ^ asz \<le> sp" by (simp add: needs_def)
qed

lemma slot_in_buf:
  assumes "needs msk c m w t asz sp" and "i < unat (t_iters t)" and "in_range (slot_addr msk t i) (2 ^ asz) a"
  shows "in_range (buf t) sp a"
proof (rule in_range_sub [OF slot_addr_offset(2) [OF assms(1,2)]])
  show "sp \<le> (2 :: nat) ^ 64" using assms(1) by (auto simp: needs_def)
  show "in_range (buf t + of_nat (unat (slot_of msk t i) * 2 ^ asz)) (2 ^ asz) a"
    using assms(3) by (simp add: slot_addr_offset(1) [OF assms(1), symmetric] del: of_nat_mult)
qed

lemma op_addrs_slot:
  "op_addrs msk c t i = (case t_rw_type t of
      kRead \<Rightarrow> (mem_cpy_buf t, slot_addr msk t i) | kWrite \<Rightarrow> (slot_addr msk t i, mem_cpy_buf t)
    | kMemset \<Rightarrow> (slot_addr msk t i, c) | kCpy \<Rightarrow> (slot_addr msk t i, slot_addr msk t i + AEP_SIZE div 2))"
  by (simp add: op_addrs_def slot_addr_def Let_def split: RwType.split)

lemma op_args_slot:
  assumes n: "needs msk c m w t asz sp" and i: "i < unat (t_iters t)" and o: "op_addrs msk c t i = (a1, a2)"
  shows "op_args (t_rw_type t) m a1 a2 (ucast (t_access_size t))"
    and "writes (t_rw_type t) a1 (ucast (t_access_size t)) a \<Longrightarrow> t_rw_type t \<noteq> kRead \<and> in_slot msk t i a"
proof -
  from n have sz: "unat (t_access_size t) = 2 ^ asz" by (auto simp: needs_def unat_exp_u32)
  have "(2 :: nat) ^ asz \<le> 2 ^ 35" using slot_addr_offset(2) [OF n i] n by (auto simp: needs_def)
  note ap = apart_half [OF this]
  from n have "accessible m (buf t) sp" and half: "t_rw_type t = kCpy \<Longrightarrow> accessible m (buf t + AEP_SIZE div 2) sp"
    and ac: "accessible m (mem_cpy_buf t) (2 ^ asz)" "accessible m c 1" by (auto simp: needs_def)
  from accessible_sub [OF this(1) slot_addr_offset(2) [OF n i]] have sl: "accessible m (slot_addr msk t i) (2 ^ asz)"
    by (simp add: slot_addr_offset(1) [OF n] del: of_nat_mult)
  have sh: "accessible m (slot_addr msk t i + AEP_SIZE div 2) (2 ^ asz)" if "t_rw_type t = kCpy"
    using accessible_sub [OF half [OF that] slot_addr_offset(2) [OF n i]]
    by (simp add: slot_addr_offset(1) [OF n] algebra_simps del: of_nat_mult)
  have "\<not> (in_range (slot_addr msk t i) (2 ^ asz) a \<and> in_range (mem_cpy_buf t) (2 ^ asz) a)" for a
    using slot_in_buf [OF n i] n unfolding needs_def by blast
  then have "apart (2 ^ asz) (slot_addr msk t i) (mem_cpy_buf t)" by (intro disjoint_apart) auto
  with o sl sh ac ap show "op_args (t_rw_type t) m a1 a2 (ucast (t_access_size t))"
    by (auto simp: op_addrs_slot op_args_def can_copy_def sz split: RwType.splits)
  show "t_rw_type t \<noteq> kRead \<and> in_slot msk t i a"
    if "writes (t_rw_type t) a1 (ucast (t_access_size t)) a"
    using that o by (auto simp: op_addrs_slot writes_def in_slot_def sz split: RwType.splits)
qed

lemma job_iter_ok:
  assumes n: "needs msk c m w t asz sp" and it: "i < unat (t_iters t)" and i: "i < length data" and o: "op_addrs msk c t i = (a1, a2)"
    and f: "op_of t = Some f"
  shows "\<exists>ts m'. job_iter msk c t i (data, m) = Some (Inr (data[i := ucast ts], m')) \<and>
    f a1 a2 (ucast (t_access_size t)) m = Some (Inr (ts, m')) \<and> mapped m' = mapped m \<and> debug m' = debug m \<and>
    clock_src m' = clock_src m \<and>
    (\<forall>a. \<not> (t_rw_type t \<noteq> kRead \<and> in_slot msk t i a) \<longrightarrow> mem m' a = mem m a)"
proof -
  from n f have "device_op (t_rw_type t) f" by (auto simp: needs_def)
  from device_op.op_runs [OF this op_args_slot(1) [OF n it o]] obtain m' where
    r: "f a1 a2 (ucast (t_access_size t)) m = Some (Inr (ts_at m (Suc (clock_pos m)) - ts_at m (clock_pos m), m'))"
    and e: "mapped m' = mapped m" "debug m' = debug m" "clock_src m' = clock_src m"
    and w: "\<forall>a. \<not> writes (t_rw_type t) a1 (ucast (t_access_size t)) a \<longrightarrow> mem m' a = mem m a" by blast
  have "debug m \<Longrightarrow> 0 < ts_at m (Suc (clock_pos m)) - ts_at m (clock_pos m) \<and>
      ts_at m (Suc (clock_pos m)) - ts_at m (clock_pos m) < 2147483647"
    using n by (simp add: needs_def)
  then show ?thesis
    using r e w op_args_slot(2) [OF n it o] i by (auto simp: job_iter_def o f)
qed


section \<open>Steps of one thread\<close>

text \<open>The bytes a thread may change: its local char and, unless it reads, the slots it visits.\<close>

definition touched :: "u32 \<Rightarrow> u64 \<Rightarrow> task \<Rightarrow> u64 \<Rightarrow> bool" where
  "touched msk c t a \<longleftrightarrow> in_range c 1 a \<or> t_rw_type t \<noteq> kRead \<and> visits msk t a"

definition job_ok :: "u32 \<Rightarrow> u64 \<Rightarrow> machine \<Rightarrow> sched \<Rightarrow> job \<Rightarrow> bool" where
  "job_ok msk c m w j \<longleftrightarrow> (\<exists>asz sp. needs msk c m w (j_task j) asz sp) \<and>
     length (j_data j) = unat (t_iters (j_task j)) \<and>
     (case j_pc j of Iter i \<Rightarrow> i \<le> unat (t_iters (j_task j)) | _ \<Rightarrow> True)"

text \<open>How many steps a thread has left.\<close>

definition rank :: "job \<Rightarrow> nat" where
  "rank j = (case j_pc j of Bind \<Rightarrow> unat (t_iters (j_task j)) + 3 | Prepare \<Rightarrow> unat (t_iters (j_task j)) + 2
     | Iter i \<Rightarrow> unat (t_iters (j_task j)) - i + 1 | Finished \<Rightarrow> 0)"

lemma job_ok_same:
  assumes "mapped m' = mapped m" and "debug m' = debug m" and "clock_src m' = clock_src m" and "online w' = online w"
  shows "job_ok msk c m' w' j = job_ok msk c m w j"
  by (simp add: job_ok_def needs_same [OF assms])

lemma bind_thread_ok:
  assumes "debug m \<longrightarrow> unat (core_id t) < CPU_SETSIZE \<and> unat (core_id t) \<in> set (online w)"
  shows "\<exists>w'. bind_thread (debug m) self t w = Inr w' \<and> online w' = online w"
  using assms by (auto simp: bind_thread_def CoreBind_cases CoreBindQuery_def filter_one)

lemma init_char_ok:
  assumes "accessible m c 1"
  shows "\<exists>m'. init_char c m = Inr m' \<and> same_env m m' \<and> (\<forall>a. \<not> in_range c 1 a \<longrightarrow> mem m' a = mem m a \<and> pst m' a = pst m a)"
  using assms by (simp add: init_char_def store_bytes_def same_env_def)

lemma warm_up_ok:
  assumes "needs msk c m w t asz sp"
  shows "\<exists>m'. crash (run_all [PrepareJob t, init_char c] m) = Inr m' \<and> same_env m m' \<and>
    (\<forall>a. \<not> in_range c 1 a \<longrightarrow> mem m' a = mem m a \<and> pst m' a = pst m a)"
proof -
  from PrepareJob_ok [OF assms] obtain m1 where m1: "PrepareJob t m = Inr m1" "same_env m m1" "mem m1 = mem m" "pst m1 = pst m" by blast
  have "accessible m1 c 1" using assms accessible_env [OF m1(2)] by (simp add: needs_def)
  from init_char_ok [OF this] obtain m2 where m2: "init_char c m1 = Inr m2" "same_env m1 m2"
    "\<forall>a. \<not> in_range c 1 a \<longrightarrow> mem m2 a = mem m1 a \<and> pst m2 a = pst m1 a" by blast
  have "crash (run_all [PrepareJob t, init_char c] m) = Inr m2" using m1(1) m2(1) by (simp add: crash_def)
  with same_env_trans [OF m1(2) m2(2)] m1 m2 show ?thesis by auto
qed

text \<open>What a step leaves behind: the platform and the invariant, one step less to go, and no change outside the
  thread's own memory.\<close>

definition stepped :: "u32 \<Rightarrow> u64 \<Rightarrow> job \<Rightarrow> machine \<Rightarrow> sched \<Rightarrow> job \<Rightarrow> machine \<Rightarrow> sched \<Rightarrow> bool" where
  "stepped msk c j m w j' m' w' \<longleftrightarrow> j_task j' = j_task j \<and>
     mapped m' = mapped m \<and> debug m' = debug m \<and> clock_src m' = clock_src m \<and> online w' = online w \<and>
     job_ok msk c m' w' j' \<and> rank j = Suc (rank j') \<and> (\<forall>a. \<not> touched msk c (j_task j) a \<longrightarrow> mem m' a = mem m a)"

lemma prepare_stepped:
  assumes ok: "job_ok msk c m w j" and n: "needs msk c m w (j_task j) asz sp" and pc: "j_pc j = Prepare"
  shows "\<exists>j' m'. job_step msk c self j (m, w) = Some (Inr (j', m', w)) \<and> stepped msk c j m w j' m' w"
proof -
  from warm_up_ok [OF n] obtain m' where m': "crash (run_all [PrepareJob (j_task j), init_char c] m) = Inr m'" "same_env m m'"
    "\<forall>a. \<not> in_range c 1 a \<longrightarrow> mem m' a = mem m a" by blast
  have e: "mapped m' = mapped m" "debug m' = debug m" "clock_src m' = clock_src m"
    using m'(2) by (simp_all add: same_env_def)
  have "job_ok msk c m' w (j\<lparr>j_pc := Iter 0\<rparr>)"
    using ok unfolding job_ok_same [OF e refl] by (simp add: job_ok_def)
  with pc m' e show ?thesis
    by (auto simp: stepped_def job_step_def rank_def touched_def simp del: run_all.simps)
qed

lemma iter_stepped:
  assumes ok: "job_ok msk c m w j" and n: "needs msk c m w (j_task j) asz sp" and pc: "j_pc j = Iter i"
    and i: "i < unat (t_iters (j_task j))"
  shows "\<exists>j' m'. job_step msk c self j (m, w) = Some (Inr (j', m', w)) \<and> stepped msk c j m w j' m' w"
proof -
  let ?t = "j_task j"
  from n obtain f where f: "op_of ?t = Some f" by (auto simp: needs_def)
  obtain a1 a2 where o: "op_addrs msk c ?t i = (a1, a2)" by fastforce
  from i ok have "i < length (j_data j)" by (simp add: job_ok_def)
  from job_iter_ok [OF n i this o f] obtain ts :: u64 and m' where
    r: "job_iter msk c ?t i (j_data j, m) = Some (Inr ((j_data j)[i := ucast ts], m'))"
    and e: "mapped m' = mapped m" "debug m' = debug m" "clock_src m' = clock_src m"
    and w: "\<forall>a. \<not> (t_rw_type ?t \<noteq> kRead \<and> in_slot msk ?t i a) \<longrightarrow> mem m' a = mem m a"
    by blast
  from n i have "Suc i < 2 ^ 31" by (simp add: needs_def)
  then have s: "job_step msk c self j (m, w) = Some (Inr (j\<lparr>j_data := (j_data j)[i := ucast ts], j_pc := Iter (Suc i)\<rparr>, m', w))"
    using pc i r by (simp add: job_step_def)
  have "job_ok msk c m' w (j\<lparr>j_data := (j_data j)[i := ucast ts], j_pc := Iter (Suc i)\<rparr>)"
    using ok i unfolding job_ok_same [OF e refl] by (simp add: job_ok_def)
  with s e w pc i show ?thesis by (auto simp: stepped_def rank_def touched_def intro: visitsI)
qed

lemma job_step_ok:
  assumes ok: "job_ok msk c m w j" and live: "j_pc j \<noteq> Finished"
  shows "\<exists>j' m' w'. job_step msk c self j (m, w) = Some (Inr (j', m', w')) \<and> j_task j' = j_task j \<and>
    mapped m' = mapped m \<and> debug m' = debug m \<and> clock_src m' = clock_src m \<and> online w' = online w \<and>
    job_ok msk c m' w' j' \<and> rank j = Suc (rank j') \<and> (\<forall>a. \<not> touched msk c (j_task j) a \<longrightarrow> mem m' a = mem m a)"
  unfolding stepped_def [symmetric]
proof -
  let ?t = "j_task j"
  from ok obtain asz sp where n: "needs msk c m w ?t asz sp" by (auto simp: job_ok_def)
  show "\<exists>j' m' w'. job_step msk c self j (m, w) = Some (Inr (j', m', w')) \<and> stepped msk c j m w j' m' w'"
  proof (cases "j_pc j")
    case Bind
    from n have "debug m \<longrightarrow> unat (core_id ?t) < CPU_SETSIZE \<and> unat (core_id ?t) \<in> set (online w)"
      by (simp add: needs_def)
    from bind_thread_ok [OF this] obtain w' where "bind_thread (debug m) self ?t w = Inr w'" "online w' = online w" by blast
    with Bind ok show ?thesis
      using job_ok_same [of m m w' w msk c j] by (auto simp: stepped_def job_step_def rank_def job_ok_def)
  next
    case Prepare
    from prepare_stepped [OF ok n this] show ?thesis by blast
  next
    case (Iter i)
    show ?thesis
    proof (cases "i < unat (t_iters ?t)")
      case True
      from iter_stepped [OF ok n Iter this] show ?thesis by blast
    next
      case False
      with Iter ok show ?thesis by (auto simp: stepped_def job_step_def rank_def job_ok_def)
    qed
  next
    case Finished
    with live show ?thesis by simp
  qed
qed

section \<open>Steps of all threads\<close>

definition sys_ok :: "u32 \<Rightarrow> (nat \<Rightarrow> u64) \<Rightarrow> sys \<Rightarrow> bool" where
  "sys_ok msk stack s \<longleftrightarrow> (\<forall>k < length (s_jobs s). job_ok msk (stack k) (s_mach s) (s_sched s) (s_jobs s ! k))"

definition sys_rank :: "sys \<Rightarrow> nat" where
  "sys_rank s = sum_list (map rank (s_jobs s))"

text \<open>What every step of a run keeps.\<close>

lemma sys_step_ok:
  assumes "sys_step msk stack s s'" and ok: "sys_ok msk stack s"
  shows "sys_ok msk stack s'" and "sys_rank s = Suc (sys_rank s')"
    and "map j_task (s_jobs s') = map j_task (s_jobs s)"
    and "(\<And>k. k < length (s_jobs s) \<Longrightarrow> \<not> touched msk (stack k) (j_task (s_jobs s ! k)) a) \<Longrightarrow>
      mem (s_mach s') a = mem (s_mach s) a"
proof -
  from assms(1) obtain k j m w where k: "k < length (s_jobs s)" "j_pc (s_jobs s ! k) \<noteq> Finished"
    and st: "job_step msk (stack k) k (s_jobs s ! k) (s_mach s, s_sched s) = Some (Inr (j, m, w))"
    and s': "s' = s\<lparr>s_mach := m, s_sched := w, s_jobs := (s_jobs s)[k := j]\<rparr>" by (rule sys_stepE)
  from ok k(1) have "job_ok msk (stack k) (s_mach s) (s_sched s) (s_jobs s ! k)" by (simp add: sys_ok_def)
  from job_step_ok [OF this k(2), of k] st have t: "j_task j = j_task (s_jobs s ! k)"
    and e: "mapped m = mapped (s_mach s)" "debug m = debug (s_mach s)" "clock_src m = clock_src (s_mach s)"
      "online w = online (s_sched s)"
    and j: "job_ok msk (stack k) m w j" and r: "rank (s_jobs s ! k) = Suc (rank j)"
    and fr: "\<And>a. \<not> touched msk (stack k) (j_task (s_jobs s ! k)) a \<Longrightarrow> mem m a = mem (s_mach s) a" by auto
  show "sys_ok msk stack s'"
    using ok j k(1) by (simp add: sys_ok_def s' nth_list_update job_ok_same [OF e])
  have "rank (s_jobs s ! k) \<le> sum_list (map rank (s_jobs s))"
    using k(1) by (intro member_le_sum_list) auto
  then show "sys_rank s = Suc (sys_rank s')"
    using k(1) r by (simp add: sys_rank_def s' map_update sum_list_update)
  show "map j_task (s_jobs s') = map j_task (s_jobs s)"
    using k(1) t by (simp add: s' map_update list_update_same_conv)
  show "mem (s_mach s') a = mem (s_mach s) a"
    if "\<And>k. k < length (s_jobs s) \<Longrightarrow> \<not> touched msk (stack k) (j_task (s_jobs s ! k)) a"
    using fr [of a] that [OF k(1)] by (simp add: s')
qed

lemma sys_progress:
  assumes "sys_ok msk stack s" and "\<not> joined s"
  shows "\<exists>s'. sys_step msk stack s s'"
proof -
  from assms(2) obtain k where k: "k < length (s_jobs s)" "j_pc (s_jobs s ! k) \<noteq> Finished"
    by (auto simp: joined_def list_all_length)
  from assms(1) k(1) have "job_ok msk (stack k) (s_mach s) (s_sched s) (s_jobs s ! k)" by (simp add: sys_ok_def)
  from job_step_ok [OF this k(2), of k] obtain j m w where
    "job_step msk (stack k) k (s_jobs s ! k) (s_mach s, s_sched s) = Some (Inr (j, m, w))" by blast
  from sys_step.thread [where s = s and k = k and msk = msk and stack = stack, OF k this] show ?thesis by blast
qed

lemma joined_rank: "sys_rank s = 0 \<longleftrightarrow> joined s"
proof -
  have "rank j = 0 \<longleftrightarrow> j_pc j = Finished" for j by (cases "j_pc j") (simp_all add: rank_def)
  then show ?thesis by (simp add: sys_rank_def joined_def list_all_iff)
qed


lemma run_ok:
  assumes "(sys_step msk stack)\<^sup>*\<^sup>* s s'" and "sys_ok msk stack s"
  shows "sys_ok msk stack s' \<and> map j_task (s_jobs s') = map j_task (s_jobs s)"
  using assms by (induction rule: rtranclp_induct) (auto dest: sys_step_ok(1,3))

lemma run_frame:
  assumes "(sys_step msk stack)\<^sup>*\<^sup>* s s'" and "sys_ok msk stack s"
    and "\<And>k. k < length (s_jobs s) \<Longrightarrow> \<not> touched msk (stack k) (j_task (s_jobs s ! k)) a"
  shows "mem (s_mach s') a = mem (s_mach s) a"
  using assms(1)
proof (induction rule: rtranclp_induct)
  case base
  show ?case by simp
next
  case (step t u)
  from run_ok [OF step(1) assms(2)] have ok: "sys_ok msk stack t" and ts: "map j_task (s_jobs t) = map j_task (s_jobs s)" by auto
  from ts have len: "length (s_jobs t) = length (s_jobs s)" by (rule map_eq_imp_length_eq)
  have "j_task (s_jobs t ! k) = j_task (s_jobs s ! k)" if "k < length (s_jobs s)" for k
    using arg_cong [OF ts, of "\<lambda>xs. xs ! k"] that len by simp
  with sys_step_ok(4) [OF step(2) ok, of a] assms(3) len step(3) show ?case by simp
qed

lemma run_rank:
  assumes "(sys_step msk stack ^^ n) s s'" and "sys_ok msk stack s"
  shows "sys_ok msk stack s' \<and> sys_rank s = n + sys_rank s'"
  using assms(1)
proof (induction n arbitrary: s')
  case 0
  with assms(2) show ?case by simp
next
  case (Suc n)
  then obtain t where t: "(sys_step msk stack ^^ n) s t" "sys_step msk stack t s'" by auto
  from Suc.IH [OF t(1)] have "sys_ok msk stack t" "sys_rank s = n + sys_rank t" by auto
  with sys_step_ok(1,2) [OF t(2)] show ?case by auto
qed

section \<open>One thread alone\<close>

text \<open>What the code still does from a thread's position, in the big-step definitions.\<close>

definition rest :: "u32 \<Rightarrow> u64 \<Rightarrow> nat \<Rightarrow> job \<Rightarrow> machine \<times> sched \<Rightarrow> (stop + u32 list \<times> machine \<times> sched) option" where
  "rest msk c self j s =
     (let (m, w) = s; t = j_task j;
          loop = (\<lambda>i m w. case job_loop msk c t i (j_data j, m) of None \<Rightarrow> None | Some (Inl e) \<Rightarrow> Some (Inl e)
             | Some (Inr (data, m')) \<Rightarrow> Some (Inr (data, m', w)))
      in case j_pc j of
           Bind \<Rightarrow> ThreadJob msk c self (t, \<lparr>data_map = None, run_times = j_data j\<rparr>) (m, w)
         | Prepare \<Rightarrow> (case crash (run_all [PrepareJob t, init_char c] m) of Inl e \<Rightarrow> Some (Inl e) | Inr m' \<Rightarrow> loop 0 m' w)
         | Iter i \<Rightarrow> loop i m w
         | Finished \<Rightarrow> Some (Inr (j_data j, m, w)))"

lemma rest_step:
  assumes "j_pc j \<noteq> Finished"
  shows "rest msk c self j s = (case job_step msk c self j s of None \<Rightarrow> None | Some (Inl e) \<Rightarrow> Some (Inl e)
    | Some (Inr (j', s')) \<Rightarrow> rest msk c self j' s')"
proof (cases s, cases "j_pc j")
  fix m w assume s: "s = (m, w)"
  show ?thesis if "j_pc j = Bind"
    using that s by (simp add: rest_def job_step_def ThreadJob_def Let_def del: run_all.simps split: sum.split)
  show ?thesis if "j_pc j = Prepare"
    using that s by (simp add: rest_def job_step_def Let_def del: run_all.simps split: sum.split)
  show ?thesis if "j_pc j = Iter i" for i
    using that s by (subst rest_def, subst job_loop.simps)
      (auto simp: rest_def job_step_def Let_def split: option.split sum.split prod.split)
  show ?thesis if "j_pc j = Finished" using that assms by simp
qed

lemma single_step:
  "sys_step msk stack \<lparr>s_mach = m, s_sched = w, s_jobs = [j]\<rparr> s' \<longleftrightarrow> j_pc j \<noteq> Finished \<and>
     (\<exists>j' m' w'. job_step msk (stack 0) 0 j (m, w) = Some (Inr (j', m', w')) \<and>
        s' = \<lparr>s_mach = m', s_sched = w', s_jobs = [j']\<rparr>)"
  by (auto elim!: sys_stepE intro: sys_step.thread [where k = 0 and s = "\<lparr>s_mach = m, s_sched = w, s_jobs = [j]\<rparr>", simplified])


lemma job_step_rank:
  assumes "j_pc j \<noteq> Finished" and "job_step msk c self j s = Some (Inr (j', s'))"
  shows "rank j' < rank j"
  using assms
  by (auto simp: job_step_def rank_def Let_def simp del: run_all.simps split: pc.splits sum.splits option.splits if_splits prod.splits)

lemma rest_runs:
  assumes "rest msk (stack 0) 0 j (m, w) = Some (Inr (data, m', w'))"
  shows "\<exists>j'. (sys_step msk stack)\<^sup>*\<^sup>* \<lparr>s_mach = m, s_sched = w, s_jobs = [j]\<rparr> \<lparr>s_mach = m', s_sched = w', s_jobs = [j']\<rparr> \<and>
    j_pc j' = Finished \<and> j_data j' = data"
  using assms
proof (induction "rank j" arbitrary: j m w rule: less_induct)
  case less
  show ?case
  proof (cases "j_pc j = Finished")
    case True
    with less.prems show ?thesis by (auto simp: rest_def)
  next
    case False
    with less.prems rest_step [OF False, of msk "stack 0" 0 "(m, w)"] obtain j1 m1 w1 where
      st: "job_step msk (stack 0) 0 j (m, w) = Some (Inr (j1, m1, w1))"
      and r: "rest msk (stack 0) 0 j1 (m1, w1) = Some (Inr (data, m', w'))"
      by (auto split: option.splits sum.splits)
    have "sys_step msk stack \<lparr>s_mach = m, s_sched = w, s_jobs = [j]\<rparr> \<lparr>s_mach = m1, s_sched = w1, s_jobs = [j1]\<rparr>"
      using False st by (simp add: single_step)
    with less.hyps [OF job_step_rank [OF False st] r] show ?thesis by (blast intro: converse_rtranclp_into_rtranclp)
  qed
qed

lemma run_rest:
  assumes "(sys_step msk stack)\<^sup>*\<^sup>* \<lparr>s_mach = m, s_sched = w, s_jobs = [j]\<rparr> s"
  shows "\<exists>j'. s_jobs s = [j'] \<and> rest msk (stack 0) 0 j (m, w) = rest msk (stack 0) 0 j' (s_mach s, s_sched s)"
  using assms
proof (induction rule: rtranclp_induct)
  case base
  show ?case by simp
next
  case (step t u)
  then obtain j' where j': "t = \<lparr>s_mach = s_mach t, s_sched = s_sched t, s_jobs = [j']\<rparr>"
    and r: "rest msk (stack 0) 0 j (m, w) = rest msk (stack 0) 0 j' (s_mach t, s_sched t)" by (cases t) auto
  with step(2) obtain j1 m1 w1 where "j_pc j' \<noteq> Finished"
    "job_step msk (stack 0) 0 j' (s_mach t, s_sched t) = Some (Inr (j1, m1, w1))"
    "u = \<lparr>s_mach = m1, s_sched = w1, s_jobs = [j1]\<rparr>" by (metis single_step)
  with r rest_step show ?case by simp
qed

section \<open>Properties\<close>

text \<open>A thread on its own: the steps of a run with a single thread compute exactly what its thread
  function does. It returns some result if and only if a run ends in that result.\<close>

theorem thread_alone:
  "ThreadJob msk (stack 0) 0 (t, d) (m, w) = Some (Inr (data, m', w')) \<longleftrightarrow>
   (\<exists>s. (sys_step msk stack)\<^sup>*\<^sup>* (start_jobs [(t, d)] m w) s \<and> joined s \<and>
      s_mach s = m' \<and> s_sched s = w' \<and> map j_data (s_jobs s) = [data])"
proof -
  let ?j = "\<lparr>j_task = t, j_data = run_times d, j_pc = Bind\<rparr>"
  have start: "start_jobs [(t, d)] m w = \<lparr>s_mach = m, s_sched = w, s_jobs = [?j]\<rparr>" by (simp add: start_jobs_def)
  have r: "ThreadJob msk (stack 0) 0 (t, d) (m, w) = rest msk (stack 0) 0 ?j (m, w)"
    by (simp add: rest_def ThreadJob_def split: sum.split)
  show ?thesis unfolding start r
  proof (intro iffI)
    assume "rest msk (stack 0) 0 ?j (m, w) = Some (Inr (data, m', w'))"
    from rest_runs [of msk stack, OF this] obtain j' where
      r: "(sys_step msk stack)\<^sup>*\<^sup>* \<lparr>s_mach = m, s_sched = w, s_jobs = [?j]\<rparr> \<lparr>s_mach = m', s_sched = w', s_jobs = [j']\<rparr>"
      and j': "j_pc j' = Finished" "j_data j' = data" by blast
    show "\<exists>s. (sys_step msk stack)\<^sup>*\<^sup>* \<lparr>s_mach = m, s_sched = w, s_jobs = [?j]\<rparr> s \<and>
        joined s \<and> s_mach s = m' \<and> s_sched s = w' \<and> map j_data (s_jobs s) = [data]"
      by (rule exI, rule conjI, rule r) (simp add: joined_def j')
  next
    assume "\<exists>s. (sys_step msk stack)\<^sup>*\<^sup>* \<lparr>s_mach = m, s_sched = w, s_jobs = [?j]\<rparr> s \<and>
        joined s \<and> s_mach s = m' \<and> s_sched s = w' \<and> map j_data (s_jobs s) = [data]"
    then obtain s where s: "(sys_step msk stack)\<^sup>*\<^sup>* \<lparr>s_mach = m, s_sched = w, s_jobs = [?j]\<rparr> s"
      "joined s" "s_mach s = m'" "s_sched s = w'" "map j_data (s_jobs s) = [data]" by (elim exE conjE) (rule that)
    from run_rest [OF s(1)] obtain j' where j': "s_jobs s = [j']"
      and e: "rest msk (stack 0) 0 ?j (m, w) = rest msk (stack 0) 0 j' (s_mach s, s_sched s)" by blast
    have "j_pc j' = Finished" "j_data j' = data" using s(2,5) j' by (simp_all add: joined_def)
    then show "rest msk (stack 0) 0 ?j (m, w) = Some (Inr (data, m', w'))"
      unfolding e by (simp add: rest_def s(3,4))
  qed
qed

text \<open>C7: The threads of a run always join. No run is longer than the sum of the threads' steps, which
  is 3 plus the iterations of each thread; a run of exactly that length has joined and no shorter
  one has; and as long as it has not, some thread can take a step. So no thread faults, fails an
  assertion or waits, in any interleaving.\<close>

theorem run_joins:
  assumes "sys_ok msk stack s" and "(sys_step msk stack ^^ n) s s'"
  shows "n \<le> sys_rank s \<and> (joined s' \<longleftrightarrow> n = sys_rank s) \<and> (\<not> joined s' \<longrightarrow> (\<exists>s''. sys_step msk stack s' s''))"
  using run_rank [OF assms(2,1)] joined_rank [of s'] sys_progress [of msk stack s'] by auto

text \<open>C13: The warm-up reads behind the index block. Its loop over the 64-bit words of the block starts at
  the index one past the last word: if the page behind the block is not mapped, the thread faults
  there, although all of the block and everything else it warms up is accessible.\<close>

theorem PrepareJob_overreads:
  assumes "accessible m (buf t) (unat AEP_TAIL_READ_SIZE)" and "accessible m (buf t + AEP_SIZE div 2) (unat AEP_TAIL_READ_SIZE)"
    and "accessible m (mem_cpy_buf t) (unat (t_access_size t))"
    and "\<not> mapped m (page_of (idx_addr t + of_nat (4 * MAX_IDX_SIZE)))"
  shows "PrepareJob t m = Inl (PageFault (idx_addr t + of_nat (4 * MAX_IDX_SIZE)))"
proof -
  from just_loads_run(2) [OF assms(1)] obtain m1 where m1: "just_ntload (buf t) AEP_TAIL_READ_SIZE m = Inr m1" "same_env m m1" by blast
  have a1: "accessible m1 = accessible m" using m1(2) by (intro accessible_same) (simp add: same_env_def)
  from just_loads_run(2) [of m1 "buf t + AEP_SIZE div 2" AEP_TAIL_READ_SIZE] assms(2) obtain m2 where
    m2: "just_ntload (buf t + AEP_SIZE div 2) AEP_TAIL_READ_SIZE m1 = Inr m2" "same_env m1 m2" unfolding a1 by blast
  have mp: "mapped m2 = mapped m" using m1(2) m2(2) by (simp add: same_env_def)
  have w: "touch_words (mem_cpy_buf t) [0..<unat (t_access_size t) div 8] m2 = Inr m2"
    by (rule touch_words_ok [where n = "unat (t_access_size t) div 8"])
      (auto simp: accessible_same [OF mp] intro: accessible_mono [OF assms(3)])
  let ?a = "idx_addr t + of_nat (4 * MAX_IDX_SIZE)"
  have "\<not> accessible m2 ?a 8"
    using assms(4) accessible_page [of m2 ?a 8] by (auto simp: mp)
  then have "touch 8 ?a m2 = Inl (PageFault ?a)" by (simp add: touch_def load_bytes_def)
  moreover have "8 * (MAX_IDX_SIZE div 2) = 4 * MAX_IDX_SIZE" by (simp add: MAX_IDX_SIZE_def)
  moreover have "rev [0..<Suc (MAX_IDX_SIZE div 2)] = MAX_IDX_SIZE div 2 # rev [0..<MAX_IDX_SIZE div 2]" by simp
  ultimately have "touch_words (idx_addr t) (rev [0..<Suc (MAX_IDX_SIZE div 2)]) m2 = Inl (PageFault ?a)"
    by (simp only: touch_words_def list.map run_all.simps sum.case)
  then show ?thesis
    unfolding PrepareJob_def by (simp only: run_all.simps m1(1) m2(1) w sum.case)
qed

lemma accessible_hole:
  assumes "unat a + n \<le> 2 ^ 64" and "unat a + n \<le> 4096 * (unat h div 4096)"
  shows "accessible (m\<lparr>mapped := \<lambda>p. p \<noteq> page_of h\<rparr>) a n"
  unfolding accessible_def
proof (intro allI impI)
  fix i assume "i < n"
  then have "unat (a + of_nat i) = unat a + i" using assms(1)
    by (subst unat_add_lem [THEN iffD1]) (simp_all add: unat_of_nat_u64)
  with \<open>i < n\<close> assms(2) have "unat (a + of_nat i) div 4096 < unat h div 4096"
    by (intro less_mult_imp_div_less) (simp add: mult.commute)
  moreover have "unat (page_of b) = unat b div 4096" for b
    using unat_drop_bit_eq [of 12 b] by (simp add: page_of_def drop_bit_eq_div unat_div_distrib)
  ultimately have "page_of (a + of_nat i) \<noteq> page_of h" by (metis less_irrefl)
  then show "mapped (m\<lparr>mapped := \<lambda>p. p \<noteq> page_of h\<rparr>) (page_of (a + of_nat i))" by simp
qed

theorem PrepareJob_overreads_witness:
  "let t = (demo_task 0)\<lparr>idx_addr := 2 ^ 50\<rparr>; h = 2 ^ 50 + 4 * of_nat MAX_IDX_SIZE in
   PrepareJob t (demo_machine\<lparr>mapped := \<lambda>p. p \<noteq> page_of h\<rparr>) = Inl (PageFault h)"
proof -
  let ?t = "(demo_task 0)\<lparr>idx_addr := 2 ^ 50\<rparr>" and ?h = "2 ^ 50 + 4 * of_nat MAX_IDX_SIZE :: u64"
  let ?m = "demo_machine\<lparr>mapped := \<lambda>p. p \<noteq> page_of ?h\<rparr>"
  have "accessible ?m (buf ?t) (unat AEP_TAIL_READ_SIZE)" "accessible ?m (buf ?t + AEP_SIZE div 2) (unat AEP_TAIL_READ_SIZE)"
    "accessible ?m (mem_cpy_buf ?t) (unat (t_access_size ?t))"
    by (rule accessible_hole; simp add: demo_task_def AEP_TAIL_READ_SIZE_def AEP_SIZE_def MAX_IDX_SIZE_def)+
  from PrepareJob_overreads [OF this] show ?thesis by (simp add: Let_def)
qed

end
