(* ===== verification/Study_Copy.thy ===== *)
theory Study_Copy
  imports Study_Job
begin

text \<open>
  What a run of copy operations leaves behind: when all threads have returned, every slot that
  some iteration visited holds its source, and holds it after a crash too.
\<close>

section \<open>Sources and separation\<close>

text \<open>The source of a byte of the buffer: the thread's DRAM block, one slot long, or the other half
  of the device.\<close>

definition src_of :: "task \<Rightarrow> u64 \<Rightarrow> u64" where
  "src_of t a =
     (if t_rw_type t = kCpy then a + AEP_SIZE div 2
      else mem_cpy_buf t + of_nat (unat (a - buf t) mod unat (t_access_size t)))"

text \<open>No thread changes a byte of another thread's slots or of any source of them.\<close>

definition separate :: "u32 \<Rightarrow> (nat \<Rightarrow> u64) \<Rightarrow> task list \<Rightarrow> bool" where
  "separate msk stack ts \<longleftrightarrow>
     (\<forall>k < length ts. \<forall>k' < length ts. \<forall>a. visits msk (ts ! k) a \<longrightarrow>
        (k \<noteq> k' \<longrightarrow> \<not> touched msk (stack k') (ts ! k') a) \<and> \<not> in_range (stack k) 1 a \<and>
        \<not> touched msk (stack k') (ts ! k') (src_of (ts ! k) a))"

definition copies :: "job \<Rightarrow> bool" where
  "copies j \<longleftrightarrow> (t_rw_type (j_task j) = kWrite \<or> t_rw_type (j_task j) = kCpy) \<and>
     (\<exists>f. op_of (j_task j) = Some f \<and> device_copy (t_rw_type (j_task j)) f)"

text \<open>The iterations a thread has behind it.\<close>

definition behind :: "job \<Rightarrow> nat" where
  "behind j = (case j_pc j of Iter i \<Rightarrow> i | Finished \<Rightarrow> unat (t_iters (j_task j)) | _ \<Rightarrow> 0)"

text \<open>The invariant of one thread, over the contents \<open>M\<close> that memory had at the start.\<close>

definition copied :: "u32 \<Rightarrow> (u64 \<Rightarrow> u8) \<Rightarrow> machine \<Rightarrow> job \<Rightarrow> bool" where
  "copied msk M m j \<longleftrightarrow> (\<forall>i < behind j. \<forall>a. in_slot msk (j_task j) i a \<longrightarrow>
     mem m a = M (src_of (j_task j) a) \<and> pst m a = Durable)"

lemma src_of_slot:
  assumes n: "needs msk c m w t asz sp" and rt: "t_rw_type t = kWrite \<or> t_rw_type t = kCpy"
    and i: "i < unat (t_iters t)" and o: "op_addrs msk c t i = (a1, a2)" and a: "in_slot msk t i a"
  shows "a1 = slot_addr msk t i" and "a2 + (a - a1) = src_of t a"
proof -
  show a1: "a1 = slot_addr msk t i" using o rt by (auto simp: op_addrs_slot)
  have sz: "unat (t_access_size t) = 2 ^ asz" using n by (auto simp: needs_def unat_exp_u32)
  show "a2 + (a - a1) = src_of t a"
  proof (cases "t_rw_type t = kCpy")
    case True
    with o show ?thesis by (auto simp: op_addrs_slot src_of_def)
  next
    case False
    let ?v = "unat (slot_of msk t i)"
    have lt: "unat (a - a1) < 2 ^ asz" using a by (simp add: in_slot_def in_range_def sz a1)
    have eq: "a - buf t = of_nat (?v * 2 ^ asz) + (a - a1)"
      by (simp add: a1 slot_addr_offset(1) [OF n] del: of_nat_mult)
    have "sp \<le> (2 :: nat) ^ 63" using n by (auto simp: needs_def)
    with slot_addr_offset(2) [OF n i] lt have "?v * 2 ^ asz + unat (a - a1) < 2 ^ 64" by simp
    then have "unat (a - buf t) = ?v * 2 ^ asz + unat (a - a1)"
      unfolding eq by (subst unat_add_lem [THEN iffD1]) (simp_all add: unat_of_nat_u64 del: of_nat_mult)
    then have "unat (a - buf t) mod 2 ^ asz = unat (a - a1)" using lt by simp
    moreover have "a2 = mem_cpy_buf t" using False rt o by (auto simp: op_addrs_slot)
    ultimately show ?thesis using False by (simp add: src_of_def sz)
  qed
qed


section \<open>Steps\<close>

text \<open>One operation of a thread: its slot is copied, the other slots stay, nothing durable is lost.\<close>

lemma copy_iter:
  assumes n: "needs msk c m w t asz sp" and it: "i < unat (t_iters t)" and i: "i < length data"
    and rt: "t_rw_type t = kWrite \<or> t_rw_type t = kCpy" and f: "op_of t = Some f" "device_copy (t_rw_type t) f"
    and r: "job_iter msk c t i (data, m) = Some (Inr (data', m'))"
  shows "in_slot msk t i a \<Longrightarrow> mem m' a = mem m (src_of t a) \<and> pst m' a = Durable"
    and "\<not> in_slot msk t i a \<Longrightarrow> mem m' a = mem m a" and "pst m a = Durable \<Longrightarrow> pst m' a = Durable"
proof -
  obtain a1 a2 where o: "op_addrs msk c t i = (a1, a2)" by fastforce
  from job_iter_ok [OF n it i o f(1)] r obtain ts where op: "f a1 a2 (ucast (t_access_size t)) m = Some (Inr (ts, m'))"
    by auto
  note args = op_args_slot(1) [OF n it o]
  have a1: "a1 = slot_addr msk t i" using o rt by (auto simp: op_addrs_slot)
  from f(2) args op have cp: "\<And>a. in_range a1 (unat (t_access_size t)) a \<Longrightarrow> mem m' a = mem m (a2 + (a - a1)) \<and> pst m' a = Durable"
    and kd: "\<And>a. pst m a = Durable \<Longrightarrow> pst m' a = Durable"
    unfolding device_copy_def by fastforce+
  show "mem m' a = mem m (src_of t a) \<and> pst m' a = Durable" if "in_slot msk t i a"
    using cp [of a] src_of_slot(2) [OF n rt it o that] that by (simp add: in_slot_def a1)
  show "mem m' a = mem m a" if "\<not> in_slot msk t i a"
    using device_op.op_result(6) [OF device_copy_op [OF f(2)] args op, of a] that by (simp add: writes_def in_slot_def a1)
  show "pst m' a = Durable" if "pst m a = Durable" using that by (rule kd)
qed

text \<open>What a step of a copying thread is: it copies its next slot, or it leaves memory alone but for the local char.\<close>

lemma copy_job_step:
  assumes ok: "job_ok msk c m w j" and cps: "copies j" and live: "j_pc j \<noteq> Finished"
    and st: "job_step msk c self j (m, w) = Some (Inr (j', m', w'))"
  obtains (silent) "behind j' = behind j" and "j_task j' = j_task j" and "behind j = 0 \<or> m' = m"
      and "\<forall>a. \<not> in_range c 1 a \<longrightarrow> mem m' a = mem m a"
      and "\<forall>a. \<not> in_range c 1 a \<and> pst m a = Durable \<longrightarrow> pst m' a = Durable"
    | (slot) i where "i < unat (t_iters (j_task j))" and "behind j = i" and "behind j' = Suc i" and "j_task j' = j_task j"
      and "\<forall>a. in_slot msk (j_task j) i a \<longrightarrow> mem m' a = mem m (src_of (j_task j) a) \<and> pst m' a = Durable"
      and "\<forall>a. \<not> in_slot msk (j_task j) i a \<longrightarrow> mem m' a = mem m a" and "\<forall>a. pst m a = Durable \<longrightarrow> pst m' a = Durable"
proof -
  let ?t = "j_task j"
  from ok obtain asz sp where n: "needs msk c m w ?t asz sp" and len: "length (j_data j) = unat (t_iters ?t)"
    by (auto simp: job_ok_def)
  from cps obtain f where rt: "t_rw_type ?t = kWrite \<or> t_rw_type ?t = kCpy" and f: "op_of ?t = Some f" "device_copy (t_rw_type ?t) f"
    by (auto simp: copies_def)
  show thesis
  proof (cases "j_pc j")
    case Bind
    with st show thesis by (intro silent) (auto simp: job_step_def behind_def split: sum.splits)
  next
    case Prepare
    from warm_up_ok [OF n] Prepare st show thesis
      by (intro silent) (auto simp: job_step_def behind_def simp del: run_all.simps)
  next
    case (Iter i)
    show thesis
    proof (cases "i < unat (t_iters ?t)")
      case True
      with Iter st have it: "job_iter msk c ?t i (j_data j, m) = Some (Inr (j_data j', m'))"
        and j: "j' = j\<lparr>j_data := j_data j', j_pc := Iter (Suc i)\<rparr>"
        by (auto simp: job_step_def split: option.splits sum.splits if_splits)
      from j have "j_pc j' = Iter (Suc i)" "j_task j' = ?t" by (cases j'; simp)+
      moreover from True len have "i < length (j_data j)" by simp
      ultimately show thesis
        using slot [OF True] copy_iter [OF n True _ rt f it] Iter by (simp add: behind_def)
    next
      case False
      with Iter st ok show thesis by (intro silent) (auto simp: job_step_def behind_def job_ok_def)
    qed
  next
    case Finished
    with live show thesis by simp
  qed
qed

lemma copy_step:
  assumes ok: "job_ok msk c m w j" and cps: "copies j" and inv: "copied msk M m j"
    and src: "\<And>a. visits msk (j_task j) a \<Longrightarrow> mem m (src_of (j_task j) a) = M (src_of (j_task j) a)"
    and live: "j_pc j \<noteq> Finished" and st: "job_step msk c self j (m, w) = Some (Inr (j', m', w'))"
  shows "copied msk M m' j' \<and> (\<forall>a. pst m a = Durable \<and> \<not> in_range c 1 a \<longrightarrow> pst m' a = Durable)"
  using ok cps live st
proof (cases rule: copy_job_step)
  case silent
  with inv show ?thesis by (auto simp: copied_def)
next
  case (slot i)
  have "mem m' a = M (src_of (j_task j) a) \<and> pst m' a = Durable" if a: "i' < Suc i" "in_slot msk (j_task j) i' a" for i' a
  proof (cases "in_slot msk (j_task j) i a")
    case True
    with slot(5) src [OF visitsI [OF slot(1) True]] show ?thesis by simp
  next
    case False
    with a have "i' < i" using less_Suc_eq by auto
    with inv slot(2,6,7) False a(2) show ?thesis by (auto simp: copied_def)
  qed
  with slot(3,4,7) show ?thesis by (simp add: copied_def)
qed

section \<open>Runs\<close>

definition run_copied :: "u32 \<Rightarrow> (u64 \<Rightarrow> u8) \<Rightarrow> sys \<Rightarrow> bool" where
  "run_copied msk M s \<longleftrightarrow> (\<forall>j \<in> set (s_jobs s). copied msk M (s_mach s) j)"

lemma separateD:
  assumes "separate msk stack (map j_task js)" and "k < length js" and "k' < length js"
    and "visits msk (j_task (js ! k)) a"
  shows "k \<noteq> k' \<Longrightarrow> \<not> touched msk (stack k') (j_task (js ! k')) a" and "\<not> in_range (stack k) 1 a"
    and "\<not> touched msk (stack k') (j_task (js ! k')) (src_of (j_task (js ! k)) a)"
  using assms by (simp_all add: separate_def)

lemma behind_le: "job_ok msk c m w j \<Longrightarrow> behind j \<le> unat (t_iters (j_task j))"
  by (auto simp: job_ok_def behind_def split: pc.split)

lemma copies_same_task: "j_task j = j_task j' \<Longrightarrow> copies j = copies j'"
  by (simp add: copies_def)

lemma run_copied_step:
  assumes st: "sys_step msk stack s s'" and ok: "sys_ok msk stack s" and inv: "run_copied msk M s"
    and cps: "\<forall>j \<in> set (s_jobs s). copies j" and sep: "separate msk stack (map j_task (s_jobs s))"
    and src: "\<And>k a. k < length (s_jobs s) \<Longrightarrow> visits msk (j_task (s_jobs s ! k)) a \<Longrightarrow>
      mem (s_mach s) (src_of (j_task (s_jobs s ! k)) a) = M (src_of (j_task (s_jobs s ! k)) a)"
  shows "run_copied msk M s'"
proof -
  from st obtain k j m w where k: "k < length (s_jobs s)" "j_pc (s_jobs s ! k) \<noteq> Finished"
    and js: "job_step msk (stack k) k (s_jobs s ! k) (s_mach s, s_sched s) = Some (Inr (j, m, w))"
    and s': "s' = s\<lparr>s_mach := m, s_sched := w, s_jobs := (s_jobs s)[k := j]\<rparr>" by (rule sys_stepE)
  have okj: "job_ok msk (stack l) (s_mach s) (s_sched s) (s_jobs s ! l)" if "l < length (s_jobs s)" for l
    using ok that by (simp add: sys_ok_def)
  have cj: "copies (s_jobs s ! l)" "copied msk M (s_mach s) (s_jobs s ! l)" if "l < length (s_jobs s)" for l
    using cps inv that by (simp_all add: run_copied_def)
  note own = copy_step [OF okj [OF k(1)] cj [OF k(1)] src [OF k(1)] k(2) js]
  from job_step_ok [OF okj [OF k(1)] k(2), of k] js
  have fr: "\<not> touched msk (stack k) (j_task (s_jobs s ! k)) a \<Longrightarrow> mem m a = mem (s_mach s) a" for a by auto
  have "copied msk M m (s_jobs s ! l)" if l: "l < length (s_jobs s)" "l \<noteq> k" for l
    unfolding copied_def
  proof (intro allI impI)
    fix i a assume a: "i < behind (s_jobs s ! l)" "in_slot msk (j_task (s_jobs s ! l)) i a"
    have "i < unat (t_iters (j_task (s_jobs s ! l)))" using a(1) behind_le [OF okj [OF l(1)]] by simp
    then have "visits msk (j_task (s_jobs s ! l)) a" using a(2) by (rule visitsI)
    from separateD(1) [OF sep l(1) k(1) this l(2)]
    have nt: "\<not> touched msk (stack k) (j_task (s_jobs s ! k)) a" .
    with cj(2) [OF l(1)] a fr own
    show "mem m a = M (src_of (j_task (s_jobs s ! l)) a) \<and> pst m a = Durable"
      by (auto simp: copied_def touched_def)
  qed
  with own k(1) show ?thesis
    by (simp add: run_copied_def s' all_set_conv_all_nth nth_list_update)
qed

lemma run_copied_run:
  assumes "(sys_step msk stack)\<^sup>*\<^sup>* s s'" and ok: "sys_ok msk stack s" and "run_copied msk (mem (s_mach s)) s"
    and cps: "\<forall>j \<in> set (s_jobs s). copies j" and sep: "separate msk stack (map j_task (s_jobs s))"
  shows "run_copied msk (mem (s_mach s)) s'"
  using assms(1)
proof (induction rule: rtranclp_induct)
  case base
  show ?case by (rule assms(3))
next
  case (step t u)
  from run_ok [OF step(1) ok] have okt: "sys_ok msk stack t" and ts: "map j_task (s_jobs t) = map j_task (s_jobs s)" by auto
  from ts have len: "length (s_jobs t) = length (s_jobs s)" by (rule map_eq_imp_length_eq)
  have task: "j_task (s_jobs t ! k) = j_task (s_jobs s ! k)" if "k < length (s_jobs s)" for k
    using arg_cong [OF ts, of "\<lambda>xs. xs ! k"] that len by simp
  show ?case
  proof (rule run_copied_step [OF step(2) okt step(3)])
    show "\<forall>j \<in> set (s_jobs t). copies j"
      using cps task copies_same_task len by (metis in_set_conv_nth)
    show "separate msk stack (map j_task (s_jobs t))" using sep by (simp add: ts)
    fix k a
    assume k: "k < length (s_jobs t)" and a: "visits msk (j_task (s_jobs t ! k)) a"
    then have k': "k < length (s_jobs s)" by (simp add: len)
    have "\<not> touched msk (stack l) (j_task (s_jobs s ! l)) (src_of (j_task (s_jobs s ! k)) a)" if "l < length (s_jobs s)" for l
      using separateD(3) [OF sep k' that] a by (simp add: task [OF k'])
    from run_frame [OF step(1) ok this]
    show "mem (s_mach t) (src_of (j_task (s_jobs t ! k)) a) = mem (s_mach s) (src_of (j_task (s_jobs t ! k)) a)"
      by (simp add: task [OF k'])
  qed
qed

section \<open>Properties\<close>

text \<open>C5: The data a run of copy operations leaves. Threads that start at the beginning and all copy
  into separate slots may interleave in any way: once they have joined, every byte of every slot
  that an iteration visited has the value its source had at the start, and every memory image that
  a crash may leave at that moment has it too.\<close>

theorem run_copies_durably:
  assumes "sys_ok msk stack s" and "\<forall>j \<in> set (s_jobs s). copies j \<and> j_pc j = Bind"
    and "separate msk stack (map j_task (s_jobs s))"
    and "(sys_step msk stack)\<^sup>*\<^sup>* s s'" and "joined s'" and "k < length (s_jobs s)"
    and "t = j_task (s_jobs s ! k)" and "i < unat (t_iters t)" and "in_slot msk t i a"
  shows "mem (s_mach s') a = mem (s_mach s) (src_of t a) \<and>
    (\<forall>img. crash_image (s_mach s') img \<longrightarrow> img a = mem (s_mach s) (src_of t a))"
proof -
  have "run_copied msk (mem (s_mach s)) s" using assms(2) by (simp add: run_copied_def copied_def behind_def)
  from run_copied_run [OF assms(4,1) this _ assms(3)] assms(2) have cp: "run_copied msk (mem (s_mach s)) s'" by blast
  from run_ok [OF assms(4,1)] have ts: "map j_task (s_jobs s') = map j_task (s_jobs s)" by simp
  then have len: "length (s_jobs s') = length (s_jobs s)" by (rule map_eq_imp_length_eq)
  have t: "j_task (s_jobs s' ! k) = t"
    using arg_cong [OF ts, of "\<lambda>xs. xs ! k"] assms(6,7) len by simp
  have "behind (s_jobs s' ! k) = unat (t_iters t)"
    using assms(5,6) len t by (simp add: behind_def joined_def list_all_length)
  with cp assms(6,8,9) len t have "mem (s_mach s') a = mem (s_mach s) (src_of t a) \<and> pst (s_mach s') a = Durable"
    unfolding run_copied_def copied_def by (metis nth_mem)
  then show ?thesis by (auto simp: crash_image_def)
qed

section \<open>The abstract copy\<close>

text \<open>What the threads are for, without a machine: memory and how many slots each thread has copied. In
  one step some thread copies its next slot at once.\<close>

record store =
  contents :: "u64 \<Rightarrow> u8"
  counts :: "nat list"

definition copy_slot :: "u32 \<Rightarrow> task \<Rightarrow> nat \<Rightarrow> (u64 \<Rightarrow> u8) \<Rightarrow> u64 \<Rightarrow> u8" where
  "copy_slot msk t i M a = (if in_slot msk t i a then M (src_of t a) else M a)"

inductive copy_run :: "u32 \<Rightarrow> task list \<Rightarrow> store \<Rightarrow> store \<Rightarrow> bool" for msk ts where
  slot: "k < length ts \<Longrightarrow> counts st ! k < unat (t_iters (ts ! k)) \<Longrightarrow>
    copy_run msk ts st (st\<lparr>contents := copy_slot msk (ts ! k) (counts st ! k) (contents st),
      counts := (counts st)[k := Suc (counts st ! k)]\<rparr>)"

text \<open>The abstraction hides the threads' local variables, the warm-up and everything of the machine but
  its memory.\<close>

definition abs_store :: "(nat \<Rightarrow> u64) \<Rightarrow> sys \<Rightarrow> store" where
  "abs_store stack s = \<lparr>contents = (\<lambda>a. if \<exists>k < length (s_jobs s). in_range (stack k) 1 a then 0 else mem (s_mach s) a),
     counts = map behind (s_jobs s)\<rparr>"

lemma abs_silent:
  assumes "k < length (s_jobs s)" and "behind j = behind (s_jobs s ! k)"
    and same: "\<forall>a. \<not> in_range (stack k) 1 a \<longrightarrow> mem m a = mem (s_mach s) a"
  shows "abs_store stack (s\<lparr>s_mach := m, s_sched := w, s_jobs := (s_jobs s)[k := j]\<rparr>) = abs_store stack s"
proof -
  have "map behind ((s_jobs s)[k := j]) = map behind (s_jobs s)"
    using assms(1,2) by (simp add: map_update list_update_same_conv)
  moreover have "mem m a = mem (s_mach s) a" if "\<not> (\<exists>l < length (s_jobs s). in_range (stack l) 1 a)" for a
    using same that assms(1) by blast
  ultimately show ?thesis by (auto simp: abs_store_def fun_eq_iff)
qed

text \<open>Neither a slot that is visited nor its source is a local char.\<close>

lemma separate_local:
  assumes "separate msk stack (map j_task js)" and "k < length js" and "visits msk (j_task (js ! k)) a"
  shows "\<not> (\<exists>l < length js. in_range (stack l) 1 a)" and "\<not> (\<exists>l < length js. in_range (stack l) 1 (src_of (j_task (js ! k)) a))"
proof -
  have "in_range (stack l) 1 x \<Longrightarrow> touched msk (stack l) (j_task (js ! l)) x" for l x by (simp add: touched_def)
  with separateD [OF assms(1,2) _ assms(3)]
  show "\<not> (\<exists>l < length js. in_range (stack l) 1 a)" "\<not> (\<exists>l < length js. in_range (stack l) 1 (src_of (j_task (js ! k)) a))"
    by metis+
qed

lemma abs_slot:
  assumes k: "k < length (s_jobs s)" and sep: "separate msk stack (map j_task (s_jobs s))"
    and i: "i < unat (t_iters t)" and t: "t = j_task (s_jobs s ! k)" and b: "behind (s_jobs s ! k) = i" "behind j = Suc i"
    and new: "\<forall>a. in_slot msk t i a \<longrightarrow> mem m a = mem (s_mach s) (src_of t a)"
    and old: "\<forall>a. \<not> in_slot msk t i a \<longrightarrow> mem m a = mem (s_mach s) a"
  shows "copy_run msk (map j_task (s_jobs s)) (abs_store stack s)
    (abs_store stack (s\<lparr>s_mach := m, s_sched := w, s_jobs := (s_jobs s)[k := j]\<rparr>))"
proof -
  let ?s = "s\<lparr>s_mach := m, s_sched := w, s_jobs := (s_jobs s)[k := j]\<rparr>" and ?st = "abs_store stack s"
  let ?loc = "\<lambda>a. \<exists>l < length (s_jobs s). in_range (stack l) 1 a"
  have "(if ?loc a then 0 else mem m a) = copy_slot msk t i (\<lambda>a. if ?loc a then 0 else mem (s_mach s) a) a" for a
  proof (cases "in_slot msk t i a")
    case True
    from separate_local [OF sep k, folded t, OF visitsI [OF i True]] True new show ?thesis by (auto simp: copy_slot_def)
  next
    case False
    with old show ?thesis by (auto simp: copy_slot_def)
  qed
  then have "(\<lambda>a. if ?loc a then 0 else mem m a) = copy_slot msk t i (\<lambda>a. if ?loc a then 0 else mem (s_mach s) a)" by (rule ext)
  then have con: "contents (abs_store stack ?s) = copy_slot msk t i (contents ?st)" by (simp add: abs_store_def cong: if_cong)
  have cnt: "counts (abs_store stack ?s) = (counts ?st)[k := Suc i]" by (simp add: abs_store_def map_update b(2))
  have "counts ?st ! k = i" "map j_task (s_jobs s) ! k = t" using k by (simp_all add: abs_store_def b(1) t)
  then have "copy_run msk (map j_task (s_jobs s)) ?st
      (?st\<lparr>contents := copy_slot msk t i (contents ?st), counts := (counts ?st)[k := Suc i]\<rparr>)"
    using copy_run.slot [of k "map j_task (s_jobs s)" ?st msk] k i by simp
  moreover have "abs_store stack ?s = ?st\<lparr>contents := copy_slot msk t i (contents ?st), counts := (counts ?st)[k := Suc i]\<rparr>"
    using con cnt by (cases "abs_store stack ?s"; cases ?st) simp
  ultimately show ?thesis by simp
qed

lemma sys_step_refines:
  assumes st: "sys_step msk stack s s'" and ok: "sys_ok msk stack s"
    and cps: "\<forall>j \<in> set (s_jobs s). copies j" and sep: "separate msk stack (map j_task (s_jobs s))"
  shows "abs_store stack s' = abs_store stack s \<or> copy_run msk (map j_task (s_jobs s)) (abs_store stack s) (abs_store stack s')"
proof -
  from st obtain k j m w where k: "k < length (s_jobs s)" "j_pc (s_jobs s ! k) \<noteq> Finished"
    and js: "job_step msk (stack k) k (s_jobs s ! k) (s_mach s, s_sched s) = Some (Inr (j, m, w))"
    and s': "s' = s\<lparr>s_mach := m, s_sched := w, s_jobs := (s_jobs s)[k := j]\<rparr>" by (rule sys_stepE)
  have "job_ok msk (stack k) (s_mach s) (s_sched s) (s_jobs s ! k)" "copies (s_jobs s ! k)"
    using ok cps k(1) by (simp_all add: sys_ok_def)
  from this k(2) js show ?thesis
  proof (cases rule: copy_job_step)
    case silent
    then show ?thesis using abs_silent [OF k(1)] by (simp add: s')
  next
    case (slot i)
    then show ?thesis unfolding s' by (intro disjI2 abs_slot [OF k(1) sep]) auto
  qed
qed

lemma run_same_jobs:
  assumes "(sys_step msk stack)\<^sup>*\<^sup>* s t" and "sys_ok msk stack s" and "\<forall>j \<in> set (s_jobs s). copies j"
  shows "map j_task (s_jobs t) = map j_task (s_jobs s)" and "\<forall>j \<in> set (s_jobs t). copies j"
proof -
  from run_ok [OF assms(1,2)] show ts: "map j_task (s_jobs t) = map j_task (s_jobs s)" by simp
  have "\<exists>j' \<in> set (s_jobs s). j_task j' = j_task j" if "j \<in> set (s_jobs t)" for j
    using arg_cong [OF ts, of set] that by (auto simp: image_iff) (metis image_eqI image_iff)
  with assms(3) copies_same_task show "\<forall>j \<in> set (s_jobs t). copies j" by metis
qed

text \<open>C6: The threads implement the abstract copy. Every run of copy threads with separate slots, in any
  interleaving and with the whole machine underneath, is matched by a run of the specification that
  copies one whole slot of one thread at a time: the memory and the progress of the threads are
  those of the specification.\<close>

theorem run_refines_copy:
  assumes "sys_ok msk stack s" and "\<forall>j \<in> set (s_jobs s). copies j" and "separate msk stack (map j_task (s_jobs s))"
    and "(sys_step msk stack)\<^sup>*\<^sup>* s s'"
  shows "(copy_run msk (map j_task (s_jobs s)))\<^sup>*\<^sup>* (abs_store stack s) (abs_store stack s')"
  using assms(4)
proof (induction rule: rtranclp_induct)
  case base
  show ?case by simp
next
  case (step t u)
  note j = run_same_jobs [OF step(1) assms(1,2)]
  have "sys_ok msk stack t" using run_ok [OF step(1) assms(1)] by simp
  from sys_step_refines [OF step(2) this j(2)] assms(3) step(3) show ?case
    by (auto simp: j(1) intro: rtranclp.rtrancl_into_rtrancl)
qed

end
