(* ===== verification/Study_Records.thy ===== *)
theory Study_Records
  imports Study_Copy
begin

text \<open>
  What the result files of a run hold: every iteration of every thread has stored the time of its own
  operation, at its own index, whatever the interleaving. The threads share one clock, and an
  operation reads it twice.
\<close>

text \<open>The clock readings of an operation are the next two; only an iteration reads the clock, and it
  stores the difference at its index.\<close>

definition records :: "machine \<Rightarrow> job \<Rightarrow> machine \<Rightarrow> job \<Rightarrow> bool" where
  "records m j m' j' \<longleftrightarrow> behind j' = Suc (behind j) \<and> behind j < length (j_data j) \<and> clock_pos m' = clock_pos m + 2 \<and>
     j_data j' = (j_data j)[behind j := ucast (ts_at m (Suc (clock_pos m)) - ts_at m (clock_pos m))]"

lemma job_step_records:
  assumes ok: "job_ok msk c m w j" and st: "job_step msk c self j (m, w) = Some (Inr (j', m', w'))"
  shows "clock_src m' = clock_src m \<and>
    (records m j m' j' \<or> behind j' = behind j \<and> j_data j' = j_data j \<and> clock_pos m' = clock_pos m)"
proof -
  let ?t = "j_task j"
  from ok obtain asz sp where n: "needs msk c m w ?t asz sp" by (auto simp: job_ok_def)
  show ?thesis
  proof (cases "j_pc j")
    case Prepare
    from warm_up_ok [OF n] obtain m1 where "crash (run_all [PrepareJob ?t, init_char c] m) = Inr m1" "same_env m m1" by blast
    with Prepare st show ?thesis by (simp add: job_step_def behind_def same_env_def del: run_all.simps) auto
  next
    case (Iter i)
    show ?thesis
    proof (cases "i < unat (t_iters ?t)")
      case True
      with ok have i: "i < length (j_data j)" by (simp add: job_ok_def)
      from n obtain f where f: "op_of ?t = Some f" "device_op (t_rw_type ?t) f" by (auto simp: needs_def)
      obtain a1 a2 where o: "op_addrs msk c ?t i = (a1, a2)" by fastforce
      from job_iter_ok [OF n True i o f(1)] obtain ts m1 where
        r: "job_iter msk c ?t i (j_data j, m) = Some (Inr ((j_data j)[i := ucast ts], m1))"
        "f a1 a2 (ucast (t_access_size ?t)) m = Some (Inr (ts, m1))" by blast
      note op = device_op.op_result [OF f(2) op_args_slot(1) [OF n True o] r(2)]
      from st Iter True r(1) have "j' = j\<lparr>j_data := (j_data j)[i := ucast ts], j_pc := Iter (Suc i)\<rparr>" "m' = m1"
        by (auto simp: job_step_def split: if_splits)
      with Iter i op(1,4,5) show ?thesis by (simp add: records_def behind_def)
    next
      case False
      with Iter ok st show ?thesis by (auto simp: job_step_def job_ok_def behind_def)
    qed
  qed (use st in \<open>auto simp: job_step_def behind_def split: sum.splits\<close>)
qed

text \<open>The measurements of a thread so far: entry \<open>i\<close> is the difference of the clock readings with the numbers
  \<open>2 p\<close> and \<open>2 p + 1\<close> from the start of the run, for its place \<open>p = place i\<close> in the order in which the
  \<open>cnt\<close> operations of all threads ran. The places of a thread ascend, and the entries of iterations that
  are still to come are those of the start.\<close>

definition thread_recorded :: "machine \<Rightarrow> (nat \<Rightarrow> nat) \<Rightarrow> nat \<Rightarrow> job \<Rightarrow> job \<Rightarrow> bool" where
  "thread_recorded m place cnt j0 j \<longleftrightarrow> length (j_data j) = length (j_data j0) \<and>
     (\<forall>i < behind j. place i < cnt \<and> (\<forall>h < i. place h < place i) \<and>
        j_data j ! i = ucast (ts_at m (clock_pos m + 2 * place i + 1) - ts_at m (clock_pos m + 2 * place i))) \<and>
     (\<forall>i. behind j \<le> i \<longrightarrow> j_data j ! i = j_data j0 ! i)"

text \<open>All threads: no two entries share a place, and there are as many places as operations ran.\<close>

definition recorded :: "sys \<Rightarrow> (nat \<Rightarrow> nat \<Rightarrow> nat) \<Rightarrow> sys \<Rightarrow> bool" where
  "recorded s place s' \<longleftrightarrow> (let m = s_mach s; js = s_jobs s'; cnt = sum_list (map behind js) in
     length js = length (s_jobs s) \<and> clock_src (s_mach s') = clock_src m \<and> clock_pos (s_mach s') = clock_pos m + 2 * cnt \<and>
     (\<forall>k < length js. thread_recorded m (place k) cnt (s_jobs s ! k) (js ! k)) \<and>
     (\<forall>k < length js. \<forall>l < length js. k \<noteq> l \<longrightarrow>
        (\<forall>i < behind (js ! k). \<forall>h < behind (js ! l). place k i \<noteq> place l h)))"

lemma thread_recorded_mono: "thread_recorded m p cnt j0 j \<Longrightarrow> cnt \<le> cnt' \<Longrightarrow> thread_recorded m p cnt' j0 j"
  unfolding thread_recorded_def by (meson less_le_trans)

lemma thread_recorded_new:
  assumes "thread_recorded m p cnt j0 j" and "records mt j mu j'"
    and "clock_src mt = clock_src m" and "clock_pos mt = clock_pos m + 2 * cnt"
  shows "thread_recorded m (p(behind j := cnt)) (Suc cnt) j0 j'"
proof -
  have "ts_at mt = ts_at m" using assms(3) by (simp add: ts_at_def fun_eq_iff)
  with assms show ?thesis
    by (auto simp: thread_recorded_def records_def less_Suc_eq nth_list_update)
qed

lemma recorded_start: "\<forall>j \<in> set (s_jobs s). j_pc j = Bind \<Longrightarrow> recorded s place s"
proof -
  assume "\<forall>j \<in> set (s_jobs s). j_pc j = Bind"
  then have b: "behind j = 0" if "j \<in> set (s_jobs s)" for j using that by (simp add: behind_def)
  then have "map behind (s_jobs s) = map (\<lambda>_. 0) (s_jobs s)" by simp
  then have "sum_list (map behind (s_jobs s)) = 0" by (simp only: sum_list_0)
  moreover have "behind (s_jobs s ! k) = 0" if "k < length (s_jobs s)" for k using b that by simp
  ultimately show ?thesis by (simp add: recorded_def thread_recorded_def Let_def)
qed

lemma recorded_step:
  assumes rec: "recorded s place t" and ok: "sys_ok msk stack t" and st: "sys_step msk stack t u"
  shows "\<exists>place'. recorded s place' u"
proof -
  from st obtain k j m w where k: "k < length (s_jobs t)"
    and js: "job_step msk (stack k) k (s_jobs t ! k) (s_mach t, s_sched t) = Some (Inr (j, m, w))"
    and u: "u = t\<lparr>s_mach := m, s_sched := w, s_jobs := (s_jobs t)[k := j]\<rparr>" by (rule sys_stepE)
  from ok k have "job_ok msk (stack k) (s_mach t) (s_sched t) (s_jobs t ! k)" by (simp add: sys_ok_def)
  note r = job_step_records [OF this js]
  let ?cnt = "sum_list (map behind (s_jobs t))" and ?b = "behind (s_jobs t ! k)"
  have cnt: "sum_list (map behind ((s_jobs t)[k := j])) = ?cnt - ?b + behind j" and le: "?b \<le> ?cnt"
    using k by (simp_all add: map_update sum_list_update member_le_sum_list)
  from rec have len: "length (s_jobs t) = length (s_jobs s)" and clk: "clock_src (s_mach t) = clock_src (s_mach s)"
      "clock_pos (s_mach t) = clock_pos (s_mach s) + 2 * ?cnt"
    and thr: "\<And>l. l < length (s_jobs t) \<Longrightarrow> thread_recorded (s_mach s) (place l) ?cnt (s_jobs s ! l) (s_jobs t ! l)"
    and ap: "\<And>l l' i h. l < length (s_jobs t) \<Longrightarrow> l' < length (s_jobs t) \<Longrightarrow> l \<noteq> l' \<Longrightarrow>
      i < behind (s_jobs t ! l) \<Longrightarrow> h < behind (s_jobs t ! l') \<Longrightarrow> place l i \<noteq> place l' h"
    by (simp_all add: recorded_def Let_def)
  show ?thesis
  proof (cases "records (s_mach t) (s_jobs t ! k) m j")
    case False
    with r have same: "behind j = ?b" "j_data j = j_data (s_jobs t ! k)" "clock_pos m = clock_pos (s_mach t)" "clock_src m = clock_src (s_mach t)"
      by auto
    have "thread_recorded (s_mach s) (place k) ?cnt (s_jobs s ! k) j" using thr [OF k] same(1,2) by (simp add: thread_recorded_def)
    then have "recorded s place u"
      using thr ap len clk cnt le k same by (auto simp: recorded_def u Let_def nth_list_update)
    then show ?thesis by blast
  next
    case True
    let ?place = "place(k := (place k)(?b := ?cnt))"
    have more: "sum_list (map behind ((s_jobs t)[k := j])) = Suc ?cnt" using True cnt le by (simp add: records_def)
    have old: "place l i < ?cnt" if "l < length (s_jobs t)" "i < behind (s_jobs t ! l)" for l i
      using thr [OF that(1)] that(2) by (simp add: thread_recorded_def)
    have new: "thread_recorded (s_mach s) ((place k)(?b := ?cnt)) (Suc ?cnt) (s_jobs s ! k) j"
      by (rule thread_recorded_new [OF thr [OF k] True clk])
    have "?place l i \<noteq> ?place l' h"
      if "l < length (s_jobs t)" "l' < length (s_jobs t)" "l \<noteq> l'" "i < behind ((s_jobs t)[k := j] ! l)" "h < behind ((s_jobs t)[k := j] ! l')"
      for l l' i h
      using that True ap [OF that(1-3), of i h] old [of l i] old [of l' h] k
      by (auto simp: nth_list_update records_def less_Suc_eq split: if_splits)
    moreover have "thread_recorded (s_mach s) (place l) (Suc ?cnt) (s_jobs s ! l) (s_jobs t ! l)" if "l < length (s_jobs t)" for l
      using thr [OF that] by (rule thread_recorded_mono) simp
    ultimately have "recorded s ?place u"
      using len clk more k new True r by (auto simp: recorded_def u Let_def nth_list_update records_def)
    then show ?thesis by blast
  qed
qed

lemma run_recorded:
  assumes "(sys_step msk stack)\<^sup>*\<^sup>* s s'" and "sys_ok msk stack s" and "\<forall>j \<in> set (s_jobs s). j_pc j = Bind"
  shows "\<exists>place. recorded s place s'"
  using assms(1)
proof (induction rule: rtranclp_induct)
  case base
  from recorded_start [OF assms(3)] show ?case by blast
next
  case (step t u)
  with run_ok [OF step(1) assms(2)] recorded_step show ?case by blast
qed

section \<open>Properties\<close>

text \<open>C8: The result files of a run hold its measurements. When the threads have joined, in any interleaving,
  the array of each thread has one entry per iteration, and entry \<open>i\<close> is the time of the operation of
  iteration \<open>i\<close>: the difference, in 32 bits, of two successive clock readings. The readings of a thread
  ascend with its iterations, and no two entries, of whatever threads, share a reading.\<close>

theorem run_records_times:
  assumes "sys_ok msk stack s" and "\<forall>j \<in> set (s_jobs s). j_pc j = Bind"
    and "(sys_step msk stack)\<^sup>*\<^sup>* s s'" and "joined s'"
  shows "\<exists>place. inj_on (\<lambda>(k, i). place k i) {(k, i). k < length (s_jobs s) \<and> i < unat (t_iters (j_task (s_jobs s ! k)))} \<and>
    (\<forall>k < length (s_jobs s). length (j_data (s_jobs s' ! k)) = unat (t_iters (j_task (s_jobs s ! k))) \<and>
       (\<forall>i < unat (t_iters (j_task (s_jobs s ! k))).
          place k i < (\<Sum>j\<leftarrow>s_jobs s. unat (t_iters (j_task j))) \<and> (\<forall>h < i. place k h < place k i) \<and>
          j_data (s_jobs s' ! k) ! i =
            ucast (ts_at (s_mach s) (clock_pos (s_mach s) + 2 * place k i + 1) - ts_at (s_mach s) (clock_pos (s_mach s) + 2 * place k i))))"
proof -
  obtain place where rec: "recorded s place s'" using run_recorded [OF assms(3,1,2)] by blast
  from run_ok [OF assms(3,1)] have ok: "sys_ok msk stack s" and ts: "map j_task (s_jobs s') = map j_task (s_jobs s)" using assms(1) by auto
  have len: "length (s_jobs s') = length (s_jobs s)" using ts by (rule map_eq_imp_length_eq)
  have t: "j_task (s_jobs s' ! k) = j_task (s_jobs s ! k)" if "k < length (s_jobs s)" for k
    using arg_cong [OF ts, of "\<lambda>xs. xs ! k"] that len by simp
  have b: "behind j = unat (t_iters (j_task j))" if "j \<in> set (s_jobs s')" for j
    using assms(4) that by (simp add: joined_def list_all_iff behind_def)
  then have bk: "behind (s_jobs s' ! k) = unat (t_iters (j_task (s_jobs s ! k)))" if "k < length (s_jobs s)" for k
    using that len t by simp
  have "map behind (s_jobs s') = map (\<lambda>t. unat (t_iters t)) (map j_task (s_jobs s'))" using b by simp
  then have cnt: "sum_list (map behind (s_jobs s')) = (\<Sum>j\<leftarrow>s_jobs s. unat (t_iters (j_task j)))" unfolding ts by (simp add: comp_def)
  have ln: "length (j_data (s_jobs s ! k)) = unat (t_iters (j_task (s_jobs s ! k)))" if "k < length (s_jobs s)" for k
    using assms(1) that by (simp add: sys_ok_def job_ok_def)
  let ?n = "length (s_jobs s)" and ?it = "\<lambda>k. unat (t_iters (j_task (s_jobs s ! k)))"
  from rec have thr: "thread_recorded (s_mach s) (place k) (\<Sum>j\<leftarrow>s_jobs s. unat (t_iters (j_task j))) (s_jobs s ! k) (s_jobs s' ! k)"
    if "k < ?n" for k using that by (simp add: recorded_def Let_def cnt)
  have up: "place k h < place k i" if "k < ?n" "i < ?it k" "h < i" for k i h
    using thr [OF that(1)] that bk by (simp add: thread_recorded_def)
  have ap: "place k i \<noteq> place l h" if "k < ?n" "l < ?n" "k \<noteq> l" "i < ?it k" "h < ?it l" for k l i h
    using rec that bk len by (simp add: recorded_def Let_def)
  have "inj_on (\<lambda>(k, i). place k i) {(k, i). k < ?n \<and> i < ?it k}"
  proof (rule inj_onI, clarsimp)
    fix k i l h assume a: "k < ?n" "i < ?it k" "l < ?n" "h < ?it l" "place k i = place l h"
    then have "k = l" using ap [of k l i h] by blast
    moreover from this a have "\<not> i < h" "\<not> h < i" using up [of k h i] up [of k i h] by auto
    ultimately show "k = l \<and> i = h" by simp
  qed
  then show ?thesis using thr bk ln by (intro exI [of _ place]) (simp add: thread_recorded_def)
qed

end
