(* ===== verification/Doubles.thy ===== *)
theory Doubles
  imports Complex_Main HLFS_Prelude
begin

text \<open>
  The double arithmetic that bgtest/AEP/aep_study.cc computes with: positive values, rounded to 53
  significant bits, ties to even. The exponents of the values in question are far from the limits
  of the format, so neither overflow nor gradual underflow is modelled.
\<close>

section \<open>Rounding to an integer\<close>

definition round_even :: "rat \<Rightarrow> int" where
  "round_even q = (let f = \<lfloor>q\<rfloor>; r = q - of_int f in
     if r < 1 / 2 then f else if 1 / 2 < r then f + 1 else if even f then f else f + 1)"

lemma round_even_bounds: "\<lfloor>q\<rfloor> \<le> round_even q" "round_even q \<le> \<lfloor>q\<rfloor> + 1"
  by (simp_all add: round_even_def Let_def)

lemma round_even_of_int [simp]: "round_even (of_int k) = k"
  by (simp add: round_even_def)

lemma round_even_mono: "p \<le> q \<Longrightarrow> round_even p \<le> round_even q"
proof (cases "\<lfloor>p\<rfloor> = \<lfloor>q\<rfloor>")
  case True
  moreover assume "p \<le> q"
  ultimately show ?thesis by (auto simp: round_even_def Let_def)
next
  case False
  moreover assume "p \<le> q"
  ultimately have "\<lfloor>p\<rfloor> + 1 \<le> \<lfloor>q\<rfloor>" using floor_mono [of p q] by simp
  then show ?thesis using round_even_bounds(2) [of p] round_even_bounds(1) [of q] by simp
qed

section \<open>Rounding to 53 bits\<close>

text \<open>How often a value is doubled until it is at least \<open>2 ^ 52\<close>, or halved until it is less
  than \<open>2 ^ 53\<close>.\<close>

function doublings :: "rat \<Rightarrow> nat" where
  "doublings q = (if q \<le> 0 \<or> 2 ^ 52 \<le> q then 0 else Suc (doublings (2 * q)))"
  by pat_completeness auto
termination
proof (relation "measure (\<lambda>q. nat \<lceil>2 ^ 52 / q\<rceil>)")
  fix q :: rat assume "\<not> (q \<le> 0 \<or> 2 ^ 52 \<le> q)"
  then have "1 < 2 ^ 52 / q" by (simp add: less_divide_eq)
  moreover define x where "x = 2 ^ 52 / q"
  ultimately have x: "1 < x" by simp
  have "\<lceil>x / 2\<rceil> < \<lceil>x\<rceil>"
  proof -
    have "2 \<le> \<lceil>x\<rceil>" using x by (simp add: le_ceiling_iff)
    then have c: "(2 :: rat) \<le> of_int \<lceil>x\<rceil>" by (metis of_int_le_iff of_int_numeral)
    have "x / 2 \<le> of_int (\<lceil>x\<rceil> - 1)"
    proof (cases "x \<le> 2")
      case True
      then show ?thesis unfolding of_int_diff of_int_1 using c by linarith
    next
      case False
      then show ?thesis unfolding of_int_diff of_int_1 using le_of_int_ceiling [of x] by linarith
    qed
    then have "\<lceil>x / 2\<rceil> \<le> \<lceil>x\<rceil> - 1" by (simp only: ceiling_le_iff)
    then show ?thesis by simp
  qed
  moreover have "2 ^ 52 / (2 * q) = x / 2" by (simp add: x_def)
  moreover have "0 < \<lceil>x\<rceil>" using x by (simp add: less_ceiling_iff)
  ultimately show "(2 * q, q) \<in> measure (\<lambda>q. nat \<lceil>2 ^ 52 / q\<rceil>)" by (simp add: x_def)
qed simp

function halvings :: "rat \<Rightarrow> nat" where
  "halvings q = (if q < 2 ^ 53 then 0 else Suc (halvings (q / 2)))"
  by pat_completeness auto
termination
proof (relation "measure (\<lambda>q. nat \<lfloor>q\<rfloor>)")
  fix q :: rat assume "\<not> q < 2 ^ 53"
  then have q: "2 ^ 53 \<le> q" by simp
  then have "q / 2 \<le> q - 1" by simp
  then have "\<lfloor>q / 2\<rfloor> \<le> \<lfloor>q - 1\<rfloor>" by (rule floor_mono)
  moreover have "0 < \<lfloor>q\<rfloor>" using q by (simp add: zero_less_floor)
  ultimately show "(q / 2, q) \<in> measure (\<lambda>q. nat \<lfloor>q\<rfloor>)" by simp
qed simp

declare doublings.simps [simp del] halvings.simps [simp del]

text \<open>A positive value is rounded at the scale of its last significant bit.\<close>

definition ulp :: "rat \<Rightarrow> rat" where
  "ulp q = (if q < 2 ^ 52 then 1 / 2 ^ doublings q else 2 ^ halvings q)"

definition rnd :: "rat \<Rightarrow> rat" where
  "rnd q = (if q \<le> 0 then 0 else of_int (round_even (q / ulp q)) * ulp q)"


lemma ulp_pos: "0 < ulp q"
  by (simp add: ulp_def)

lemma doublings_scale: "0 < q \<Longrightarrow> q < 2 ^ 52 \<Longrightarrow> 2 ^ 52 \<le> q * 2 ^ doublings q \<and> q * 2 ^ doublings q < 2 ^ 53"
proof (induction q rule: doublings.induct)
  case (1 q)
  show ?case
  proof (cases "2 ^ 52 \<le> 2 * q")
    case True
    then have "doublings (2 * q) = 0" by (subst doublings.simps) simp
    then have "doublings q = 1" using 1(2,3) by (subst doublings.simps) simp
    with True 1(3) show ?thesis by simp
  next
    case False
    with 1 have "2 ^ 52 \<le> 2 * q * 2 ^ doublings (2 * q) \<and> 2 * q * 2 ^ doublings (2 * q) < 2 ^ 53" by auto
    moreover have "doublings q = Suc (doublings (2 * q))" using 1(2,3) by (subst doublings.simps) simp
    ultimately show ?thesis by (simp add: mult_ac)
  qed
qed

lemma halvings_scale: "2 ^ 52 \<le> q \<Longrightarrow> 2 ^ 52 \<le> q / 2 ^ halvings q \<and> q / 2 ^ halvings q < 2 ^ 53"
proof (induction q rule: halvings.induct)
  case (1 q)
  show ?case
  proof (cases "q < 2 ^ 53")
    case True
    with 1(2) show ?thesis by (subst (1 2) halvings.simps) simp
  next
    case False
    with 1 have "2 ^ 52 \<le> q / 2 / 2 ^ halvings (q / 2) \<and> q / 2 / 2 ^ halvings (q / 2) < 2 ^ 53" by auto
    moreover have "halvings q = Suc (halvings (q / 2))" using False by (subst halvings.simps) simp
    ultimately show ?thesis by (simp add: divide_simps)
  qed
qed

lemma ulp_scale: "0 < q \<Longrightarrow> 2 ^ 52 \<le> q / ulp q \<and> q / ulp q < 2 ^ 53"
  using doublings_scale [of q] halvings_scale [of q] by (auto simp: ulp_def)


lemma doublings_pos: "0 < q \<Longrightarrow> q < 2 ^ 52 \<Longrightarrow> 0 < doublings q"
  by (subst doublings.simps) simp

lemma ulp_gap:
  assumes "0 < p" and "ulp p < ulp q"
  shows "2 * ulp p \<le> ulp q"
proof (cases "p < 2 ^ 52"; cases "q < 2 ^ 52")
  assume pq: "p < 2 ^ 52" "q < 2 ^ 52"
  then have "(2 :: rat) ^ doublings q < 2 ^ doublings p" using assms(2) by (simp add: ulp_def frac_less_eq divide_simps)
  then have "doublings q < doublings p" by simp
  then have "(2 :: rat) ^ Suc (doublings q) \<le> 2 ^ doublings p" by (intro power_increasing) auto
  then show ?thesis using pq by (simp add: ulp_def divide_simps)
next
  assume pq: "p < 2 ^ 52" "\<not> q < 2 ^ 52"
  have "(2 :: rat) ^ 1 \<le> 2 ^ doublings p" using doublings_pos [OF assms(1) pq(1)] by (intro power_increasing) auto
  then have "2 / 2 ^ doublings p \<le> (1 :: rat)" by (simp add: divide_simps)
  moreover have "(1 :: rat) \<le> 2 ^ halvings q" by simp
  ultimately have "2 / 2 ^ doublings p \<le> (2 :: rat) ^ halvings q" by (rule order_trans)
  then show ?thesis using pq by (simp add: ulp_def)
next
  assume pq: "\<not> p < 2 ^ 52" "q < 2 ^ 52"
  have "1 / 2 ^ doublings q \<le> (1 :: rat)" by (simp add: divide_simps)
  moreover have "(1 :: rat) \<le> 2 ^ halvings p" by simp
  ultimately have "1 / 2 ^ doublings q \<le> (2 :: rat) ^ halvings p" by (rule order_trans)
  then show ?thesis using pq assms(2) by (simp add: ulp_def)
next
  assume pq: "\<not> p < 2 ^ 52" "\<not> q < 2 ^ 52"
  then have "halvings p < halvings q" using assms(2) by (simp add: ulp_def)
  then have "(2 :: rat) ^ Suc (halvings p) \<le> 2 ^ halvings q" by (intro power_increasing) auto
  then show ?thesis using pq by (simp add: ulp_def)
qed

lemma rnd_near:
  assumes "0 < q"
  shows "q * (1 - 1 / 2 ^ 52) \<le> rnd q" and "rnd q \<le> q * (1 + 1 / 2 ^ 52)"
proof -
  let ?u = "ulp q"
  have u: "0 < ?u" by (rule ulp_pos)
  have "2 ^ 52 \<le> q / ?u" using ulp_scale [OF assms] by simp
  then have small: "?u \<le> q / 2 ^ 52" using u by (simp add: pos_le_divide_eq mult.commute)
  have "of_int (round_even (q / ?u)) \<le> q / ?u + 1" "q / ?u - 1 \<le> of_int (round_even (q / ?u))"
  proof -
    have "of_int (round_even (q / ?u)) \<le> (of_int (\<lfloor>q / ?u\<rfloor> + 1) :: rat)"
      using round_even_bounds(2) [of "q / ?u"] by (simp only: of_int_le_iff)
    then show "of_int (round_even (q / ?u)) \<le> q / ?u + 1"
      using of_int_floor_le [of "q / ?u"] unfolding of_int_add of_int_1 by linarith
    have "of_int \<lfloor>q / ?u\<rfloor> \<le> (of_int (round_even (q / ?u)) :: rat)"
      using round_even_bounds(1) [of "q / ?u"] by (simp only: of_int_le_iff)
    then show "q / ?u - 1 \<le> of_int (round_even (q / ?u))" using floor_correct [of "q / ?u"] by linarith
  qed
  then have "of_int (round_even (q / ?u)) * ?u \<le> (q / ?u + 1) * ?u" "(q / ?u - 1) * ?u \<le> of_int (round_even (q / ?u)) * ?u"
    using u by (simp_all add: mult_right_mono)
  then have "rnd q \<le> q + ?u" "q - ?u \<le> rnd q" using u assms by (simp_all add: rnd_def algebra_simps)
  with small show "q * (1 - 1 / 2 ^ 52) \<le> rnd q" "rnd q \<le> q * (1 + 1 / 2 ^ 52)"
    by (simp_all add: algebra_simps)
qed

lemma rnd_mono:
  assumes "0 < p" and "p \<le> q"
  shows "rnd p \<le> rnd q"
proof -
  have q: "0 < q" using assms by simp
  have up: "0 < ulp p" "0 < ulp q" by (rule ulp_pos)+
  consider "ulp p = ulp q" | "ulp p < ulp q" | "ulp q < ulp p" by linarith
  then show ?thesis
  proof cases
    case 1
    have "p / ulp q \<le> q / ulp q" using assms(2) up by (simp add: divide_right_mono)
    from round_even_mono [OF this] have "of_int (round_even (p / ulp q)) \<le> (of_int (round_even (q / ulp q)) :: rat)"
      by (simp only: of_int_le_iff)
    then show ?thesis using assms q up by (simp add: rnd_def 1 mult_right_mono)
  next
    case 2
    have "round_even (p / ulp p) \<le> round_even (of_int (2 ^ 53))"
      using ulp_scale [OF assms(1)] by (intro round_even_mono) simp
    then have "of_int (round_even (p / ulp p)) \<le> (of_int (2 ^ 53) :: rat)" by (simp only: round_even_of_int of_int_le_iff)
    then have "rnd p \<le> 2 ^ 53 * ulp p" using assms(1) up by (simp add: rnd_def mult_right_mono)
    also have "\<dots> \<le> 2 ^ 52 * ulp q" using ulp_gap [OF assms(1) 2] by simp
    also have "\<dots> \<le> rnd q"
    proof -
      have "round_even (of_int (2 ^ 52)) \<le> round_even (q / ulp q)"
        using ulp_scale [OF q] by (intro round_even_mono) simp
      then have "(of_int (2 ^ 52) :: rat) \<le> of_int (round_even (q / ulp q))" by (simp only: round_even_of_int of_int_le_iff)
      then show ?thesis using q up by (simp add: rnd_def mult_right_mono)
    qed
    finally show ?thesis .
  next
    case 3
    have "q < 2 ^ 53 * ulp q" using ulp_scale [OF q] up by (simp add: pos_divide_less_eq)
    also have "\<dots> \<le> 2 ^ 52 * ulp p" using ulp_gap [OF q 3] by simp
    also have "\<dots> \<le> p" using ulp_scale [OF assms(1)] up by (simp add: pos_le_divide_eq)
    finally show ?thesis using assms(2) by simp
  qed
qed

lemma rnd_of_int:
  assumes "0 \<le> k" and "k < 2 ^ 53"
  shows "rnd (of_int k) = of_int k"
proof (cases "k = 0")
  case True
  then show ?thesis by (simp add: rnd_def)
next
  case False
  with assms(1) have k: "0 < (of_int k :: rat)" by simp
  have "\<exists>j. (of_int k :: rat) / ulp (of_int k) = of_int j"
  proof (cases "(of_int k :: rat) < 2 ^ 52")
    case True
    then have "(of_int k :: rat) / ulp (of_int k) = of_int (k * 2 ^ doublings (of_int k))" by (simp add: ulp_def)
    then show ?thesis by blast
  next
    case False
    have "(of_int k :: rat) < of_int (2 ^ 53)" using assms(2) by (simp only: of_int_less_iff)
    then have "halvings (of_int k) = 0" by (subst halvings.simps) simp
    with False have "(of_int k :: rat) / ulp (of_int k) = of_int k" by (simp add: ulp_def)
    then show ?thesis by blast
  qed
  then obtain j where j: "(of_int k :: rat) / ulp (of_int k) = of_int j" by blast
  then have "of_int j * ulp (of_int k) = (of_int k :: rat)" using ulp_pos [of "of_int k"] by (metis less_irrefl nonzero_divide_eq_eq)
  with k j show ?thesis by (simp add: rnd_def)
qed

text \<open>A value less than half a unit away from an integer is rounded to it.\<close>

lemma round_even_near:
  assumes "\<bar>x - of_int m\<bar> < 1 / 2"
  shows "round_even x = m"
proof (cases "of_int m \<le> x")
  case True
  with assms have "\<lfloor>x\<rfloor> = m" by (intro floor_unique) linarith+
  with True assms show ?thesis by (simp add: round_even_def)
next
  case False
  moreover have "of_int (m - 1) = (of_int m - 1 :: rat)" by simp
  ultimately have "\<lfloor>x\<rfloor> = m - 1" using assms by (intro floor_unique) linarith+
  with False assms show ?thesis by (simp add: round_even_def Let_def)
qed

text \<open>A value within half a unit of its last bit of an integer is rounded to it.\<close>

lemma rnd_snap:
  assumes "0 < q" and "q < 2 ^ 52" and "\<bar>q - of_nat k\<bar> * 2 ^ 54 < q"
  shows "rnd q = of_nat k"
proof -
  let ?s = "2 ^ doublings q :: rat"
  have s: "0 < ?s" "q / ulp q = q * ?s" "ulp q = 1 / ?s" using assms(2) by (simp_all add: ulp_def)
  have "\<bar>q * ?s - of_nat k * ?s\<bar> = \<bar>q - of_nat k\<bar> * ?s" by (simp add: abs_mult left_diff_distrib [symmetric])
  then have "\<bar>q * ?s - of_nat k * ?s\<bar> * 2 ^ 54 = \<bar>q - of_nat k\<bar> * 2 ^ 54 * ?s" by simp
  also have "\<dots> < q * ?s" using assms(3) s(1) by (rule mult_strict_right_mono)
  also have "\<dots> < 2 ^ 53" using doublings_scale [OF assms(1,2)] by simp
  finally have "\<bar>q * ?s - of_int (int k * 2 ^ doublings q)\<bar> < 1 / 2" by simp
  from round_even_near [OF this] show ?thesis
    using assms(1) s(1) by (simp add: rnd_def s(2)) (simp add: s(3))
qed

lemma rnd_half_to_one:
  assumes "1 / 2 \<le> c" and "c < 1"
  shows "rnd c = of_int (round_even (c * 2 ^ 53)) / 2 ^ 53"
proof -
  let ?d = "doublings c"
  have d: "2 ^ 52 \<le> c * 2 ^ ?d" "c * 2 ^ ?d < 2 ^ 53" using doublings_scale [of c] assms by auto
  have "\<not> ?d < 53"
  proof
    assume "?d < 53"
    then have "(2 :: rat) ^ ?d \<le> 2 ^ 52" by (intro power_increasing) simp_all
    moreover have "c * 2 ^ ?d < 1 * 2 ^ ?d" using assms(2) by (intro mult_strict_right_mono) simp_all
    ultimately show False using d(1) by linarith
  qed
  moreover have "\<not> 53 < ?d"
  proof
    assume "53 < ?d"
    then have "(2 :: rat) ^ 54 \<le> 2 ^ ?d" by (intro power_increasing) simp_all
    then have "(2 :: rat) ^ 53 \<le> 1 / 2 * 2 ^ ?d" by simp
    also have "1 / 2 * 2 ^ ?d \<le> c * 2 ^ ?d" using assms(1) by (intro mult_right_mono) simp_all
    also note d(2)
    finally show False by simp
  qed
  ultimately have "?d = 53" by simp
  with assms show ?thesis by (simp add: rnd_def ulp_def)
qed

end
