(* ===== verification/Study_Report.thy ===== *)
theory Study_Report
  imports Study_Task Doubles "HOL-Library.Multiset"
begin

text \<open>
  The evaluation and the report of bgtest/AEP/aep_study.cc: Analyze, AnalyzeForCachelineFlush
  and the Report object with its lines. Doubles are rounded as in Doubles; a division by zero
  gives an infinity or no number.
\<close>

section \<open>Results\<close>

datatype double = Fin rat | Inf | NaN

definition fdiv :: "rat \<Rightarrow> rat \<Rightarrow> double" where
  "fdiv x y = (if y = 0 then (if x = 0 then NaN else Inf) else Fin (rnd (x / y)))"

record analyze_result =
  total_time :: u32
  total_cal :: u32
  bandwidth :: double
  avg_lat :: u32
  avg_lat_from_cal :: u32
  min_lat :: u32
  max_lat :: u32
  p50 :: u32
  p99 :: u32
  p99_9 :: u32
  p99_99 :: u32
  p99_999 :: u32

text \<open>\<open>memset(result, 0, sizeof(AnalyzeResult))\<close>\<close>

definition zero_result :: analyze_result where
  "zero_result = \<lparr>total_time = 0, total_cal = 0, bandwidth = Fin 0, avg_lat = 0, avg_lat_from_cal = 0, min_lat = 0,
     max_lat = 0, p50 = 0, p99 = 0, p99_9 = 0, p99_99 = 0, p99_999 = 0\<rparr>"

text \<open>\<open>for (int i = 0; i < n; ++i) sum_time += data[i];\<close>\<close>

fun sum_times :: "u64 \<Rightarrow> u32 list \<Rightarrow> u64" where
  "sum_times s [] = s"
| "sum_times s (x # xs) = sum_times (s + ucast x) xs"

text \<open>\<open>(uint64_t)((double)n * c)\<close>\<close>

definition pct :: "nat \<Rightarrow> rat \<Rightarrow> nat" where
  "pct n c = nat \<lfloor>rnd (rnd (of_nat n) * rnd c)\<rfloor>"

text \<open>\<open>sort(data, data + n)\<close>\<close>

definition sort_prefix :: "nat \<Rightarrow> u32 list \<Rightarrow> u32 list" where
  "sort_prefix n d = sort (take n d) @ drop n d"

text \<open>The entries of the sorted array; reading behind it has no defined behaviour.\<close>

definition latencies :: "nat \<Rightarrow> u32 list \<Rightarrow> analyze_result \<Rightarrow> stop + analyze_result" where
  "latencies n d r =
     (let js = [0, n - 1, n div 2, pct n (99 / 100), pct n (999 / 1000), pct n (9999 / 10000), pct n (99999 / 100000)] in
      if list_all (\<lambda>j. j < length d) js
      then Inr (r\<lparr>min_lat := d ! (js ! 0), max_lat := d ! (js ! 1), p50 := d ! (js ! 2), p99 := d ! (js ! 3),
                  p99_9 := d ! (js ! 4), p99_99 := d ! (js ! 5), p99_999 := d ! (js ! 6)\<rparr>)
      else Inl (Undefined ''data out of bounds''))"

text \<open>The int counter of the loop must not pass 2147483647.\<close>

definition Analyze :: "globals \<Rightarrow> u32 list \<Rightarrow> u64 \<Rightarrow> int \<Rightarrow> stop + analyze_result \<times> u32 list" where
  "Analyze g data run_total_time tnum =
     (let n = unat (iters g) in
      if n \<ge> 2 ^ 31 then Inl (Undefined ''int overflow'')
      else if length data < n then Inl (Undefined ''data out of bounds'')
      else
        (let sum_time = sum_times 0 (take n data);
             bw = fdiv (rnd (rnd (rnd (rnd (rnd (of_nat (unat (access_size g)) * of_nat n) * of_int tnum) / 1024) / 1024) * 1000000000))
                    (rnd (of_nat (unat run_total_time)));
             r = zero_result\<lparr>total_time := ucast run_total_time, total_cal := ucast sum_time, bandwidth := bw\<rparr>
         in if tnum \<noteq> 1 then Inr (r, data)
            else if n = 0 then Inl (Undefined ''division by 0'')
            else
              (let d = sort_prefix n data in
               case latencies n d (r\<lparr>avg_lat := ucast (run_total_time div of_nat n),
                                     avg_lat_from_cal := ucast (sum_time div of_nat n)\<rparr>) of
                 Inl e \<Rightarrow> Inl e
               | Inr r' \<Rightarrow> Inr (r', d))))"

definition AnalyzeForCachelineFlush :: "u32 list \<Rightarrow> u64 \<Rightarrow> int \<Rightarrow> stop + analyze_result \<times> u32 list" where
  "AnalyzeForCachelineFlush data num tnum =
     (let n = unat num in
      if n \<ge> 2 ^ 31 then Inl (Undefined ''int overflow'')
      else if length data < n then Inl (Undefined ''data out of bounds'')
      else
        (let sum_time = sum_times 0 (take n data);
             r = zero_result\<lparr>total_cal := ucast sum_time\<rparr>
         in if tnum \<noteq> 1 then Inr (r, data)
            else if n = 0 then Inl (Undefined ''division by 0'')
            else
              (let d = sort_prefix n data in
               case latencies n d (r\<lparr>avg_lat_from_cal := ucast (sum_time div num)\<rparr>) of
                 Inl e \<Rightarrow> Inl e
               | Inr r' \<Rightarrow> Inr (r', d))))"

section \<open>The report\<close>

text \<open>The process's output: what was printed, and the buffers of the streams opened on descriptors,
  which are written out when the process exits.\<close>

datatype stream = Stdout | Stream int

record io =
  printed :: "string list"
  buffered :: "(int \<times> string) list"

record report =
  report_fd :: int
  report_fp :: "stream option"

definition fprintf :: "stream \<Rightarrow> string \<Rightarrow> io \<Rightarrow> io" where
  "fprintf f s o1 = (case f of Stdout \<Rightarrow> o1\<lparr>printed := printed o1 @ [s]\<rparr>
     | Stream fd \<Rightarrow> o1\<lparr>buffered := buffered o1 @ [(fd, s)]\<rparr>)"

definition u32s :: "u32 \<Rightarrow> string" where
  "u32s x = to_string (unat x)"

definition u64s :: "u64 \<Rightarrow> string" where
  "u64s x = to_string (unat x)"

definition report_path :: "globals \<Rightarrow> string \<Rightarrow> string" where
  "report_path g time =
     (let b = Size2HumanStr (buffer_size g) @ ''-'' @ RwType2Str (rw_type g) @ ''-'' @ AccessMode2Str (access_mode g) @
            ''-'' @ Size2HumanStr (ucast (access_size g));
          file_common_part = time @ ''-'' @ b
      in rep_dir_path g @ ''/'' @ rep_report_dir @ ''/'' @ rep_file_prefix @ ''-'' @ file_common_part @ ''-'' @
         rep_report_suffix)"

definition report_head :: "globals \<Rightarrow> string \<Rightarrow> string list" where
  "report_head g time = [
     ''time: '' @ time @ ''\<newline>'',
     ''buffer_size: '' @ Size2HumanStr (buffer_size g) @ ''\<newline>'',
     ''rw_type: '' @ RwType2Str (rw_type g) @ ''\<newline>'',
     ''access_mode: '' @ AccessMode2Str (access_mode g) @ ''\<newline>'',
     ''access_size: '' @ Size2HumanStr (ucast (access_size g)) @ ''\<newline>'',
     ''access_size_bits: '' @ u32s (access_size_bits g) @ ''\<newline>'',
     ''iters: '' @ u32s (iters g) @ ''\<newline>'',
     ''thread_num: '' @ u32s (thread_num g) @ ''\<newline>'',
     ''socket: '' @ u32s (socket g) @ ''\<newline>'',
     ''aep_buf_size: '' @ Size2HumanStr (aep_buf_size g) @ ''\<newline>'',
     ''seed: '' @ u32s (seed g) @ ''\<newline>'',
     ''--------------------------------------------\<newline>'']"

text \<open>The constructor: after the block that opens the file, control reaches the label \<open>use_std\<close>
  either way.\<close>

definition new_Report :: "string \<Rightarrow> globals \<times> io \<Rightarrow> stop + report \<times> globals \<times> io" where
  "new_Report file_time s =
     (let (g, o1) = s; r = \<lparr>report_fd = 0, report_fp = None\<rparr>;
          opened = (if file_time = [] then Inr (r, g, o1)
            else
              (let (fd, fs) = OpenAndAllocAtSize (report_path g file_time) 0 (pm_fs (g_pm g)) in
               if fd < 0 then Inl (Exit (- 1))
               else Inr (r\<lparr>report_fd := fd, report_fp := Some (Stream fd)\<rparr>, g\<lparr>g_pm := (g_pm g)\<lparr>pm_fs := fs\<rparr>\<rparr>,
                         foldl (\<lambda>b l. fprintf (Stream fd) l b) o1 (report_head g file_time))))
      in (case opened of
            Inl e \<Rightarrow> Inl e
          | Inr (r', s') \<Rightarrow> Inr (r'\<lparr>report_fp := Some Stdout\<rparr>, s')))"

text \<open>fclose writes the buffer out and closes the descriptor, which Close then closes once more. What goes
  to the standard output counts as printed at once and its descriptor is not in the table, so closing
  that stream, after which nothing more is printed, leaves the state as it is.\<close>

definition delete_Report :: "report \<Rightarrow> globals \<times> io \<Rightarrow> globals \<times> io" where
  "delete_Report r s =
     (let (g, o1) = s in
      case report_fp r of
        None \<Rightarrow> (g, o1)
      | Some Stdout \<Rightarrow> (g, o1)
      | Some (Stream fd) \<Rightarrow>
          (g\<lparr>g_pm := (g_pm g)\<lparr>pm_fs := Close (report_fd r) (Close fd (pm_fs (g_pm g)))\<rparr>\<rparr>,
           o1\<lparr>buffered := filter (\<lambda>(d, _). d \<noteq> fd) (buffered o1)\<rparr>))"

definition pad_right :: "nat \<Rightarrow> string \<Rightarrow> string" where
  "pad_right k s = s @ replicate (k - length s) CHR '' ''"

definition fixed2 :: "double \<Rightarrow> string" where
  "fixed2 x = (case x of
     Fin q \<Rightarrow> (let k = nat (round_even (q * 100)) in
       to_string (k div 100) @ ''.'' @ to_string (k div 10 mod 10) @ to_string (k mod 10))
   | Inf \<Rightarrow> ''inf'' | NaN \<Rightarrow> ''-nan'')"

definition ReportSubOp :: "pmdk \<Rightarrow> report \<Rightarrow> int \<Rightarrow> task \<Rightarrow> analyze_result \<Rightarrow> io \<Rightarrow> stop + io" where
  "ReportSubOp P rep tnum t r o1 =
     (case report_fp rep of
        None \<Rightarrow> Inl (Undefined ''null stream'')
      | Some fp \<Rightarrow>
          (case GetOpLabel P (t_rw_type t) (sub_op t) of
             Inl e \<Rightarrow> Inl e
           | Inr label \<Rightarrow>
               Inr (foldl (\<lambda>b l. fprintf fp l b) o1
                 ([pad_right 50 label @ '' '',
                   ''total_time:'' @ pad_right 12 (u32s (total_time r)) @ '' '',
                   ''total_cal:'' @ pad_right 12 (u32s (total_cal r)) @ '' '',
                   ''bandwidth:'' @ pad_right 8 (fixed2 (bandwidth r)) @ '' ''] @
                  (if tnum = 1
                   then [''avg_lat:'' @ pad_right 6 (u32s (avg_lat r)) @ '' '',
                         ''avg_lat_from_cal:'' @ pad_right 6 (u32s (avg_lat_from_cal r)) @ '' '',
                         ''min_lat:'' @ pad_right 6 (u32s (min_lat r)) @ '' '',
                         ''max_lat:'' @ pad_right 6 (u32s (max_lat r)) @ '' '',
                         ''p50:'' @ pad_right 6 (u32s (p50 r)) @ '' '',
                         ''p99:'' @ pad_right 6 (u32s (p99 r)) @ '' '',
                         ''p99_9:'' @ pad_right 6 (u32s (p99_9 r)) @ '' '',
                         ''p99_99:'' @ pad_right 6 (u32s (p99_99 r)) @ '' '',
                         ''p99_999:'' @ pad_right 6 (u32s (p99_999 r)) @ '' '']
                   else []) @
                  [''\<newline>'']))))"


section \<open>Percentile positions\<close>

lemma rnd_pos: "0 < q \<Longrightarrow> 0 < rnd q"
  using rnd_near(1) [of q] mult_pos_pos [of q "1 - 1 / 2 ^ 52"] by simp

lemma rnd_of_nat: "n < 2 ^ 32 \<Longrightarrow> rnd (of_nat n) = of_nat n"
  using rnd_of_int [of "int n"] by simp

lemma rnd_percents:
  "rnd (99 / 100) = 8917127262193582 / 2 ^ 53" "rnd (999 / 1000) = 8998192055486251 / 2 ^ 53"
  "rnd (9999 / 10000) = 9006298534815518 / 2 ^ 53" "rnd (99999 / 100000) = 9007109182748445 / 2 ^ 53"
  using round_even_near [of "99 / 100 * 2 ^ 53" 8917127262193582] round_even_near [of "999 / 1000 * 2 ^ 53" 8998192055486251]
    round_even_near [of "9999 / 10000 * 2 ^ 53" 9006298534815518] round_even_near [of "99999 / 100000 * 2 ^ 53" 9007109182748445]
  by (simp_all add: rnd_half_to_one)

text \<open>The position of a percentile \<open>a / b\<close> in floating point is the exact one.\<close>

lemma pct_exact:
  assumes n: "0 < n" "n < 2 ^ 31" and ab: "0 < a" "a < b" "b \<le> 100000" and c: "c = of_nat a / of_nat b"
    and near: "\<bar>rnd c - c\<bar> * 2 ^ 54 < rnd c"
  shows "pct n c = n * a div b"
proof -
  let ?k = "n * a div b" and ?q = "of_nat n * rnd c" and ?x = "of_nat n * c" and ?e = "1 / 2 ^ 52 :: rat"
  have c01: "0 < c" "c < 1" using ab c by simp_all
  have p: "pct n c = nat \<lfloor>rnd ?q\<rfloor>" using n by (simp add: pct_def rnd_of_nat)
  have nb: "0 < (of_nat n :: rat)" "(of_nat n :: rat) < 2 ^ 31"
    using n by (simp, metis of_nat_less_iff of_nat_numeral of_nat_power)
  have q: "0 < ?q" using nb rnd_pos [OF c01(1)] by simp
  have "of_nat b * ?x = (of_nat (n * a) :: rat)" using c ab by simp
  then have bx: "of_nat b * ?x = of_nat b * of_nat ?k + of_nat (n * a mod b)" by (metis mult_div_mod_eq of_nat_add of_nat_mult)
  have "rnd c \<le> c * (1 + ?e)" "c * (1 - ?e) \<le> rnd c" using rnd_near [OF c01(1)] by simp_all
  then have "?q \<le> ?x * (1 + ?e)" "?x * (1 - ?e) \<le> ?q" using nb by (simp_all add: mult.assoc)
 
  moreover have "rnd ?q \<le> ?q * (1 + ?e)" "?q * (1 - ?e) \<le> rnd ?q" using rnd_near [OF q] by simp_all
  moreover have "?q * (1 + ?e) \<le> ?x * (1 + ?e) * (1 + ?e)" using calculation(1) by (intro mult_right_mono) simp_all
  moreover have "?x * (1 - ?e) * (1 - ?e) \<le> ?q * (1 - ?e)" using calculation(2) by (intro mult_right_mono) simp_all
  moreover have x: "0 < ?x" "?x < 2 ^ 31"
  proof -
    show "0 < ?x" using nb c01 by simp
    have "?x < of_nat n * 1" using nb c01 by (intro mult_strict_left_mono) simp_all
    with nb show "?x < 2 ^ 31" by linarith
  qed
  ultimately have near2: "?q < 2 ^ 52"  "rnd ?q \<le> ?x + 1 / 200000" "?x - 1 / 200000 \<le> rnd ?q" by simp_all
  show ?thesis
  proof (cases "n * a mod b = 0")
    case True
    then have xk: "?x = of_nat ?k" using bx ab by simp
    have "?q - of_nat ?k = of_nat n * (rnd c - c)" unfolding xk [symmetric] by (simp add: right_diff_distrib)
    then have "\<bar>?q - of_nat ?k\<bar> * 2 ^ 54 = of_nat n * (\<bar>rnd c - c\<bar> * 2 ^ 54)" using nb by (simp add: abs_mult)
    also have "\<dots> < ?q" using near nb by (intro mult_strict_left_mono)
    finally have "rnd ?q = of_nat ?k" using q near2(1) by (intro rnd_snap) simp_all
    then show ?thesis by (simp add: p)
  next
    case False
    have "n * a mod b < b" using ab by simp
    with False have r: "1 \<le> n * a mod b" "n * a mod b + 1 \<le> b" by simp_all
    then have "(1 :: rat) \<le> of_nat (n * a mod b)" "of_nat (n * a mod b) + 1 \<le> (of_nat b :: rat)"
      by (metis of_nat_1 of_nat_le_iff) (metis r(2) of_nat_1 of_nat_add of_nat_le_iff)
    with bx have "of_nat b * of_nat ?k + 1 \<le> of_nat b * ?x" "of_nat b * ?x + 1 \<le> of_nat b * of_nat ?k + of_nat b" by linarith+
    moreover have b: "0 < (of_nat b :: rat)" "(of_nat b :: rat) \<le> 100000" using ab by (simp, metis of_nat_le_iff of_nat_numeral)
    ultimately have "of_nat ?k + 1 / of_nat b \<le> ?x" "?x + 1 / of_nat b \<le> of_nat ?k + 1"
      by (simp_all add: field_simps)
    moreover have "1 / 100000 \<le> 1 / (of_nat b :: rat)" using b by (intro divide_left_mono) simp_all
    ultimately have "of_nat ?k < rnd ?q" "rnd ?q < of_nat ?k + 1" using near2(2,3) by linarith+
    then have "\<lfloor>rnd ?q\<rfloor> = int ?k" by (intro floor_unique) simp_all
    then show ?thesis by (simp add: p)
  qed
qed

lemma pct_floor:
  assumes "0 < n" and "n < 2 ^ 31"
  shows "pct n (99 / 100) = n * 99 div 100" "pct n (999 / 1000) = n * 999 div 1000"
    "pct n (9999 / 10000) = n * 9999 div 10000" "pct n (99999 / 100000) = n * 99999 div 100000"
  using assms by (simp_all add: pct_exact rnd_percents)

section \<open>Sums\<close>

lemma sum_times_mod: "unat (sum_times s xs) = (unat s + sum_list (map unat xs)) mod 2 ^ 64"
proof (induction xs arbitrary: s)
  case Nil
  show ?case using unsigned_less [of s, where ?'a = nat] by simp
next
  case (Cons x xs)
  then show ?case by (simp add: unat_word_ariths mod_simps add.assoc)
qed

lemma sum_list_u32: "sum_list (map unat (xs :: u32 list)) \<le> length xs * (2 ^ 32 - 1)"
proof (induction xs)
  case (Cons x xs)
  have "unat x \<le> 2 ^ 32 - 1" using unsigned_less [of x, where ?'a = nat] by simp
  with Cons show ?case by simp
qed simp

lemma sum_times_exact:
  assumes "length xs < 2 ^ 31"
  shows "unat (sum_times 0 xs) = sum_list (map unat xs)"
proof -
  have "length xs * (2 ^ 32 - 1) \<le> 2 ^ 31 * (2 ^ 32 - 1)" using assms by (intro mult_le_mono1) simp
  then have "sum_list (map unat xs) < 2 ^ 64" using sum_list_u32 [of xs] by simp
  then show ?thesis by (simp add: sum_times_mod)
qed


text \<open>The order statistic of rank \<open>k\<close>, counted from 0: no more than \<open>k\<close> measurements are smaller, and
  more than \<open>k\<close> are not larger.\<close>

definition order_stat :: "u32 list \<Rightarrow> nat \<Rightarrow> u32 \<Rightarrow> bool" where
  "order_stat xs k x \<longleftrightarrow> length (filter (\<lambda>y. y < x) xs) \<le> k \<and> k < length (filter (\<lambda>y. y \<le> x) xs)"

lemma order_stat_sort:
  assumes "k < length xs"
  shows "order_stat xs k (sort xs ! k)"
proof -
  let ?s = "sort xs"
  have len: "length (filter P xs) = card {i. i < length xs \<and> P (?s ! i)}" for P
  proof -
    have "mset (filter P xs) = mset (filter P ?s)" by simp
    then have "length (filter P xs) = length (filter P ?s)" by (rule mset_eq_length)
    then show ?thesis by (simp add: length_filter_conv_card)
  qed
  have mono: "?s ! i \<le> ?s ! j" if "i \<le> j" "j < length xs" for i j
    using that sorted_nth_mono [of ?s i j] by simp
  have "{i. i < length xs \<and> ?s ! i < ?s ! k} \<subseteq> {..<k}"
    using mono [of k] by (auto simp: not_less [symmetric])
  moreover have "{..k} \<subseteq> {i. i < length xs \<and> ?s ! i \<le> ?s ! k}" using mono assms by auto
  ultimately have "card {i. i < length xs \<and> ?s ! i < ?s ! k} \<le> card {..<k}"
    "card {..k} \<le> card {i. i < length xs \<and> ?s ! i \<le> ?s ! k}" by (simp_all only: card_mono finite_lessThan finite_Collect_conjI finite_Collect_less_nat simp_thms)
  then show ?thesis by (simp add: order_stat_def len)
qed

text \<open>It is unique.\<close>

lemma order_stat_unique:
  assumes "order_stat xs k x" and "order_stat xs k y"
  shows "x = y"
proof -
  have "\<not> u < v" if "order_stat xs k u" "order_stat xs k v" for u v
  proof
    assume "u < v"
    then have "length (filter (\<lambda>z. z \<le> u) xs) \<le> length (filter (\<lambda>z. z < v) xs)"
      unfolding length_filter_conv_card by (intro card_mono) auto
    with that show False by (simp add: order_stat_def)
  qed
  with assms show ?thesis by (metis linorder_neqE)
qed

text \<open>What the fields of a report are, for the measurements of one thread.\<close>

definition order_statistics :: "u32 list \<Rightarrow> analyze_result \<Rightarrow> bool" where
  "order_statistics xs r \<longleftrightarrow> (let n = length xs in
     order_stat xs 0 (min_lat r) \<and> order_stat xs (n div 2) (p50 r) \<and> order_stat xs (n * 99 div 100) (p99 r) \<and>
     order_stat xs (n * 999 div 1000) (p99_9 r) \<and> order_stat xs (n * 9999 div 10000) (p99_99 r) \<and>
     order_stat xs (n * 99999 div 100000) (p99_999 r) \<and> order_stat xs (n - 1) (max_lat r))"

lemma latencies_sorted:
  assumes "0 < n" and "n < 2 ^ 31" and "length xs = n"
  shows "\<exists>r'. latencies n (sort xs @ ys) r = Inr r' \<and> order_statistics xs r' \<and> min_lat r' = sort xs ! 0 \<and>
    max_lat r' = sort xs ! (n - 1) \<and> total_time r' = total_time r \<and> total_cal r' = total_cal r \<and>
    avg_lat r' = avg_lat r \<and> avg_lat_from_cal r' = avg_lat_from_cal r"
proof -
  let ?ps = "[0, n - 1, n div 2, n * 99 div 100, n * 999 div 1000, n * 9999 div 10000, n * 99999 div 100000]"
  have lt: "\<forall>j \<in> set ?ps. j < n" using assms(1) by auto
  then have "list_all (\<lambda>j. j < length (sort xs @ ys)) ?ps" using assms(3) by (auto simp: list_all_iff)
  moreover have at: "(sort xs @ ys) ! j = sort xs ! j" if "j < n" for j using that assms(3) by (simp add: nth_append)
  ultimately show ?thesis
    unfolding latencies_def Let_def pct_floor [OF assms(1,2)]
    using lt order_stat_sort [of _ xs] assms(3) by (simp add: order_statistics_def Let_def)
qed

text \<open>The averages are exact, to the nanosecond below.\<close>

lemma mean_exact:
  assumes "xs \<noteq> []" and "length xs < 2 ^ 31"
  shows "unat (ucast (sum_times 0 xs div of_nat (length xs)) :: u32) = sum_list (map unat xs) div length xs"
proof -
  let ?n = "length xs" and ?S = "sum_list (map unat xs)"
  have u: "unat (sum_times 0 xs div of_nat ?n) = ?S div ?n"
    using assms(2) by (simp add: unat_div_distrib sum_times_exact unat_of_nat_u64)
  have "?S div ?n \<le> ?n * (2 ^ 32 - 1) div ?n" by (intro div_le_mono sum_list_u32)
  also have "\<dots> = 2 ^ 32 - 1" using assms(1) by simp
  finally have "?S div ?n < 2 ^ 32" by simp
  with u show ?thesis by (simp add: unsigned_ucast_eq take_bit_nat_eq_self)
qed

lemma Analyze_one_thread:
  assumes n: "n = unat (iters g)" "0 < n" "n < 2 ^ 31" "n \<le> length data" and xs: "xs = take n data"
  shows "\<exists>r d. Analyze g data t 1 = Inr (r, d) \<and> mset (take n d) = mset xs \<and> drop n d = drop n data \<and>
    order_statistics xs r \<and> unat (avg_lat_from_cal r) = sum_list (map unat xs) div n \<and>
    unat (avg_lat r) = unat t div n mod 2 ^ 32"
proof -
  have len: "length xs = n" using n xs by simp
  let ?r = "zero_result\<lparr>total_time := ucast t, total_cal := ucast (sum_times 0 xs),
    bandwidth := fdiv (rnd (rnd (rnd (rnd (rnd (of_nat (unat (access_size g)) * of_nat n) * of_int 1) / 1024) / 1024) * 1000000000))
      (rnd (of_nat (unat t))), avg_lat := ucast (t div of_nat n), avg_lat_from_cal := ucast (sum_times 0 xs div of_nat n)\<rparr>"
  obtain r where r: "latencies n (sort xs @ drop n data) ?r = Inr r" "order_statistics xs r"
    and avg: "avg_lat r = ucast (t div of_nat n)" "avg_lat_from_cal r = ucast (sum_times 0 xs div of_nat n)"
    using latencies_sorted [OF n(2,3) len, of "drop n data" ?r] by auto
  have "Analyze g data t 1 = Inr (r, sort xs @ drop n data)"
    using n r(1) by (simp add: Analyze_def sort_prefix_def xs Let_def)
  moreover have "unat (avg_lat_from_cal r) = sum_list (map unat xs) div n"
    using mean_exact [of xs] len n(2,3) by (cases "xs = []") (simp_all add: avg(2))
  moreover have "unat (avg_lat r) = unat t div n mod 2 ^ 32"
    using n(3) by (simp add: avg(1) unsigned_ucast_eq take_bit_eq_mod unat_div_distrib unat_of_nat_u64)
  ultimately show ?thesis using r(2) len by (intro exI [of _ r] exI [of _ "sort xs @ drop n data"]) simp
qed

lemma Analyze_total:
  assumes "0 < unat (iters g)" and "unat (iters g) < 2 ^ 31" and "unat (iters g) \<le> length data"
  shows "\<exists>r d. Analyze g data t k = Inr (r, d) \<and> length d = length data"
proof (cases "k = 1")
  case True
  from Analyze_one_thread [OF refl assms refl, of t] obtain r d where d: "Analyze g data t 1 = Inr (r, d)"
    "mset (take (unat (iters g)) d) = mset (take (unat (iters g)) data)" "drop (unat (iters g)) d = drop (unat (iters g)) data" by blast
  then have "mset (take (unat (iters g)) d @ drop (unat (iters g)) d) = mset (take (unat (iters g)) data @ drop (unat (iters g)) data)"
    unfolding mset_append by simp
  then have "length d = length data" by (metis append_take_drop_id mset_eq_length)
  with True d show ?thesis by blast
next
  case False
  with assms show ?thesis by (simp add: Analyze_def Let_def)
qed

section \<open>Properties\<close>

text \<open>C24: The evaluation of a single thread's run always succeeds and its fields are what their names say.
  The \<open>n\<close> measurements are only permuted and what lies behind them stays. The minimum, the median, the
  99th, 99.9th, 99.99th and 99.999th percentile and the maximum are the order statistics of the ranks
  \<open>0\<close>, \<open>n / 2\<close>, \<open>99 n / 100\<close>, \<open>999 n / 1000\<close>, \<open>9999 n / 10000\<close>, \<open>99999 n / 100000\<close> and \<open>n - 1\<close>,
  rounded down, although the code computes four of these ranks in floating point. The average of the
  measurements is exact to the nanosecond below, the average of the run time modulo \<open>2 ^ 32\<close>.\<close>

theorem Analyze_single:
  assumes "n = unat (iters g)" "0 < n" "n < 2 ^ 31" "n \<le> length data" and "xs = take n data"
  shows "\<exists>r d. Analyze g data t 1 = Inr (r, d) \<and> mset (take n d) = mset xs \<and> drop n d = drop n data \<and>
    order_statistics xs r \<and> unat (avg_lat_from_cal r) = sum_list (map unat xs) div n \<and>
    unat (avg_lat r) = unat t div n mod 2 ^ 32"
  using assms by (rule Analyze_one_thread)

theorem Analyze_single_witness:
  "\<exists>r d. Analyze (demo_cfg\<lparr>iters := 3\<rparr>) [5, 1, 3, 0] 100 1 = Inr (r, d) \<and>
    order_stat [5, 1, 3] 1 (p50 r) \<and> order_stat [5, 1, 3] 2 (p99 r) \<and> unat (avg_lat_from_cal r) = 3 \<and> unat (avg_lat r) = 33"
  using Analyze_single [of 3 "demo_cfg\<lparr>iters := 3\<rparr>" "[5, 1, 3, 0]" "[5, 1, 3]" 100]
  by (auto simp: order_statistics_def)

text \<open>C25: The totals of a report are kept to 32 bits of nanoseconds: they are the run time and the sum
  of the measurements modulo \<open>2 ^ 32\<close>, so exact only below 4.3 seconds.\<close>

theorem Analyze_totals_truncated:
  assumes "Analyze g data t k = Inr (r, d)"
  shows "unat (total_time r) = unat t mod 2 ^ 32 \<and>
    unat (total_cal r) = sum_list (map unat (take (unat (iters g)) data)) mod 2 ^ 32"
proof -
  let ?xs = "take (unat (iters g)) data"
  from assms have "length ?xs < 2 ^ 31" by (auto simp: Analyze_def Let_def split: if_splits)
  moreover from assms have "total_time r = ucast t" "total_cal r = ucast (sum_times 0 ?xs)"
    by (auto simp: Analyze_def latencies_def zero_result_def Let_def split: if_splits sum.splits)
  ultimately show ?thesis by (simp add: unsigned_ucast_eq sum_times_exact take_bit_eq_mod)
qed

theorem Analyze_totals_truncated_witness:
  "\<exists>r d. Analyze (demo_cfg\<lparr>iters := 2\<rparr>) [4000000000, 4000000000] 5000000000 2 = Inr (r, d) \<and>
    unat (total_time r) = 705032704 \<and> unat (total_cal r) = 3705032704"
proof -
  have "\<exists>r d. Analyze (demo_cfg\<lparr>iters := 2\<rparr>) [4000000000, 4000000000] 5000000000 2 = Inr (r, d)"
    by (simp add: Analyze_def Let_def)
  then show ?thesis
    using Analyze_totals_truncated [of "demo_cfg\<lparr>iters := 2\<rparr>" "[4000000000, 4000000000]" 5000000000 2] by fastforce
qed

text \<open>The variant for the cache line test computes the same report as Analyze from the same
  measurements, except that it leaves out what needs the run time.\<close>

theorem AnalyzeForCachelineFlush_same:
  "AnalyzeForCachelineFlush data (ucast (iters g)) k =
     (case Analyze g data t k of
        Inl e \<Rightarrow> Inl e
      | Inr (r, d) \<Rightarrow> Inr (r\<lparr>total_time := 0, bandwidth := Fin 0, avg_lat := 0\<rparr>, d))"
  by (simp add: AnalyzeForCachelineFlush_def Analyze_def latencies_def zero_result_def Let_def)

lemma new_Report_Inr:
  assumes "new_Report time (g, o1) = Inr (r, g', o2)"
  shows "report_fp r = Some Stdout" and "\<exists>pm. g' = g\<lparr>g_pm := pm\<rparr> \<and> live_maps pm = live_maps (g_pm g)"
proof -
  obtain fd fs where opn: "OpenAndAllocAtSize (report_path g time) 0 (pm_fs (g_pm g)) = (fd, fs)" by fastforce
  from assms show "report_fp r = Some Stdout" by (auto simp: new_Report_def opn Let_def split: if_splits)
  from assms show "\<exists>pm. g' = g\<lparr>g_pm := pm\<rparr> \<and> live_maps pm = live_maps (g_pm g)"
    by (cases "time = []") (auto simp: new_Report_def opn Let_def split: if_splits intro: exI [of _ "g_pm g"])
qed

text \<open>C26: The report of a run never reaches its file. The constructor opens a file when it gets a time,
  but then reaches the label for the standard output: the object always prints there, every line
  of a sub-operation goes there, and the descriptor of the file stays open after the object is
  destroyed.\<close>

theorem Report_falls_through:
  assumes "new_Report time (g, o1) = Inr (r, g', o2)"
  shows "report_fp r = Some Stdout \<and> printed o2 = printed o1 \<and>
    (\<forall>P k t x o3. ReportSubOp P r k t x o2 = Inr o3 \<longrightarrow> buffered o3 = buffered o2) \<and>
    (time \<noteq> [] \<longrightarrow> (report_fd r, comps (report_path g time)) \<in> set (fds (pm_fs (g_pm (fst (delete_Report r (g', o2)))))))"
proof -
  have out: "buffered (foldl (\<lambda>b l. fprintf Stdout l b) b ls) = buffered b" for b ls
    by (induction ls arbitrary: b) (simp_all add: fprintf_def)
  have buf: "printed (foldl (\<lambda>b l. fprintf (Stream fd) l b) b ls) = printed b" for fd b ls
    by (induction ls arbitrary: b) (simp_all add: fprintf_def)
  obtain fd fs where opn: "OpenAndAllocAtSize (report_path g time) 0 (pm_fs (g_pm g)) = (fd, fs)" by fastforce
  have fp: "report_fp r = Some Stdout" "printed o2 = printed o1"
    using assms by (auto simp: new_Report_def opn buf Let_def split: if_splits)
  moreover have "buffered o3 = buffered o2" if "ReportSubOp P r k t x o2 = Inr o3" for P k t x o3
    using that fp(1) out unfolding ReportSubOp_def by (auto split: sum.splits simp del: foldl.simps foldl_append)
  moreover have "(report_fd r, comps (report_path g time)) \<in> set (fds (pm_fs (g_pm (fst (delete_Report r (g', o2))))))"
    if "time \<noteq> []"
  proof -
    have "(fd, comps (report_path g time)) \<in> set (fds fs)" if "0 \<le> fd"
      using OpenAndAllocAtSize_ok [where f = "report_path g time" and sz = 0 and fs = "pm_fs (g_pm g)"] that by (simp add: opn)
    with assms that fp(1) show ?thesis
      by (auto simp: new_Report_def opn delete_Report_def Let_def split: if_splits)
  qed
  ultimately show ?thesis by blast
qed

theorem Report_falls_through_witness:
  "\<exists>r g' o2. new_Report ''T'' (cfg demo_world, \<lparr>printed = [], buffered = []\<rparr>) = Inr (r, g', o2) \<and> report_fp r = Some Stdout"
proof -
  have "comps (report_path (cfg demo_world) ''T'') = [''r'', ''report'', ''aep_test-T-1K-cpy-seq-16B-report.txt'']"
    by (simp add: report_path_def demo_world_def demo_cfg_def initial_globals_def Size2HumanStr_def to_string.simps
        RwType2Str_def rw_type_2_str_def AccessMode2Str_def access_mode_2_str_def rep_report_dir_def rep_file_prefix_def
        rep_report_suffix_def Let_def comps_def digit_chars)
  then have "\<exists>r s. new_Report ''T'' (cfg demo_world, \<lparr>printed = [], buffered = []\<rparr>) = Inr (r, s)"
    by (simp add: new_Report_def OpenAndAllocAtSize_def sys_open_def demo_world_def demo_rep_fs_def parent_ok_def new_fd_def Let_def)
  then show ?thesis
    using Report_falls_through [of "''T''" "cfg demo_world" "\<lparr>printed = [], buffered = []\<rparr>"] by fast
qed

end
