(* ===== verification/Study_Run.thy ===== *)
theory Study_Run
  imports Study_Copy Study_Records Study_Report
begin

text \<open>
  How bgtest/AEP/aep_study.cc runs its threads: the loop that creates and joins them, the
  loop over the sub-operations with its evaluation, and MainJobNormal. How the threads
  interleave is a parameter (\<open>pick\<close>): the thread that takes the next step, as a function of the
  state. Every run of the step relation is one such schedule.
\<close>

section \<open>Creating and joining the threads\<close>

definition live :: "sys \<Rightarrow> nat list" where
  "live s = filter (\<lambda>k. j_pc (s_jobs s ! k) \<noteq> Finished) [0..<length (s_jobs s)]"

definition next_thread :: "(sys \<Rightarrow> nat) \<Rightarrow> sys \<Rightarrow> nat" where
  "next_thread pick s = (if pick s \<in> set (live s) then pick s else hd (live s))"

lemma live_iff: "k \<in> set (live s) \<longleftrightarrow> k < length (s_jobs s) \<and> j_pc (s_jobs s ! k) \<noteq> Finished"
  by (auto simp: live_def)

lemma live_Nil: "live s = [] \<longleftrightarrow> joined s"
  by (auto simp: live_def joined_def list_all_length filter_empty_conv)

lemma next_thread_live: "live s \<noteq> [] \<Longrightarrow> next_thread pick s \<in> set (live s)"
  by (simp add: next_thread_def)

lemma sys_rank_step:
  assumes "k \<in> set (live s)" and "job_step msk c k (s_jobs s ! k) (s_mach s, s_sched s) = Some (Inr (j, m, w))"
  shows "sys_rank (s\<lparr>s_mach := m, s_sched := w, s_jobs := (s_jobs s)[k := j]\<rparr>) < sys_rank s"
proof -
  from assms(1) have k: "k < length (s_jobs s)" "j_pc (s_jobs s ! k) \<noteq> Finished" by (simp_all add: live_iff)
  from job_step_rank [OF k(2) assms(2)] have lt: "rank j < rank (s_jobs s ! k)" .
  have "rank (s_jobs s ! k) \<le> sum_list (map rank (s_jobs s))" using k(1) by (intro member_le_sum_list) auto
  with k(1) lt show ?thesis by (simp add: sys_rank_def map_update sum_list_update)
qed

text \<open>The threads run until all have returned.\<close>

function run_sched :: "u32 \<Rightarrow> (nat \<Rightarrow> u64) \<Rightarrow> (sys \<Rightarrow> nat) \<Rightarrow> sys \<Rightarrow> (stop + sys) option" where
  "run_sched msk stack pick s =
     (if live s = [] then Some (Inr s)
      else
        (let k = next_thread pick s in
         case job_step msk (stack k) k (s_jobs s ! k) (s_mach s, s_sched s) of
           None \<Rightarrow> None
         | Some (Inl e) \<Rightarrow> Some (Inl e)
         | Some (Inr (j, m, w)) \<Rightarrow>
             run_sched msk stack pick (s\<lparr>s_mach := m, s_sched := w, s_jobs := (s_jobs s)[k := j]\<rparr>)))"
  by pat_completeness auto
termination
  by (relation "measure (\<lambda>(msk, stack, pick, s). sys_rank s)") (auto intro: sys_rank_step next_thread_live)

declare run_sched.simps [simp del]

text \<open>The contexts that pthread_create is given; one that is missing holds null pointers.\<close>

definition contexts_of :: "nat \<Rightarrow> world \<Rightarrow> stop + thread_context list" where
  "contexts_of n w =
     (if length (thread_contexts w) < n then Inl (Undefined ''thread_contexts out of bounds'')
      else (case those (take n (thread_contexts w)) of
              None \<Rightarrow> Inl (Undefined ''null task'')
            | Some cs \<Rightarrow> Inr cs))"

text \<open>Between the two clock readings the threads are created and joined; they store into the result
  arrays of their contexts.\<close>

definition run_threads :: "(nat \<Rightarrow> u64) \<Rightarrow> (sys \<Rightarrow> nat) \<Rightarrow> world \<Rightarrow> (stop + u64 \<times> world) option" where
  "run_threads stack pick w =
     (let n = unat (thread_num (cfg w)); (start, m0) = GetTsNsec (w_mach w) in
      case contexts_of n w of
        Inl e \<Rightarrow> Some (Inl e)
      | Inr cs \<Rightarrow>
          (case run_sched (buf_slots_mask (cfg w)) stack pick (start_jobs cs m0 (w_sched w)) of
             None \<Rightarrow> None
           | Some (Inl e) \<Rightarrow> Some (Inl e)
           | Some (Inr s) \<Rightarrow>
               (let (end_ts, m1) = GetTsNsec (s_mach s);
                    cs' = map2 (\<lambda>(t, d) j. Some (t, d\<lparr>run_times := j_data j\<rparr>)) cs (s_jobs s)
                in Some (Inr (end_ts - start,
                     w\<lparr>w_mach := m1, w_sched := s_sched s, thread_contexts := cs' @ drop n (thread_contexts w)\<rparr>)))))"

section \<open>Sub-operations\<close>

text \<open>The evaluation of the first thread's measurements, which it leaves sorted, and their line in the
  report.\<close>

definition report_op :: "env \<Rightarrow> (globals \<Rightarrow> u32 list \<Rightarrow> u64 \<Rightarrow> int \<Rightarrow> stop + analyze_result \<times> u32 list) \<Rightarrow> report \<Rightarrow>
    u64 \<Rightarrow> world \<times> io \<Rightarrow> stop + world \<times> io" where
  "report_op E analyze rep run_total_time s =
     (let (w, o1) = s; tnum = sint (thread_num (cfg w)) in
      if thread_contexts w = [] then Inl (Undefined ''thread_contexts out of bounds'')
      else
        (case thread_contexts w ! 0 of
           None \<Rightarrow> Inl (Undefined ''null data'')
         | Some (t, d) \<Rightarrow>
             (case analyze (cfg w) (run_times d) run_total_time tnum of
                Inl e \<Rightarrow> Inl e
              | Inr (r, data) \<Rightarrow>
                  (case ReportSubOp (e_pmdk E) rep tnum t r o1 of
                     Inl e \<Rightarrow> Inl e
                   | Inr o2 \<Rightarrow>
                       Inr (w\<lparr>thread_contexts := (thread_contexts w)[0 := Some (t, d\<lparr>run_times := data\<rparr>)]\<rparr>, o2)))))"

text \<open>The body of the loop over the sub-operations, the same in all three jobs up to the evaluation.\<close>

definition sub_op_run :: "env \<Rightarrow> (nat \<Rightarrow> u64) \<Rightarrow> (sys \<Rightarrow> nat) \<Rightarrow>
    (globals \<Rightarrow> u32 list \<Rightarrow> u64 \<Rightarrow> int \<Rightarrow> stop + analyze_result \<times> u32 list) \<Rightarrow> report \<Rightarrow> nat \<Rightarrow> world \<times> io \<Rightarrow>
    (stop + world \<times> io) option" where
  "sub_op_run E stack pick analyze rep k s =
     (let (w, o1) = s in
      case ThreadContextSetSubOp E (int k) w of
        Inl e \<Rightarrow> Some (Inl e)
      | Inr w1 \<Rightarrow>
          (case run_threads stack pick w1 of
             None \<Rightarrow> None
           | Some (Inl e) \<Rightarrow> Some (Inl e)
           | Some (Inr (run_total_time, w2)) \<Rightarrow> Some (report_op E analyze rep run_total_time (w2, o1))))"

text \<open>A step of the process that always returns and leaves the output alone.\<close>

definition on_world :: "(world \<Rightarrow> stop + world) \<Rightarrow> world \<times> io \<Rightarrow> (stop + world \<times> io) option" where
  "on_world f s = Some (case f (fst s) of Inl e \<Rightarrow> Inl e | Inr w \<Rightarrow> Inr (w, snd s))"

text \<open>The contexts are created, every sub-operation of the type is run, the contexts are destroyed.\<close>

definition job_body :: "env \<Rightarrow> (nat \<Rightarrow> u64) \<Rightarrow> (sys \<Rightarrow> nat) \<Rightarrow>
    (globals \<Rightarrow> u32 list \<Rightarrow> u64 \<Rightarrow> int \<Rightarrow> stop + analyze_result \<times> u32 list) \<Rightarrow> report \<Rightarrow> string \<Rightarrow> world \<times> io \<Rightarrow>
    (stop + world \<times> io) option" where
  "job_body E stack pick analyze rep time s =
     do_all ([on_world (InitThreadContext E time None)] @
             map (sub_op_run E stack pick analyze rep) [0..<GetSubOpNum (e_pmdk E) (rw_type (cfg (fst s)))] @
             [on_world DestroyThreadContext]) s"

definition MainJobNormal :: "env \<Rightarrow> (nat \<Rightarrow> u64) \<Rightarrow> (sys \<Rightarrow> nat) \<Rightarrow> report \<Rightarrow> string \<Rightarrow> world \<times> io \<Rightarrow>
    (stop + world \<times> io) option" where
  "MainJobNormal E stack pick rep time s = job_body E stack pick Analyze rep time s"


section \<open>Schedules\<close>

lemma run_sched_step:
  assumes "live s \<noteq> []"
  shows "run_sched msk stack pick s =
    (let k = next_thread pick s in
     case job_step msk (stack k) k (s_jobs s ! k) (s_mach s, s_sched s) of
       None \<Rightarrow> None
     | Some (Inl e) \<Rightarrow> Some (Inl e)
     | Some (Inr (j, m, w)) \<Rightarrow>
         run_sched msk stack pick (s\<lparr>s_mach := m, s_sched := w, s_jobs := (s_jobs s)[k := j]\<rparr>))"
  using assms by (subst run_sched.simps) simp

lemma next_thread_step:
  assumes "live s \<noteq> []" and "k = next_thread pick s"
    and "job_step msk (stack k) k (s_jobs s ! k) (s_mach s, s_sched s) = Some (Inr (j, m, w))"
  shows "sys_step msk stack s (s\<lparr>s_mach := m, s_sched := w, s_jobs := (s_jobs s)[k := j]\<rparr>)"
  using next_thread_live [OF assms(1), of pick] assms(2,3) by (auto simp: live_iff intro: sys_step.thread)

lemma step_rank: "sys_step msk stack s s' \<Longrightarrow> sys_rank s' < sys_rank s"
  by (erule sys_stepE) (auto simp: live_iff intro: sys_rank_step)

text \<open>What a schedule does beyond states of lower rank does not matter.\<close>

lemma run_sched_cong:
  assumes "\<And>x. sys_rank x \<le> sys_rank s \<Longrightarrow> pick x = pick' x"
  shows "run_sched msk stack pick s = run_sched msk stack pick' s"
  using assms
proof (induction msk stack pick s rule: run_sched.induct)
  case (1 msk stack pick s)
  show ?case
  proof (cases "live s = []")
    case True
    then show ?thesis by (subst (1 2) run_sched.simps) simp
  next
    case False
    have eq: "next_thread pick' s = next_thread pick s" using 1(2) [of s] by (simp add: next_thread_def)
    let ?k = "next_thread pick s"
    have "run_sched msk stack pick (s\<lparr>s_mach := m, s_sched := w, s_jobs := (s_jobs s)[?k := j]\<rparr>) =
        run_sched msk stack pick' (s\<lparr>s_mach := m, s_sched := w, s_jobs := (s_jobs s)[?k := j]\<rparr>)"
      if st: "job_step msk (stack ?k) ?k (s_jobs s ! ?k) (s_mach s, s_sched s) = Some (Inr (j, m, w))" for j m w
    proof (rule 1(1) [OF False refl st refl refl refl])
      fix x assume "sys_rank x \<le> sys_rank (s\<lparr>s_mach := m, s_sched := w, s_jobs := (s_jobs s)[?k := j]\<rparr>)"
      with sys_rank_step [OF next_thread_live [OF False] st] 1(2) show "pick x = pick' x" by simp
    qed
    then show ?thesis
      unfolding run_sched_step [OF False] eq Let_def by (auto split: option.split sum.split)
  qed
qed

lemma run_sched_runs:
  "run_sched msk stack pick s = Some (Inr s') \<Longrightarrow> (sys_step msk stack)\<^sup>*\<^sup>* s s' \<and> joined s'"
proof (induction msk stack pick s rule: run_sched.induct)
  case (1 msk stack pick s)
  show ?case
  proof (cases "live s = []")
    case True
    with 1(2) show ?thesis by (simp add: run_sched.simps live_Nil)
  next
    case False
    let ?k = "next_thread pick s"
    from 1(2) False obtain j m w where
      st: "job_step msk (stack ?k) ?k (s_jobs s ! ?k) (s_mach s, s_sched s) = Some (Inr (j, m, w))"
      and r: "run_sched msk stack pick (s\<lparr>s_mach := m, s_sched := w, s_jobs := (s_jobs s)[?k := j]\<rparr>) = Some (Inr s')"
      by (auto simp: run_sched_step Let_def split: option.splits sum.splits)
    from 1(1) [OF False refl st refl refl refl r] next_thread_step [where stack = stack and pick = pick and s = s, OF False refl st]
    show ?thesis by (auto intro: converse_rtranclp_into_rtranclp)
  qed
qed

lemma runs_run_sched:
  assumes "(sys_step msk stack)\<^sup>*\<^sup>* s s'" and "joined s'"
  shows "\<exists>pick. run_sched msk stack pick s = Some (Inr s')"
  using assms(1)
proof (induction rule: converse_rtranclp_induct)
  case base
  then show ?case using assms(2) by (intro exI) (simp add: run_sched.simps live_Nil)
next
  case (step s t)
  then obtain pick where p: "run_sched msk stack pick t = Some (Inr s')" by blast
  from step(1) obtain k j m w where k: "k \<in> set (live s)"
    and st: "job_step msk (stack k) k (s_jobs s ! k) (s_mach s, s_sched s) = Some (Inr (j, m, w))"
    and t: "t = s\<lparr>s_mach := m, s_sched := w, s_jobs := (s_jobs s)[k := j]\<rparr>"
    by (rule sys_stepE) (auto simp: live_iff)
  let ?pick = "pick(s := k)"
  have n: "next_thread ?pick s = k" using k by (simp add: next_thread_def)
  have "run_sched msk stack ?pick t = run_sched msk stack pick t"
    using step_rank [OF step(1)] by (intro run_sched_cong) auto
  moreover have "live s \<noteq> []" using k by auto
  ultimately have "run_sched msk stack ?pick s = Some (Inr s')"
    using st p by (simp add: run_sched_step n t)
  then show ?case by blast
qed

text \<open>Threads that are in order always come to the end, on every schedule.\<close>

lemma run_sched_total:
  assumes "sys_ok msk stack s"
  shows "\<exists>s'. run_sched msk stack pick s = Some (Inr s')"
  using assms
proof (induction msk stack pick s rule: run_sched.induct)
  case (1 msk stack pick s)
  show ?case
  proof (cases "live s = []")
    case True
    then show ?thesis by (simp add: run_sched.simps)
  next
    case False
    let ?k = "next_thread pick s"
    have k: "?k < length (s_jobs s)" "j_pc (s_jobs s ! ?k) \<noteq> Finished"
      using next_thread_live [OF False, of pick] by (simp_all add: live_iff)
    from 1(2) k(1) have "job_ok msk (stack ?k) (s_mach s) (s_sched s) (s_jobs s ! ?k)" by (simp add: sys_ok_def)
    from job_step_ok [OF this k(2), of ?k] obtain j m w where
      st: "job_step msk (stack ?k) ?k (s_jobs s ! ?k) (s_mach s, s_sched s) = Some (Inr (j, m, w))" by blast
    from sys_step_ok(1) [OF next_thread_step [where stack = stack and pick = pick and s = s, OF False refl st] 1(2)]
    show ?thesis using 1(1) [OF False refl st refl refl refl] by (simp add: run_sched_step [OF False] st)
  qed
qed


section \<open>What a run relies on\<close>

definition runnable :: "numa \<Rightarrow> globals \<Rightarrow> bool" where
  "runnable N g \<longleftrightarrow> sized g \<and> CheckGlobalCfg N g = Inr g \<and> buffer_size g \<le> AEP_SIZE \<and>
     ValidateThreadNum (thread_num g) \<and> 0 < thread_num g \<and> ValidateIters (iters g) \<and> unat (iters g) < 2 ^ 31"

text \<open>How far a thread comes, in bytes from the start of its buffer: random slots go up to the mask, and
  so do sequential ones if there are iterations enough.\<close>

definition top_slot :: "globals \<Rightarrow> nat" where
  "top_slot g = (if access_mode g = kSeq then min (unat (buf_slots_mask g)) (unat (iters g) - 1) else unat (buf_slots_mask g))"

definition reach :: "globals \<Rightarrow> nat" where
  "reach g = Suc (top_slot g) * unat (access_size g)"

text \<open>What a run needs of the configuration, whoever made it: the buffers fit the lower half of the
  device, and no thread comes further than twice its buffer, nor further than that half is long.\<close>

definition fits :: "globals \<Rightarrow> bool" where
  "fits g \<longleftrightarrow> (\<exists>a b. a < 32 \<and> b \<le> 35 \<and> buffer_size g = 2 ^ b \<and> access_size g = 2 ^ a \<and>
       access_size_bits g = of_nat a \<and> unat (thread_num g) * 2 ^ b \<le> 2 ^ 35) \<and>
     reach g \<le> 2 * unat (buffer_size g) \<and> reach g \<le> 2 ^ 35 \<and>
     0 < unat (thread_num g) \<and> unat (thread_num g) \<le> 32 \<and> unat (thread_num g) \<le> length (core_ids g) \<and>
     0 < iters g \<and> unat (iters g) < 2 ^ 31"

text \<open>Where the threads come further than their buffers, a copy needs its sources mapped there too: those
  of the last thread lie behind the first 64 GB of the device.\<close>

definition ready :: "world \<Rightarrow> bool" where
  "ready w \<longleftrightarrow> (let g = cfg w in fits g \<and>
     (rw_type g = kCpy \<longrightarrow> reach g \<le> unat (buffer_size g) \<or>
        (\<forall>k < unat (thread_num g). accessible (w_mach w) (aep_buf g + of_nat k * buffer_size g + AEP_SIZE div 2) (reach g))))"

text \<open>The blocks the k-th context allocates.\<close>

definition idx_block :: "env \<Rightarrow> world \<Rightarrow> nat \<Rightarrow> u64" where
  "idx_block E w k = malloc_of E (heap_pos w + 2 * k) (of_nat (MAX_IDX_SIZE * 4))"

definition cpy_block :: "env \<Rightarrow> world \<Rightarrow> nat \<Rightarrow> u64" where
  "cpy_block E w k = malloc_of E (Suc (heap_pos w + 2 * k)) (ucast (access_size (cfg w)))"

text \<open>libpmem2 does what it documents, the first 64 GB of the device are mapped and do not wrap, the
  blocks and the threads' local chars are memory of their own, and the word behind every index
  block is mapped as well, which PrepareJob reads. In a debug build the clock advances between two
  readings, by less than its bound, and the processors exist.\<close>

definition platform :: "env \<Rightarrow> (nat \<Rightarrow> u64) \<Rightarrow> world \<Rightarrow> bool" where
  "platform E stack w \<longleftrightarrow>
     (let g = cfg w; m = w_mach w; n = unat (thread_num g); dev = in_range (aep_buf g) (unat AEP_SIZE) in
      pmem2_documented (e_pmdk E) \<and> accessible m (aep_buf g) (unat AEP_SIZE) \<and>
      unat (aep_buf g) + unat AEP_SIZE \<le> 2 ^ 64 \<and>
      (\<forall>k<n. accessible m (stack k) 1 \<and> \<not> dev (stack k) \<and> accessible m (idx_block E w k) (4 * MAX_IDX_SIZE + 8) \<and>
         accessible m (cpy_block E w k) (unat (access_size g)) \<and>
         (\<forall>a. in_range (cpy_block E w k) (unat (access_size g)) a \<longrightarrow> \<not> dev a \<and> (\<forall>l<n. a \<noteq> stack l))) \<and>
      (debug m \<longrightarrow> (\<forall>p. 0 < ts_at m (Suc p) - ts_at m p \<and> ts_at m (Suc p) - ts_at m p < 2147483647) \<and>
         (\<forall>k<n. unat (core_ids g ! k) < CPU_SETSIZE \<and> unat (core_ids g ! k) \<in> set (online (w_sched w)))))"

lemma in_range_1: "in_range c (Suc 0) a \<longleftrightarrow> a = c"
  by (simp add: in_range_def unat_eq_zero)

lemma runnable_sizes:
  assumes "runnable N g"
  obtains a b where "a \<le> b" and "a < 32" and "b \<le> 35" and "buffer_size g = 2 ^ b" and "access_size g = 2 ^ a"
    and "access_size_bits g = of_nat a" and "buf_slots_mask g = ucast (2 ^ (b - a) - 1 :: u64)"
    and "unat (thread_num g) * 2 ^ b \<le> 2 ^ 35"
proof -
  from assms have "sized g" by (simp add: runnable_def)
  then obtain a b where s: "a \<le> b" "a < 32" "b < 64" "buffer_size g = 2 ^ b" "access_size g = 2 ^ a"
    "access_size_bits g = of_nat a" "buf_slots_mask g = ucast (2 ^ (b - a) - 1 :: u64)" unfolding sized_def by blast
  have "unat (buffer_size g) \<le> unat AEP_SIZE" using assms by (simp add: runnable_def word_le_nat_alt)
  then have b36: "(2 :: nat) ^ b \<le> 2 ^ 36" using s(3,4) by (simp add: unat_exp_u64 AEP_SIZE_def)
  have n: "unat (thread_num g) < 32" "0 < unat (thread_num g)"
    using assms by (simp_all add: runnable_def ValidateThreadNum_def MAX_THREAD_NUM_def word_less_nat_alt)
  have "2 ^ b * unat (thread_num g) < 2 ^ 36 * 32"
    by (rule le_less_trans [OF mult_le_mono1 [OF b36]]) (use n in simp)
  then have u: "unat (buffer_size g * ucast (thread_num g)) = 2 ^ b * unat (thread_num g)"
    using s(3,4) by (subst unat_mult_lem [THEN iffD1]) (simp_all add: unat_exp_u64)
  have "unat (buffer_size g * ucast (thread_num g)) \<le> unat (AEP_SIZE div 2)"
    using assms by (simp add: runnable_def CheckGlobalCfg_Inr word_le_nat_alt)
  then have le: "unat (thread_num g) * 2 ^ b \<le> 2 ^ 35" unfolding u by (simp add: unat_AEP_half mult.commute)
  have "2 ^ b \<le> unat (thread_num g) * (2 :: nat) ^ b" using n(2) by simp
  with le have "(2 :: nat) ^ b \<le> 2 ^ 35" by linarith
  then have "b \<le> 35" by (rule power_le_imp_le_exp [rotated]) simp
  with s le that show thesis by blast
qed

lemma mask_below:
  assumes "s < 64"
  shows "unat (ucast (2 ^ s - 1 :: u64) :: u32) < 2 ^ s"
proof -
  have "unat (2 ^ s - 1 :: u64) = 2 ^ s - 1" using assms by (subst unat_minus_one) (simp_all add: unat_exp_u64)
  then have "unat (ucast (2 ^ s - 1 :: u64) :: u32) \<le> 2 ^ s - 1" by (simp add: unsigned_ucast_eq take_bit_nat_less_eq_self)
  moreover have "(0 :: nat) < 2 ^ s" by simp
  ultimately show ?thesis by linarith
qed

lemma reach_mask:
  assumes "unat (buf_slots_mask g) < 2 ^ (b - a) \<or> access_mode g = kSeq \<and> 0 < unat (iters g) \<and> unat (iters g) \<le> 2 ^ (b - a)"
    and "a \<le> b" and "unat (access_size g) = 2 ^ a"
  shows "reach g \<le> 2 ^ b"
proof -
  have "Suc (top_slot g) \<le> 2 ^ (b - a)" using assms(1) by (auto simp: top_slot_def)
  then have "Suc (top_slot g) * 2 ^ a \<le> 2 ^ (b - a) * 2 ^ a" by (rule mult_le_mono1)
  then show ?thesis using assms(2,3) by (simp add: reach_def power_add [symmetric])
qed

lemma runnable_reach:
  assumes "runnable N g"
  shows "fits g \<and> reach g \<le> unat (buffer_size g)"
proof -
  from assms obtain a b where "a \<le> b" "a < 32" "b \<le> 35" "buffer_size g = 2 ^ b" "access_size g = 2 ^ a"
    "access_size_bits g = of_nat a" and m: "buf_slots_mask g = ucast (2 ^ (b - a) - 1 :: u64)"
    and "unat (thread_num g) * 2 ^ b \<le> 2 ^ 35" by (rule runnable_sizes)
  moreover have "unat (buf_slots_mask g) < 2 ^ (b - a)" unfolding m by (rule mask_below) (use \<open>b \<le> 35\<close> in simp)
  moreover have "0 < unat (thread_num g) \<and> unat (thread_num g) \<le> 32 \<and> unat (thread_num g) \<le> length (core_ids g) \<and>
      0 < iters g \<and> unat (iters g) < 2 ^ 31"
    using assms by (auto simp: runnable_def ValidateThreadNum_def MAX_THREAD_NUM_def ValidateIters_def word_less_nat_alt
      CheckGlobalCfg_Inr check_numa_def split: if_splits)
  moreover from calculation have "reach g \<le> 2 ^ b" by (intro reach_mask [where a = a]) (simp_all add: unat_exp_u32)
  then have "reach g \<le> unat (buffer_size g)" using \<open>b \<le> 35\<close> \<open>buffer_size g = 2 ^ b\<close> by (simp add: unat_exp_u64)
  moreover have "unat (buffer_size g) \<le> 2 ^ 35"
    using \<open>b \<le> 35\<close> \<open>buffer_size g = 2 ^ b\<close> power_increasing [of b 35 "2 :: nat"] by (simp add: unat_exp_u64)
  ultimately show ?thesis unfolding fits_def by (intro conjI) (blast | linarith)+
qed

lemma runnable_fits: "runnable N g \<Longrightarrow> fits g"
  using runnable_reach by blast

lemma runnable_ready: "runnable N (cfg w) \<Longrightarrow> ready w"
  using runnable_reach by (simp add: ready_def Let_def)

lemma ready_source:
  assumes "ready w" and "rw_type (cfg w) = kCpy" and "\<not> reach (cfg w) \<le> unat (buffer_size (cfg w))" and "k < unat (thread_num (cfg w))"
  shows "accessible (w_mach w) (aep_buf (cfg w) + of_nat k * buffer_size (cfg w) + AEP_SIZE div 2) (reach (cfg w))"
  using assms unfolding ready_def Let_def by blast

lemma ready_fits: "ready w \<Longrightarrow> fits (cfg w)"
  by (simp add: ready_def Let_def)

lemma fits_sizes:
  assumes "fits g"
  obtains a b where "a < 32" and "b \<le> 35" and "buffer_size g = 2 ^ b" and "access_size g = 2 ^ a"
    and "access_size_bits g = of_nat a" and "unat (thread_num g) * 2 ^ b \<le> 2 ^ 35"
    and "unat (buffer_size g) = 2 ^ b" and "unat (access_size g) = 2 ^ a"
  using assms by (auto simp: fits_def unat_exp_u32 unat_exp_u64)

text \<open>The k-th buffer lies in the lower half of the device.\<close>

lemma buffer_in_half:
  assumes "k < n" and "n * 2 ^ b \<le> 2 ^ 35" and "in_range (base + of_nat k * 2 ^ b) (2 ^ b) a"
  shows "in_range base (2 ^ 35) a"
proof (rule in_range_sub [where k = "k * 2 ^ b" and n = "2 ^ b"])
  have "Suc k * 2 ^ b \<le> n * 2 ^ b" using assms(1) by (intro mult_le_mono1) simp
  with assms(2) show "k * 2 ^ b + 2 ^ b \<le> 2 ^ 35" by simp
  show "in_range (base + of_nat (k * 2 ^ b)) (2 ^ b) a" using assms(3) by simp
qed simp

lemma buffers_disjoint:
  assumes "k < n" and "l < n" and "k \<noteq> l" and "n * 2 ^ b \<le> 2 ^ 35"
    and "in_range (base + of_nat k * 2 ^ b) (2 ^ b) a"
  shows "\<not> in_range (base + of_nat l * 2 ^ b) (2 ^ b) a"
proof
  assume r: "in_range (base + of_nat l * 2 ^ b) (2 ^ b) a"
  have at: "unat (a - base) div 2 ^ b = j" if j: "j < n" "in_range (base + of_nat j * 2 ^ b) (2 ^ b) a" for j
  proof -
    have "Suc j * 2 ^ b \<le> n * 2 ^ b" using j(1) by (intro mult_le_mono1) simp
    with assms(4) have le: "j * 2 ^ b + 2 ^ b \<le> 2 ^ 35" by simp
    let ?x = "a - (base + of_nat j * 2 ^ b)"
    have x: "unat ?x < 2 ^ b" using j(2) by (simp add: in_range_def)
    have eq: "a - base = of_nat (j * 2 ^ b) + ?x" by simp
    have "unat (of_nat (j * 2 ^ b) :: u64) = j * 2 ^ b" using le by (intro unat_of_nat_u64) simp
    then have "unat (a - base) = j * 2 ^ b + unat ?x"
      unfolding eq by (subst unat_add_lem [THEN iffD1]) (use le x in simp_all)
    with x show ?thesis by simp
  qed
  from at [OF assms(1,5)] at [OF assms(2) r] assms(3) show False by simp
qed

lemma half_in_device: "in_range base (2 ^ 35) a \<Longrightarrow> in_range base (unat AEP_SIZE) a"
  using in_range_mono [of base "2 ^ 35" a "unat AEP_SIZE"] by (simp add: AEP_SIZE_def)

text \<open>The slots of a task that was made.\<close>

lemma made_slot_seq:
  assumes "made E w k t" and "access_mode (cfg w) = kSeq"
  shows "unat (slot_of (buf_slots_mask (cfg w)) t i) \<le> i"
proof -
  have "unat ((of_nat i :: u32) AND buf_slots_mask (cfg w)) \<le> unat (of_nat i :: u32)"
    using word_and_le2 [of "of_nat i" "buf_slots_mask (cfg w)"] by (simp add: word_le_nat_alt)
  also have "\<dots> \<le> i" by (simp add: unat_of_nat)
  finally show ?thesis using assms by (simp add: slot_of_def made_fields [OF assms(1)])
qed

lemma made_slot_masked:
  assumes "made E w k t"
  shows "unat (slot_of (buf_slots_mask (cfg w)) t i) \<le> unat (buf_slots_mask (cfg w))"
proof -
  let ?m = "buf_slots_mask (cfg w)"
  have and_le: "unat (x AND ?m) \<le> unat ?m" for x :: u32
    using word_and_le1 [of x ?m] by (simp add: word_le_nat_alt)
  show ?thesis
  proof (cases "t_access_mode t = kRandom")
    case True
    have "i mod MAX_IDX_SIZE < MAX_IDX_SIZE" by (simp add: MAX_IDX_SIZE_def)
    with True show ?thesis by (simp add: slot_of_def made_fields(10) [OF assms(1)] and_le)
  next
    case False
    then show ?thesis by (simp add: slot_of_def and_le)
  qed
qed

lemma made_slot:
  assumes "made E w k t" and "i < unat (t_iters t)"
  shows "unat (slot_of (buf_slots_mask (cfg w)) t i) \<le> top_slot (cfg w)"
    and "unat (slot_of (buf_slots_mask (cfg w)) t i) * unat (access_size (cfg w)) + unat (access_size (cfg w)) \<le> reach (cfg w)"
proof -
  show top: "unat (slot_of (buf_slots_mask (cfg w)) t i) \<le> top_slot (cfg w)"
    using made_slot_masked [OF assms(1), of i] made_slot_seq [OF assms(1), of i] assms(2)
    by (auto simp: top_slot_def made_fields [OF assms(1)])
  have "Suc (unat (slot_of (buf_slots_mask (cfg w)) t i)) * unat (access_size (cfg w)) \<le> reach (cfg w)"
    unfolding reach_def using top by (intro mult_le_mono1) simp
  then show "unat (slot_of (buf_slots_mask (cfg w)) t i) * unat (access_size (cfg w)) + unat (access_size (cfg w)) \<le> reach (cfg w)"
    by simp
qed


section \<open>From the contexts to threads that are in order\<close>

definition same_platform :: "world \<Rightarrow> machine \<Rightarrow> sched \<Rightarrow> bool" where
  "same_platform w m sc \<longleftrightarrow> mapped m = mapped (w_mach w) \<and> debug m = debug (w_mach w) \<and>
     clock_src m = clock_src (w_mach w) \<and> online sc = online (w_sched w)"

lemma accessible_dev:
  assumes "accessible m base (unat AEP_SIZE)" and "k < n" and "n \<le> 32" and "n * 2 ^ b \<le> 2 ^ 35"
  shows "i \<le> 2 * 2 ^ b \<Longrightarrow> accessible m (base + of_nat k * 2 ^ b) i"
    and "i \<le> 2 ^ b \<Longrightarrow> accessible m (base + of_nat k * 2 ^ b + AEP_SIZE div 2) i"
    and "accessible m (base + of_nat k * 2 ^ b) (unat AEP_TAIL_READ_SIZE)"
    and "accessible m (base + of_nat k * 2 ^ b + AEP_SIZE div 2) (unat AEP_TAIL_READ_SIZE)"
proof -
  have "Suc k * 2 ^ b \<le> n * 2 ^ b" using assms(2) by (intro mult_le_mono1) simp
  with assms(4) have kb: "k * 2 ^ b + 2 ^ b \<le> 2 ^ 35" by simp
  have tail: "k * 2 ^ b + 2 ^ 21 \<le> 2 ^ 35"
  proof (cases "(2 :: nat) ^ 21 \<le> 2 ^ b")
    case True
    with kb show ?thesis by linarith
  next
    case False
    have "k * 2 ^ b \<le> 32 * 2 ^ 21" using assms(2,3) False by (intro mult_le_mono) simp_all
    with False show ?thesis by simp
  qed
  have sz: "unat AEP_SIZE = 2 ^ 36" "unat AEP_TAIL_READ_SIZE = 2 ^ 21" "AEP_SIZE div 2 = of_nat (2 ^ 35)"
    by (simp_all add: AEP_SIZE_def AEP_TAIL_READ_SIZE_def)
  have lo: "accessible m (base + of_nat (k * 2 ^ b)) i" if "k * 2 ^ b + i \<le> 2 ^ 36" for i
    using accessible_sub [OF assms(1), of "k * 2 ^ b" i] that by (simp add: sz del: of_nat_mult)
  have hi: "accessible m (base + of_nat (k * 2 ^ b + 2 ^ 35)) i" if "k * 2 ^ b + 2 ^ 35 + i \<le> 2 ^ 36" for i
    using accessible_sub [OF assms(1), of "k * 2 ^ b + 2 ^ 35" i] that by (simp add: sz del: of_nat_mult of_nat_add)
  show "accessible m (base + of_nat k * 2 ^ b) i" if "i \<le> 2 * 2 ^ b"
    using lo [of i] kb that by simp
  show "accessible m (base + of_nat k * 2 ^ b + AEP_SIZE div 2) i" if "i \<le> 2 ^ b"
    using hi [of i] kb that by (simp add: sz add.assoc)
  show "accessible m (base + of_nat k * 2 ^ b) (unat AEP_TAIL_READ_SIZE)"
    "accessible m (base + of_nat k * 2 ^ b + AEP_SIZE div 2) (unat AEP_TAIL_READ_SIZE)"
    using lo [of "2 ^ 21"] hi [of "2 ^ 21"] tail by (simp_all add: sz add.assoc)
qed

lemma fits_threads: "fits g \<Longrightarrow> unat (thread_num g) \<le> 32 \<and> 0 < unat (thread_num g)"
  by (simp add: fits_def)

lemma platformD:
  assumes "platform E stack w" and "same_platform w m sc"
  shows "accessible m (aep_buf (cfg w)) (unat AEP_SIZE)"
    and "k < unat (thread_num (cfg w)) \<Longrightarrow> accessible m (stack k) 1 \<and> accessible m (idx_block E w k) (4 * MAX_IDX_SIZE + 8) \<and>
      accessible m (cpy_block E w k) (unat (access_size (cfg w)))"
    and "debug m \<Longrightarrow> 0 < ts_at m (Suc p) - ts_at m p \<and> ts_at m (Suc p) - ts_at m p < 2147483647"
    and "debug m \<Longrightarrow> k < unat (thread_num (cfg w)) \<Longrightarrow>
      unat (core_ids (cfg w) ! k) < CPU_SETSIZE \<and> unat (core_ids (cfg w) ! k) \<in> set (online sc)"
proof -
  from assms(2) have a: "accessible m = accessible (w_mach w)" and t: "ts_at m = ts_at (w_mach w)"
    and "debug m = debug (w_mach w)" "online sc = online (w_sched w)"
    by (auto simp: same_platform_def ts_at_def intro: accessible_same)
  with assms(1) show "accessible m (aep_buf (cfg w)) (unat AEP_SIZE)"
    "k < unat (thread_num (cfg w)) \<Longrightarrow> accessible m (stack k) 1 \<and> accessible m (idx_block E w k) (4 * MAX_IDX_SIZE + 8) \<and>
      accessible m (cpy_block E w k) (unat (access_size (cfg w)))"
    "debug m \<Longrightarrow> 0 < ts_at m (Suc p) - ts_at m p \<and> ts_at m (Suc p) - ts_at m p < 2147483647"
    "debug m \<Longrightarrow> k < unat (thread_num (cfg w)) \<Longrightarrow>
      unat (core_ids (cfg w) ! k) < CPU_SETSIZE \<and> unat (core_ids (cfg w) ! k) \<in> set (online sc)"
    by (simp_all add: platform_def Let_def)
qed

lemma platform_apart:
  assumes "platform E stack w" and "k < unat (thread_num (cfg w))" and "l < unat (thread_num (cfg w))"
  shows "\<not> in_range (aep_buf (cfg w)) (unat AEP_SIZE) (stack k)"
    and "in_range (cpy_block E w k) (unat (access_size (cfg w))) a \<Longrightarrow> \<not> in_range (aep_buf (cfg w)) (unat AEP_SIZE) a \<and> a \<noteq> stack l"
  using assms by (simp_all add: platform_def Let_def)

lemma made_blocks:
  assumes "made E w k t"
  shows "idx_addr t = idx_block E w k" and "mem_cpy_buf t = cpy_block E w k"
  using assms by (cases t; simp add: made_def idx_block_def cpy_block_def)+

text \<open>What a thread reaches lies in the device.\<close>

lemma reach_in_device:
  assumes "k < n" and "n * 2 ^ b \<le> 2 ^ 35" and "i \<le> 2 * 2 ^ b" and "in_range (base + of_nat k * 2 ^ b) i a"
  shows "in_range base (unat AEP_SIZE) a"
proof (rule in_range_sub [where k = "k * 2 ^ b" and n = i])
  have "Suc k * 2 ^ b \<le> n * 2 ^ b" using assms(1) by (intro mult_le_mono1) simp
  with assms(2,3) show "k * 2 ^ b + i \<le> unat AEP_SIZE" by (simp add: AEP_SIZE_def)
  show "in_range (base + of_nat (k * 2 ^ b)) i a" using assms(4) by simp
qed (simp add: AEP_SIZE_def)

text \<open>The bytes from the start of a buffer that its thread uses.\<close>

definition extent :: "globals \<Rightarrow> nat" where
  "extent g = max (unat (buffer_size g)) (reach g)"

lemma made_bits:
  assumes "made E w k t" and "access_size (cfg w) = 2 ^ a" and "a < 32"
  shows "t_access_size_bits t = of_nat a" and "unat (t_access_size_bits t) = a"
proof -
  have "ucast (2 ^ a :: u32) = (2 ^ a :: u64)"
    using assms(3) by (simp add: word_unat_eq_iff unat_exp_u64 unat_exp_u32)
  then show "t_access_size_bits t = of_nat a" using made_fields(9) [OF assms(1)] fls32_exp [of a] assms(2,3) by simp
  then show "unat (t_access_size_bits t) = a" using assms(3) by (simp add: unat_of_nat)
qed

text \<open>The sources of a copy are mapped, and the block to copy from lies outside of what the thread reaches.\<close>

lemma made_sources:
  assumes run: "ready w" and pf: "platform E stack w" and sp: "same_platform w m sc" and k: "k < unat (thread_num (cfg w))"
    and b: "buffer_size (cfg w) = 2 ^ b" "unat (buffer_size (cfg w)) = 2 ^ b" "unat (thread_num (cfg w)) * 2 ^ b \<le> 2 ^ 35"
    and cpy: "rw_type (cfg w) = kCpy"
  shows "accessible m (aep_buf (cfg w) + of_nat k * 2 ^ b + AEP_SIZE div 2) (extent (cfg w))"
proof (cases "reach (cfg w) \<le> 2 ^ b")
  case True
  note n32 = fits_threads [OF ready_fits [OF run], THEN conjunct1]
  from True accessible_dev(2) [OF platformD(1) [OF pf sp] k n32 b(3), of "2 ^ b"] show ?thesis by (simp add: extent_def b(2))
next
  case False
  then have "extent (cfg w) = reach (cfg w)" by (simp add: extent_def b(2))
  moreover have "accessible m = accessible (w_mach w)" using sp by (intro accessible_same) (simp add: same_platform_def)
  moreover from False have "\<not> reach (cfg w) \<le> unat (buffer_size (cfg w))" by (simp add: b(2))
  from ready_source [OF run cpy this k] have "accessible (w_mach w) (aep_buf (cfg w) + of_nat k * 2 ^ b + AEP_SIZE div 2) (reach (cfg w))"
    by (simp only: b(1))
  ultimately show ?thesis by (simp only:)
qed

lemma made_block_apart:
  assumes pf: "platform E stack w" and md: "made E w k t" and k: "k < unat (thread_num (cfg w))"
    and b: "buffer_size (cfg w) = 2 ^ b" "unat (thread_num (cfg w)) * 2 ^ b \<le> 2 ^ 35" "extent (cfg w) \<le> 2 * 2 ^ b"
  shows "\<not> (in_range (buf t) (extent (cfg w)) x \<and> in_range (mem_cpy_buf t) (unat (access_size (cfg w))) x)"
proof
  assume x: "in_range (buf t) (extent (cfg w)) x \<and> in_range (mem_cpy_buf t) (unat (access_size (cfg w))) x"
  then have "in_range (aep_buf (cfg w)) (unat AEP_SIZE) x"
    using reach_in_device [OF k b(2,3)] by (simp add: made_fields(2) [OF md] b(1))
  with platform_apart(2) [OF pf k k, of x] x show False by (simp add: made_blocks [OF md])
qed

lemma made_needs:
  assumes run: "ready w" and pf: "platform E stack w" and sp: "same_platform w m sc"
    and md: "made E w k t" and k: "k < unat (thread_num (cfg w))"
    and f: "op_of t = Some f" "device_op (rw_type (cfg w)) f"
  shows "\<exists>a. needs (buf_slots_mask (cfg w)) (stack k) m sc t a (extent (cfg w))"
proof -
  note fit = ready_fits [OF run]
  from fit obtain a b where ab: "a < 32" "b \<le> 35" "buffer_size (cfg w) = 2 ^ b" "access_size (cfg w) = 2 ^ a"
    "access_size_bits (cfg w) = of_nat a" "unat (thread_num (cfg w)) * 2 ^ b \<le> 2 ^ 35"
    and ub: "unat (buffer_size (cfg w)) = 2 ^ b" and ua: "unat (access_size (cfg w)) = 2 ^ a" by (rule fits_sizes)
  note fld = made_fields [OF md] and blk = made_blocks [OF md]
  note n32 = fits_threads [OF fit, THEN conjunct1]
  note dev = accessible_dev [OF platformD(1) [OF pf sp] k n32 ab(6)]
  have "(2 :: nat) ^ b \<le> 2 ^ 35" using ab(2) by (intro power_increasing) auto
  with fit have ext: "extent (cfg w) \<le> 2 * 2 ^ b" "extent (cfg w) \<le> 2 ^ 35" by (simp_all add: extent_def ub fits_def)
  note src = made_sources [OF run pf sp k ab(3) ub ab(6)]
  note sep = made_block_apart [OF pf md k ab(3,6) ext(1), unfolded ua]
  have slots: "unat (slot_of (buf_slots_mask (cfg w)) t i) * 2 ^ a + 2 ^ a \<le> extent (cfg w)" if "i < unat (t_iters t)" for i
    using made_slot(2) [OF md that] by (simp add: ua extent_def)
  have big: "2 ^ b \<le> extent (cfg w)" by (simp add: extent_def ub)
  have it: "unat (t_iters t) < 2 ^ 31" using fit by (simp add: fits_def fld)
  have "needs (buf_slots_mask (cfg w)) (stack k) m sc t a (extent (cfg w))"
    unfolding needs_def
    using f ab(1) ext(2) dev(1) [OF ext(1)] dev(3,4) src platformD(2) [OF pf sp k] platformD(3) [OF pf sp] platformD(4) [OF pf sp _ k]
      sep made_bits(1) [OF md ab(4,1)] slots big it
    by (simp add: fld blk ab(3,4) ua [unfolded ab(4)] ub [unfolded ab(3)])
  then show ?thesis by blast
qed

text \<open>The bytes a job may change.\<close>

definition job_area :: "(nat \<Rightarrow> u64) \<Rightarrow> world \<Rightarrow> u64 \<Rightarrow> bool" where
  "job_area stack w a \<longleftrightarrow> (\<exists>k < unat (thread_num (cfg w)). a = stack k \<or> rw_type (cfg w) \<noteq> kRead \<and>
     in_range (aep_buf (cfg w) + of_nat k * buffer_size (cfg w)) (extent (cfg w)) a)"

lemma made_visits:
  assumes fit: "fits (cfg w)" and md: "made E w k t" and v: "visits (buf_slots_mask (cfg w)) t x"
  shows "in_range (buf t) (reach (cfg w)) x"
proof -
  let ?msk = "buf_slots_mask (cfg w)"
  from v obtain i where i: "i < unat (t_iters t)" "in_slot ?msk t i x" by (auto simp: visits_def)
  from fit obtain a where a: "a < 32" "access_size (cfg w) = 2 ^ a" "unat (access_size (cfg w)) = 2 ^ a" by (rule fits_sizes)
  have "slot_addr ?msk t i = buf t + of_nat (unat (slot_of ?msk t i) * 2 ^ a)"
    using made_bits(2) [OF md a(2,1)] by (simp add: slot_addr_def push_bit_eq_mult)
  with i(2) have at: "in_range (buf t + of_nat (unat (slot_of ?msk t i) * 2 ^ a)) (2 ^ a) x"
    unfolding in_slot_def made_fields(6) [OF md] a(3) by simp
  have end_slot: "unat (slot_of ?msk t i) * 2 ^ a + 2 ^ a \<le> reach (cfg w)" using made_slot(2) [OF md i(1)] by (simp add: a(3))
  have "reach (cfg w) \<le> 2 ^ 64" using fit by (simp add: fits_def)
  from in_range_sub [OF end_slot this at] show ?thesis .
qed

lemma touched_area:
  assumes "fits (cfg w)" and "made E w k t" and "k < unat (thread_num (cfg w))" and "touched (buf_slots_mask (cfg w)) (stack k) t a"
  shows "job_area stack w a"
proof -
  have "in_range (buf t) (extent (cfg w)) a" if "visits (buf_slots_mask (cfg w)) t a"
    using made_visits [OF assms(1,2) that] in_range_mono [of "buf t" "reach (cfg w)" a "extent (cfg w)"] by (simp add: extent_def)
  with assms(2-4) show ?thesis by (auto simp: touched_def job_area_def made_fields in_range_1)
qed

text \<open>The state of a job between two sub-operations, relative to the state \<open>w\<close> it started in.\<close>

definition job_inv :: "env \<Rightarrow> (nat \<Rightarrow> u64) \<Rightarrow> world \<Rightarrow> world \<Rightarrow> bool" where
  "job_inv E stack w u \<longleftrightarrow> (let n = unat (thread_num (cfg w)) in
     contexts_live E w n u \<and>
     (\<forall>k<n. \<forall>t d. thread_contexts u ! k = Some (t, d) \<longrightarrow> length (run_times d) = unat (iters (cfg w))) \<and>
     same_platform w (w_mach u) (w_sched u) \<and> (\<forall>a. \<not> job_area stack w a \<longrightarrow> mem (w_mach u) a = mem (w_mach w) a) \<and>
     heap_live u = heap_live w + 2 * n \<and> heap_pos u = heap_pos w + 2 * n \<and>
     length (thread_contexts u) = length (thread_contexts w) \<and> fds (pm_fs (g_pm (cfg u))) = fds (pm_fs (g_pm (cfg w))) \<and>
     live_maps (g_pm (cfg u)) = live_maps (g_pm (cfg w)) + n)"

lemma job_inv_cfg:
  assumes "job_inv E stack w u"
  shows "thread_num (cfg u) = thread_num (cfg w)" "buf_slots_mask (cfg u) = buf_slots_mask (cfg w)"
    "rw_type (cfg u) = rw_type (cfg w)" "iters (cfg u) = iters (cfg w)"
  using assms by (auto simp: job_inv_def contexts_live_def Let_def)

lemma job_inv_context:
  assumes "job_inv E stack w u" and "k < unat (thread_num (cfg w))"
  obtains t d where "thread_contexts u ! k = Some (t, d)" and "made E w k t" and "length (run_times d) = unat (iters (cfg w))"
    and "k < length (thread_contexts u)"
proof -
  from assms obtain t d where "thread_contexts u ! k = Some (t, d)" "made E w k t"
    by (auto simp: job_inv_def contexts_live_def Let_def)
  moreover from this assms have "length (run_times d) = unat (iters (cfg w))" "k < length (thread_contexts u)"
    by (auto simp: job_inv_def contexts_live_def Let_def)
  ultimately show thesis by (rule that)
qed

text \<open>Replacing one context by one of the same task, up to its operation, keeps the invariant.\<close>

lemma job_inv_update:
  assumes "job_inv E stack w u" and "made E w i t" and "length (run_times d) = unat (iters (cfg w))"
    and "i < length (thread_contexts u)"
  shows "job_inv E stack w (u\<lparr>thread_contexts := (thread_contexts u)[i := Some (t, d)]\<rparr>)"
  using assms by (auto simp: job_inv_def contexts_live_def nth_list_update Let_def)

lemma InitThreadContext_inv:
  assumes "InitThreadContext E time None w = Inr u"
  shows "job_inv E stack w u"
proof -
  note c = InitThreadContext_made [OF assms]
  from contexts_made_live [OF c] c show ?thesis
    by (auto simp: job_inv_def contexts_made_def same_platform_def Let_def)
qed

lemma set_op_inv:
  assumes inv: "job_inv E stack w u" and f: "GetOpFn (e_pmdk E) (rw_type (cfg w)) j = Inr f"
  shows "\<exists>v. ThreadContextSetSubOp E j u = Inr v \<and> job_inv E stack w v \<and> w_mach v = w_mach u \<and> w_sched v = w_sched u \<and>
    (\<forall>k < unat (thread_num (cfg w)). \<exists>t d. thread_contexts v ! k = Some (t, d) \<and> op_of t = Some f)"
proof -
  let ?P = "\<lambda>i v. job_inv E stack w v \<and> w_mach v = w_mach u \<and> w_sched v = w_sched u \<and>
    (\<forall>k<i. \<exists>t d. thread_contexts v ! k = Some (t, d) \<and> op_of t = Some f)"
  have "\<exists>v. run_all (map (set_context_op E j) [0..<unat (thread_num (cfg w))]) u = Inr v \<and> ?P (unat (thread_num (cfg w))) v"
  proof (rule run_all_upt_total [where P = ?P])
    show "?P 0 u" using inv by simp
  next
    fix i v assume i: "i < unat (thread_num (cfg w))" and P: "?P i v"
    then have iv: "job_inv E stack w v" by blast
    from job_inv_context [OF iv i] obtain t d where c: "thread_contexts v ! i = Some (t, d)" "made E w i t"
      "length (run_times d) = unat (iters (cfg w))" "i < length (thread_contexts v)" .
    have s: "SetSubOp (e_pmdk E) j t = Inr (t\<lparr>sub_op := j, op_of := Some f\<rparr>)"
      using f by (simp add: SetSubOp_def made_fields(4) [OF c(2)])
    from made_SetSubOp [OF c(2) s] have m: "made E w i (t\<lparr>sub_op := j, op_of := Some f\<rparr>)" .
    have "set_context_op E j i v = Inr (v\<lparr>thread_contexts := (thread_contexts v)[i := Some (t\<lparr>sub_op := j, op_of := Some f\<rparr>, d)]\<rparr>)"
      using c s by (simp add: set_context_op_def)
    moreover note job_inv_update [OF iv m c(3,4)]
    ultimately show "\<exists>v'. set_context_op E j i v = Inr v' \<and> ?P (Suc i) v'"
      using P c(4) by (auto simp: nth_list_update less_Suc_eq)
  qed
  then show ?thesis by (auto simp: ThreadContextSetSubOp_def job_inv_cfg(1) [OF inv])
qed


section \<open>A run of all threads\<close>

lemma those_Some: "those xs = Some ys \<longleftrightarrow> xs = map Some ys"
  by (induction xs arbitrary: ys) (auto split: option.splits)

lemma contexts_of_inv:
  assumes "job_inv E stack w u"
  shows "\<exists>cs. contexts_of (unat (thread_num (cfg w))) u = Inr cs \<and> length cs = unat (thread_num (cfg w)) \<and>
    take (unat (thread_num (cfg w))) (thread_contexts u) = map Some cs"
proof -
  let ?n = "unat (thread_num (cfg w))" and ?xs = "take (unat (thread_num (cfg w))) (thread_contexts u)"
  have len: "?n \<le> length (thread_contexts u)" using assms by (simp add: job_inv_def contexts_live_def Let_def)
  have "\<exists>c. x = Some c" if "x \<in> set ?xs" for x
  proof -
    from that len obtain k where "k < ?n" "x = thread_contexts u ! k" by (auto simp: in_set_conv_nth)
    then show ?thesis using job_inv_context [OF assms, of k] by metis
  qed
  then have "\<exists>cs. ?xs = map Some cs" by (simp add: ex_map_conv eq_commute [of _ "Some _"])
  then obtain cs where cs: "?xs = map Some cs" by blast
  then have "length cs = ?n" using len by (metis length_map length_take min.absorb2)
  with cs len show ?thesis by (simp add: contexts_of_def those_Some [THEN iffD2])
qed

lemma sys_step_env:
  assumes "sys_step msk stack s s'" and ok: "sys_ok msk stack s"
  shows "mapped (s_mach s') = mapped (s_mach s) \<and> debug (s_mach s') = debug (s_mach s) \<and>
    clock_src (s_mach s') = clock_src (s_mach s) \<and> online (s_sched s') = online (s_sched s)"
proof -
  from assms(1) obtain k j m w where k: "k < length (s_jobs s)" "j_pc (s_jobs s ! k) \<noteq> Finished"
    and st: "job_step msk (stack k) k (s_jobs s ! k) (s_mach s, s_sched s) = Some (Inr (j, m, w))"
    and s': "s' = s\<lparr>s_mach := m, s_sched := w, s_jobs := (s_jobs s)[k := j]\<rparr>" by (rule sys_stepE)
  from ok k(1) have "job_ok msk (stack k) (s_mach s) (s_sched s) (s_jobs s ! k)" by (simp add: sys_ok_def)
  from job_step_ok [OF this k(2), of k] st show ?thesis by (simp add: s')
qed

lemma run_env:
  assumes "(sys_step msk stack)\<^sup>*\<^sup>* s s'" and "sys_ok msk stack s" and "same_platform w (s_mach s) (s_sched s)"
  shows "same_platform w (s_mach s') (s_sched s')"
  using assms(1)
proof (induction rule: rtranclp_induct)
  case base
  show ?case by (rule assms(3))
next
  case (step t u)
  from run_ok [OF step(1) assms(2)] sys_step_env [OF step(2)] step(3) show ?case by (simp add: same_platform_def)
qed

text \<open>The threads that pthread_create starts are in order.\<close>

lemma start_jobs_ok:
  assumes run: "ready w" and pf: "platform E stack w" and inv: "job_inv E stack w u"
    and f: "GetOpFn (e_pmdk E) (rw_type (cfg w)) j = Inr f"
    and ops: "\<forall>k < unat (thread_num (cfg w)). \<exists>t d. thread_contexts u ! k = Some (t, d) \<and> op_of t = Some f"
    and cs: "length cs = unat (thread_num (cfg w))" "take (unat (thread_num (cfg w))) (thread_contexts u) = map Some cs"
    and m: "same_platform w m sc"
  shows "sys_ok (buf_slots_mask (cfg w)) stack (start_jobs cs m sc)"
proof -
  have dev: "device_op (rw_type (cfg w)) f"
    by (rule GetOpFn_device_op [OF _ f]) (use pf in \<open>simp add: platform_def Let_def\<close>)
  have "job_ok (buf_slots_mask (cfg w)) (stack k) m sc (s_jobs (start_jobs cs m sc) ! k)"
    if k: "k < unat (thread_num (cfg w))" for k
  proof -
    from job_inv_context [OF inv k] obtain t d where c: "thread_contexts u ! k = Some (t, d)" "made E w k t"
      "length (run_times d) = unat (iters (cfg w))" "k < length (thread_contexts u)" .
    from arg_cong [OF cs(2), of "\<lambda>xs. xs ! k"] k c(1,4) cs(1) have cs_k: "cs ! k = (t, d)" by simp
    from ops k c(1) have "op_of t = Some f" by auto
    from made_needs [OF run pf m c(2) k this dev]
    have "\<exists>a sp. needs (buf_slots_mask (cfg w)) (stack k) m sc t a sp" by blast
    with c(3) cs(1) k cs_k show ?thesis
      by (simp add: job_ok_def start_jobs_def made_fields(7) [OF c(2)])
  qed
  then show ?thesis by (simp add: sys_ok_def start_jobs_def cs(1))
qed

lemma start_jobs_task: "map j_task (s_jobs (start_jobs cs m sc)) = map fst cs"
  by (simp add: start_jobs_def case_prod_beta)

lemma read_clock:
  assumes "same_platform w m sc"
  shows "\<exists>t m'. GetTsNsec m = (t, m') \<and> same_platform w m' sc \<and> mem m' = mem m"
  using assms by (simp add: GetTsNsec_def clock_gettime_def same_platform_def Let_def)

text \<open>The contexts that the threads are started from, and what is left when they have joined.\<close>

lemma started_context:
  assumes inv: "job_inv E stack w u" and cs: "take n (thread_contexts u) = map Some cs" "length cs = n"
    and n: "n = unat (thread_num (cfg w))" and k: "k < n"
  shows "made E w k (fst (cs ! k)) \<and> thread_contexts u ! k = Some (cs ! k)"
proof -
  from job_inv_context [OF inv k [unfolded n]] obtain t d where c: "thread_contexts u ! k = Some (t, d)" "made E w k t" .
  with arg_cong [OF cs(1), of "\<lambda>xs. xs ! k"] k cs(2) have "cs ! k = (t, d)" by simp
  with c show ?thesis by simp
qed

lemma threads_frame:
  assumes rs: "(sys_step msk stack)\<^sup>*\<^sup>* (start_jobs cs m0 sc) s" and ok: "sys_ok msk stack (start_jobs cs m0 sc)"
    and msk: "msk = buf_slots_mask (cfg w)" and fit: "fits (cfg w)" and len: "length cs = unat (thread_num (cfg w))"
    and md: "\<And>k. k < length cs \<Longrightarrow> made E w k (fst (cs ! k))" and a: "\<not> job_area stack w a"
  shows "mem (s_mach s) a = mem m0 a"
proof -
  have "\<not> touched msk (stack k) (j_task (s_jobs (start_jobs cs m0 sc) ! k)) a" if "k < length (s_jobs (start_jobs cs m0 sc))" for k
    using md [of k] touched_area [OF fit, of E k "fst (cs ! k)" stack a] that len a
    by (auto simp: start_jobs_def case_prod_beta msk)
  from run_frame [OF rs ok this] show ?thesis by (simp add: start_jobs_def)
qed

lemma joined_data:
  assumes ok: "sys_ok msk stack s" and ts: "map j_task (s_jobs s) = map fst cs" and k: "k < length cs"
    and md: "made E w k (fst (cs ! k))"
  shows "length (j_data (s_jobs s ! k)) = unat (iters (cfg w))"
proof -
  have len: "length (s_jobs s) = length cs" using arg_cong [OF ts, of length] by simp
  have "job_ok msk (stack k) (s_mach s) (s_sched s) (s_jobs s ! k)" using ok k len by (simp add: sys_ok_def)
  moreover have "j_task (s_jobs s ! k) = fst (cs ! k)" using arg_cong [OF ts, of "\<lambda>xs. xs ! k"] k len by simp
  ultimately show ?thesis using made_fields(7) [OF md] by (simp add: job_ok_def)
qed

lemma run_threads_total:
  assumes run: "ready w" and pf: "platform E stack w" and inv: "job_inv E stack w u"
    and f: "GetOpFn (e_pmdk E) (rw_type (cfg w)) j = Inr f"
    and ops: "\<forall>k < unat (thread_num (cfg w)). \<exists>t d. thread_contexts u ! k = Some (t, d) \<and> op_of t = Some f"
  shows "\<exists>elapsed v. run_threads stack pick u = Some (Inr (elapsed, v)) \<and> job_inv E stack w v \<and>
    (\<forall>k < unat (thread_num (cfg w)). map_option fst (thread_contexts v ! k) = map_option fst (thread_contexts u ! k))"
proof -
  let ?n = "unat (thread_num (cfg w))" and ?msk = "buf_slots_mask (cfg w)"
  from contexts_of_inv [OF inv] obtain cs where cs: "contexts_of ?n u = Inr cs" "length cs = ?n"
    "take ?n (thread_contexts u) = map Some cs" by blast
  have "same_platform w (w_mach u) (w_sched u)" using inv by (simp add: job_inv_def Let_def)
  from read_clock [OF this] obtain t0 m0 where t0: "GetTsNsec (w_mach u) = (t0, m0)" "same_platform w m0 (w_sched u)"
    "mem m0 = mem (w_mach u)" by blast
  let ?s = "start_jobs cs m0 (w_sched u)"
  have ok: "sys_ok ?msk stack ?s" by (rule start_jobs_ok [OF run pf inv f ops cs(2,3) t0(2)])
  from run_sched_total [OF ok] obtain s where s: "run_sched ?msk stack pick ?s = Some (Inr s)" by blast
  from run_sched_runs [OF s] have rs: "(sys_step ?msk stack)\<^sup>*\<^sup>* ?s s" by simp
  from run_ok [OF rs ok] have oks: "sys_ok ?msk stack s" and ts: "map j_task (s_jobs s) = map fst cs"
    by (simp_all add: start_jobs_task)
  have len: "length (s_jobs s) = ?n" using arg_cong [OF ts, of length] cs(2) by simp
  have "same_platform w (s_mach s) (s_sched s)"
    by (rule run_env [OF rs ok]) (use t0(2) in \<open>simp add: start_jobs_def\<close>)
  from read_clock [OF this] obtain t1 m1 where t1: "GetTsNsec (s_mach s) = (t1, m1)" "same_platform w m1 (s_sched s)"
    "mem m1 = mem (s_mach s)" by blast
  let ?cs' = "map2 (\<lambda>(t, d) j. Some (t, d\<lparr>run_times := j_data j\<rparr>)) cs (s_jobs s)"
  let ?v = "u\<lparr>w_mach := m1, w_sched := s_sched s, thread_contexts := ?cs' @ drop ?n (thread_contexts u)\<rparr>"
  have r: "run_threads stack pick u = Some (Inr (t1 - t0, ?v))"
    by (simp add: run_threads_def job_inv_cfg [OF inv] t0(1) cs(1) s t1(1))
  note task = started_context [OF inv cs(3,2) refl]
  have dlen: "length (j_data (s_jobs s ! k)) = unat (iters (cfg w))" if "k < ?n" for k
    using joined_data [OF oks ts _ task [OF that, THEN conjunct1]] that cs(2) by simp
  have at: "thread_contexts ?v ! k = Some (fst (cs ! k), (snd (cs ! k))\<lparr>run_times := j_data (s_jobs s ! k)\<rparr>)" if "k < ?n" for k
    using that cs(2) len by (simp add: nth_append case_prod_beta)
  have "mem m1 a = mem (w_mach w) a" if a: "\<not> job_area stack w a" for a
  proof -
    have "mem (s_mach s) a = mem m0 a"
      by (rule threads_frame [OF rs ok refl ready_fits [OF run] cs(2) _ a, of E]) (use task cs(2) in simp)
    with inv a t0(3) t1(3) show ?thesis by (simp add: job_inv_def Let_def)
  qed
  then have "job_inv E stack w ?v"
    using inv t1(2) cs(2) len task at dlen by (auto simp: job_inv_def contexts_live_def Let_def)
  with r at task show ?thesis by auto
qed


section \<open>Separate threads\<close>

lemma src_in_upper:
  assumes "in_range base (2 ^ 35) a" and "unat base + unat AEP_SIZE \<le> 2 ^ 64"
  shows "\<not> in_range base (2 ^ 35) (a + AEP_SIZE div 2)" and "in_range base (unat AEP_SIZE) (a + AEP_SIZE div 2)"
proof -
  have eq: "a + AEP_SIZE div 2 - base = (a - base) + AEP_SIZE div 2" by simp
  have lt: "unat (a - base) < 2 ^ 35" using assms(1) by (simp add: in_range_def)
  have "unat (a - base + AEP_SIZE div 2) = unat (a - base) + 2 ^ 35"
    by (subst unat_add_lem [THEN iffD1]) (use lt in \<open>simp_all add: AEP_SIZE_def\<close>)
  with lt show "\<not> in_range base (2 ^ 35) (a + AEP_SIZE div 2)" "in_range base (unat AEP_SIZE) (a + AEP_SIZE div 2)"
    unfolding in_range_def eq by (simp_all add: AEP_SIZE_def)
qed

text \<open>What a thread touches lies in its own buffer, in the lower half of the device, or is its local char.\<close>

lemma made_touched:
  assumes fit: "fits (cfg w)" and inside: "reach (cfg w) \<le> unat (buffer_size (cfg w))" and md: "made E w k t"
    and b: "buffer_size (cfg w) = 2 ^ b" "unat (buffer_size (cfg w)) = 2 ^ b"
  shows "visits (buf_slots_mask (cfg w)) t x \<Longrightarrow> in_range (aep_buf (cfg w) + of_nat k * 2 ^ b) (2 ^ b) x"
    and "touched (buf_slots_mask (cfg w)) c t x \<Longrightarrow> x = c \<or> in_range (aep_buf (cfg w) + of_nat k * 2 ^ b) (2 ^ b) x"
proof -
  show vis: "in_range (aep_buf (cfg w) + of_nat k * 2 ^ b) (2 ^ b) x" if "visits (buf_slots_mask (cfg w)) t x"
    using in_range_mono [OF made_visits [OF fit md that] inside] b by (simp add: made_fields [OF md])
  show "touched (buf_slots_mask (cfg w)) c t x \<Longrightarrow> x = c \<or> in_range (aep_buf (cfg w) + of_nat k * 2 ^ b) (2 ^ b) x"
    using vis by (auto simp: touched_def in_range_1)
qed

lemma block_offset: "in_range c (2 ^ a) (c + of_nat (n mod 2 ^ a))"
proof -
  have "unat (of_nat (n mod 2 ^ a) :: u64) \<le> n mod 2 ^ a" by (simp add: unat_of_nat)
  also have "\<dots> < 2 ^ a" by simp
  finally show ?thesis by (simp add: in_range_def)
qed

text \<open>The source of a slot is never in a buffer, nor a local char.\<close>

lemma made_source_apart:
  assumes pf: "platform E stack w" and md: "made E w k t" and kl: "k < unat (thread_num (cfg w))" "l < unat (thread_num (cfg w))"
    and x: "in_range (aep_buf (cfg w)) (2 ^ 35) x" and sz: "unat (access_size (cfg w)) = 2 ^ a"
  shows "src_of t x \<noteq> stack l" and "\<not> in_range (aep_buf (cfg w)) (2 ^ 35) (src_of t x)"
proof -
  have wrap: "unat (aep_buf (cfg w)) + unat AEP_SIZE \<le> 2 ^ 64" using pf by (simp add: platform_def Let_def)
  have "src_of t x \<noteq> stack l \<and> \<not> in_range (aep_buf (cfg w)) (2 ^ 35) (src_of t x)"
  proof (cases "rw_type (cfg w) = kCpy")
    case True
    then have "src_of t x = x + AEP_SIZE div 2" by (simp add: src_of_def made_fields [OF md])
    with src_in_upper [OF x wrap] platform_apart(1) [OF pf kl(2) kl(2)] show ?thesis by auto
  next
    case False
    let ?sz = "unat (access_size (cfg w))"
    have src: "src_of t x = cpy_block E w k + of_nat (unat (x - buf t) mod ?sz)"
      using False by (simp add: src_of_def made_fields [OF md] made_blocks [OF md])
    have "in_range (cpy_block E w k) ?sz (src_of t x)" unfolding src sz by (rule block_offset)
    from platform_apart(2) [OF pf kl this] half_in_device show ?thesis by auto
  qed
  then show "src_of t x \<noteq> stack l" "\<not> in_range (aep_buf (cfg w)) (2 ^ 35) (src_of t x)" by simp_all
qed

lemma made_separate:
  assumes run: "ready w" and pf: "platform E stack w"
    and rt: "rw_type (cfg w) = kWrite \<or> rw_type (cfg w) = kCpy" and inside: "reach (cfg w) \<le> unat (buffer_size (cfg w))"
    and len: "length ts = unat (thread_num (cfg w))" and md: "\<And>k. k < length ts \<Longrightarrow> made E w k (ts ! k)"
  shows "separate (buf_slots_mask (cfg w)) stack ts"
  unfolding separate_def
proof (intro allI impI)
  let ?base = "aep_buf (cfg w)" and ?msk = "buf_slots_mask (cfg w)"
  note fit = ready_fits [OF run]
  from fit obtain a b where b: "buffer_size (cfg w) = 2 ^ b" "unat (thread_num (cfg w)) * 2 ^ b \<le> 2 ^ 35"
    and ua: "unat (buffer_size (cfg w)) = 2 ^ b" "unat (access_size (cfg w)) = 2 ^ a" by (rule fits_sizes)
  note own = made_touched [OF fit inside md b(1) ua(1)]
  fix k l x assume k: "k < length ts" and l: "l < length ts" and x: "visits ?msk (ts ! k) x"
  have xb: "in_range (?base + of_nat k * 2 ^ b) (2 ^ b) x" using own(1) [OF k x] .
  have xh: "in_range ?base (2 ^ 35) x" using buffer_in_half [OF _ b(2) xb] k len by simp
  have local_char: "stack i \<noteq> x" if "i < length ts" for i
    using platform_apart(1) [OF pf, of i i] half_in_device [OF xh] that len by auto
  have "\<not> touched ?msk (stack l) (ts ! l) x" if "k \<noteq> l"
    using buffers_disjoint [OF _ _ that b(2) xb] k l len local_char [OF l] own(2) [OF l] by auto
  moreover have "\<not> in_range (stack k) 1 x" using local_char [OF k] by (auto simp: in_range_1)
  moreover have "\<not> touched ?msk (stack l) (ts ! l) (src_of (ts ! k) x)"
    using made_source_apart [OF pf md [OF k] _ _ xh ua(2), of l] k l len own(2) [OF l] buffer_in_half [OF _ b(2), of l] by auto
  ultimately show "(k \<noteq> l \<longrightarrow> \<not> touched ?msk (stack l) (ts ! l) x) \<and> \<not> in_range (stack k) 1 x \<and>
      \<not> touched ?msk (stack l) (ts ! l) (src_of (ts ! k) x)" by blast
qed

section \<open>Whole jobs\<close>

text \<open>The completed lines of the output.\<close>

definition lines_of :: "io \<Rightarrow> nat" where
  "lines_of o1 = length (filter (\<lambda>l. l = ''\<newline>'') (printed o1))"

lemma printed_Stdout: "printed (foldl (\<lambda>b l. fprintf Stdout l b) b ls) = printed b @ ls"
  by (induction ls arbitrary: b) (simp_all add: fprintf_def)

lemma ReportSubOp_line:
  assumes "report_fp rep = Some Stdout" and "GetOpLabel P (t_rw_type t) (sub_op t) = Inr label"
  shows "\<exists>o2. ReportSubOp P rep k t r o1 = Inr o2 \<and> lines_of o2 = Suc (lines_of o1)"
proof -
  have no: "(x @ '' '' = ''\<newline>'') = False" for x by simp
  show ?thesis
    using assms by (simp add: ReportSubOp_def lines_of_def printed_Stdout no del: foldl_append foldl_Cons)
qed

text \<open>The evaluation a job uses need only agree with Analyze on the job's own configuration.\<close>

definition analyzes :: "globals \<Rightarrow> (globals \<Rightarrow> u32 list \<Rightarrow> u64 \<Rightarrow> int \<Rightarrow> stop + analyze_result \<times> u32 list) \<Rightarrow> bool" where
  "analyzes g an \<longleftrightarrow> (\<forall>pm. an (g\<lparr>g_pm := pm\<rparr>) = Analyze (g\<lparr>g_pm := pm\<rparr>))"

lemma analyzes_Analyze [simp]: "analyzes g Analyze"
  by (simp add: analyzes_def)

lemma report_op_total:
  assumes an: "analyzes (cfg w) an" and run: "ready w" and inv: "job_inv E stack w v" and fp: "report_fp rep = Some Stdout"
    and k: "int j < int (GetSubOpNum (e_pmdk E) (rw_type (cfg w)))"
    and sub: "\<exists>t d. thread_contexts v ! 0 = Some (t, d) \<and> sub_op t = int j"
  shows "\<exists>z o2. report_op E an rep elapsed (v, o1) = Inr (z, o2) \<and> job_inv E stack w z \<and> lines_of o2 = Suc (lines_of o1)"
proof -
  have "0 < unat (thread_num (cfg w))" using fits_threads [OF ready_fits [OF run]] by simp
  from job_inv_context [OF inv this] obtain t d where c: "thread_contexts v ! 0 = Some (t, d)" "made E w 0 t"
    "length (run_times d) = unat (iters (cfg w))" "0 < length (thread_contexts v)" .
  have it: "0 < unat (iters (cfg w))" "unat (iters (cfg w)) < 2 ^ 31"
    using ready_fits [OF run] by (simp_all add: fits_def word_less_nat_alt)
  have "an (cfg v) = Analyze (cfg v)"
    using an inv by (auto simp: analyzes_def job_inv_def contexts_live_def Let_def)
  with it Analyze_total [of "cfg v" "run_times d" elapsed "sint (thread_num (cfg v))"] c(3) job_inv_cfg(4) [OF inv]
  obtain r x where a: "an (cfg v) (run_times d) elapsed (sint (thread_num (cfg v))) = Inr (r, x)"
    "length x = length (run_times d)" by auto
  from k obtain label where "GetOpLabel (e_pmdk E) (rw_type (cfg w)) (int j) = Inr label"
    using GetOpLabel_iff [of "e_pmdk E" "rw_type (cfg w)" "int j"] by auto
  with sub c(1) have "GetOpLabel (e_pmdk E) (t_rw_type t) (sub_op t) = Inr label" by (simp add: made_fields(4) [OF c(2)])
  from ReportSubOp_line [OF fp this] obtain o2 where o2: "ReportSubOp (e_pmdk E) rep (sint (thread_num (cfg v))) t r o1 = Inr o2"
    "lines_of o2 = Suc (lines_of o1)" by blast
  have "report_op E an rep elapsed (v, o1) =
      Inr (v\<lparr>thread_contexts := (thread_contexts v)[0 := Some (t, d\<lparr>run_times := x\<rparr>)]\<rparr>, o2)"
    using c a o2 by (simp add: report_op_def Let_def)
  moreover have "job_inv E stack w (v\<lparr>thread_contexts := (thread_contexts v)[0 := Some (t, d\<lparr>run_times := x\<rparr>)]\<rparr>)"
    using c a(2) by (intro job_inv_update [OF inv c(2)]) simp_all
  ultimately show ?thesis using o2(2) by blast
qed

lemma set_op_sub:
  assumes "ThreadContextSetSubOp E j u = Inr v" and "job_inv E stack w u" and "k < unat (thread_num (cfg w))"
  shows "\<exists>t d. thread_contexts v ! k = Some (t, d) \<and> sub_op t = j"
proof -
  let ?P = "\<lambda>i v. length (thread_contexts v) = length (thread_contexts u) \<and> (\<forall>k<i. \<exists>t d. thread_contexts v ! k = Some (t, d) \<and> sub_op t = j)"
  have "?P (unat (thread_num (cfg u))) v"
    using assms(1) unfolding ThreadContextSetSubOp_def
  proof (rule run_all_upt [where P = ?P])
    show "?P 0 u" by simp
  qed (auto simp: set_context_op_def SetSubOp_def nth_list_update less_Suc_eq split: if_splits option.splits sum.splits)
  with assms(3) job_inv_cfg(1) [OF assms(2)] show ?thesis by simp
qed

lemma sub_op_run_total:
  assumes an: "analyzes (cfg w) an" and run: "ready w" and pf: "platform E stack w" and fp: "report_fp rep = Some Stdout"
    and inv: "job_inv E stack w u" and j: "j < GetSubOpNum (e_pmdk E) (rw_type (cfg w))"
  shows "\<exists>z o2. sub_op_run E stack pick an rep j (u, o1) = Some (Inr (z, o2)) \<and> job_inv E stack w z \<and>
    lines_of o2 = Suc (lines_of o1)"
proof -
  from j obtain f where f: "GetOpFn (e_pmdk E) (rw_type (cfg w)) (int j) = Inr f"
    using GetOpFn_iff [of "e_pmdk E" "rw_type (cfg w)" "int j"] by auto
  from set_op_inv [OF inv f] obtain v where v: "ThreadContextSetSubOp E (int j) u = Inr v" "job_inv E stack w v"
    "\<forall>k < unat (thread_num (cfg w)). \<exists>t d. thread_contexts v ! k = Some (t, d) \<and> op_of t = Some f" by blast
  from run_threads_total [OF run pf v(2) f v(3)] obtain elapsed y where y: "run_threads stack pick v = Some (Inr (elapsed, y))"
    "job_inv E stack w y"
    "\<forall>k < unat (thread_num (cfg w)). map_option fst (thread_contexts y ! k) = map_option fst (thread_contexts v ! k)" by blast
  have n: "0 < unat (thread_num (cfg w))" using fits_threads [OF ready_fits [OF run]] by simp
  from set_op_sub [OF v(1) inv n] y(3) n have "\<exists>t d. thread_contexts y ! 0 = Some (t, d) \<and> sub_op t = int j"
    by (cases "thread_contexts y ! 0") auto
  from report_op_total [OF an run y(2) fp _ this, of elapsed o1] j
  obtain z o2 where z: "report_op E an rep elapsed (y, o1) = Inr (z, o2)" "job_inv E stack w z" "lines_of o2 = Suc (lines_of o1)"
    by auto
  have "sub_op_run E stack pick an rep j (u, o1) = Some (Inr (z, o2))"
    by (simp add: sub_op_run_def v(1) y(1) z(1))
  with z(2,3) show ?thesis by blast
qed

lemma sub_op_run_cfg:
  assumes "sub_op_run E stack pick an rep k (w, o1) = Some (Inr (z, o2))"
  shows "cfg z = cfg w"
proof -
  from assms obtain v where v: "ThreadContextSetSubOp E (int k) w = Inr v" and z: "cfg z = cfg v"
    by (auto simp: sub_op_run_def run_threads_def report_op_def Let_def split: sum.splits option.splits if_splits prod.splits)
  have "cfg v = cfg w"
    using v unfolding ThreadContextSetSubOp_def
    by (rule run_all_upt [where P = "\<lambda>_ x. cfg x = cfg w"]) (auto simp: set_context_op_def split: if_splits option.splits sum.splits)
  with z show ?thesis by simp
qed

text \<open>What a whole job leaves behind, relative to the state it started in.\<close>

definition job_done :: "(nat \<Rightarrow> u64) \<Rightarrow> world \<Rightarrow> world \<Rightarrow> bool" where
  "job_done stack w z \<longleftrightarrow> heap_live z = heap_live w \<and> heap_pos z = heap_pos w + 2 * unat (thread_num (cfg w)) \<and>
     length (thread_contexts z) = length (thread_contexts w) \<and> same_platform w (w_mach z) (w_sched z) \<and>
     (\<exists>pm. cfg z = (cfg w)\<lparr>g_pm := pm\<rparr>) \<and> live_maps (g_pm (cfg z)) = live_maps (g_pm (cfg w)) \<and>
     fds (pm_fs (g_pm (cfg z))) = fds (pm_fs (g_pm (cfg w))) \<and>
     (\<forall>a. \<not> job_area stack w a \<longrightarrow> mem (w_mach z) a = mem (w_mach w) a)"

lemma job_body_done:
  assumes an: "analyzes (cfg w) an" and run: "ready w" and pf: "platform E stack w" and fp: "report_fp rep = Some Stdout"
    and init: "InitThreadContext E time None w = Inr u"
  shows "\<exists>z o2. job_body E stack pick an rep time (w, o1) = Some (Inr (z, o2)) \<and>
    lines_of o2 = lines_of o1 + GetSubOpNum (e_pmdk E) (rw_type (cfg w)) \<and> job_done stack w z \<and>
    pm_fs (g_pm (cfg z)) = pm_fs (g_pm (cfg u))"
proof -
  let ?num = "GetSubOpNum (e_pmdk E) (rw_type (cfg w))" and ?n = "unat (thread_num (cfg w))"
  let ?P = "\<lambda>i s. job_inv E stack w (fst s) \<and> lines_of (snd s) = lines_of o1 + i \<and> cfg (fst s) = cfg u"
  have "\<exists>t. do_all (map (sub_op_run E stack pick an rep) [0..<?num]) (u, o1) = Some (Inr t) \<and> ?P ?num t"
  proof (rule do_all_upt_total [where P = ?P])
    show "?P 0 (u, o1)" using InitThreadContext_inv [OF init] by simp
    fix i s assume i: "i < ?num" and P: "?P i s"
    obtain x o2 where s: "s = (x, o2)" by (cases s)
    from sub_op_run_total [OF an run pf fp _ i, of x pick o2] P obtain y o3 where
      y: "sub_op_run E stack pick an rep i (x, o2) = Some (Inr (y, o3))" "job_inv E stack w y" "lines_of o3 = Suc (lines_of o2)"
      by (auto simp: s)
    with sub_op_run_cfg [OF y(1)] P show "\<exists>t. sub_op_run E stack pick an rep i s = Some (Inr t) \<and> ?P (Suc i) t"
      by (simp add: s)
  qed
  then obtain v o2 where v: "do_all (map (sub_op_run E stack pick an rep) [0..<?num]) (u, o1) = Some (Inr (v, o2))"
    "job_inv E stack w v" "lines_of o2 = lines_of o1 + ?num" "cfg v = cfg u" by auto
  from v(2) have "contexts_live E w ?n v" by (simp add: job_inv_def Let_def)
  then obtain pm where pm: "cfg v = (cfg w)\<lparr>g_pm := pm\<rparr>" by (auto simp: contexts_live_def)
  from DestroyThreadContext_gone [OF \<open>contexts_live E w ?n v\<close>] job_inv_cfg(1) [OF v(2)]
  obtain z where z: "DestroyThreadContext v = Inr z" "contexts_gone v ?n z" by auto
  have "job_body E stack pick an rep time (w, o1) = Some (Inr (z, o2))"
    unfolding job_body_def do_all_append by (simp add: on_world_def init v(1) z(1))
  moreover have "job_done stack w z"
    using v(2) z(2) pm by (auto simp: job_done_def contexts_gone_def job_inv_def Let_def)
  moreover have "pm_fs (g_pm (cfg z)) = pm_fs (g_pm (cfg u))" using z(2) v(4) by (auto simp: contexts_gone_def)
  ultimately show ?thesis using v(3) by blast
qed

lemma job_body_total:
  assumes "runnable N (cfg w)" and "platform E stack w" and "report_fp rep = Some Stdout"
    and "InitThreadContext E time None w = Inr u"
  shows "\<exists>z o2. job_body E stack pick Analyze rep time (w, o1) = Some (Inr (z, o2)) \<and>
    lines_of o2 = lines_of o1 + GetSubOpNum (e_pmdk E) (rw_type (cfg w)) \<and> heap_live z = heap_live w \<and>
    live_maps (g_pm (cfg z)) = live_maps (g_pm (cfg w)) \<and> fds (pm_fs (g_pm (cfg z))) = fds (pm_fs (g_pm (cfg w))) \<and>
    (\<forall>a. \<not> job_area stack w a \<longrightarrow> mem (w_mach z) a = mem (w_mach w) a)"
  using job_body_done [OF analyzes_Analyze runnable_ready [OF assms(1)] assms(2-4), of pick o1] by (fastforce simp: job_done_def)


section \<open>A system that runs\<close>

definition demo_stack :: "nat \<Rightarrow> u64" where
  "demo_stack k = 2 ^ 39 + of_nat k"

lemma demo_world_simps:
  "thread_num (cfg demo_world) = 1" "rw_type (cfg demo_world) = kCpy" "aep_buf (cfg demo_world) = 2 ^ 40"
  "access_size (cfg demo_world) = 16" "buffer_size (cfg demo_world) = 1024" "buf_slots_mask (cfg demo_world) = 63"
  "iters (cfg demo_world) = 10" "core_ids (cfg demo_world) = 20 # replicate 31 0" "w_mach demo_world = demo_machine"
  "access_mode (cfg demo_world) = kSeq" "w_sched demo_world = \<lparr>online = [0..<80], affinity = (\<lambda>_ _. True)\<rparr>" "heap_pos demo_world = 0"
  "access_size_bits (cfg demo_world) = 4" "buf_slots (cfg demo_world) = 64"
  by (simp_all add: demo_world_def demo_cfg_def initial_globals_def)

lemma demo_runnable: "runnable demo_numa (cfg demo_world)"
proof -
  have "sized (cfg demo_world)" unfolding sized_def
    by (intro exI [of _ 4] exI [of _ 10]) (simp add: demo_world_simps)
  moreover have "CheckGlobalCfg demo_numa (cfg demo_world) = Inr (cfg demo_world)"
    by (simp add: CheckGlobalCfg_Inr check_numa_def demo_world_def demo_cfg_def demo_numa_def initial_globals_def AEP_SIZE_def
      MAX_THREAD_NUM_def assert_pow2_def fls32_demo push_bit_1)
  ultimately show ?thesis
    by (simp add: runnable_def demo_world_simps AEP_SIZE_def ValidateThreadNum_def MAX_THREAD_NUM_def ValidateIters_def)
qed

text \<open>The demonstration machine is a platform for any number of threads, as long as their blocks stay
  below their stacks and the device.\<close>

lemma demo_platform_at:
  assumes "w_mach v = demo_machine" and "online (w_sched v) = [0..<80]" and "aep_buf (cfg v) = 2 ^ 40"
    and "unat (access_size (cfg v)) \<le> 65536" and "unat (thread_num (cfg v)) \<le> 32"
    and "heap_pos v + 2 * unat (thread_num (cfg v)) \<le> 127"
    and "\<forall>k < unat (thread_num (cfg v)). unat (core_ids (cfg v) ! k) < 80"
  shows "platform demo_env demo_stack v"
proof -
  let ?n = "unat (thread_num (cfg v))" and ?dev = "in_range (2 ^ 40) (unat AEP_SIZE)"
  have stk: "unat (demo_stack l) = 2 ^ 39 + l" if "l < ?n" for l
  proof -
    have "demo_stack l = of_nat (2 ^ 39 + l)" by (simp add: demo_stack_def)
    then show ?thesis using that assms(5) by (simp add: unat_of_nat_u64 del: of_nat_add)
  qed
  have dev: "2 ^ 40 \<le> unat a" if "?dev a" for a
    using in_range_unat [OF that] by (simp add: AEP_SIZE_def)
  have "\<not> ?dev (demo_stack l)" if "l < ?n" for l
    using dev [of "demo_stack l"] stk [OF that] that assms(5) by auto
  moreover have "\<not> ?dev a \<and> (\<forall>l < ?n. a \<noteq> demo_stack l)"
    if k: "k < ?n" and a: "in_range (cpy_block demo_env v k) (unat (access_size (cfg v))) a" for k a
  proof -
    let ?j = "Suc (heap_pos v + 2 * k)"
    have j: "?j < 127" using k assms(6) by simp
    have "cpy_block demo_env v k = of_nat (4096 + ?j * 2 ^ 32)" by (simp add: cpy_block_def demo_env_def algebra_simps)
    then have u: "unat (cpy_block demo_env v k) = 4096 + ?j * 2 ^ 32" using j by (simp add: unat_of_nat_u64 del: of_nat_add of_nat_mult of_nat_Suc)
    have "unat (cpy_block demo_env v k) + unat (access_size (cfg v)) \<le> 2 ^ 64" using u j assms(4) by simp
    from in_range_unat [OF a this] u j assms(4) have lt: "unat a < 2 ^ 39" by simp
    with dev [of a] stk show ?thesis by fastforce
  qed
  moreover have "ts_at demo_machine (Suc p) - ts_at demo_machine p = 1000000000" for p
    by (simp add: ts_at_def demo_machine_def algebra_simps)
  moreover have "unat (core_ids (cfg v) ! k) < CPU_SETSIZE" if "k < ?n" for k
    using that assms(7) by (fastforce simp: CPU_SETSIZE_def)
  moreover have "e_pmdk demo_env = demo_pmdk" by (simp add: demo_env_def)
  ultimately show ?thesis
    using demo_documented assms(1-3,7) by (simp add: platform_def AEP_SIZE_def Let_def)
qed

lemma demo_platform: "platform demo_env demo_stack demo_world"
  by (rule demo_platform_at) (simp_all add: demo_world_simps)

text \<open>The single thread of the demonstration, set to copy by non-temporal stores of libpmem2.\<close>

lemma demo_system:
  obtains s where "sys_ok 63 demo_stack s" and "length (s_jobs s) = 1" and "\<forall>j \<in> set (s_jobs s). copies j \<and> j_pc j = Bind"
    and "separate 63 demo_stack (map j_task (s_jobs s))" and "made demo_env demo_world 0 (j_task (s_jobs s ! 0))"
    and "s_mach s = demo_machine"
proof -
  let ?f = "aep_cpy_pmem2_memcpy_nt demo_pmdk"
  have f: "GetOpFn (e_pmdk demo_env) (rw_type (cfg demo_world)) 3 = Inr ?f"
    by (simp add: GetOpFn_def index_table_def GetSubOpNum_def AEP_CPY_FUNC_NUM_def aep_cpy_funcs_def demo_env_def demo_world_simps)
  obtain u where "InitThreadContext demo_env ''T'' None demo_world = Inr u" using demo_InitThreadContext by blast
  from set_op_inv [OF InitThreadContext_inv [OF this] f] obtain v where v: "job_inv demo_env demo_stack demo_world v"
    "\<forall>k < unat (thread_num (cfg demo_world)). \<exists>t d. thread_contexts v ! k = Some (t, d) \<and> op_of t = Some ?f" by blast
  from contexts_of_inv [OF v(1)] obtain cs where cs: "length cs = unat (thread_num (cfg demo_world))"
    "take (unat (thread_num (cfg demo_world))) (thread_contexts v) = map Some cs" by blast
  let ?s = "start_jobs cs demo_machine (w_sched demo_world)"
  have "same_platform demo_world demo_machine (w_sched demo_world)" by (simp add: same_platform_def demo_world_simps)
  from start_jobs_ok [OF runnable_ready [OF demo_runnable] demo_platform v(1) f v(2) cs this]
  have ok: "sys_ok 63 demo_stack ?s" by (simp add: demo_world_simps)
  from cs(1) have "length cs = 1" by (simp add: demo_world_simps)
  then obtain t d where c: "cs = [(t, d)]" by (cases cs) auto
  have "0 < unat (thread_num (cfg demo_world))" by (simp add: demo_world_simps)
  from job_inv_context [OF v(1) this] obtain t' d' where t': "thread_contexts v ! 0 = Some (t', d')" "made demo_env demo_world 0 t'"
    "length (run_times d') = unat (iters (cfg demo_world))" "0 < length (thread_contexts v)" .
  from arg_cong [OF cs(2), of "\<lambda>xs. xs ! 0"] c t'(1,4) have eq: "t' = t" "d' = d" by (simp_all add: demo_world_simps)
  have op: "op_of t = Some ?f" using v(2) t'(1) eq by (auto simp: demo_world_simps)
  have "device_copy kCpy ?f" using write_table_copies(5) demo_documented by (auto simp: pmem2_documented_def)
  with op t'(2) have cp: "copies \<lparr>j_task = t, j_data = run_times d, j_pc = Bind\<rparr>"
    by (simp add: copies_def eq made_fields demo_world_simps)
  have "separate 63 demo_stack [t]"
    using made_separate [OF runnable_ready [OF demo_runnable] demo_platform, of "[t]"] t'(2) eq
      runnable_reach [OF demo_runnable] by (simp add: demo_world_simps)
  with ok cp t'(2) show thesis by (intro that [of ?s]) (simp_all add: start_jobs_def c eq)
qed

section \<open>Properties\<close>

theorem run_joins_witness:
  "\<exists>s s'. sys_ok 63 demo_stack s \<and> length (s_jobs s) = 1 \<and> sys_step 63 demo_stack s s'"
proof -
  obtain s where s: "sys_ok 63 demo_stack s" "length (s_jobs s) = 1" "\<forall>j \<in> set (s_jobs s). copies j \<and> j_pc j = Bind"
    by (rule demo_system)
  then have "\<not> joined s" by (cases "s_jobs s") (auto simp: joined_def)
  with run_joins [OF s(1), of 0 s] have "\<exists>s'. sys_step 63 demo_stack s s'" by simp
  with s show ?thesis by blast
qed

theorem run_records_times_witness:
  "\<exists>s s'. (sys_step 63 demo_stack)\<^sup>*\<^sup>* s s' \<and> joined s' \<and> j_data (s_jobs s' ! 0) = replicate 10 1000000000"
proof -
  obtain s where s: "sys_ok 63 demo_stack s" "length (s_jobs s) = 1" "\<forall>j \<in> set (s_jobs s). copies j \<and> j_pc j = Bind"
    "made demo_env demo_world 0 (j_task (s_jobs s ! 0))" "s_mach s = demo_machine" by (rule demo_system)
  from run_sched_total [OF s(1)] obtain s' where "run_sched 63 demo_stack (\<lambda>_. 0) s = Some (Inr s')" by blast
  from run_sched_runs [OF this] have r: "(sys_step 63 demo_stack)\<^sup>*\<^sup>* s s'" "joined s'" by simp_all
  have "ts_at demo_machine (Suc p) - ts_at demo_machine p = 1000000000" for p
    by (simp add: ts_at_def demo_machine_def algebra_simps)
  moreover have "unat (t_iters (j_task (s_jobs s ! 0))) = 10" by (simp add: made_fields [OF s(4)] demo_world_simps)
  ultimately have "length (j_data (s_jobs s' ! 0)) = 10" "\<forall>i<10. j_data (s_jobs s' ! 0) ! i = 1000000000"
    using run_records_times [OF s(1) _ r] s(2,3,5) by auto
  then have "j_data (s_jobs s' ! 0) = replicate 10 1000000000" by (simp add: list_eq_iff_nth_eq)
  with r show ?thesis by blast
qed

theorem run_copies_durably_witness:
  "\<exists>s s'. (sys_step 63 demo_stack)\<^sup>*\<^sup>* s s' \<and> joined s' \<and>
     (\<forall>img. crash_image (s_mach s') img \<longrightarrow> img (2 ^ 40) = mem (s_mach s) (2 ^ 40 + 2 ^ 35))"
proof -
  obtain s where s: "sys_ok 63 demo_stack s" "length (s_jobs s) = 1" "\<forall>j \<in> set (s_jobs s). copies j \<and> j_pc j = Bind"
    "separate 63 demo_stack (map j_task (s_jobs s))" "made demo_env demo_world 0 (j_task (s_jobs s ! 0))" by (rule demo_system)
  from run_sched_total [OF s(1)] obtain s' where "run_sched 63 demo_stack (\<lambda>_. 0) s = Some (Inr s')" by blast
  from run_sched_runs [OF this] have r: "(sys_step 63 demo_stack)\<^sup>*\<^sup>* s s'" "joined s'" by simp_all
  let ?t = "j_task (s_jobs s ! 0)"
  have "in_slot 63 ?t 0 (2 ^ 40)" "0 < unat (t_iters ?t)" "src_of ?t (2 ^ 40) = 2 ^ 40 + 2 ^ 35" "0 < length (s_jobs s)"
    using s(2) by (simp_all add: in_slot_def slot_addr_def slot_of_def made_fields [OF s(5)] demo_world_simps in_range_def src_of_def AEP_SIZE_def)
  with run_copies_durably [OF s(1,3,4) r, of 0 ?t 0 "2 ^ 40"] r show ?thesis by auto
qed

theorem run_refines_copy_witness:
  "\<exists>s s'. (sys_step 63 demo_stack)\<^sup>*\<^sup>* s s' \<and> counts (abs_store demo_stack s) = [0] \<and> counts (abs_store demo_stack s') = [10] \<and>
     (copy_run 63 (map j_task (s_jobs s)))\<^sup>*\<^sup>* (abs_store demo_stack s) (abs_store demo_stack s')"
proof -
  obtain s where s: "sys_ok 63 demo_stack s" "length (s_jobs s) = 1" "\<forall>j \<in> set (s_jobs s). copies j \<and> j_pc j = Bind"
    "separate 63 demo_stack (map j_task (s_jobs s))" "made demo_env demo_world 0 (j_task (s_jobs s ! 0))" by (rule demo_system)
  from run_sched_total [OF s(1)] obtain s' where "run_sched 63 demo_stack (\<lambda>_. 0) s = Some (Inr s')" by blast
  from run_sched_runs [OF this] have r: "(sys_step 63 demo_stack)\<^sup>*\<^sup>* s s'" "joined s'" by simp_all
  from run_ok [OF r(1) s(1)] have ts: "map j_task (s_jobs s') = map j_task (s_jobs s)" by simp
  obtain j where j: "s_jobs s = [j]" using s(2) by (cases "s_jobs s") auto
  with ts obtain j' where j': "s_jobs s' = [j']" "j_task j' = j_task j" by (cases "s_jobs s'") auto
  have "counts (abs_store demo_stack s) = [0]" using s(3) j by (simp add: abs_store_def behind_def)
  moreover have "counts (abs_store demo_stack s') = [10]"
    using r(2) j' j s(5) made_fields(7) [OF s(5)] by (simp add: abs_store_def behind_def joined_def demo_world_simps)
  ultimately show ?thesis using run_refines_copy [OF s(1) _ s(4) r(1)] s(3) r(1) by blast
qed

text \<open>A schedule is a run and every run is a schedule. Running the threads by a scheduler can end in a
  state exactly if the step relation has a run that ends there with all threads joined: what is
  proved of every schedule holds of every interleaving, and the other way round.\<close>

theorem run_sched_schedules:
  "(\<exists>pick. run_sched msk stack pick s = Some (Inr s')) \<longleftrightarrow> (sys_step msk stack)\<^sup>*\<^sup>* s s' \<and> joined s'"
  using run_sched_runs runs_run_sched by blast

text \<open>The buffers of the threads, in the device.\<close>

definition in_buffers :: "globals \<Rightarrow> u64 \<Rightarrow> bool" where
  "in_buffers g a \<longleftrightarrow> (\<exists>k < unat (thread_num g). in_range (aep_buf g + of_nat k * buffer_size g) (unat (buffer_size g)) a)"

lemma buffers_area:
  assumes "runnable N (cfg w)" and "platform E stack w" and "in_range (aep_buf (cfg w)) (unat AEP_SIZE) a"
    and "job_area stack w a"
  shows "rw_type (cfg w) \<noteq> kRead \<and> in_buffers (cfg w) a"
proof -
  have "extent (cfg w) = unat (buffer_size (cfg w))" using runnable_reach [OF assms(1)] by (simp add: extent_def)
  moreover have "a \<noteq> stack k" if "k < unat (thread_num (cfg w))" for k
    using assms(2,3) that by (auto simp: platform_def Let_def)
  ultimately show ?thesis using assms(4) by (auto simp: job_area_def in_buffers_def)
qed

text \<open>C4: A benchmark with a checked configuration runs to its end. On a platform that keeps its promises,
  once the thread contexts could be created, the default job returns on every schedule: it prints
  one line for each operation of its type and gives back all memory blocks, mappings and descriptors.
  Of the device it changes no byte outside the threads' buffers, so the sources of a copy are intact,
  and no byte at all when it only reads.\<close>

theorem MainJobNormal_completes:
  assumes "runnable N (cfg w)" and "platform E stack w" and "report_fp rep = Some Stdout"
    and "InitThreadContext E time None w = Inr u"
  shows "\<exists>z o2. MainJobNormal E stack pick rep time (w, o1) = Some (Inr (z, o2)) \<and>
    lines_of o2 = lines_of o1 + GetSubOpNum (e_pmdk E) (rw_type (cfg w)) \<and> heap_live z = heap_live w \<and>
    live_maps (g_pm (cfg z)) = live_maps (g_pm (cfg w)) \<and> fds (pm_fs (g_pm (cfg z))) = fds (pm_fs (g_pm (cfg w))) \<and>
    (\<forall>a. in_range (aep_buf (cfg w)) (unat AEP_SIZE) a \<and> (rw_type (cfg w) = kRead \<or> \<not> in_buffers (cfg w) a) \<longrightarrow>
       mem (w_mach z) a = mem (w_mach w) a)"
  using job_body_total [OF assms, of pick o1] buffers_area [OF assms(1,2)] unfolding MainJobNormal_def by blast

theorem MainJobNormal_completes_witness:
  "\<exists>z o2. MainJobNormal demo_env demo_stack (\<lambda>_. 0) \<lparr>report_fd = 3, report_fp = Some Stdout\<rparr> ''T''
      (demo_world, \<lparr>printed = [], buffered = []\<rparr>) = Some (Inr (z, o2)) \<and> lines_of o2 = 4 \<and> heap_live z = 0"
proof -
  obtain u where "InitThreadContext demo_env ''T'' None demo_world = Inr u" using demo_InitThreadContext by blast
  moreover have "GetSubOpNum (e_pmdk demo_env) (rw_type (cfg demo_world)) = 4"
    by (simp add: GetSubOpNum_def AEP_CPY_FUNC_NUM_def aep_cpy_funcs_def demo_world_simps)
  ultimately show ?thesis
    using MainJobNormal_completes [OF demo_runnable demo_platform, of "\<lparr>report_fd = 3, report_fp = Some Stdout\<rparr>" "''T''" u
        "\<lambda>_. 0" "\<lparr>printed = [], buffered = []\<rparr>"]
    by (auto simp: lines_of_def) (auto simp: demo_world_def)
qed

end
