(* ===== verification/Log.thy ===== *)
theory Log
  imports HLFS_Prelude
begin

text \<open>
  util/log.h and util/log.cc: the statement forms of the log and the logging setup. The state is the
  module's own flag, the glog flags it sets, whether glog has been initialised, the messages
  logged (the newest first), the build mode, and which severities the raw logger shows, which
  depends on flags of glog that the program leaves alone. What glog documents of its macros is part
  of the model: LOG shows the severities from FLAGS_minloglevel on, VLOG the levels up to FLAGS_v, a
  fatal message ends the process, and so does a second InitGoogleLogging.
\<close>

section \<open>glog\<close>

datatype severity = INFO | WARNING | ERROR | FATAL

definition severity_num :: "severity \<Rightarrow> int" where
  "severity_num sev = (case sev of INFO \<Rightarrow> 0 | WARNING \<Rightarrow> 1 | ERROR \<Rightarrow> 2 | FATAL \<Rightarrow> 3)"

record log_cfg =
  is_log_to_stderr :: bool
  vlog_level :: int
  min_log_level :: int

record log_state =
  is_init :: bool
  FLAGS_logtostderr :: bool
  FLAGS_v :: int
  FLAGS_minloglevel :: int
  glog_started :: bool
  ndebug :: bool
  raw_shown :: "severity \<Rightarrow> bool"
  logged :: "string list"

datatype log_fault = FatalLog string | AssertFailed

type_synonym log_stmt = "log_state \<Rightarrow> log_fault + log_state"

definition InitGoogleLogging :: log_stmt where
  "InitGoogleLogging s =
     (if glog_started s then Inl (FatalLog ''You called InitGoogleLogging() twice!'')
      else Inr (s\<lparr>glog_started := True\<rparr>))"

definition emit :: "severity \<Rightarrow> bool \<Rightarrow> string \<Rightarrow> log_stmt" where
  "emit sev shown msg s =
     (if sev = FATAL then Inl (FatalLog msg) else if shown then Inr (s\<lparr>logged := msg # logged s\<rparr>) else Inr s)"

definition LOG :: "severity \<Rightarrow> string \<Rightarrow> log_stmt" where
  "LOG sev msg s = emit sev (FLAGS_minloglevel s \<le> severity_num sev) msg s"

definition VLOG_IS_ON :: "int \<Rightarrow> log_state \<Rightarrow> bool" where
  "VLOG_IS_ON n s \<longleftrightarrow> n \<le> FLAGS_v s"

definition VLOG :: "int \<Rightarrow> string \<Rightarrow> log_stmt" where
  "VLOG n msg s = (if VLOG_IS_ON n s then LOG INFO msg s else Inr s)"

definition RAW_LOG :: "severity \<Rightarrow> string \<Rightarrow> log_stmt" where
  "RAW_LOG sev msg s = emit sev (raw_shown s sev) msg s"

definition RAW_VLOG :: "int \<Rightarrow> string \<Rightarrow> log_stmt" where
  "RAW_VLOG n msg s = (if VLOG_IS_ON n s then RAW_LOG INFO msg s else Inr s)"

definition LOG_ASSERT :: "bool \<Rightarrow> string \<Rightarrow> log_stmt" where
  "LOG_ASSERT c msg s = (if c then Inr s else LOG FATAL msg s)"

text \<open>The debug forms are compiled out when NDEBUG is defined.\<close>

definition in_debug :: "log_stmt \<Rightarrow> log_stmt" where
  "in_debug stmt s = (if ndebug s then Inr s else stmt s)"

definition DLOG :: "severity \<Rightarrow> string \<Rightarrow> log_stmt" where
  "DLOG sev msg = in_debug (LOG sev msg)"

definition DVLOG :: "int \<Rightarrow> string \<Rightarrow> log_stmt" where
  "DVLOG n msg = in_debug (VLOG n msg)"

definition RAW_DLOG :: "severity \<Rightarrow> string \<Rightarrow> log_stmt" where
  "RAW_DLOG sev msg = in_debug (RAW_LOG sev msg)"

definition DCHECK :: "bool \<Rightarrow> string \<Rightarrow> log_stmt" where
  "DCHECK c msg = in_debug (LOG_ASSERT c msg)"

section \<open>The forms of util/log.h\<close>

text \<open>The header redefines two of them: neither evaluates its condition in a release build.\<close>

definition DLOG_ASSERT :: "bool \<Rightarrow> string \<Rightarrow> log_stmt" where
  "DLOG_ASSERT c msg s = (if ndebug s then (if True \<or> \<not> \<not> c then Inr s else LOG FATAL msg s) else LOG_ASSERT c msg s)"

definition RAW_DVLOG :: "int \<Rightarrow> string \<Rightarrow> log_stmt" where
  "RAW_DVLOG n msg s = (if ndebug s then (if True \<or> VLOG_IS_ON n s then Inr s else RAW_LOG INFO msg s) else RAW_VLOG n msg s)"

definition d_info :: "string \<Rightarrow> log_stmt" where
  "d_info = DLOG INFO"

definition d_warning :: "string \<Rightarrow> log_stmt" where
  "d_warning = DLOG WARNING"

definition d_error :: "string \<Rightarrow> log_stmt" where
  "d_error = DLOG ERROR"

definition d_fatal :: "string \<Rightarrow> log_stmt" where
  "d_fatal = DLOG FATAL"

definition dv_proc :: "string \<Rightarrow> log_stmt" where
  "dv_proc = DVLOG 0"

definition dv_mod :: "string \<Rightarrow> log_stmt" where
  "dv_mod = DVLOG 1"

definition dv_func :: "string \<Rightarrow> log_stmt" where
  "dv_func = DVLOG 2"

definition dv_verb :: "string \<Rightarrow> log_stmt" where
  "dv_verb = DVLOG 3"

definition rd_info :: "string \<Rightarrow> log_stmt" where
  "rd_info = RAW_DLOG INFO"

definition rd_warning :: "string \<Rightarrow> log_stmt" where
  "rd_warning = RAW_DLOG WARNING"

definition rd_error :: "string \<Rightarrow> log_stmt" where
  "rd_error = RAW_DLOG ERROR"

definition rd_fatal :: "string \<Rightarrow> log_stmt" where
  "rd_fatal = RAW_DLOG FATAL"

definition rdv_proc :: "string \<Rightarrow> log_stmt" where
  "rdv_proc = RAW_DVLOG 0"

definition rdv_mod :: "string \<Rightarrow> log_stmt" where
  "rdv_mod = RAW_DVLOG 1"

definition rdv_func :: "string \<Rightarrow> log_stmt" where
  "rdv_func = RAW_DVLOG 2"

definition rdv_verb :: "string \<Rightarrow> log_stmt" where
  "rdv_verb = RAW_DVLOG 3"

definition dlog_assert :: "bool \<Rightarrow> string \<Rightarrow> log_stmt" where
  "dlog_assert = DLOG_ASSERT"

text \<open>The forms of either build. \<open>v_verb\<close> is missing: it stands for LOG(3), which names no severity of glog and
  does not compile where it is used.\<close>

definition log_info :: "string \<Rightarrow> log_stmt" where
  "log_info = LOG INFO"

definition log_warning :: "string \<Rightarrow> log_stmt" where
  "log_warning = LOG WARNING"

definition log_error :: "string \<Rightarrow> log_stmt" where
  "log_error = LOG ERROR"

definition log_fatal :: "string \<Rightarrow> log_stmt" where
  "log_fatal = LOG FATAL"

definition v_proc :: "string \<Rightarrow> log_stmt" where
  "v_proc = VLOG 0"

definition v_mod :: "string \<Rightarrow> log_stmt" where
  "v_mod = VLOG 1"

definition v_func :: "string \<Rightarrow> log_stmt" where
  "v_func = VLOG 2"

definition r_info :: "string \<Rightarrow> log_stmt" where
  "r_info = RAW_LOG INFO"

definition r_warning :: "string \<Rightarrow> log_stmt" where
  "r_warning = RAW_LOG WARNING"

definition r_error :: "string \<Rightarrow> log_stmt" where
  "r_error = RAW_LOG ERROR"

definition r_fatal :: "string \<Rightarrow> log_stmt" where
  "r_fatal = RAW_LOG FATAL"

definition rv_proc :: "string \<Rightarrow> log_stmt" where
  "rv_proc = RAW_VLOG 0"

definition rv_mod :: "string \<Rightarrow> log_stmt" where
  "rv_mod = RAW_VLOG 1"

definition rv_func :: "string \<Rightarrow> log_stmt" where
  "rv_func = RAW_VLOG 2"

definition rv_verb :: "string \<Rightarrow> log_stmt" where
  "rv_verb = RAW_VLOG 3"

lemmas debug_forms = d_info_def d_warning_def d_error_def d_fatal_def dv_proc_def dv_mod_def dv_func_def dv_verb_def
  rd_info_def rd_warning_def rd_error_def rd_fatal_def rdv_proc_def rdv_mod_def rdv_func_def rdv_verb_def dlog_assert_def

lemmas forms = log_info_def log_warning_def log_error_def log_fatal_def v_proc_def v_mod_def v_func_def
  r_info_def r_warning_def r_error_def r_fatal_def rv_proc_def rv_mod_def rv_func_def rv_verb_def

section \<open>The setup\<close>

text \<open>The C assert is compiled out as well; the self-test in the NDEBUG branch runs one form after
  another, each of which must do nothing.\<close>

definition c_assert :: "bool \<Rightarrow> log_stmt" where
  "c_assert c s = (if ndebug s \<or> c then Inr s else Inl AssertFailed)"

definition ndebug_checks :: "log_stmt list" where
  "ndebug_checks =
     [LOG INFO ''Run as [NOT DEBUG] mode'',
      c_assert False,
      DLOG FATAL ''DLOG UnExpected!!!'',
      DVLOG 0 ''DVLOG UnExpected!!!'',
      DLOG_ASSERT False ''DLOG_ASSERT UnExpected!!!'',
      DLOG FATAL ''DLOG_IF UnExpected!!!'',
      DLOG FATAL ''DLOG_EVERY_N UnExpected!!!'',
      DLOG FATAL ''DLOG_IF_EVERY_N UnExpected!!!'',
      DCHECK False ''DCHECK UnExpected!!!'',
      DCHECK (''1'' = ''2'') ''DCHECK_STREQ UnExpected!!!'',
      DCHECK False ''DCHECK_NOTNULL'',
      d_info ''d_info UnExpected!!!'',
      d_warning ''d_warning UnExpected!!!'',
      d_error ''d_error UnExpected!!!'',
      d_fatal ''d_fatal UnExpected!!!'',
      dv_proc ''dv_proc UnExpected!!!'',
      dv_mod ''dv_mod UnExpected!!!'',
      dv_func ''dv_func UnExpected!!!'',
      dv_verb ''dv_verb UnExpected!!!'',
      rd_info ''rd_info UnExpected!!!'',
      rd_warning ''rd_warning UnExpected!!!'',
      rd_error ''rd_error UnExpected!!!'',
      rd_fatal ''rd_fatal UnExpected!!!'',
      rdv_proc ''rdv_proc UnExpected!!!'',
      rdv_mod ''rdv_mod UnExpected!!!'',
      rdv_func ''rdv_func UnExpected!!!'',
      rdv_verb ''rdv_verb UnExpected!!!'',
      dlog_assert False ''dlog_assert UnExpected!!!'']"

definition debug_checks :: "log_stmt list" where
  "debug_checks =
     [LOG INFO ''Run as [DEBUG] mode'',
      DLOG_ASSERT True ''DLOG_ASSERT UnExpected!!!'',
      dlog_assert True ''dlog_assert UnExpected!!!'']"

definition InitLog :: "log_cfg \<Rightarrow> log_stmt" where
  "InitLog cfg s =
     (if is_init s then Inr s
      else
        (let s1 = s\<lparr>FLAGS_logtostderr := is_log_to_stderr cfg, FLAGS_v := vlog_level cfg,
                    FLAGS_minloglevel := min_log_level cfg\<rparr> in
         case InitGoogleLogging s1 of
           Inl e \<Rightarrow> Inl e
         | Inr s2 \<Rightarrow> run_all (if ndebug s2 then ndebug_checks else debug_checks) s2))"

section \<open>Properties\<close>

text \<open>Every debug form does nothing in a release build, and what a form of either build can do is to end
  the process, by a fatal message, or to add its message to the log.\<close>

lemma debug_form_silent:
  assumes "ndebug s"
  shows "in_debug stmt s = Inr s" and "DLOG_ASSERT c msg s = Inr s" and "RAW_DVLOG n msg s = Inr s" and "c_assert c s = Inr s"
  using assms by (simp_all add: in_debug_def DLOG_ASSERT_def RAW_DVLOG_def c_assert_def)

lemma emit_cases: "emit sev shown msg s \<in> {Inl (FatalLog msg), Inr s, Inr (s\<lparr>logged := msg # logged s\<rparr>)}"
  by (simp add: emit_def)

lemma form_effect:
  assumes "stmt \<in> {LOG sev, VLOG n, RAW_LOG sev, RAW_VLOG n, DLOG sev, DVLOG n, RAW_DLOG sev, RAW_DVLOG n, LOG_ASSERT c, DLOG_ASSERT c}"
  shows "stmt msg s \<in> {Inl (FatalLog msg), Inr s, Inr (s\<lparr>logged := msg # logged s\<rparr>)}"
  using assms
  by (auto simp: emit_def LOG_def VLOG_def RAW_LOG_def RAW_VLOG_def DLOG_def DVLOG_def RAW_DLOG_def RAW_DVLOG_def LOG_ASSERT_def DLOG_ASSERT_def
    in_debug_def split: if_splits)

lemma ndebug_checks_silent:
  assumes "ndebug s"
  shows "run_all ndebug_checks s = LOG INFO ''Run as [NOT DEBUG] mode'' s"
proof -
  have "ndebug (s\<lparr>logged := l\<rparr>)" for l using assms by simp
  note q = debug_form_silent [OF assms] debug_form_silent [OF this]
  show ?thesis
    by (simp add: ndebug_checks_def debug_forms DLOG_def DVLOG_def RAW_DLOG_def DCHECK_def q LOG_def emit_def)
qed

lemma debug_checks_run: "run_all debug_checks s = LOG INFO ''Run as [DEBUG] mode'' s"
  by (simp add: debug_checks_def debug_forms DLOG_ASSERT_def LOG_ASSERT_def LOG_def emit_def)

lemma InitLog_fresh:
  assumes "\<not> is_init s" and "\<not> glog_started s"
  shows "InitLog cfg s = Inr (s\<lparr>FLAGS_logtostderr := is_log_to_stderr cfg, FLAGS_v := vlog_level cfg,
    FLAGS_minloglevel := min_log_level cfg, glog_started := True,
    logged := (if min_log_level cfg \<le> 0
      then (if ndebug s then ''Run as [NOT DEBUG] mode'' else ''Run as [DEBUG] mode'') # logged s else logged s)\<rparr>)"
  using assms by (simp add: InitLog_def InitGoogleLogging_def Let_def ndebug_checks_silent debug_checks_run LOG_def emit_def severity_num_def)

text \<open>The first InitLog of a process succeeds in either build: it sets the glog flags from its
  configuration, starts glog, and logs one line that names the build mode, unless its own
  configuration suppresses it; the self-test of the release build passes silently.\<close>

theorem InitLog_first:
  assumes "\<not> is_init s" and "\<not> glog_started s"
  shows "InitLog cfg s = Inr (s\<lparr>FLAGS_logtostderr := is_log_to_stderr cfg, FLAGS_v := vlog_level cfg,
    FLAGS_minloglevel := min_log_level cfg, glog_started := True,
    logged := (if min_log_level cfg \<le> 0
      then (if ndebug s then ''Run as [NOT DEBUG] mode'' else ''Run as [DEBUG] mode'') # logged s else logged s)\<rparr>)"
  using assms by (rule InitLog_fresh)

definition demo_log :: log_state where
  "demo_log = \<lparr>is_init = False, FLAGS_logtostderr = False, FLAGS_v = 0, FLAGS_minloglevel = 0,
     glog_started = False, ndebug = True, raw_shown = (\<lambda>sev. sev \<in> {ERROR, FATAL}), logged = []\<rparr>"

definition demo_log_cfg :: log_cfg where
  "demo_log_cfg = \<lparr>is_log_to_stderr = True, vlog_level = 3, min_log_level = 0\<rparr>"

theorem InitLog_first_witness:
  "\<exists>s. InitLog demo_log_cfg demo_log = Inr s \<and> FLAGS_v s = 3 \<and> logged s = [''Run as [NOT DEBUG] mode'']"
  using InitLog_first [of demo_log demo_log_cfg] by (simp add: demo_log_def demo_log_cfg_def)

text \<open>InitLog is not idempotent although it tests a flag for that: nothing ever sets the flag,
  so a second call reaches glog again, which kills the process.\<close>

theorem InitLog_twice:
  assumes "\<not> is_init s" and "\<not> glog_started s"
  shows "\<exists>s'. InitLog cfg s = Inr s' \<and>
    InitLog cfg' s' = Inl (FatalLog ''You called InitGoogleLogging() twice!'')"
  unfolding InitLog_fresh [OF assms] using assms(1) by (simp add: InitLog_def InitGoogleLogging_def)

theorem InitLog_twice_witness:
  "\<exists>s. InitLog demo_log_cfg demo_log = Inr s \<and>
    InitLog demo_log_cfg s = Inl (FatalLog ''You called InitGoogleLogging() twice!'')"
  using InitLog_twice [of demo_log demo_log_cfg demo_log_cfg] by (simp add: demo_log_def)

end
