(* ===== verification/Study_Main.thy ===== *)
theory Study_Main
  imports Study_Run Log
begin

text \<open>
  The rest of bgtest/AEP/aep_study.cc: the two jobs that vary the access size and the number of
  threads, the printed configuration, and main. What time answers to its successive calls is a
  parameter (\<open>now\<close>), as are the broken-down local time, the flags that gflags found, and the number
  the user types when asked whether to clean.
\<close>

section \<open>Varying the access size\<close>

text \<open>A step on the globals, and a line of output.\<close>

definition on_cfg :: "(globals \<Rightarrow> stop + globals) \<Rightarrow> world \<times> io \<Rightarrow> (stop + world \<times> io) option" where
  "on_cfg f = on_world (\<lambda>w. case f (cfg w) of Inl e \<Rightarrow> Inl e | Inr g \<Rightarrow> Inr (w\<lparr>cfg := g\<rparr>))"

definition print_line :: "(globals \<Rightarrow> string) \<Rightarrow> world \<times> io \<Rightarrow> (stop + world \<times> io) option" where
  "print_line f s = Some (Inr (fst s, fprintf Stdout (f (cfg (fst s))) (snd s)))"

text \<open>\<open>for (access_size = 16; access_size <= 64 * 1024; access_size <<= 1)\<close>\<close>

definition access_sizes :: "u32 list" where
  "access_sizes = map (\<lambda>i. push_bit i 16) [0..<13]"

definition size_cfg :: "env \<Rightarrow> flags \<Rightarrow> u32 \<Rightarrow> u32 \<Rightarrow> globals \<Rightarrow> stop + globals" where
  "size_cfg E F now sz g =
     (case InitGlobalCfg (e_pmem2 E) F now False (g\<lparr>access_size := sz\<rparr>) of
        Inl e \<Rightarrow> Inl e
      | Inr g1 \<Rightarrow> if thread_num g1 = 1 then Inr (g1\<lparr>iters := gen_iters (access_size g1)\<rparr>)
                  else ReCfgWhenThreadNumChange g1)"

text \<open>The line of a size stands apart from the lines of the operations.\<close>

definition size_line :: "globals \<Rightarrow> string" where
  "size_line g = ''=========================== access_size: '' @ u32s (access_size g) @ '', iters: '' @ u32s (iters g) @ ''\<newline>''"

text \<open>When the loop ends the variable holds the first value beyond its bound.\<close>

definition MainJobVaryAccessSize :: "env \<Rightarrow> flags \<Rightarrow> (nat \<Rightarrow> u32) \<Rightarrow> (nat \<Rightarrow> u64) \<Rightarrow> (sys \<Rightarrow> nat) \<Rightarrow> report \<Rightarrow> string \<Rightarrow>
    world \<times> io \<Rightarrow> (stop + world \<times> io) option" where
  "MainJobVaryAccessSize E F now stack pick rep time =
     do_all (concat (map (\<lambda>i. [on_cfg (size_cfg E F (now i) (access_sizes ! i)), print_line size_line,
                               job_body E stack pick Analyze rep time]) [0..<length access_sizes]) @
             [on_cfg (\<lambda>g. Inr (g\<lparr>access_size := 128 * 1024\<rparr>))])"

section \<open>Varying the number of threads\<close>

definition thread_nums :: "u32 list" where
  "thread_nums = map (\<lambda>i. push_bit i 1) [0..<6]"

definition all_cores :: "globals \<Rightarrow> globals" where
  "all_cores g = g\<lparr>buffer_size := AEP_SIZE div 2, core_ids := map of_nat ([20..<40] @ [60..<60 + MAX_THREAD_NUM - 20]),
     core_num := of_nat (length ([20..<40] @ [60..<60 + MAX_THREAD_NUM - 20]))\<rparr>"

definition threads_cfg :: "env \<Rightarrow> flags \<Rightarrow> u32 \<Rightarrow> u32 \<Rightarrow> globals \<Rightarrow> stop + globals" where
  "threads_cfg E F now n g =
     (case InitGlobalCfg (e_pmem2 E) F now False (g\<lparr>thread_num := n\<rparr>) of
        Inl e \<Rightarrow> Inl e
      | Inr g1 \<Rightarrow> ReCfgWhenThreadNumChange g1)"

definition threads_line :: "globals \<Rightarrow> string" where
  "threads_line g = ''=========================== thread_num: '' @ u32s (thread_num g) @ '', iters: '' @ u32s (iters g) @
     '', buffer_size: '' @ Size2HumanStr (buffer_size g) @ ''\<newline>''"

text \<open>The evaluation for buffers that fit a cache leaves out the first and last million measurements.\<close>

definition analyze_threads :: "globals \<Rightarrow> u32 list \<Rightarrow> u64 \<Rightarrow> int \<Rightarrow> stop + analyze_result \<times> u32 list" where
  "analyze_threads g data run_total_time tnum =
     (if buffer_size g \<le> 64 * 1024 * 1024
      then if \<not> iters g > 5000000 then Inl Aborted
           else if length data < 1000000 then Inl (Undefined ''data out of bounds'')
           else (case AnalyzeForCachelineFlush (drop 1000000 data) (ucast (iters g - 2000000)) tnum of
                   Inl e \<Rightarrow> Inl e
                 | Inr (r, d) \<Rightarrow> Inr (r, take 1000000 data @ d))
      else Analyze g data run_total_time tnum)"

definition MainJobVaryThreadNum :: "env \<Rightarrow> flags \<Rightarrow> (nat \<Rightarrow> u32) \<Rightarrow> (nat \<Rightarrow> u64) \<Rightarrow> (sys \<Rightarrow> nat) \<Rightarrow> report \<Rightarrow> string \<Rightarrow>
    world \<times> io \<Rightarrow> (stop + world \<times> io) option" where
  "MainJobVaryThreadNum E F now stack pick rep time =
     do_all ([on_cfg (\<lambda>g. Inr (all_cores g))] @
             concat (map (\<lambda>i. [on_cfg (threads_cfg E F (now i) (thread_nums ! i)), print_line threads_line,
                               job_body E stack pick analyze_threads rep time]) [0..<length thread_nums]) @
             [on_cfg (\<lambda>g. Inr (g\<lparr>thread_num := 64\<rparr>))])"

section \<open>main\<close>

definition PrintGlobalCfg :: "globals \<Rightarrow> io \<Rightarrow> io" where
  "PrintGlobalCfg g o1 = foldl (\<lambda>b l. fprintf Stdout l b) o1
     ([pad_right 80 ''========================================================'' @ ''\<newline>'',
       CHR 0x09 # ''aep_dev_path     = '' @ aep_dev_path g @ ''\<newline>'',
       CHR 0x09 # ''thread_num       = '' @ u32s (thread_num g) @ ''\<newline>'',
       CHR 0x09 # ''buffer_size      = '' @ u64s (buffer_size g) @ ''B,'' @ u64s (buffer_size g div 1024) @ ''KB,'' @
         u64s (buffer_size g div 1024 div 1024) @ ''MB\<newline>'',
       CHR 0x09 # ''rw_type          = '' @ RwType2Str (rw_type g) @ ''\<newline>'',
       CHR 0x09 # ''access_mode      = '' @ AccessMode2Str (access_mode g) @ ''\<newline>'',
       CHR 0x09 # ''access_size      = '' @ u32s (access_size g) @ ''B,'' @ u32s (access_size g div 1024) @ ''KB,'' @
         u32s (access_size g div 1024 div 1024) @ ''MB\<newline>'',
       CHR 0x09 # ''runtime          = '' @ u32s (runtime g) @ ''s\<newline>'',
       CHR 0x09 # ''iters            = '' @ u32s (iters g) @ ''\<newline>'',
       CHR 0x09 # ''socket           = '' @ u32s (socket g) @ ''\<newline>'',
       CHR 0x09 # ''core_id          = '' @ u32s (core_ids g ! 0)] @
      map (\<lambda>i. '','' @ u32s (core_ids g ! i)) [1..<unat (thread_num g)] @
      [''\<newline>'',
       CHR 0x09 # ''rep_dir_path     = '' @ rep_dir_path g @ ''\<newline>'',
       CHR 0x09 # ''aep_buf_size     = '' @ Size2HumanStr (aep_buf_size g) @ ''\<newline>'',
       CHR 0x09 # ''seed             = '' @ u32s (seed g) @ ''\<newline>'',
       CHR 0x09 # ''access_size_bits = '' @ u32s (access_size_bits g) @ ''\<newline>'',
       pad_right 80 ''--------------------------------------------------------'' @ ''\<newline>''])"

definition print_cfg :: "world \<times> io \<Rightarrow> (stop + world \<times> io) option" where
  "print_cfg s =
     Some (if length (core_ids (cfg (fst s))) < max 1 (unat (thread_num (cfg (fst s))))
           then Inl (Undefined ''core_ids out of bounds'')
           else Inr (fst s, PrintGlobalCfg (cfg (fst s)) (snd s)))"

text \<open>The fuel bounds the depth of the directory tree; a path too long for a buffer is undefined.\<close>

definition CleanRepDir :: "nat \<Rightarrow> world \<times> io \<Rightarrow> (stop + world \<times> io) option" where
  "CleanRepDir fuel s =
     (let (w, o1) = s; g = cfg w in
      case RemoveDirRecursive fuel (rep_dir_path g) (pm_fs (g_pm g)) of
        None \<Rightarrow> None
      | Some None \<Rightarrow> Some (Inl (Undefined ''path too long''))
      | Some (Some (ret, fs)) \<Rightarrow> Some (Inr (w\<lparr>cfg := g\<lparr>g_pm := (g_pm g)\<lparr>pm_fs := fs\<rparr>\<rparr>\<rparr>, o1)))"

definition choose_job :: "env \<Rightarrow> flags \<Rightarrow> (nat \<Rightarrow> u32) \<Rightarrow> (nat \<Rightarrow> u64) \<Rightarrow> (sys \<Rightarrow> nat) \<Rightarrow> report \<Rightarrow> string \<Rightarrow>
    world \<times> io \<Rightarrow> (stop + world \<times> io) option" where
  "choose_job E F now stack pick rep time =
     (if FLAGS_vary_access_size F then MainJobVaryAccessSize E F now stack pick rep time
      else if FLAGS_vary_thread_num F then MainJobVaryThreadNum E F now stack pick rep time
      else MainJobNormal E stack pick rep time)"

text \<open>The report lives until main returns; it is given the time whether or not the output goes to stdout.\<close>

definition report_and_run :: "env \<Rightarrow> flags \<Rightarrow> (nat \<Rightarrow> u32) \<Rightarrow> (nat \<Rightarrow> u64) \<Rightarrow> (sys \<Rightarrow> nat) \<Rightarrow> string \<Rightarrow>
    world \<times> io \<Rightarrow> (stop + world \<times> io) option" where
  "report_and_run E F now stack pick file_time s =
     (let (w, o1) = s in
      case new_Report file_time (cfg w, o1) of
        Inl e \<Rightarrow> Some (Inl e)
      | Inr (rep, g, o2) \<Rightarrow>
          do_all [choose_job E F now stack pick rep file_time,
                  on_cfg (\<lambda>g. Inr (DestroyGlobalCfg g)),
                  \<lambda>(w1, o3). (let (g1, o4) = delete_Report rep (cfg w1, o3) in Some (Inr (w1\<lparr>cfg := g1\<rparr>, o4)))]
            (w\<lparr>cfg := g\<rparr>, o2))"

definition the_log_cfg :: log_cfg where
  "the_log_cfg = \<lparr>is_log_to_stderr = True, vlog_level = 3, min_log_level = 0\<rparr>"

text \<open>What main does before it creates the report.\<close>

definition main_setup :: "env \<Rightarrow> flags \<Rightarrow> u32 \<Rightarrow> nat \<Rightarrow> world \<times> io \<Rightarrow> (stop + world \<times> io) option" where
  "main_setup E F now fuel =
     do_all [CleanRepDir fuel,
             on_cfg (InitGlobalCfg (e_pmem2 E) F now True),
             print_cfg,
             on_cfg (CheckGlobalCfg (e_numa E)),
             on_world (SetEnv E)]"

definition main :: "env \<Rightarrow> flags \<Rightarrow> (nat \<Rightarrow> u32) \<Rightarrow> tm \<Rightarrow> int \<Rightarrow> nat \<Rightarrow> (nat \<Rightarrow> u64) \<Rightarrow> (sys \<Rightarrow> nat) \<Rightarrow> log_state \<Rightarrow>
    world \<times> io \<Rightarrow> (stop + log_state \<times> world \<times> io) option" where
  "main E F now T sure fuel stack pick ls s =
     (case InitLog the_log_cfg ls of
        Inl e \<Rightarrow> Some (Inl Aborted)
      | Inr ls' \<Rightarrow>
          map_option (map_sum id (Pair ls'))
            (do_all
               ([on_cfg (ParseAndValidateFlags (e_numa E) F)] @
                (if FLAGS_clean_rep_dir F
                 then [print_line (\<lambda>g. ''Sure to clean report dir: '' @ rep_dir_path g @ '' [0/1]:'')] @
                      (if sure \<noteq> 0 then [CleanRepDir fuel] else [])
                 else [main_setup E F (now 0) fuel,
                       report_and_run E F (\<lambda>i. now (Suc i)) stack pick (GetLocalTime T)])) s))"

section \<open>Properties\<close>

lemma re_init: "InitGlobalCfg L F now False g = derive_sizes now g"
  by (simp add: InitGlobalCfg_def del: run_all.simps)

lemma ucast_exp: "k < 32 \<Longrightarrow> ucast (2 ^ k :: u32) = (2 ^ k :: u64)"
  by (simp add: word_unat_eq_iff unat_exp_u64 unat_exp_u32)

lemma half_div: "k \<le> 35 \<Longrightarrow> AEP_SIZE div 2 div 2 ^ k = 2 ^ (35 - k)"
  using exp_div_u64 [of k 35] by (simp add: AEP_SIZE_def)

lemma threads_cfg_exp:
  assumes "access_size g = 2 ^ a" and "buffer_size g = 2 ^ b" and "a \<le> b" and "a < 32" and "b < 64" and "k < 32"
  shows "threads_cfg E F now (2 ^ k) g = Inr (g\<lparr>thread_num := 2 ^ k, buf_slots := 2 ^ (b - a),
    buf_slots_mask := ucast (2 ^ (b - a) - 1 :: u64), access_size_bits := of_nat a, seed := now,
    buffer_size := 2 ^ (35 - k),
    iters := (let it = ucast (2 ^ (35 - k) div 2 ^ a :: u64) in if it > 2500000 then 2500000 else if it < 500000 then 500000 else it)\<rparr>)"
  using derive_sizes_pow2 [of a b "g\<lparr>thread_num := 2 ^ k\<rparr>" now] assms
  by (simp add: threads_cfg_def re_init ReCfgWhenThreadNumChange_def ucast_exp half_div Let_def)

text \<open>A mask of \<open>s + 1\<close> bits selects the slot \<open>2 ^ s\<close>.\<close>

lemma full_mask:
  assumes "s \<le> 31"
  shows "unat (ucast (2 ^ Suc s - 1 :: u64) :: u32) = 2 ^ Suc s - 1"
    and "t_access_mode t = kSeq \<Longrightarrow> slot_of (ucast (2 ^ Suc s - 1 :: u64)) t (2 ^ s) = 2 ^ s"
proof -
  let ?msk = "ucast (2 ^ Suc s - 1 :: u64) :: u32"
  have p: "(2 :: nat) ^ Suc s \<le> 2 ^ 32" using assms by (intro power_increasing) auto
  have "unat (2 ^ Suc s - 1 :: u64) = 2 ^ Suc s - 1"
    using assms by (subst unat_minus_one) (simp_all add: unat_exp_u64 del: power_Suc)
  then show "unat ?msk = 2 ^ Suc s - 1" using p by (simp add: unsigned_ucast_eq take_bit_nat_eq_self del: power_Suc)
  have "?msk = mask (Suc s)"
    unfolding mask_eq_exp_minus_1 [symmetric] using assms by (intro bit_word_eqI) (simp add: bit_simps)
  then have "(of_nat (2 ^ s) :: u32) AND ?msk = of_nat (2 ^ s)"
    unfolding of_nat_power of_nat_numeral by (intro bit_word_eqI) (auto simp: bit_simps)
  then show "t_access_mode t = kSeq \<Longrightarrow> slot_of ?msk t (2 ^ s) = 2 ^ s"
    using assms ucast_exp [of s] by (simp add: slot_of_def)
qed

text \<open>The step to twice the threads, from buffers of \<open>2 ^ (s + a + 1)\<close> bytes.\<close>

lemma threads_cfg_halves:
  assumes "access_size g = 2 ^ a" and "a < 32" and "j < 5" and "34 - j = s + a" and "buffer_size g = 2 ^ (35 - j)"
  shows "\<exists>g'. threads_cfg E F now (2 ^ Suc j) g = Inr g' \<and> buf_slots_mask g' = ucast (2 ^ Suc s - 1 :: u64) \<and>
    buffer_size g' = 2 ^ (s + a) \<and> access_size g' = 2 ^ a \<and> access_mode g' = access_mode g \<and> aep_buf g' = aep_buf g \<and>
    iters g' = (let it = ucast (2 ^ (s + a) div 2 ^ a :: u64) in if it > 2500000 then 2500000 else if it < 500000 then 500000 else it)"
proof -
  have e: "35 - j - a = Suc s" "35 - Suc j = s + a" using assms(3,4) by simp_all
  have "a \<le> 35 - j" "35 - j < 64" "j \<le> 35" "Suc j < 32" using assms(3,4) by simp_all
  note T = threads_cfg_exp [OF assms(1,5) this(1) assms(2) this(2) this(4), of E F now, unfolded e]
  show ?thesis by (rule exI, rule conjI, rule T) (simp add: assms(1) Let_def del: power_Suc)
qed

lemma sequential_slot_addr:
  assumes mk: "made E w k t" and mode: "access_mode (cfg w) = kSeq" and sizes: "access_size (cfg w) = 2 ^ a" "a < 32"
    "buffer_size (cfg w) = 2 ^ (s + a)" and s: "s \<le> 31" and msk: "buf_slots_mask (cfg w) = ucast (2 ^ Suc s - 1 :: u64)"
  shows "slot_addr (buf_slots_mask (cfg w)) t (2 ^ s) = aep_buf (cfg w) + of_nat (Suc k) * buffer_size (cfg w)"
proof -
  note f = made_fields [OF mk]
  have "t_access_mode t = kSeq" using f(5) mode by simp
  note slot = full_mask(2) [OF s this, folded msk]
  have "t_access_size_bits t = of_nat a" using f(9) sizes(2) fls32_exp [of a] by (simp add: sizes(1) ucast_exp)
  then have "unat (t_access_size_bits t) = a" using sizes(2) by (simp add: unat_of_nat)
  moreover have "push_bit a (2 ^ s :: u64) = 2 ^ (s + a)" by (simp add: push_bit_eq_mult power_add)
  ultimately show ?thesis using f(2) by (simp add: slot_addr_def slot sizes(3) algebra_simps)
qed

lemma iters_beyond:
  assumes "s < 32" and "a < 32" and "(2 :: nat) ^ s < 500000"
  shows "2 ^ s < unat (let it = ucast (2 ^ (s + a) div 2 ^ a :: u64) :: u32 in
    if it > 2500000 then 2500000 else if it < 500000 then 500000 else it)"
proof -
  have "(2 ^ (s + a) :: u64) div 2 ^ a = 2 ^ s" using assms(1,2) by (simp add: exp_div_u64)
  moreover have "unat (ucast (2 ^ s :: u64) :: u32) = 2 ^ s"
    using assms by (simp add: unsigned_ucast_eq unat_exp_u64 take_bit_nat_eq_self)
  ultimately show ?thesis using assms(3) by (simp add: word_less_nat_alt Let_def)
qed

text \<open>C12: When the number of threads grows, the slot mask is stale. MainJobVaryThreadNum derives the mask
  before it shrinks the buffers, so after the step to \<open>2 ^ (j + 1)\<close> threads the mask selects twice as many
  slots as a thread's buffer has, and the first one beyond them is the start of the next thread's
  buffer: sequential threads reach it, as soon as their buffer has fewer than 500000 slots.\<close>

theorem threads_cfg_stale:
  assumes "access_size g = 2 ^ a" and "3 \<le> a" and "a < 32" and "j < 5" and "a \<le> 34 - j" and "buffer_size g = 2 ^ (35 - j)"
  shows "\<exists>g'. threads_cfg E F now (2 ^ Suc j) g = Inr g' \<and>
    unat (buf_slots_mask g') + 1 = 2 * (unat (buffer_size g') div unat (access_size g')) \<and>
    (\<forall>w k t. cfg w = g' \<and> made E w k t \<and> access_mode g' = kSeq \<longrightarrow>
       slot_addr (buf_slots_mask g') t (unat (buffer_size g') div unat (access_size g')) =
         aep_buf g' + of_nat (Suc k) * buffer_size g') \<and>
    (unat (buffer_size g') div unat (access_size g') < 500000 \<longrightarrow>
       unat (buffer_size g') div unat (access_size g') < unat (iters g'))"
proof -
  define s where "s = 34 - j - a"
  have sa: "34 - j = s + a" and s: "s \<le> 31" "s < 32" using assms(2,5) by (simp_all add: s_def)
  from threads_cfg_halves [OF assms(1,3,4) sa assms(6), of E F now] obtain g' where
    g': "threads_cfg E F now (2 ^ Suc j) g = Inr g'" "buf_slots_mask g' = ucast (2 ^ Suc s - 1 :: u64)"
      "buffer_size g' = 2 ^ (s + a)" "access_size g' = 2 ^ a"
      "iters g' = (let it = ucast (2 ^ (s + a) div 2 ^ a :: u64) in if it > 2500000 then 2500000 else if it < 500000 then 500000 else it)"
    by blast
  have "s + a < 64" using s assms(3) by simp
  then have slots: "unat (buffer_size g') div unat (access_size g') = 2 ^ s"
    using assms(3) by (simp add: g'(3,4) unat_exp_u64 unat_exp_u32) (simp add: power_add)
  have "unat (buf_slots_mask g') + 1 = 2 * 2 ^ s" unfolding g'(2) full_mask(1) [OF s(1)] by simp
  moreover have "2 ^ s < unat (iters g')" if "(2 :: nat) ^ s < 500000"
    unfolding g'(5) by (rule iters_beyond [OF s(2) assms(3) that])
  moreover have "slot_addr (buf_slots_mask g') t (2 ^ s) = aep_buf g' + of_nat (Suc k) * buffer_size g'"
    if w: "cfg w = g' \<and> made E w k t \<and> access_mode g' = kSeq" for w k t
  proof -
    have "made E w k t" "access_mode (cfg w) = kSeq" using w by simp_all
    from sequential_slot_addr [OF this _ assms(3) _ s(1), unfolded w [THEN conjunct1], OF g'(4,3,2)] show ?thesis .
  qed
  ultimately show ?thesis using g'(1) by (intro exI [of _ g'], unfold slots) blast
qed

theorem threads_cfg_stale_witness:
  "\<exists>g'. threads_cfg demo_env demo_flags 7 2 (demo_cfg\<lparr>access_size := 65536, buffer_size := 2 ^ 35\<rparr>) = Inr g' \<and>
    unat (buf_slots_mask g') + 1 = 2 * (unat (buffer_size g') div unat (access_size g'))"
  using threads_cfg_stale [of "demo_cfg\<lparr>access_size := 65536, buffer_size := 2 ^ 35\<rparr>" 16 0 demo_env demo_flags 7] by auto


lemma size_cfg_ok:
  assumes "runnable N g" and "thread_num g = 1" and "64 * 1024 \<le> buffer_size g" and "sz \<in> set access_sizes"
  shows "\<exists>bs msk bits. size_cfg E F now sz g = Inr (g\<lparr>access_size := sz, buf_slots := bs, buf_slots_mask := msk,
      access_size_bits := bits, seed := now, iters := gen_iters sz\<rparr>) \<and>
    runnable N (g\<lparr>access_size := sz, buf_slots := bs, buf_slots_mask := msk,
      access_size_bits := bits, seed := now, iters := gen_iters sz\<rparr>) \<and> 16 \<le> sz \<and> sz \<le> 64 * 1024"
proof -
  from assms(4) obtain i where i: "i < 13" "sz = push_bit i 16" by (auto simp: access_sizes_def)
  then have sz: "sz = 2 ^ (i + 4)" by (simp add: push_bit_eq_mult power_add)
  from assms(1) obtain a b where ab: "a \<le> b" "a < 32" "b \<le> 35" "buffer_size g = 2 ^ b" "access_size g = 2 ^ a"
    "access_size_bits g = of_nat a" "buf_slots_mask g = ucast (2 ^ (b - a) - 1 :: u64)"
    "unat (thread_num g) * 2 ^ b \<le> 2 ^ 35" by (rule runnable_sizes)
  have "(2 :: u64) ^ 16 \<le> 2 ^ b" using assms(3) ab(4) by simp
  then have b: "16 \<le> b" using le_exp_u64 [of 16 b] ab(3) by simp
  have le: "i + 4 \<le> b" "i + 4 < 32" "b < 64" using i(1) b ab(3) by simp_all
  let ?g = "g\<lparr>access_size := sz, buf_slots := 2 ^ (b - (i + 4)), buf_slots_mask := ucast (2 ^ (b - (i + 4)) - 1 :: u64),
    access_size_bits := of_nat (i + 4), seed := now, iters := gen_iters sz\<rparr>"
  have cfg: "size_cfg E F now sz g = Inr ?g"
    using derive_sizes_pow2 [OF le, of "g\<lparr>access_size := sz\<rparr>" now] ab(4) assms(2)
    by (simp add: size_cfg_def re_init sz)
  have "sized ?g"
    unfolding sized_def by (rule exI [of _ "i + 4"], rule exI [of _ b]) (use le ab(4) sz in simp)
  moreover have "CheckGlobalCfg N ?g = Inr ?g"
  proof -
    have p: "assert_pow2 (2 ^ k) ?g = Inr ?g" if "k < 64" for k
      using that fls32_exp [of k] by (simp add: assert_pow2_def push_bit_1 unat_of_nat)
    have "unat (of_nat (i + 4) :: u32) = i + 4" using i(1) by (simp add: unat_of_nat del: of_nat_add)
    moreover have "ucast sz = (2 ^ (i + 4) :: u64)" using le(2) by (simp only: sz ucast_exp)
    moreover have "(0 :: u64) < 2 ^ (b - (i + 4))" using le by (simp add: word_less_nat_alt unat_exp_u64)
    moreover have "check_numa N ?g = Inr ?g" "AEP_SIZE \<le> aep_buf_size g" "buffer_size g * ucast (thread_num g) \<le> AEP_SIZE div 2"
      using assms(1) by (auto simp: runnable_def CheckGlobalCfg_Inr check_numa_def split: if_splits)
    ultimately show ?thesis
      using p [of b] p [of "b - (i + 4)"] le ab(4) by (simp add: CheckGlobalCfg_Inr push_bit_1 del: of_nat_add)
  qed
  moreover have "0 < gen_iters sz \<and> unat (gen_iters sz) < 2 ^ 31" by (simp add: gen_iters_def)
  ultimately have "runnable N ?g" using assms(1) by (simp add: runnable_def ValidateIters_def)
  moreover have "16 \<le> sz" "sz \<le> 64 * 1024"
    using i(1) power_increasing [of 4 "i + 4" "2 :: nat"] power_increasing [of "i + 4" 16 "2 :: nat"]
    by (simp_all add: word_le_nat_alt sz unat_exp_u32 del: power_Suc)
  ultimately show ?thesis using cfg by blast
qed

text \<open>The sizes of MainJobVaryAccessSize keep a checked configuration checked. With one thread and a
  buffer of at least 64 KB, each of the 13 access sizes of the loop, from 16 bytes to 64 KB, gives a
  configuration that would pass all checks of the start again, and keeps the buffer.\<close>

theorem size_cfg_runnable:
  assumes "runnable N g" and "thread_num g = 1" and "64 * 1024 \<le> buffer_size g" and "sz \<in> set access_sizes"
  shows "\<exists>g'. size_cfg E F now sz g = Inr g' \<and> runnable N g' \<and> access_size g' = sz \<and> buffer_size g' = buffer_size g \<and>
    iters g' = gen_iters sz \<and> 16 \<le> sz \<and> sz \<le> 64 * 1024"
  using size_cfg_ok [OF assms, of E F now] by fastforce

text \<open>The evaluation for the cache line test is never reached. After the sizes were recomputed for any
  number of threads up to 32, a buffer has at least 1 GB, so MainJobVaryThreadNum always takes the
  general evaluation, and its assertion on the iterations is never tested.\<close>

theorem analyze_threads_general:
  assumes "threads_cfg E F now n g = Inr g'" and "unat n \<le> MAX_THREAD_NUM"
  shows "analyze_threads g' = Analyze g' \<and> 1024 * 1024 * 1024 \<le> buffer_size g'"
proof -
  from assms(1) obtain g1 where g1: "derive_sizes now (g\<lparr>thread_num := n\<rparr>) = Inr g1" "ReCfgWhenThreadNumChange g1 = Inr g'"
    by (auto simp: threads_cfg_def re_init split: sum.splits)
  then have n: "thread_num g1 = n" by (auto simp: derive_sizes_def Let_def split: if_splits sum.splits)
  with g1(2) have bs: "buffer_size g' = AEP_SIZE div 2 div ucast n" and "n \<noteq> 0"
    by (auto simp: ReCfgWhenThreadNumChange_def Let_def split: if_splits)
  then have "0 < unat n" by (simp add: unat_gt_0)
  have "unat (buffer_size g') = 2 ^ 35 div unat n" unfolding bs by (simp add: unat_div_distrib AEP_SIZE_def)
  moreover have "2 ^ 35 div 32 \<le> (2 :: nat) ^ 35 div unat n"
    using assms(2) \<open>0 < unat n\<close> by (intro div_le_mono2) (simp_all add: MAX_THREAD_NUM_def)
  ultimately have "2 ^ 30 \<le> unat (buffer_size g')" by simp
  then show ?thesis by (auto simp: analyze_threads_def word_le_nat_alt fun_eq_iff)
qed

theorem analyze_threads_general_witness:
  "\<exists>g'. threads_cfg demo_env demo_flags 7 32 (demo_cfg\<lparr>buffer_size := 2 ^ 30\<rparr>) = Inr g' \<and> analyze_threads g' = Analyze g'"
proof -
  have "\<exists>g'. threads_cfg demo_env demo_flags 7 (2 ^ 5) (demo_cfg\<lparr>buffer_size := 2 ^ 30\<rparr>) = Inr g'"
    using threads_cfg_exp [of "demo_cfg\<lparr>buffer_size := 2 ^ 30\<rparr>" 4 30 5 demo_env demo_flags 7]
    by (auto simp: demo_cfg_def initial_globals_def)
  then show ?thesis using analyze_threads_general [of demo_env demo_flags 7 32] by (auto simp: MAX_THREAD_NUM_def)
qed

theorem size_cfg_runnable_witness:
  "\<exists>g g'. runnable demo_numa g \<and> size_cfg demo_env demo_flags 7 65536 g = Inr g' \<and> runnable demo_numa g'"
proof -
  let ?g = "demo_cfg\<lparr>buffer_size := 2 ^ 20, buf_slots := 2 ^ 16, buf_slots_mask := ucast (2 ^ 16 - 1 :: u64)\<rparr>"
  have "sized ?g" unfolding sized_def
    by (intro exI [of _ 4] exI [of _ 20]) (simp add: demo_cfg_def initial_globals_def)
  moreover have "CheckGlobalCfg demo_numa ?g = Inr ?g"
    using fls32_exp [of 20] fls32_exp [of 16]
    by (simp add: CheckGlobalCfg_Inr check_numa_def demo_cfg_def demo_numa_def initial_globals_def AEP_SIZE_def
      MAX_THREAD_NUM_def assert_pow2_def push_bit_1)
  ultimately have r: "runnable demo_numa ?g"
    by (simp add: runnable_def demo_cfg_def initial_globals_def AEP_SIZE_def ValidateThreadNum_def MAX_THREAD_NUM_def ValidateIters_def)
  have "65536 \<in> set access_sizes" unfolding access_sizes_def set_map by (rule image_eqI [of _ _ 12]) simp_all
  with size_cfg_runnable [OF r, of 65536 demo_env demo_flags 7] r show ?thesis
    by (auto simp: demo_cfg_def initial_globals_def)
qed


section \<open>The whole program\<close>

lemma main_setup_Inr:
  assumes "main_setup E F now fuel (w, o1) = Some (Inr (w3, o3))"
  obtains pm g2 pm' where "InitGlobalCfg (e_pmem2 E) F now True ((cfg w)\<lparr>g_pm := pm\<rparr>) = Inr g2"
    and "CheckGlobalCfg (e_numa E) g2 = Inr g2" and "cfg w3 = g2\<lparr>g_pm := pm'\<rparr>" and "live_maps pm' = live_maps (g_pm g2)"
    and "heap_live w3 = heap_live w"
proof -
  from assms obtain fs g2 where i: "InitGlobalCfg (e_pmem2 E) F now True ((cfg w)\<lparr>g_pm := (g_pm (cfg w))\<lparr>pm_fs := fs\<rparr>\<rparr>) = Inr g2"
    and c: "CheckGlobalCfg (e_numa E) g2 = Inr g2" and e: "SetEnv E (w\<lparr>cfg := g2\<rparr>) = Inr w3"
    by (auto simp: main_setup_def CleanRepDir_def on_cfg_def on_world_def print_cfg_def Let_def CheckGlobalCfg_Inr
        split: option.splits sum.splits if_splits)
  from e have "\<exists>fs. cfg w3 = g2\<lparr>g_pm := (g_pm g2)\<lparr>pm_fs := fs\<rparr>\<rparr>" "heap_live w3 = heap_live w"
    by (auto simp: SetEnv_def Let_def split: if_splits sum.splits)
  with i c that show thesis by fastforce
qed

lemma ParseAndValidateFlags_Inr:
  assumes "ParseAndValidateFlags N F g0 = Inr g"
  shows "core_num g \<noteq> 0" and "ValidateThreadNum (FLAGS_thread_num F)" and "ValidateIters (FLAGS_iters F)"
  using assms
  by (auto simp: ParseAndValidateFlags_def ValidateCoreIds_def Let_def split: sum.splits if_splits option.splits)

lemma InitGlobalCfg_first:
  assumes "InitGlobalCfg L F now True g = Inr g2"
  shows "thread_num g2 = FLAGS_thread_num F" "buffer_size g2 = FLAGS_buffer_size F" "iters g2 = FLAGS_iters F"
    "rw_type g2 = Str2RwType (FLAGS_rw_type F)" "core_num g2 = core_num g" "\<exists>g'. derive_sizes now g' = Inr g2"
    "access_size g2 = FLAGS_access_size F" "access_mode g2 = Str2AccessMode (FLAGS_access_mode F)"
proof -
  from assms obtain g1 where m: "map_device L (load_flags F g) = Inr g1" and d: "derive_sizes now g1 = Inr g2"
    by (auto simp: InitGlobalCfg_def split: sum.splits)
  from m have "thread_num g1 = FLAGS_thread_num F" "buffer_size g1 = FLAGS_buffer_size F" "iters g1 = FLAGS_iters F"
    "rw_type g1 = Str2RwType (FLAGS_rw_type F)" "core_num g1 = core_num g"
    "access_size g1 = FLAGS_access_size F" "access_mode g1 = Str2AccessMode (FLAGS_access_mode F)"
    by (auto simp: map_device_def load_flags_def Let_def split: if_splits option.splits prod.splits)
  moreover from d have "thread_num g2 = thread_num g1" "buffer_size g2 = buffer_size g1" "iters g2 = iters g1"
    "rw_type g2 = rw_type g1" "core_num g2 = core_num g1" "access_size g2 = access_size g1" "access_mode g2 = access_mode g1"
    by (auto simp: derive_sizes_def Let_def split: if_splits sum.splits)
  ultimately show "thread_num g2 = FLAGS_thread_num F" "buffer_size g2 = FLAGS_buffer_size F" "iters g2 = FLAGS_iters F"
    "rw_type g2 = Str2RwType (FLAGS_rw_type F)" "core_num g2 = core_num g"
    "access_size g2 = FLAGS_access_size F" "access_mode g2 = Str2AccessMode (FLAGS_access_mode F)" by simp_all
  from d show "\<exists>g'. derive_sizes now g' = Inr g2" by blast
qed

lemma sized_pm [simp]: "sized (g\<lparr>g_pm := pm\<rparr>) = sized g"
  by (simp add: sized_def)

lemma CheckGlobalCfg_pm:
  assumes "CheckGlobalCfg N g = Inr g"
  shows "CheckGlobalCfg N (g\<lparr>g_pm := pm\<rparr>) = Inr (g\<lparr>g_pm := pm\<rparr>)"
proof -
  have "assert_pow2 v (g\<lparr>g_pm := pm\<rparr>) = Inr (g\<lparr>g_pm := pm\<rparr>)" if "assert_pow2 v g = Inr g" for v
    using that by (auto simp: assert_pow2_def split: sum.splits)
  moreover have "check_numa N (g\<lparr>g_pm := pm\<rparr>) = Inr (g\<lparr>g_pm := pm\<rparr>)" if "check_numa N g = Inr g"
    using that by (auto simp: check_numa_def split: if_splits)
  ultimately show ?thesis using assms by (simp add: CheckGlobalCfg_Inr)
qed

lemma main_setup_runnable:
  assumes "main_setup E F now fuel (w, o1) = Some (Inr (w3, o3))" and "ParseAndValidateFlags (e_numa E) F gi = Inr (cfg w)"
    and "FLAGS_buffer_size F \<le> AEP_SIZE" and "unat (FLAGS_iters F) < 2 ^ 31"
  shows "runnable (e_numa E) ((cfg w3)\<lparr>g_pm := pm\<rparr>)" and "rw_type (cfg w3) = Str2RwType (FLAGS_rw_type F)"
proof -
  from assms(1) obtain pm1 g2 pm2 where g2: "InitGlobalCfg (e_pmem2 E) F now True ((cfg w)\<lparr>g_pm := pm1\<rparr>) = Inr g2"
    "CheckGlobalCfg (e_numa E) g2 = Inr g2" "cfg w3 = g2\<lparr>g_pm := pm2\<rparr>" by (rule main_setup_Inr)
  note f = InitGlobalCfg_first [OF g2(1)] and v = ParseAndValidateFlags_Inr [OF assms(2)]
  from f(6) derived_checked_sized [OF _ g2(2)] have "sized g2" by blast
  moreover have "thread_num g2 \<noteq> 0"
    using f(5) v(1) g2(2) by (auto simp: CheckGlobalCfg_Inr check_numa_def split: if_splits)
  then have "0 < thread_num g2" by (simp add: word_neq_0_conv)
  ultimately show "runnable (e_numa E) ((cfg w3)\<lparr>g_pm := pm\<rparr>)"
    using CheckGlobalCfg_pm [OF g2(2), of pm] f assms(3,4) v by (simp add: runnable_def g2(3))
  show "rw_type (cfg w3) = Str2RwType (FLAGS_rw_type F)" using f(4) by (simp add: g2(3))
qed

text \<open>The program runs to its end. In a fresh process, when the flags are valid and choose the default
  job, the setup passes the program's own checks, the report opens and the thread contexts can be
  created on a platform that keeps its promises, main returns on every schedule: it printed one
  line for every operation, gave back its memory and unmapped the device; the descriptor of the report
  is all that stays open.\<close>

theorem main_completes:
  assumes "\<not> is_init ls" and "\<not> glog_started ls"
    and "\<not> FLAGS_clean_rep_dir F" and "\<not> FLAGS_vary_access_size F" and "\<not> FLAGS_vary_thread_num F"
    and "FLAGS_buffer_size F \<le> AEP_SIZE" and "unat (FLAGS_iters F) < 2 ^ 31"
    and "ParseAndValidateFlags (e_numa E) F (cfg w) = Inr g"
    and "main_setup E F (now 0) fuel (w\<lparr>cfg := g\<rparr>, o1) = Some (Inr (w3, o3))"
    and "new_Report (GetLocalTime T) (cfg w3, o3) = Inr (rep, g4, o4)"
    and "platform E stack (w3\<lparr>cfg := g4\<rparr>)" and "InitThreadContext E (GetLocalTime T) None (w3\<lparr>cfg := g4\<rparr>) = Inr u"
  shows "\<exists>ls' z o5. main E F now T sure fuel stack pick ls (w, o1) = Some (Inr (ls', z, o5)) \<and>
    lines_of o5 = lines_of o4 + GetSubOpNum (e_pmdk E) (Str2RwType (FLAGS_rw_type F)) \<and> heap_live z = heap_live w \<and>
    aep_map (cfg z) = None \<and> live_maps (g_pm (cfg z)) = live_maps (g_pm (cfg w3)) - 1 \<and>
    fds (pm_fs (g_pm (cfg z))) = fds (pm_fs (g_pm g4))"
proof -
  note rep = new_Report_Inr [OF assms(10)]
  from rep(2) obtain pm where pm: "g4 = (cfg w3)\<lparr>g_pm := pm\<rparr>" "live_maps pm = live_maps (g_pm (cfg w3))" by blast
  note run = main_setup_runnable [OF assms(9) _ assms(6,7), where gi = "cfg w"]
  have r: "runnable (e_numa E) (cfg (w3\<lparr>cfg := g4\<rparr>))" "rw_type (cfg w3) = Str2RwType (FLAGS_rw_type F)"
    using run(1) [where pm = pm] run(2) assms(8) by (simp_all add: pm(1))
  from job_body_total [OF r(1) assms(11) rep(1) assms(12), of pick o4] obtain z o5 where
    z: "job_body E stack pick Analyze rep (GetLocalTime T) (w3\<lparr>cfg := g4\<rparr>, o4) = Some (Inr (z, o5))"
    "lines_of o5 = lines_of o4 + GetSubOpNum (e_pmdk E) (Str2RwType (FLAGS_rw_type F))" "heap_live z = heap_live w3"
    "live_maps (g_pm (cfg z)) = live_maps pm" "fds (pm_fs (g_pm (cfg z))) = fds (pm_fs pm)"
    using r(2) by (auto simp: pm(1))
  have hl: "heap_live w3 = heap_live w" by (rule main_setup_Inr [OF assms(9)]) simp
  let ?z = "z\<lparr>cfg := DestroyGlobalCfg (cfg z)\<rparr>"
  have job: "report_and_run E F (\<lambda>i. now (Suc i)) stack pick (GetLocalTime T) (w3, o3) = Some (Inr (?z, o5))"
    using assms(4,5,10) z(1) rep(1)
    by (simp add: report_and_run_def choose_job_def MainJobNormal_def on_cfg_def on_world_def delete_Report_def)
  have "do_all [on_cfg (ParseAndValidateFlags (e_numa E) F), main_setup E F (now 0) fuel,
      report_and_run E F (\<lambda>i. now (Suc i)) stack pick (GetLocalTime T)] (w, o1) = Some (Inr (?z, o5))"
    using assms(8,9) job by (simp add: on_cfg_def on_world_def)
  moreover obtain ls' where "InitLog the_log_cfg ls = Inr ls'" using InitLog_fresh [OF assms(1,2)] by blast
  ultimately have "main E F now T sure fuel stack pick ls (w, o1) = Some (Inr (ls', ?z, o5))"
    using assms(3) by (simp add: main_def del: do_all.simps)
  with z(2-5) hl show ?thesis
    by (auto simp: DestroyGlobalCfg_def Pmem2UnMap_def pm)
qed


text \<open>A process on the demonstration machine: a device file and an empty report directory.\<close>

definition demo_main_fs :: fsys where
  "demo_main_fs = demo_rep_fs\<lparr>fs_root := Dir [(''keep'', Reg 1 420), (''r'', Dir [(''internal'', Dir []), (''report'', Dir [])])]\<rparr>"

definition demo_start :: world where
  "demo_start = demo_world\<lparr>cfg := initial_globals \<lparr>pm_fs = demo_main_fs, live_cfgs = 0, live_srcs = 0, live_maps = 0\<rparr>\<rparr>"

definition demo_ready :: world where
  "demo_ready = demo_world\<lparr>cfg := demo_cfg\<lparr>g_pm := \<lparr>pm_fs = demo_main_fs, live_cfgs = 0, live_srcs = 0, live_maps = 1\<rparr>\<rparr>\<rparr>"

definition demo_tm :: tm where
  "demo_tm = \<lparr>tm_year = 111, tm_mon = 0, tm_mday = 1, tm_hour = 1, tm_min = 1, tm_sec = 1\<rparr>"

lemma demo_time: "GetLocalTime demo_tm = ''2011-01-01T01:01:01''"
proof -
  have "char_of (50 :: nat) = CHR ''2''" by (simp add: char_of_def bit_0)
  then show ?thesis by (simp add: GetLocalTime_def demo_tm_def pad0_def to_string.simps digit_chars Let_def)
qed

lemma demo_parse:
  "ParseAndValidateFlags demo_numa demo_flags (cfg demo_start) =
     Inr ((cfg demo_start)\<lparr>core_ids := 20 # replicate 31 0, core_num := 1\<rparr>)"
proof -
  have one: "filter (\<lambda>c. c = 20) [0..<80] = [20 :: nat]" by (simp add: upt_rec)
  have "collect_cores (\<lambda>c. c = 20) [0..<80] ((cfg demo_start)\<lparr>core_num := 0\<rparr>) =
      Inr (True, (cfg demo_start)\<lparr>core_ids := 20 # replicate 31 0, core_num := 1\<rparr>)"
    by (subst collect_cores_spec)
       (simp_all add: demo_start_def initial_globals_def one MAX_THREAD_NUM_def MAX_CORE_ID_def Let_def)
  then show ?thesis
    by (simp add: ParseAndValidateFlags_def ValidateCoreIds_def demo_numa_def demo_flags_def ValidateThreadNum_def MAX_THREAD_NUM_def
        ValidateRwType_def str_2_rw_type_def ValidateAccessMode_def str_2_access_mode_def ValidateIters_def Let_def)
qed

lemma demo_setup:
  "\<exists>o3. main_setup demo_env demo_flags 7 2 (demo_start\<lparr>cfg := (cfg demo_start)\<lparr>core_ids := 20 # replicate 31 0, core_num := 1\<rparr>\<rparr>, o1) =
     Some (Inr (demo_ready, o3))"
proof -
  let ?g = "(cfg demo_start)\<lparr>core_ids := 20 # replicate 31 0, core_num := 1\<rparr>"
  have clean: "CleanRepDir 2 (demo_start\<lparr>cfg := ?g\<rparr>, o1) = Some (Inr (demo_start\<lparr>cfg := ?g\<rparr>, o1))"
    by (simp add: CleanRepDir_def demo_start_def initial_globals_def comps_def demo_main_fs_def demo_rep_fs_def numeral_2_eq_2)
  have init: "InitGlobalCfg (e_pmem2 demo_env) demo_flags 7 True ?g = Inr (cfg demo_ready)"
    by (simp add: InitGlobalCfg_def load_flags_def map_device_def derive_sizes_def demo_cfg_def demo_flags_def demo_env_def
      initial_globals_def demo_start_def demo_ready_def demo_device_def Pmem2Map_def Pmem2MapFromFd_def OpenSimple_def sys_open_def
      comps_def demo_main_fs_def demo_rep_fs_def new_fd_def Close_def sys_close_def fls32_demo push_bit_1 Str2RwType_def str_2_rw_type_def
      Str2AccessMode_def str_2_access_mode_def Let_def)
  have check: "CheckGlobalCfg (e_numa demo_env) (cfg demo_ready) = Inr (cfg demo_ready)"
    using CheckGlobalCfg_pm [OF demo_checked] by (simp add: demo_ready_def demo_env_def)
  have env: "SetEnv demo_env (demo_start\<lparr>cfg := cfg demo_ready\<rparr>) = Inr demo_ready"
    by (simp add: SetEnv_def InitRepDir_def demo_ready_def demo_start_def demo_world_def demo_cfg_def initial_globals_def demo_env_def
      demo_numa_def FileExists_def demo_main_fs_def demo_rep_fs_def comps_def rep_internal_dir_def rep_report_dir_def Let_def)
  have "length (core_ids (cfg demo_ready)) = 32" "unat (thread_num (cfg demo_ready)) = 1"
    by (simp_all add: demo_ready_def demo_cfg_def initial_globals_def)
  then show ?thesis
    using init check env by (simp add: main_setup_def clean on_cfg_def on_world_def print_cfg_def)
qed

lemma demo_paths:
  "comps (report_path (cfg demo_ready) (GetLocalTime demo_tm)) =
     [''r'', ''report'', ''aep_test-2011-01-01T01:01:01-1K-cpy-seq-16B-report.txt'']"
  by (simp add: demo_time report_path_def demo_ready_def demo_cfg_def initial_globals_def Size2HumanStr_def to_string.simps
      RwType2Str_def rw_type_2_str_def AccessMode2Str_def access_mode_2_str_def rep_report_dir_def rep_file_prefix_def
      rep_report_suffix_def Let_def comps_def digit_chars)

definition demo_open_fs :: fsys where
  "demo_open_fs = demo_main_fs\<lparr>
     fs_root := Dir [(''keep'', Reg 1 420), (''r'', Dir [(''internal'', Dir []),
       (''report'', Dir [(''aep_test-2011-01-01T01:01:01-1K-cpy-seq-16B-report.txt'', Reg 0 (666 AND NOT 18))])])],
     fds := [(3, [''r'', ''report'', ''aep_test-2011-01-01T01:01:01-1K-cpy-seq-16B-report.txt''])]\<rparr>"

lemma demo_opened:
  "\<exists>rep o4. new_Report (GetLocalTime demo_tm) (cfg demo_ready, o3) =
     Inr (rep, (cfg demo_ready)\<lparr>g_pm := (g_pm (cfg demo_ready))\<lparr>pm_fs := demo_open_fs\<rparr>\<rparr>, o4)"
proof -
  have "OpenAndAllocAtSize (report_path (cfg demo_ready) (GetLocalTime demo_tm)) 0 demo_main_fs = (3, demo_open_fs)"
    by (simp add: OpenAndAllocAtSize_def sys_open_def demo_paths demo_main_fs_def demo_rep_fs_def demo_open_fs_def parent_ok_def new_fd_def)
  moreover have "pm_fs (g_pm (cfg demo_ready)) = demo_main_fs" by (simp add: demo_ready_def)
  ultimately show ?thesis by (simp add: new_Report_def demo_time)
qed


lemma platform_pm: "platform E stack (w\<lparr>cfg := (cfg w)\<lparr>g_pm := pm\<rparr>\<rparr>) = platform E stack w"
  by (simp add: platform_def idx_block_def cpy_block_def Let_def)

definition demo_opened_world :: world where
  "demo_opened_world = demo_ready\<lparr>cfg := (cfg demo_ready)\<lparr>g_pm := (g_pm (cfg demo_ready))\<lparr>pm_fs := demo_open_fs\<rparr>\<rparr>\<rparr>"

lemma demo_opened_world:
  "demo_opened_world = demo_world\<lparr>cfg := (cfg demo_world)\<lparr>g_pm := (g_pm (cfg demo_ready))\<lparr>pm_fs := demo_open_fs\<rparr>\<rparr>\<rparr>"
  by (simp add: demo_opened_world_def demo_ready_def demo_world_def)

lemma demo_opened_contexts: "\<exists>u. InitThreadContext demo_env (GetLocalTime demo_tm) None demo_opened_world = Inr u"
proof -
  let ?w = demo_opened_world
  have "\<exists>t w1. new_Task demo_env 0 (2 ^ 40) ?w = Inr (t, w1) \<and>
      t_rw_type t = kCpy \<and> t_access_mode t = kSeq \<and> t_access_size t = 16 \<and> buf_size t = 1024 \<and> thread_idx t = 0 \<and>
      t_iters t = 10 \<and> cfg w1 = cfg ?w \<and> thread_contexts w1 = replicate 32 None"
    by (simp add: new_Task_def demo_opened_world demo_world_def demo_cfg_def initial_globals_def malloc_def demo_env_def fill_idx_spec
        fls32_demo Let_def)
  then obtain t w1 where t: "new_Task demo_env 0 (2 ^ 40) ?w = Inr (t, w1)"
    and f: "t_rw_type t = kCpy" "t_access_mode t = kSeq" "t_access_size t = 16" "buf_size t = 1024" "thread_idx t = 0"
      "t_iters t = 10" "cfg w1 = cfg ?w" "thread_contexts w1 = replicate 32 None" by blast
  have p: "comps (data_path (cfg ?w) t (GetLocalTime demo_tm)) =
      [''r'', ''internal'', ''aep_test-2011-01-01T01:01:01-1K-cpy-seq-16B-0-data.dat'']"
    using f(1-5)
    by (simp add: demo_time data_path_def demo_opened_world demo_world_def demo_cfg_def Size2HumanStr_def to_string.simps
        RwType2Str_def rw_type_2_str_def AccessMode2Str_def access_mode_2_str_def rep_internal_dir_def rep_file_prefix_def
        rep_data_suffix_def Let_def comps_def digit_chars)
  have "\<exists>d w2. new_RunData demo_env t (GetLocalTime demo_tm) None w1 = Inr (d, w2) \<and> thread_contexts w2 = replicate 32 None"
    unfolding new_RunData_def f(7) Let_def OpenAndAllocAtSize_def sys_open_def p
    by (simp add: f demo_opened_world demo_env_def demo_device_def demo_open_fs_def demo_main_fs_def demo_rep_fs_def parent_ok_def
        sys_ftruncate_def sys_fallocate_def new_fd_def Pmem2MapFromFd_def Let_def)
  then obtain d w2 where d: "new_RunData demo_env t (GetLocalTime demo_tm) None w1 = Inr (d, w2)" by blast
  have "unat (thread_num (cfg ?w)) = 1" "aep_buf (cfg ?w) = 2 ^ 40" "length (thread_contexts ?w) = 32"
    by (simp_all add: demo_opened_world demo_world_def demo_cfg_def initial_globals_def)
  with t d show ?thesis by (simp add: InitThreadContext_def init_context_def)
qed

theorem main_completes_witness:
  "\<exists>ls' z o5. main demo_env demo_flags (\<lambda>_. 7) demo_tm 0 2 demo_stack (\<lambda>_. 0) demo_log
      (demo_start, \<lparr>printed = [], buffered = []\<rparr>) = Some (Inr (ls', z, o5)) \<and> aep_map (cfg z) = None \<and> heap_live z = 0"
proof -
  obtain o3 where s: "main_setup demo_env demo_flags 7 2
      (demo_start\<lparr>cfg := (cfg demo_start)\<lparr>core_ids := 20 # replicate 31 0, core_num := 1\<rparr>\<rparr>, \<lparr>printed = [], buffered = []\<rparr>) =
      Some (Inr (demo_ready, o3))" using demo_setup by blast
  obtain rep o4 where r: "new_Report (GetLocalTime demo_tm) (cfg demo_ready, o3) = Inr (rep, cfg demo_opened_world, o4)"
    using demo_opened [of o3] by (auto simp: demo_opened_world_def)
  have w: "demo_ready\<lparr>cfg := cfg demo_opened_world\<rparr> = demo_opened_world" by (simp add: demo_opened_world_def)
  obtain u where u: "InitThreadContext demo_env (GetLocalTime demo_tm) None demo_opened_world = Inr u"
    using demo_opened_contexts by blast
  have p: "platform demo_env demo_stack demo_opened_world" unfolding demo_opened_world platform_pm by (rule demo_platform)
  have fl: "\<not> FLAGS_clean_rep_dir demo_flags" "\<not> FLAGS_vary_access_size demo_flags" "\<not> FLAGS_vary_thread_num demo_flags"
    "FLAGS_buffer_size demo_flags \<le> AEP_SIZE" "unat (FLAGS_iters demo_flags) < 2 ^ 31" "heap_live demo_start = 0"
    "e_numa demo_env = demo_numa" "\<not> is_init demo_log" "\<not> glog_started demo_log"
    by (simp_all add: demo_flags_def AEP_SIZE_def demo_start_def demo_world_def demo_env_def demo_log_def)
  from main_completes [of demo_log demo_flags demo_env demo_start _ "\<lambda>_. 7" 2 "\<lparr>printed = [], buffered = []\<rparr>" demo_ready o3 demo_tm,
      OF fl(8,9,1-5), unfolded fl(7) w, OF demo_parse s r, unfolded w, OF p u, of 0 "\<lambda>_. 0"]
  show ?thesis using fl(6) by auto
qed

end
