(* ===== verification/Study_Storage.thy ===== *)
theory Study_Storage
  imports Study_Main
begin

text \<open>
  When the thread contexts can be created: what the file system, the allocator and libpmem2 must
  provide for InitThreadContext of bgtest/AEP/aep_study.cc to succeed, and what it leaves of that.
\<close>

section \<open>Files that can be opened\<close>

text \<open>A path at which a regular file is, or can be created.\<close>

fun dir_at :: "node option \<Rightarrow> bool" where
  "dir_at (Some (Dir cs)) = True"
| "dir_at t = False"

fun plain_at :: "node option \<Rightarrow> bool" where
  "plain_at None = True"
| "plain_at (Some (Reg s m)) = True"
| "plain_at t = False"

definition file_slot :: "node \<Rightarrow> string list \<Rightarrow> bool" where
  "file_slot t p \<longleftrightarrow> p \<noteq> [] \<and> dir_at (lookup t (butlast p)) \<and> plain_at (lookup t p)"

lemma dir_at_iff: "dir_at x \<longleftrightarrow> (\<exists>cs. x = Some (Dir cs))"
  by (cases x rule: dir_at.cases) auto

lemma dir_at_put:
  assumes "plain_at (lookup t p)" and "dir_at (lookup t q)"
  shows "dir_at (lookup (put p (Some (Reg s m)) t) q)"
  using assms
proof (induction t p arbitrary: q rule: lookup.induct)
  case (1 t)
  then show ?case by (cases t; cases q) auto
next
  case (2 cs x p)
  show ?case
  proof (cases q)
    case Nil
    then show ?thesis by simp
  next
    case (Cons y q')
    with 2 show ?thesis by (cases "map_of cs x") (auto simp: update_conv split: if_splits)
  qed
qed auto

lemma plain_at_put:
  assumes "plain_at (lookup t p)" and "plain_at (lookup t q)"
  shows "plain_at (lookup (put p (Some (Reg s m)) t) q)"
  using assms
proof (induction t p arbitrary: q rule: lookup.induct)
  case (1 t)
  then show ?case by (cases q) auto
next
  case (2 cs x p)
  show ?case
  proof (cases q)
    case Nil
    with 2(3) show ?thesis by simp
  next
    case (Cons y q')
    have new: "plain_at (lookup (Reg s m) q')" by (cases q') auto
    from Cons 2 new show ?thesis by (cases "map_of cs x") (auto simp: update_conv split: if_splits)
  qed
qed auto

lemma file_slot_put: "file_slot t p \<Longrightarrow> file_slot t q \<Longrightarrow> file_slot (put p (Some (Reg s m)) t) q"
  by (simp add: file_slot_def dir_at_put plain_at_put)

lemma OpenAndAllocAtSize_succeeds:
  assumes "file_slot (fs_root fs) (comps f)" and "unat sz \<le> fs_free fs" and "\<not> bit sz 63"
  shows "\<exists>fs'. OpenAndAllocAtSize f sz fs = (new_fd fs, fs') \<and> 0 < new_fd fs \<and> fs_free fs' = fs_free fs - unat sz \<and>
    (\<forall>q. file_slot (fs_root fs) q \<longrightarrow> file_slot (fs_root fs') q)"
proof -
  let ?p = "comps f"
  have pos: "0 < new_fd fs" using new_fd_fresh [of fs] by simp
  from assms(1) obtain cs where par: "lookup (fs_root fs) (butlast ?p) = Some (Dir cs)" "?p \<noteq> []"
    by (auto simp: file_slot_def dir_at_iff)
  obtain fs1 s m where fs1: "sys_open True f 666 fs = (new_fd fs, fs1)" "fds fs1 = (new_fd fs, ?p) # fds fs"
    "lookup (fs_root fs1) ?p = Some (Reg s m)" "fs_free fs1 = fs_free fs" "\<forall>q. file_slot (fs_root fs) q \<longrightarrow> file_slot (fs_root fs1) q"
  proof (cases "lookup (fs_root fs) ?p")
    case None
    let ?m = "(666 :: u32) AND NOT (fs_umask fs)"
    show thesis
      by (rule that [of "fs\<lparr>fds := (new_fd fs, ?p) # fds fs, fs_root := put ?p (Some (Reg 0 ?m)) (fs_root fs)\<rparr>" 0 ?m])
        (use None par file_slot_put [OF assms(1)] in \<open>simp_all add: sys_open_def parent_ok_def lookup_put_new Let_def\<close>)
  next
    case (Some t)
    with assms(1) obtain s m where "t = Reg s m" by (cases t) (auto simp: file_slot_def)
    with Some show thesis
      by (intro that [of "fs\<lparr>fds := (new_fd fs, ?p) # fds fs\<rparr>" s m]) (simp_all add: sys_open_def)
  qed
  have slot1: "file_slot (fs_root fs1) ?p" using fs1(5) assms(1) by blast
  show ?thesis
    using fs1 pos assms(2,3) file_slot_put [OF slot1]
    by (auto simp: OpenAndAllocAtSize_def sys_ftruncate_def sys_fallocate_def Let_def)
qed

section \<open>Contexts that can be created\<close>

text \<open>Every call of libpmem2 succeeds.\<close>

definition pmem2_up :: "pmem2 \<Rightarrow> bool" where
  "pmem2_up L \<longleftrightarrow> config_new_rc L = 0 \<and> (\<forall>fd. source_from_fd_rc L fd = 0) \<and> set_granularity_rc L = 0 \<and>
     (\<forall>fd. map_new_rc L fd = 0)"

text \<open>The result file of the k-th thread.\<close>

definition context_path :: "globals \<Rightarrow> string \<Rightarrow> nat \<Rightarrow> string" where
  "context_path g time k =
     rep_dir_path g @ ''/'' @ rep_internal_dir @ ''/'' @ rep_file_prefix @ ''-'' @ (time @ ''-'' @
       (Size2HumanStr (buffer_size g) @ ''-'' @ RwType2Str (rw_type g) @ ''-'' @ AccessMode2Str (access_mode g) @
        ''-'' @ Size2HumanStr (ucast (access_size g)) @ ''-'' @ to_string k)) @ ''-'' @ rep_data_suffix"

text \<open>What creating the contexts needs: the allocator answers, the result files can be opened and fit
  on the medium, libpmem2 maps them.\<close>

definition storage :: "env \<Rightarrow> string \<Rightarrow> world \<Rightarrow> bool" where
  "storage E time w \<longleftrightarrow> (let g = cfg w; n = unat (thread_num g); fs = pm_fs (g_pm g) in
     pmem2_up (e_pmem2 E) \<and> n \<le> length (thread_contexts w) \<and> n * (4 * unat (iters g)) \<le> fs_free fs \<and>
     (\<forall>k<n. idx_block E w k \<noteq> 0 \<and> cpy_block E w k \<noteq> 0 \<and> file_slot (fs_root fs) (comps (context_path g time k))))"

text \<open>The file system after \<open>n\<close> result files of \<open>sz\<close> bytes were made.\<close>

definition stored :: "nat \<Rightarrow> nat \<Rightarrow> fsys \<Rightarrow> fsys \<Rightarrow> bool" where
  "stored sz n fs fs' \<longleftrightarrow> fs_free fs' = fs_free fs - n * sz \<and>
     (\<forall>q. file_slot (fs_root fs) q \<longrightarrow> file_slot (fs_root fs') q)"

lemma new_RunData_succeeds:
  assumes "pmem2_up (e_pmem2 E)" and "file_slot (fs_root (pm_fs (g_pm (cfg w)))) (comps (data_path (cfg w) t time))"
    and "4 * unat (t_iters t) \<le> fs_free (pm_fs (g_pm (cfg w)))"
  shows "\<exists>d w1. new_RunData E t time None w = Inr (d, w1) \<and>
    stored (4 * unat (t_iters t)) 1 (pm_fs (g_pm (cfg w))) (pm_fs (g_pm (cfg w1)))"
proof -
  let ?fs = "pm_fs (g_pm (cfg w))" and ?sz = "ucast (t_iters t) * 4 :: u64"
  have lt: "unat (t_iters t) < 2 ^ 32" using unsigned_less [of "t_iters t", where ?'a = nat] by simp
  then have "unat (ucast (t_iters t) * 4 :: u64) = unat (t_iters t) * 4"
    by (simp add: unat_word_ariths unsigned_ucast_eq take_bit_nat_eq_self)
  then have sz: "unat ?sz = 4 * unat (t_iters t)" by simp
  have "unat ?sz < 2 ^ 34" using lt sz by simp
  then have "\<not> bit (unat ?sz) 63" by (simp add: bit_iff_odd del: unat_mult_lem)
  then have "\<not> bit ?sz 63" by (simp add: bit_unsigned_iff)
  moreover have "unat ?sz \<le> fs_free ?fs" using assms(3) by (simp only: sz)
  ultimately obtain fs' where
    o: "OpenAndAllocAtSize (data_path (cfg w) t time) ?sz ?fs = (new_fd ?fs, fs')" "0 < new_fd ?fs"
    "fs_free fs' = fs_free ?fs - unat ?sz" "\<forall>q. file_slot (fs_root ?fs) q \<longrightarrow> file_slot (fs_root fs') q"
    using OpenAndAllocAtSize_succeeds [OF assms(2)] by blast
  with assms(1) show ?thesis
    by (auto simp: new_RunData_def Pmem2MapFromFd_def pmem2_up_def stored_def Close_def sys_close_def sz Let_def)
qed

lemma init_context_succeeds:
  assumes pm: "pmem2_up (e_pmem2 E)" and g: "cfg u = (cfg w)\<lparr>g_pm := pm\<rparr>" and pos: "heap_pos u = heap_pos w + 2 * i"
    and len: "i < length (thread_contexts u)" "i < length (core_ids (cfg w))" and asz: "fls32 (ucast (access_size (cfg w))) = Inr bits"
    and blk: "idx_block E w i \<noteq> 0" "cpy_block E w i \<noteq> 0"
    and slot: "file_slot (fs_root (pm_fs pm)) (comps (context_path (cfg w) time i))"
    and fits: "4 * unat (iters (cfg w)) \<le> fs_free (pm_fs pm)"
  shows "\<exists>v. init_context E time None i u = Inr v \<and> stored (4 * unat (iters (cfg w))) 1 (pm_fs pm) (pm_fs (g_pm (cfg v)))"
proof -
  have "\<exists>t w1. new_Task E i (aep_buf (cfg u) + of_nat i * buffer_size (cfg u)) u = Inr (t, w1)"
    using len(2) asz blk pos
    by (simp add: new_Task_def g malloc_def idx_block_def cpy_block_def fill_idx_spec Let_def)
  then obtain t w1 where t: "new_Task E i (aep_buf (cfg u) + of_nat i * buffer_size (cfg u)) u = Inr (t, w1)" by blast
  from new_Task_Inr [OF t] have w1: "cfg w1 = cfg u" "thread_contexts w1 = thread_contexts u" and it: "t_iters t = iters (cfg w)"
    and path: "data_path (cfg w1) t time = context_path (cfg w) time i"
    by (auto simp: g data_path_def context_path_def Let_def)
  have "file_slot (fs_root (pm_fs (g_pm (cfg w1)))) (comps (data_path (cfg w1) t time))"
    "4 * unat (t_iters t) \<le> fs_free (pm_fs (g_pm (cfg w1)))"
    using slot fits by (simp_all add: path it) (simp_all add: w1 g)
  from new_RunData_succeeds [OF pm this] obtain d w2 where d: "new_RunData E t time None w1 = Inr (d, w2)"
    "stored (4 * unat (iters (cfg w))) 1 (pm_fs pm) (pm_fs (g_pm (cfg w2)))" by (auto simp: w1 g it)
  with t len(1) show ?thesis by (simp add: init_context_def)
qed

lemma stored_Suc: "stored sz n a b \<Longrightarrow> stored sz 1 b c \<Longrightarrow> stored sz (Suc n) a c"
  by (auto simp: stored_def)

lemma InitThreadContext_succeeds:
  assumes run: "fits (cfg w)" and st: "storage E time w"
  shows "\<exists>u. InitThreadContext E time None w = Inr u \<and>
    stored (4 * unat (iters (cfg w))) (unat (thread_num (cfg w))) (pm_fs (g_pm (cfg w))) (pm_fs (g_pm (cfg u)))"
proof -
  let ?n = "unat (thread_num (cfg w))" and ?sz = "4 * unat (iters (cfg w))"
  let ?P = "\<lambda>i u. contexts_made E w None i u \<and> stored ?sz i (pm_fs (g_pm (cfg w))) (pm_fs (g_pm (cfg u)))"
  from run obtain a b where ab: "access_size (cfg w) = 2 ^ a" "a < 32" by (rule fits_sizes) blast
  have asz: "fls32 (ucast (access_size (cfg w))) = Inr (of_nat a)" using fls32_exp [of a] ab by (simp add: ucast_exp)
  have cores: "?n \<le> length (core_ids (cfg w))"
    using run by (simp add: fits_def)
  have "\<exists>u. run_all (map (init_context E time None) [0..<?n]) w = Inr u \<and> ?P ?n u"
  proof (rule run_all_upt_total [where P = ?P])
    show "?P 0 w" by (simp add: contexts_made_0 stored_def)
    fix i u assume i: "i < ?n" and P: "?P i u"
    then obtain pm where pm: "cfg u = (cfg w)\<lparr>g_pm := pm\<rparr>" by (auto simp: contexts_made_def)
    have s: "pmem2_up (e_pmem2 E)" "?n \<le> length (thread_contexts w)" "?n * ?sz \<le> fs_free (pm_fs (g_pm (cfg w)))"
      "idx_block E w i \<noteq> 0" "cpy_block E w i \<noteq> 0" "file_slot (fs_root (pm_fs (g_pm (cfg w)))) (comps (context_path (cfg w) time i))"
      using st i by (simp_all add: storage_def Let_def)
    have "Suc i * ?sz \<le> ?n * ?sz" using i by (intro mult_le_mono1) simp
    with s(3) have "?sz \<le> fs_free (pm_fs (g_pm (cfg w))) - i * ?sz" by simp
    with P pm s(6) have f: "file_slot (fs_root (pm_fs pm)) (comps (context_path (cfg w) time i))" "?sz \<le> fs_free (pm_fs pm)"
      by (simp_all add: stored_def)
    have c: "heap_pos u = heap_pos w + 2 * i" "i < length (thread_contexts u)"
      using P s(2) i by (simp_all add: contexts_made_def)
    from init_context_succeeds [OF s(1) pm c _ asz s(4,5) f] i cores obtain v where
      v: "init_context E time None i u = Inr v" "stored ?sz 1 (pm_fs pm) (pm_fs (g_pm (cfg v)))" by auto
    then show "\<exists>v. init_context E time None i u = Inr v \<and> ?P (Suc i) v"
      using init_context_made [OF _ v(1)] P stored_Suc [OF _ v(2)] by (auto simp: pm)
  qed
  then show ?thesis by (auto simp: InitThreadContext_def)
qed

end
