(* ===== verification/Study_Rounds.thy ===== *)
theory Study_Rounds
  imports Study_Storage
begin

text \<open>
  One round of the jobs of bgtest/AEP/aep_study.cc that vary a parameter: a change of the globals, a
  line of output, and a whole benchmark in the new configuration.
\<close>

lemma do_all_single [simp]: "do_all [c] s = c s"
  by (simp split: option.split sum.split)

lemma do_all_concat: "do_all (concat css) s = do_all (map do_all css) s"
  by (induction css arbitrary: s) (simp_all add: do_all_append split: option.split sum.split)

text \<open>A platform is one for every state with the same machine and allocator.\<close>

lemma platform_same:
  assumes "platform E stack v" and "same_platform v (w_mach u) (w_sched u)" and "heap_pos u = heap_pos v"
    and "thread_num (cfg u) = thread_num (cfg v)" "aep_buf (cfg u) = aep_buf (cfg v)"
      "access_size (cfg u) = access_size (cfg v)" "core_ids (cfg u) = core_ids (cfg v)"
  shows "platform E stack u"
proof -
  from assms(2) have a: "accessible (w_mach u) = accessible (w_mach v)" and t: "ts_at (w_mach u) = ts_at (w_mach v)"
    and "debug (w_mach u) = debug (w_mach v)" "online (w_sched u) = online (w_sched v)"
    by (auto simp: same_platform_def ts_at_def intro: accessible_same)
  moreover have "idx_block E u = idx_block E v" "cpy_block E u = cpy_block E v"
    using assms(3,6) by (simp_all add: idx_block_def cpy_block_def fun_eq_iff)
  ultimately show ?thesis using assms(1,4-7) by (simp add: platform_def Let_def)
qed

text \<open>The iterations after a change of the number of threads.\<close>

definition re_iters :: "u64 \<Rightarrow> u32 \<Rightarrow> u32" where
  "re_iters bs sz = (let it = ucast (bs div ucast sz) in if it > 2500000 then 2500000 else if it < 500000 then 500000 else it)"

lemma re_iters_bounds: "500000 \<le> re_iters bs sz \<and> re_iters bs sz \<le> 2500000"
  by (auto simp: re_iters_def Let_def not_less)

lemma re_iters_nat: "500000 \<le> unat (re_iters bs sz) \<and> unat (re_iters bs sz) \<le> 2500000"
  using re_iters_bounds [of bs sz] by (simp add: word_le_nat_alt)

text \<open>The state between two rounds, relative to the state \<open>w\<close> at the start of the job: \<open>blocks\<close> memory
  blocks were taken and given back, \<open>spent\<close> bytes of the medium are used, and no byte outside
  \<open>area\<close> has changed.\<close>

definition between :: "(u64 \<Rightarrow> bool) \<Rightarrow> world \<Rightarrow> nat \<Rightarrow> nat \<Rightarrow> world \<Rightarrow> bool" where
  "between area w blocks spent u \<longleftrightarrow> heap_pos u = heap_pos w + blocks \<and> heap_live u = heap_live w \<and>
     length (thread_contexts u) = length (thread_contexts w) \<and> same_platform w (w_mach u) (w_sched u) \<and>
     live_maps (g_pm (cfg u)) = live_maps (g_pm (cfg w)) \<and> fds (pm_fs (g_pm (cfg u))) = fds (pm_fs (g_pm (cfg w))) \<and>
     fs_free (pm_fs (g_pm (cfg u))) = fs_free (pm_fs (g_pm (cfg w))) - spent \<and>
     (\<forall>q. file_slot (fs_root (pm_fs (g_pm (cfg w)))) q \<longrightarrow> file_slot (fs_root (pm_fs (g_pm (cfg u)))) q) \<and>
     (\<forall>a. \<not> area a \<longrightarrow> mem (w_mach u) a = mem (w_mach w) a)"

lemma between_start: "between area w 0 0 w"
  by (simp add: between_def same_platform_def)

lemma between_cfg:
  "between area (w\<lparr>cfg := g\<rparr>) blocks spent u = between area w blocks spent u" if "g_pm g = g_pm (cfg w)"
  using that by (simp add: between_def same_platform_def)

lemma round_total:
  assumes bt: "between area w blocks spent u" and C: "C (cfg u) = Inr g" and pm: "g_pm g = g_pm (cfg u)" and rdy: "ready (u\<lparr>cfg := g\<rparr>)"
    and an: "analyzes g an" and pf: "platform E stack (u\<lparr>cfg := g\<rparr>)" and st: "storage E time (u\<lparr>cfg := g\<rparr>)"
    and fp: "report_fp rep = Some Stdout" and line: "L g \<noteq> ''\<newline>''"
    and inside: "\<And>a. job_area stack (u\<lparr>cfg := g\<rparr>) a \<Longrightarrow> area a"
  shows "\<exists>z o2 p. do_all [on_cfg C, print_line L, job_body E stack pick an rep time] (u, out) = Some (Inr (z, o2)) \<and>
    cfg z = g\<lparr>g_pm := p\<rparr> \<and> lines_of o2 = lines_of out + GetSubOpNum (e_pmdk E) (rw_type g) \<and>
    between area w (blocks + 2 * unat (thread_num g)) (spent + unat (thread_num g) * (4 * unat (iters g))) z"
proof -
  let ?v = "u\<lparr>cfg := g\<rparr>" and ?o = "fprintf Stdout (L g) out"
  have an': "analyzes (cfg ?v) an" using an by simp
  from InitThreadContext_succeeds [OF ready_fits [OF rdy] st] obtain x where x: "InitThreadContext E time None ?v = Inr x"
    "stored (4 * unat (iters g)) (unat (thread_num g)) (pm_fs (g_pm g)) (pm_fs (g_pm (cfg x)))" by auto
  from job_body_done [OF an' rdy pf fp x(1), of pick ?o] obtain z o2 where
    z: "job_body E stack pick an rep time (?v, ?o) = Some (Inr (z, o2))"
      "lines_of o2 = lines_of ?o + GetSubOpNum (e_pmdk E) (rw_type g)" "job_done stack ?v z"
      "pm_fs (g_pm (cfg z)) = pm_fs (g_pm (cfg x))" by auto
  have "lines_of ?o = lines_of out" using line by (simp add: lines_of_def fprintf_def)
  moreover have "do_all [on_cfg C, print_line L, job_body E stack pick an rep time] (u, out) = Some (Inr (z, o2))"
    using C z(1) by (simp add: on_cfg_def on_world_def print_line_def)
  moreover have "between area w (blocks + 2 * unat (thread_num g)) (spent + unat (thread_num g) * (4 * unat (iters g))) z"
  proof -
    have "mem (w_mach z) a = mem (w_mach w) a" if "\<not> area a" for a
    proof -
      have "\<not> job_area stack ?v a" using inside that by blast
      with z(3) have "mem (w_mach z) a = mem (w_mach u) a" by (simp add: job_done_def)
      with bt that show ?thesis by (simp add: between_def)
    qed
    then show ?thesis
      using bt z(3) x(2) pm by (auto simp: between_def job_done_def stored_def same_platform_def z(4))
  qed
  ultimately show ?thesis using z(2,3) by (auto simp: job_done_def)
qed

text \<open>The same storage, with room for a round.\<close>

lemma storage_round:
  assumes "storage E time v" and "between area w blocks spent u" and "heap_pos v = heap_pos w + blocks"
    and "thread_contexts v = thread_contexts w" and "g_pm g = g_pm (cfg u)" and "g_pm (cfg v) = g_pm (cfg w)"
    and "thread_num g = thread_num (cfg v)" "iters g = iters (cfg v)" "access_size g = access_size (cfg v)"
      "buffer_size g = buffer_size (cfg v)" "rw_type g = rw_type (cfg v)" "access_mode g = access_mode (cfg v)"
      "rep_dir_path g = rep_dir_path (cfg v)"
    and "unat (thread_num g) * (4 * unat (iters g)) + spent \<le> fs_free (pm_fs (g_pm (cfg w)))"
  shows "storage E time (u\<lparr>cfg := g\<rparr>)"
proof -
  have "context_path g time k = context_path (cfg v) time k" for k
    using assms(7-13) by (simp add: context_path_def)
  moreover have "idx_block E (u\<lparr>cfg := g\<rparr>) = idx_block E v" "cpy_block E (u\<lparr>cfg := g\<rparr>) = cpy_block E v"
    using assms(2,3,9) by (simp_all add: idx_block_def cpy_block_def between_def fun_eq_iff)
  moreover from assms have "thread_num g = thread_num (cfg v)" "iters g = iters (cfg v)"
    "unat (thread_num g) * (4 * unat (iters g)) \<le> fs_free (pm_fs (g_pm g))"
    by (simp_all add: between_def)
  ultimately show ?thesis using assms(1-6) by (simp add: storage_def between_def Let_def)
qed

text \<open>Configurations in which a round does the same.\<close>

definition same_round :: "globals \<Rightarrow> globals \<Rightarrow> bool" where
  "same_round g h \<longleftrightarrow> thread_num g = thread_num h \<and> iters g = iters h \<and> access_size g = access_size h \<and>
     buffer_size g = buffer_size h \<and> rw_type g = rw_type h \<and> access_mode g = access_mode h \<and>
     rep_dir_path g = rep_dir_path h \<and> aep_buf g = aep_buf h \<and> core_ids g = core_ids h"

text \<open>A round from a state in between, on a platform and with storage that are known of a state \<open>v\<close> in which
  only the allocator and the configuration have moved on.\<close>

lemma round_at:
  assumes bt: "between area w blocks spent u" and C: "C (cfg u) = Inr g" and pm: "g_pm g = g_pm (cfg u)" and rdy: "ready (u\<lparr>cfg := g\<rparr>)"
    and an: "analyzes g an" and fp: "report_fp rep = Some Stdout" and line: "L g \<noteq> ''\<newline>''"
    and v: "v = w\<lparr>heap_pos := heap_pos w + blocks, cfg := h\<rparr>" "same_round g h" "g_pm h = g_pm (cfg w)"
    and pf: "platform E stack v" and st: "storage E time v"
    and room: "unat (thread_num h) * (4 * unat (iters h)) + spent \<le> fs_free (pm_fs (g_pm (cfg w)))"
    and inside: "\<And>a. job_area stack (u\<lparr>cfg := g\<rparr>) a \<Longrightarrow> area a"
  shows "\<exists>z o2 p. do_all [on_cfg C, print_line L, job_body E stack pick an rep time] (u, out) = Some (Inr (z, o2)) \<and>
    cfg z = g\<lparr>g_pm := p\<rparr> \<and> lines_of o2 = lines_of out + GetSubOpNum (e_pmdk E) (rw_type h) \<and>
    between area w (blocks + 2 * unat (thread_num h)) (spent + unat (thread_num h) * (4 * unat (iters h))) z"
proof -
  have f: "thread_num g = thread_num h" "iters g = iters h" "rw_type g = rw_type h" using v(2) by (simp_all add: same_round_def)
  have "platform E stack (u\<lparr>cfg := g\<rparr>)"
    by (rule platform_same [OF pf]) (use bt v in \<open>simp_all add: between_def same_platform_def same_round_def\<close>)
  moreover have "storage E time (u\<lparr>cfg := g\<rparr>)"
    by (rule storage_round [OF st bt]) (use v pm room in \<open>simp_all add: same_round_def\<close>)
  ultimately show ?thesis using round_total [where C = C and L = L and u = u and stack = stack and out = out and pick = pick, OF bt C pm rdy an _ _ fp line inside]
    unfolding f by blast
qed

section \<open>A job of several rounds\<close>

text \<open>What the two jobs have in common: \<open>n\<close> rounds, and a description of the configuration before each.
  Each round that starts as described ends as described, and prints its lines.\<close>

locale varied_job =
  fixes n :: nat and job_round :: "nat \<Rightarrow> world \<times> io \<Rightarrow> (stop + world \<times> io) option"
    and start :: "world \<Rightarrow> bool" and area :: "world \<Rightarrow> u64 \<Rightarrow> bool" and blocks spent :: "world \<Rightarrow> nat \<Rightarrow> nat"
    and before :: "globals \<Rightarrow> nat \<Rightarrow> globals \<Rightarrow> bool" and new_lines :: "world \<Rightarrow> nat"
  assumes round_ok: "start w \<Longrightarrow> i < n \<Longrightarrow> between (area w) w (blocks w i) (spent w i) u \<Longrightarrow> before (cfg w) i (cfg u) \<Longrightarrow>
      \<exists>z o2. job_round i (u, o1) = Some (Inr (z, o2)) \<and> between (area w) w (blocks w (Suc i)) (spent w (Suc i)) z \<and>
        before (cfg w) (Suc i) (cfg z) \<and> lines_of o2 = lines_of o1 + new_lines w"
    and nothing_yet: "blocks w 0 = 0" "spent w 0 = 0"
begin

lemma rounds_ok:
  assumes "start w" and "between (area w) w 0 0 v" and "before (cfg w) 0 (cfg v)"
  shows "\<exists>z o2. do_all (map job_round [0..<n]) (v, o1) = Some (Inr (z, o2)) \<and>
    between (area w) w (blocks w n) (spent w n) z \<and> lines_of o2 = lines_of o1 + n * new_lines w"
proof -
  let ?P = "\<lambda>i s. between (area w) w (blocks w i) (spent w i) (fst s) \<and> before (cfg w) i (cfg (fst s)) \<and>
    lines_of (snd s) = lines_of o1 + i * new_lines w"
  have "\<exists>t. do_all (map job_round [0..<n]) (v, o1) = Some (Inr t) \<and> ?P n t"
  proof (rule do_all_upt_total [where P = ?P])
    show "?P 0 (v, o1)" using assms(2,3) by (simp add: nothing_yet)
    fix i s assume "i < n" and P: "?P i s"
    then obtain u o2 where s: "s = (u, o2)" by (cases s)
    from round_ok [OF assms(1) \<open>i < n\<close>, of u o2] P
    show "\<exists>t. job_round i s = Some (Inr t) \<and> ?P (Suc i) t" by (fastforce simp: s)
  qed
  then show ?thesis by auto
qed

end

end
