(* ===== verification/Study_Sweep.thy ===== *)
theory Study_Sweep
  imports Study_Rounds
begin

text \<open>
  MainJobVaryAccessSize of bgtest/AEP/aep_study.cc as a whole: with a number of threads that is a power
  of two, its 13 rounds run to their end.
\<close>

section \<open>Rounds\<close>

text \<open>The configuration of the i-th round and the state it starts its contexts in, as far as the
  environment can see them. With several threads the buffers are sized anew.\<close>

definition sweep_cfg :: "nat \<Rightarrow> globals \<Rightarrow> globals" where
  "sweep_cfg i g =
     (if thread_num g = 1 then g\<lparr>access_size := access_sizes ! i, iters := gen_iters (access_sizes ! i)\<rparr>
      else (let bs = AEP_SIZE div 2 div ucast (thread_num g) in
        g\<lparr>access_size := access_sizes ! i, buffer_size := bs, iters := re_iters bs (access_sizes ! i)\<rparr>))"

definition at_size :: "world \<Rightarrow> nat \<Rightarrow> world" where
  "at_size w i = w\<lparr>heap_pos := heap_pos w + 2 * unat (thread_num (cfg w)) * i, cfg := sweep_cfg i (cfg w)\<rparr>"

text \<open>The bytes on the medium that the first \<open>i\<close> rounds take.\<close>

definition spent :: "globals \<Rightarrow> nat \<Rightarrow> nat" where
  "spent g i = sum_list (map (\<lambda>j. unat (thread_num g) * (4 * unat (iters (sweep_cfg j g)))) [0..<i])"

lemma spent_Suc: "spent g (Suc i) = spent g i + unat (thread_num g) * (4 * unat (iters (sweep_cfg i g)))"
  by (simp add: spent_def)

lemma spent_mono: "i \<le> j \<Longrightarrow> spent g i \<le> spent g j"
  by (induction j) (auto simp: spent_Suc le_Suc_eq)

lemma spent_threads: "thread_num g \<noteq> 1 \<Longrightarrow> spent g i \<le> i * (unat (thread_num g) * 10000000)"
proof (induction i)
  case (Suc i)
  then have "4 * unat (iters (sweep_cfg i g)) \<le> 10000000"
    using re_iters_nat by (simp add: sweep_cfg_def Let_def)
  then have "unat (thread_num g) * (4 * unat (iters (sweep_cfg i g))) \<le> unat (thread_num g) * 10000000" by (rule mult_le_mono2)
  from add_le_mono [OF Suc.IH [OF Suc.prems] this] show ?case by (simp only: spent_Suc mult_Suc add.commute)
qed (simp add: spent_def)

lemma spent_all: "spent g 13 \<le> unat (thread_num g) * 244000000"
proof (cases "thread_num g = 1")
  case True
  then show ?thesis by (simp add: spent_def sweep_cfg_def access_sizes_def gen_iters_def upt_rec push_bit_eq_mult)
next
  case False
  have "13 * (unat (thread_num g) * 10000000) \<le> unat (thread_num g) * 244000000" by simp
  with spent_threads [OF False, of 13] show ?thesis by (rule le_trans)
qed

definition sweep_area :: "(nat \<Rightarrow> u64) \<Rightarrow> world \<Rightarrow> u64 \<Rightarrow> bool" where
  "sweep_area stack w a \<longleftrightarrow> (\<exists>i<13. job_area stack (at_size w i) a)"

lemma access_sizes_nth: "i < 13 \<Longrightarrow> access_sizes ! i = 2 ^ (i + 4)"
  by (simp add: access_sizes_def push_bit_eq_mult power_add)

lemma size_cfg_exp:
  assumes "buffer_size g = 2 ^ b" and "i + 4 \<le> b" and "b < 64" and "i < 13" and "thread_num g = 2 ^ k" and "k < 32"
  shows "size_cfg E F now (access_sizes ! i) g = Inr ((sweep_cfg i g)\<lparr>buf_slots := 2 ^ (b - (i + 4)),
    buf_slots_mask := ucast (2 ^ (b - (i + 4)) - 1 :: u64), access_size_bits := of_nat (i + 4), seed := now\<rparr>)"
proof -
  have d: "derive_sizes now (g\<lparr>access_size := 2 ^ (i + 4)\<rparr>) = Inr (g\<lparr>access_size := 2 ^ (i + 4), buf_slots := 2 ^ (b - (i + 4)),
    buf_slots_mask := ucast (2 ^ (b - (i + 4)) - 1 :: u64), access_size_bits := of_nat (i + 4), seed := now\<rparr>)"
    using derive_sizes_pow2 [of "i + 4" b "g\<lparr>access_size := 2 ^ (i + 4)\<rparr>" now] assms(1-4) by simp
  have "(2 ^ k :: u32) \<noteq> 0" "(2 ^ (i + 4) :: u32) \<noteq> 0" using assms(4,6) by simp_all
  with assms(5) show ?thesis
    by (simp add: size_cfg_def re_init access_sizes_nth [OF assms(4)] d sweep_cfg_def ReCfgWhenThreadNumChange_def re_iters_def Let_def
      del: power_Suc add_2_eq_Suc')
qed

text \<open>The configuration before the i-th round.\<close>

definition sweep_before :: "globals \<Rightarrow> nat \<Rightarrow> globals \<Rightarrow> bool" where
  "sweep_before g0 i g \<longleftrightarrow> (\<exists>sz bs msk bits nw it pm. g = g0\<lparr>access_size := sz,
     buffer_size := (if i = 0 then buffer_size g0 else buffer_size (sweep_cfg 0 g0)), buf_slots := bs, buf_slots_mask := msk,
     access_size_bits := bits, seed := nw, iters := it, g_pm := pm\<rparr>)"

lemma sweep_beforeI:
  assumes "g = g0\<lparr>access_size := access_size g, buffer_size := (if i = 0 then buffer_size g0 else buffer_size (sweep_cfg 0 g0)),
    buf_slots := buf_slots g, buf_slots_mask := buf_slots_mask g, access_size_bits := access_size_bits g, seed := seed g,
    iters := iters g, g_pm := g_pm g\<rparr>"
  shows "sweep_before g0 i g"
  unfolding sweep_before_def by (intro exI) (rule assms)

lemma sweep_buffer: "buffer_size (sweep_cfg i g) = buffer_size (sweep_cfg 0 g)"
  by (simp add: sweep_cfg_def Let_def)

text \<open>What the job needs of the configuration it starts with.\<close>

definition sweepable :: "globals \<Rightarrow> bool" where
  "sweepable g \<longleftrightarrow> fits g \<and> 64 * 1024 \<le> buffer_size g \<and> (\<exists>k. thread_num g = 2 ^ k)"

lemma sweepable_exp:
  assumes "sweepable g"
  obtains b c k where "k \<le> 5" and "thread_num g = 2 ^ k" and "unat (thread_num g) = 2 ^ k" and "16 \<le> b" and "b \<le> c" and "c \<le> 35 - k"
    and "buffer_size g = 2 ^ b" and "buffer_size (sweep_cfg 0 g) = 2 ^ c"
    and "thread_num g = 1 \<longrightarrow> c = b"
proof -
  from assms obtain k where k: "thread_num g = 2 ^ k" and fit: "fits g" by (auto simp: sweepable_def)
  from fit obtain a b where ab: "b \<le> 35" "buffer_size g = 2 ^ b" "unat (thread_num g) * 2 ^ b \<le> 2 ^ 35" by (rule fits_sizes) blast
  have "k < 32"
  proof (rule ccontr)
    assume "\<not> k < 32"
    then have "(2 ^ k :: u32) = 0" by simp
    with fit k show False by (simp add: fits_def)
  qed
  then have n: "unat (thread_num g) = 2 ^ k" by (simp add: k unat_exp_u32)
  with fit have "(2 :: nat) ^ k \<le> 2 ^ 5" by (simp add: fits_def)
  then have k5: "k \<le> 5" by (rule power_le_imp_le_exp [rotated]) simp
  have "(2 :: nat) ^ (k + b) \<le> 2 ^ 35" using ab(3) n by (simp add: power_add)
  then have kb: "k + b \<le> 35" by (rule power_le_imp_le_exp [rotated]) simp
  have "(2 :: u64) ^ 16 \<le> 2 ^ b" using assms ab(2) by (simp add: sweepable_def)
  then have b16: "16 \<le> b" using le_exp_u64 [of 16 b] ab(1) by simp
  have one: "thread_num g = 1 \<longleftrightarrow> k = 0"
    using k5 n by (cases "k = 0") (auto simp: k word_unat_eq_iff)
  show thesis
  proof (cases "k = 0")
    case True
    show ?thesis
      by (rule that [of k b b]) (use True k n b16 ab k5 one kb in \<open>simp_all add: sweep_cfg_def\<close>)
  next
    case False
    then have "buffer_size (sweep_cfg 0 g) = 2 ^ (35 - k)"
      using one k k5 by (simp add: sweep_cfg_def Let_def ucast_exp half_div)
    then show ?thesis
      by (intro that [of k b "35 - k"]) (use False one k n b16 ab k5 kb in simp_all)
  qed
qed

text \<open>A round is ready to run: no thread leaves its buffer.\<close>

lemma sweep_ready:
  assumes "thread_num g = 2 ^ k" and "k \<le> 5" and "access_size g = 2 ^ a" and "a \<le> d" and "d \<le> c" and "a < 32" and "c \<le> 35 - k"
    and "buffer_size g = 2 ^ c" and "access_size_bits g = of_nat a" and "buf_slots_mask g = ucast (2 ^ (d - a) - 1 :: u64)"
    and "2 ^ k \<le> length (core_ids g)" and "0 < iters g" and "unat (iters g) < 2 ^ 31"
  shows "fits g \<and> reach g \<le> unat (buffer_size g)"
proof -
  have n: "unat (thread_num g) = 2 ^ k" and ub: "unat (buffer_size g) = 2 ^ c"
    using assms(1,2,7,8) by (simp_all add: unat_exp_u32 unat_exp_u64)
  have "unat (buf_slots_mask g) < 2 ^ (d - a)" unfolding assms(10) using assms(5,7) by (intro mask_below) simp
  also have "\<dots> \<le> (2 :: nat) ^ (c - a)" using assms(5) by (intro power_increasing) auto
  finally have r: "reach g \<le> 2 ^ c"
    using assms(3-6) by (intro reach_mask [where a = a] disjI1) (simp_all add: unat_exp_u32)
  have "(2 :: nat) ^ k * 2 ^ c \<le> 2 ^ 35" "(2 :: nat) ^ c \<le> 2 ^ 35" "(2 :: nat) ^ k \<le> 2 ^ 5"
    unfolding power_add [symmetric] using assms(2,7) by (intro power_increasing; simp)+
  then show ?thesis
    using r assms n ub unfolding fits_def by (intro conjI exI [of _ a] exI [of _ c]) (simp_all add: n ub)
qed

text \<open>The configuration of a round.\<close>

lemma sweep_fields:
  "thread_num (sweep_cfg i g) = thread_num g" "core_ids (sweep_cfg i g) = core_ids g" "aep_buf (sweep_cfg i g) = aep_buf g"
  "rw_type (sweep_cfg i g) = rw_type g" "access_mode (sweep_cfg i g) = access_mode g"
  "rep_dir_path (sweep_cfg i g) = rep_dir_path g" "g_pm (sweep_cfg i g) = g_pm g"
  "access_size (sweep_cfg i g) = access_sizes ! i"
  by (simp_all add: sweep_cfg_def Let_def)

lemma sweep_iters: "0 < iters (sweep_cfg i g) \<and> unat (iters (sweep_cfg i g)) < 2 ^ 31"
  using re_iters_nat [of "AEP_SIZE div 2 div ucast (thread_num g)" "access_sizes ! i"]
  by (auto simp: sweep_cfg_def gen_iters_def Let_def word_less_nat_alt)

lemma sweep_cfg_step:
  assumes sw: "sweepable g0" and sb: "sweep_before g0 i g" and i: "i < 13"
  shows "\<exists>g'. size_cfg E F now (access_sizes ! i) g = Inr g' \<and> same_round g' (sweep_cfg i g0) \<and> g_pm g' = g_pm g \<and>
    fits g' \<and> reach g' \<le> unat (buffer_size g') \<and> (\<forall>p. sweep_before g0 (Suc i) (g'\<lparr>g_pm := p\<rparr>))"
proof -
  from sw obtain b c k where k: "k \<le> 5" "thread_num g0 = 2 ^ k" "unat (thread_num g0) = 2 ^ k" "16 \<le> b" "b \<le> c" "c \<le> 35 - k"
    "buffer_size g0 = 2 ^ b" "buffer_size (sweep_cfg 0 g0) = 2 ^ c" "thread_num g0 = 1 \<longrightarrow> c = b" by (rule sweepable_exp)
  define d where "d = (if i = 0 then b else c)"
  have d: "16 \<le> d" "d \<le> c" "d < 64" using k by (auto simp: d_def)
  from sb obtain sz bs msk bits nw it pm where u: "g = g0\<lparr>access_size := sz, buffer_size := 2 ^ d, buf_slots := bs,
    buf_slots_mask := msk, access_size_bits := bits, seed := nw, iters := it, g_pm := pm\<rparr>"
    unfolding sweep_before_def k d_def by (auto split: if_splits)
  let ?g = "(sweep_cfg i g)\<lparr>buf_slots := 2 ^ (d - (i + 4)), buf_slots_mask := ucast (2 ^ (d - (i + 4)) - 1 :: u64),
    access_size_bits := of_nat (i + 4), seed := now\<rparr>"
  have C: "size_cfg E F now (access_sizes ! i) g = Inr ?g"
    by (rule size_cfg_exp [where k = k]) (use k d i in \<open>simp_all add: u\<close>)
  have cw: "sweep_cfg i g = (sweep_cfg i g0)\<lparr>buf_slots := bs, buf_slots_mask := msk, access_size_bits := bits,
      seed := nw, g_pm := pm\<rparr>"
    using k(7,9) by (auto simp: sweep_cfg_def u d_def Let_def)
  have f: "access_size (sweep_cfg i g0) = 2 ^ (i + 4)" "buffer_size (sweep_cfg i g0) = 2 ^ c"
    using k(8) sweep_buffer [of i g0] access_sizes_nth [OF i] by (simp_all add: sweep_fields)
  have "fits ?g \<and> reach ?g \<le> unat (buffer_size ?g)"
    by (rule sweep_ready [where a = "i + 4" and c = c and d = d and k = k])
      (use sw k d i sweep_iters [of i g0] in \<open>simp_all add: cw f sweep_fields(1-7) sweepable_def fits_def del: of_nat_add power_Suc add_2_eq_Suc'\<close>)
  moreover have "same_round ?g (sweep_cfg i g0)" by (simp add: same_round_def cw)
  moreover have "sweep_before g0 (Suc i) (?g\<lparr>g_pm := p\<rparr>)" for p
    by (rule sweep_beforeI, unfold cw) (simp add: sweep_cfg_def Let_def)
  moreover have "g_pm ?g = g_pm g" by (simp add: sweep_fields)
  ultimately show ?thesis using C by blast
qed

text \<open>The job's state before it starts, and its rounds.\<close>

definition sweep_start :: "env \<Rightarrow> (nat \<Rightarrow> u64) \<Rightarrow> string \<Rightarrow> report \<Rightarrow> world \<Rightarrow> bool" where
  "sweep_start E stack time rep w \<longleftrightarrow> sweepable (cfg w) \<and> report_fp rep = Some Stdout \<and>
     (\<forall>i<13. platform E stack (at_size w i) \<and> storage E time (at_size w i)) \<and>
     unat (thread_num (cfg w)) * 244000000 \<le> fs_free (pm_fs (g_pm (cfg w)))"

lemma sweep_inside:
  assumes "same_round g (sweep_cfg i (cfg w))" and "reach g \<le> unat (buffer_size g)" and "i < 13"
    and "job_area stack (u\<lparr>cfg := g\<rparr>) a"
  shows "sweep_area stack w a"
proof -
  have "extent g \<le> extent (sweep_cfg i (cfg w))" using assms(1,2) by (simp add: extent_def same_round_def)
  from in_range_mono [OF _ this] assms(1,4) have "job_area stack (at_size w i) a"
    by (auto simp: job_area_def at_size_def same_round_def)
  with assms(3) show ?thesis by (auto simp: sweep_area_def)
qed

lemma sweep_round:
  assumes start: "sweep_start E stack time rep w" and i: "i < 13"
    and bt: "between (sweep_area stack w) w (2 * unat (thread_num (cfg w)) * i) (spent (cfg w) i) u"
    and sb: "sweep_before (cfg w) i (cfg u)"
  shows "\<exists>z o2. do_all [on_cfg (size_cfg E F (now i) (access_sizes ! i)), print_line size_line,
      job_body E stack pick Analyze rep time] (u, o1) = Some (Inr (z, o2)) \<and>
    between (sweep_area stack w) w (2 * unat (thread_num (cfg w)) * Suc i) (spent (cfg w) (Suc i)) z \<and>
    sweep_before (cfg w) (Suc i) (cfg z) \<and> lines_of o2 = lines_of o1 + GetSubOpNum (e_pmdk E) (rw_type (cfg w))"
proof -
  let ?h = "sweep_cfg i (cfg w)" and ?n = "unat (thread_num (cfg w))"
  from start i have sw: "sweepable (cfg w)" and fp: "report_fp rep = Some Stdout" and pf: "platform E stack (at_size w i)"
    and st: "storage E time (at_size w i)" and free: "?n * 244000000 \<le> fs_free (pm_fs (g_pm (cfg w)))"
    by (simp_all add: sweep_start_def)
  from sweep_cfg_step [OF sw sb i, of E F "now i"] obtain g where g: "size_cfg E F (now i) (access_sizes ! i) (cfg u) = Inr g"
    "same_round g ?h" "g_pm g = g_pm (cfg u)" "fits g" "reach g \<le> unat (buffer_size g)" and
    next_before: "\<forall>p. sweep_before (cfg w) (Suc i) (g\<lparr>g_pm := p\<rparr>)" by blast
  have rdy: "ready (u\<lparr>cfg := g\<rparr>)" using g(4,5) by (simp add: ready_def Let_def)
  have line: "size_line g \<noteq> ''\<newline>''" by (simp add: size_line_def)
  have room: "unat (thread_num ?h) * (4 * unat (iters ?h)) + spent (cfg w) i \<le> fs_free (pm_fs (g_pm (cfg w)))"
    using spent_mono [of "Suc i" 13 "cfg w"] spent_all [of "cfg w"] free i by (simp add: sweep_fields spent_Suc)
  from round_at [where C = "size_cfg E F (now i) (access_sizes ! i)" and L = size_line and pick = pick and out = o1,
      OF bt g(1,3) rdy analyzes_Analyze fp line at_size_def g(2) sweep_fields(7) pf st room sweep_inside [where u = u, OF g(2,5) i]]
  obtain z o2 p where z: "do_all [on_cfg (size_cfg E F (now i) (access_sizes ! i)), print_line size_line,
      job_body E stack pick Analyze rep time] (u, o1) = Some (Inr (z, o2))" "cfg z = g\<lparr>g_pm := p\<rparr>"
    "lines_of o2 = lines_of o1 + GetSubOpNum (e_pmdk E) (rw_type ?h)"
    "between (sweep_area stack w) w (2 * ?n * i + 2 * unat (thread_num ?h)) (spent (cfg w) i + unat (thread_num ?h) * (4 * unat (iters ?h))) z"
    by blast
  have "2 * ?n * i + 2 * unat (thread_num ?h) = 2 * ?n * Suc i"
    "spent (cfg w) i + unat (thread_num ?h) * (4 * unat (iters ?h)) = spent (cfg w) (Suc i)"
    by (simp_all add: sweep_fields spent_Suc)
  with z next_before show ?thesis by (metis sweep_fields(4))
qed

interpretation size_job: varied_job 13
  "\<lambda>i. do_all [on_cfg (size_cfg E F (now i) (access_sizes ! i)), print_line size_line, job_body E stack pick Analyze rep time]"
  "sweep_start E stack time rep" "sweep_area stack" "\<lambda>w i. 2 * unat (thread_num (cfg w)) * i" "\<lambda>w. spent (cfg w)"
  sweep_before "\<lambda>w. GetSubOpNum (e_pmdk E) (rw_type (cfg w))"
  by unfold_locales (rule sweep_round, assumption+, simp_all add: spent_def)

lemma access_size_job:
  assumes "sweepable (cfg w)" and "report_fp rep = Some Stdout"
    and "\<forall>i<13. platform E stack (at_size w i) \<and> storage E time (at_size w i)"
    and "unat (thread_num (cfg w)) * 244000000 \<le> fs_free (pm_fs (g_pm (cfg w)))"
  shows "\<exists>z o2. MainJobVaryAccessSize E F now stack pick rep time (w, o1) = Some (Inr (z, o2)) \<and>
    lines_of o2 = lines_of o1 + 13 * GetSubOpNum (e_pmdk E) (rw_type (cfg w)) \<and> heap_live z = heap_live w \<and>
    live_maps (g_pm (cfg z)) = live_maps (g_pm (cfg w)) \<and> fds (pm_fs (g_pm (cfg z))) = fds (pm_fs (g_pm (cfg w))) \<and>
    access_size (cfg z) = 128 * 1024 \<and> (\<forall>a. \<not> sweep_area stack w a \<longrightarrow> mem (w_mach z) a = mem (w_mach w) a)"
proof -
  have "sweep_start E stack time rep w" "sweep_before (cfg w) 0 (cfg w)"
    using assms by (simp_all add: sweep_start_def sweep_beforeI)
  from size_job.rounds_ok [OF this(1) between_start this(2), of F now pick o1] obtain z o2 where
    z: "do_all (map (\<lambda>i. do_all [on_cfg (size_cfg E F (now i) (access_sizes ! i)), print_line size_line,
      job_body E stack pick Analyze rep time]) [0..<13]) (w, o1) = Some (Inr (z, o2))"
    "between (sweep_area stack w) w (2 * unat (thread_num (cfg w)) * 13) (spent (cfg w) 13) z"
    "lines_of o2 = lines_of o1 + 13 * GetSubOpNum (e_pmdk E) (rw_type (cfg w))" by blast
  have "length access_sizes = 13" by (simp add: access_sizes_def)
  with z(1) have "MainJobVaryAccessSize E F now stack pick rep time (w, o1) =
      Some (Inr (z\<lparr>cfg := (cfg z)\<lparr>access_size := 128 * 1024\<rparr>\<rparr>, o2))"
    by (simp add: MainJobVaryAccessSize_def do_all_append do_all_concat comp_def on_cfg_def on_world_def del: do_all.simps(2))
  with z(2,3) show ?thesis by (auto simp: between_def)
qed

section \<open>Properties\<close>

text \<open>The job that varies the access size runs to its end. With a number of threads that is a power of
  two, a configuration that fits and a buffer of at least 64 KB, on a platform that keeps its promises
  at all 13 sizes and a medium with 244 MB for every thread, it returns on every schedule: no round
  faults, fails a check or stops the process. It prints one line per operation and size, gives back
  all memory blocks, mappings and descriptors, and leaves the access size at the first value beyond
  its bound.\<close>

theorem MainJobVaryAccessSize_completes:
  assumes "sweepable (cfg w)" and "report_fp rep = Some Stdout"
    and "\<forall>i<13. platform E stack (at_size w i) \<and> storage E time (at_size w i)"
    and "unat (thread_num (cfg w)) * 244000000 \<le> fs_free (pm_fs (g_pm (cfg w)))"
  shows "\<exists>z o2. MainJobVaryAccessSize E F now stack pick rep time (w, o1) = Some (Inr (z, o2)) \<and>
    lines_of o2 = lines_of o1 + 13 * GetSubOpNum (e_pmdk E) (rw_type (cfg w)) \<and> heap_live z = heap_live w \<and>
    live_maps (g_pm (cfg z)) = live_maps (g_pm (cfg w)) \<and> fds (pm_fs (g_pm (cfg z))) = fds (pm_fs (g_pm (cfg w))) \<and>
    access_size (cfg z) = 128 * 1024 \<and> (\<forall>a. \<not> sweep_area stack w a \<longrightarrow> mem (w_mach z) a = mem (w_mach w) a)"
  by (rule access_size_job [OF assms])

section \<open>A sweep on the demonstration machine\<close>

lemma to_string_plain: "CHR ''/'' \<notin> set (to_string n)"
proof (induction n rule: to_string.induct)
  case (1 n)
  have slash: "char_of (48 + k) \<noteq> CHR ''/''" if "k < 10" for k :: nat
  proof
    assume "char_of (48 + k) = CHR ''/''"
    then have "of_char (char_of (48 + k) :: char) = (of_char CHR ''/'' :: nat)" by simp
    with that show False by simp
  qed
  show ?case
    using 1 slash [of n] slash [of "n mod 10"] by (cases "n < 10") (simp_all add: to_string.simps [of n] eq_commute)
qed

lemma context_path_comps:
  assumes "CHR ''/'' \<notin> set time" and "rep_dir_path g = ''/r''"
  shows "\<exists>name. comps (context_path g time k) = [''r'', ''internal'', name]"
proof -
  let ?name = "rep_file_prefix @ ''-'' @ (time @ ''-'' @ (Size2HumanStr (buffer_size g) @ ''-'' @ RwType2Str (rw_type g) @ ''-'' @
    AccessMode2Str (access_mode g) @ ''-'' @ Size2HumanStr (ucast (access_size g)) @ ''-'' @ to_string k)) @ ''-'' @ rep_data_suffix"
  have "CHR ''/'' \<notin> set (Size2HumanStr x)" for x by (simp add: Size2HumanStr_def to_string_plain)
  moreover have "CHR ''/'' \<notin> set (RwType2Str x)" "CHR ''/'' \<notin> set (AccessMode2Str y)" for x y
    by (cases x; cases y; simp add: RwType2Str_def rw_type_2_str_def AccessMode2Str_def access_mode_2_str_def)+
  ultimately have "good_name ?name"
    using assms(1) by (simp add: good_name_def rep_file_prefix_def rep_data_suffix_def to_string_plain)
  from comps_child [OF this, of "''/r/internal''"] show ?thesis
    by (simp add: context_path_def assms(2) rep_internal_dir_def comps_def)
qed

definition demo_sweep :: world where
  "demo_sweep = demo_world\<lparr>cfg := (cfg demo_world)\<lparr>buffer_size := 2 ^ 20, buf_slots := 2 ^ 16, buf_slots_mask := ucast (2 ^ 16 - 1 :: u64),
     g_pm := \<lparr>pm_fs = demo_rep_fs\<lparr>fs_free := 10 ^ 9\<rparr>, live_cfgs = 0, live_srcs = 0, live_maps = 1\<rparr>\<rparr>\<rparr>"

lemma demo_sweep_at:
  "at_size demo_sweep i = demo_sweep\<lparr>heap_pos := heap_pos demo_sweep + 2 * i,
     cfg := (cfg demo_sweep)\<lparr>access_size := access_sizes ! i, iters := gen_iters (access_sizes ! i)\<rparr>\<rparr>"
proof -
  have "thread_num (cfg demo_sweep) = 1" by (simp add: demo_sweep_def demo_world_simps)
  then show ?thesis by (simp add: at_size_def sweep_cfg_def)
qed

lemma demo_sweep_runnable: "runnable demo_numa (cfg demo_sweep)"
proof -
  have "sized (cfg demo_sweep)" unfolding sized_def
    by (intro exI [of _ 4] exI [of _ 20]) (simp add: demo_sweep_def demo_world_simps)
  moreover have "CheckGlobalCfg demo_numa (cfg demo_sweep) = Inr (cfg demo_sweep)"
    using fls32_exp [of 20] fls32_exp [of 16]
    by (simp add: CheckGlobalCfg_Inr check_numa_def demo_sweep_def demo_world_def demo_cfg_def demo_numa_def initial_globals_def AEP_SIZE_def
      MAX_THREAD_NUM_def assert_pow2_def push_bit_1)
  ultimately show ?thesis
    by (simp add: runnable_def demo_sweep_def demo_world_simps AEP_SIZE_def ValidateThreadNum_def MAX_THREAD_NUM_def ValidateIters_def)
qed

lemma demo_sweep_platform:
  assumes "i < 13"
  shows "platform demo_env demo_stack (at_size demo_sweep i)"
proof -
  have "(2 :: nat) ^ (i + 4) \<le> 2 ^ 16" using assms by (intro power_increasing) auto
  then have "unat (access_sizes ! i) \<le> 65536"
    using assms by (simp add: access_sizes_nth unat_exp_u32 del: power_Suc add_2_eq_Suc')
  then show ?thesis
    unfolding demo_sweep_at using assms by (intro demo_platform_at) (simp_all add: demo_sweep_def demo_world_simps)
qed

lemma demo_sweep_storage:
  assumes "i < 13"
  shows "storage demo_env ''T'' (at_size demo_sweep i)"
proof -
  let ?g = "cfg (at_size demo_sweep i)"
  obtain name where n: "comps (context_path ?g ''T'' 0) = [''r'', ''internal'', name]"
    using context_path_comps [of "''T''" ?g 0] unfolding demo_sweep_at by (auto simp: demo_sweep_def demo_world_def demo_cfg_def)
  have "unat (gen_iters (access_sizes ! i)) \<le> 8000000" by (simp add: gen_iters_def)
  moreover have "4096 + word_of_nat k * 4294967296 \<noteq> (0 :: u64)" if "k < 30" for k
  proof -
    have "unat (of_nat (4096 + k * 4294967296) :: u64) = 4096 + k * 4294967296"
      using that by (intro unat_of_nat_u64) simp
    then have "(of_nat (4096 + k * 4294967296) :: u64) \<noteq> 0" by auto
    then show ?thesis by simp
  qed
  from this [of "2 * i"] this [of "Suc (2 * i)"] assms
  have "4096 + word_of_nat (2 * i) * 4294967296 \<noteq> (0 :: u64)" "4096 + word_of_nat (Suc (2 * i)) * 4294967296 \<noteq> (0 :: u64)" by simp_all
  moreover have "thread_num ?g = 1" "pm_fs (g_pm ?g) = demo_rep_fs\<lparr>fs_free := 10 ^ 9\<rparr>" "iters ?g = gen_iters (access_sizes ! i)"
    unfolding demo_sweep_at by (simp_all add: demo_sweep_def demo_world_simps)
  moreover have "length (thread_contexts (at_size demo_sweep i)) = 32" "heap_pos (at_size demo_sweep i) = 2 * i"
    unfolding demo_sweep_at by (simp_all add: demo_sweep_def demo_world_simps) (simp add: demo_world_def)
  moreover have "malloc_of demo_env k sz = 4096 + of_nat k * 2 ^ 32" "e_pmem2 demo_env = demo_device" for k sz
    by (simp_all add: demo_env_def)
  moreover have "pmem2_up demo_device" by (simp add: pmem2_up_def demo_device_def)
  moreover have "file_slot (fs_root demo_rep_fs) [''r'', ''internal'', name]" by (simp add: file_slot_def demo_rep_fs_def)
  ultimately show ?thesis using n by (simp add: storage_def idx_block_def cpy_block_def Let_def)
qed

theorem MainJobVaryAccessSize_completes_witness:
  "\<exists>z o2. MainJobVaryAccessSize demo_env demo_flags (\<lambda>_. 7) demo_stack (\<lambda>_. 0) \<lparr>report_fd = 3, report_fp = Some Stdout\<rparr> ''T''
      (demo_sweep, \<lparr>printed = [], buffered = []\<rparr>) = Some (Inr (z, o2)) \<and> lines_of o2 = 52 \<and> heap_live z = 0"
proof -
  have "GetSubOpNum (e_pmdk demo_env) (rw_type (cfg demo_sweep)) = 4"
    by (simp add: GetSubOpNum_def AEP_CPY_FUNC_NUM_def aep_cpy_funcs_def demo_sweep_def demo_world_simps)
  moreover have "sweepable (cfg demo_sweep)"
    using runnable_fits [OF demo_sweep_runnable]
    by (simp add: sweepable_def demo_sweep_def demo_world_simps) (rule exI [of _ 0], simp)
  moreover have "unat (thread_num (cfg demo_sweep)) * 244000000 \<le> fs_free (pm_fs (g_pm (cfg demo_sweep)))" "heap_live demo_sweep = 0"
    by (simp_all add: demo_sweep_def demo_world_simps) (simp add: demo_world_def)
  ultimately show ?thesis
    using MainJobVaryAccessSize_completes [of demo_sweep "\<lparr>report_fd = 3, report_fp = Some Stdout\<rparr>" demo_env demo_stack "''T''"
        demo_flags "\<lambda>_. 7" "\<lambda>_. 0" "\<lparr>printed = [], buffered = []\<rparr>"] demo_sweep_platform demo_sweep_storage
    by (fastforce simp: lines_of_def)
qed

end
