(* ===== verification/Study_Threads.thy ===== *)
theory Study_Threads
  imports Study_Rounds
begin

text \<open>
  MainJobVaryThreadNum of bgtest/AEP/aep_study.cc as a whole. The slot mask of its rounds is stale: from
  the second round on a thread may come as far as the end of the next buffer. Its six rounds run to
  their end all the same, because what lies there is the device; only copies read sources behind
  the first 64 GB of it, and must find them mapped.
\<close>

section \<open>Rounds\<close>

text \<open>The configuration of the i-th round, and the state it starts its contexts in, as far as the
  environment can see it.\<close>

definition threads_at :: "nat \<Rightarrow> globals \<Rightarrow> globals" where
  "threads_at i g = (all_cores g)\<lparr>thread_num := 2 ^ i, buffer_size := 2 ^ (35 - i), iters := re_iters (2 ^ (35 - i)) (access_size g)\<rparr>"

definition at_threads :: "world \<Rightarrow> nat \<Rightarrow> world" where
  "at_threads w i = w\<lparr>heap_pos := heap_pos w + 2 * (2 ^ i - 1), cfg := threads_at i (cfg w)\<rparr>"

lemma threads_fields:
  "thread_num (threads_at i g) = 2 ^ i" "buffer_size (threads_at i g) = 2 ^ (35 - i)" "access_size (threads_at i g) = access_size g"
  "iters (threads_at i g) = re_iters (2 ^ (35 - i)) (access_size g)" "length (core_ids (threads_at i g)) = 32"
  "aep_buf (threads_at i g) = aep_buf g" "rw_type (threads_at i g) = rw_type g" "access_mode (threads_at i g) = access_mode g"
  "rep_dir_path (threads_at i g) = rep_dir_path g" "g_pm (threads_at i g) = g_pm g"
  by (simp_all add: threads_at_def all_cores_def MAX_THREAD_NUM_def AEP_SIZE_def)

text \<open>The bytes on the medium that the first \<open>i\<close> rounds take.\<close>

definition threads_spent :: "u32 \<Rightarrow> nat \<Rightarrow> nat" where
  "threads_spent sz i = sum_list (map (\<lambda>j. 2 ^ j * (4 * unat (re_iters (2 ^ (35 - j)) sz))) [0..<i])"

lemma threads_spent_Suc: "threads_spent sz (Suc i) = threads_spent sz i + 2 ^ i * (4 * unat (re_iters (2 ^ (35 - i)) sz))"
  by (simp add: threads_spent_def)

lemma threads_spent_bound: "threads_spent sz i \<le> (2 ^ i - 1) * 10000000"
proof (induction i)
  case (Suc i)
  have "4 * unat (re_iters (2 ^ (35 - i)) sz) \<le> 10000000" using re_iters_nat [of "2 ^ (35 - i)" sz] by simp
  then have "2 ^ i * (4 * unat (re_iters (2 ^ (35 - i)) sz)) \<le> 2 ^ i * 10000000" by (rule mult_le_mono2)
  from add_le_mono [OF Suc.IH this] have "threads_spent sz (Suc i) \<le> (2 ^ i - 1) * 10000000 + 2 ^ i * 10000000"
    by (simp only: threads_spent_Suc)
  also have "\<dots> = (2 ^ Suc i - 1) * 10000000" by (cases "2 ^ i :: nat") simp_all
  finally show ?case .
qed (simp add: threads_spent_def)

text \<open>With 2 KB at most, a round has no more iterations than a buffer has slots.\<close>

lemma re_iters_slots:
  assumes "a + 19 \<le> b" and "b \<le> 35"
  shows "unat (re_iters (2 ^ b) (2 ^ a)) \<le> 2 ^ (b - a)"
proof -
  have a: "a < 32" using assms by simp
  have d: "(2 ^ b :: u64) div ucast (2 ^ a :: u32) = 2 ^ (b - a)"
    using assms a by (simp add: ucast_exp exp_div_u64)
  have "unat (ucast (2 ^ (b - a) :: u64) :: u32) \<le> 2 ^ (b - a)"
    using assms by (simp add: unsigned_ucast_eq unat_exp_u64 take_bit_nat_less_eq_self)
  moreover have "(2 :: nat) ^ 19 \<le> 2 ^ (b - a)" using assms by (intro power_increasing) auto
  ultimately show ?thesis by (auto simp: re_iters_def Let_def d word_less_nat_alt word_le_nat_alt)
qed

definition threads_area :: "(nat \<Rightarrow> u64) \<Rightarrow> world \<Rightarrow> u64 \<Rightarrow> bool" where
  "threads_area stack w a \<longleftrightarrow> (\<exists>k<32. a = stack k) \<or> rw_type (cfg w) \<noteq> kRead \<and> in_range (aep_buf (cfg w)) (unat AEP_SIZE) a"

text \<open>Where the sources of copies must be mapped: sequential threads with an access size of at most 2 KB
  stay in their buffers; others reach 16 GB behind the first 64 GB of the device.\<close>

definition sources_mapped :: "world \<Rightarrow> bool" where
  "sources_mapped w \<longleftrightarrow> (rw_type (cfg w) = kCpy \<longrightarrow> access_mode (cfg w) = kSeq \<and> access_size (cfg w) \<le> 2048 \<or>
     accessible (w_mach w) (aep_buf (cfg w)) (unat AEP_SIZE + 2 ^ 34))"

text \<open>The configuration before the i-th round.\<close>

definition threads_before :: "globals \<Rightarrow> nat \<Rightarrow> globals \<Rightarrow> bool" where
  "threads_before g0 i g \<longleftrightarrow> (\<exists>tn bs msk bits nw it pm. g = (all_cores g0)\<lparr>thread_num := tn, buf_slots := bs,
     buf_slots_mask := msk, access_size_bits := bits, seed := nw, buffer_size := 2 ^ (if i = 0 then 35 else 36 - i),
     iters := it, g_pm := pm\<rparr>)"

lemma threads_beforeI:
  assumes "g = (all_cores g0)\<lparr>thread_num := thread_num g, buf_slots := buf_slots g, buf_slots_mask := buf_slots_mask g,
    access_size_bits := access_size_bits g, seed := seed g, buffer_size := 2 ^ (if i = 0 then 35 else 36 - i),
    iters := iters g, g_pm := g_pm g\<rparr>"
  shows "threads_before g0 i g"
  unfolding threads_before_def by (intro exI) (rule assms)

text \<open>The configuration of a round: what the i-th one has in common with \<open>threads_at\<close>, and its stale mask.\<close>

definition threads_cfg_at :: "nat \<Rightarrow> nat \<Rightarrow> globals \<Rightarrow> globals \<Rightarrow> bool" where
  "threads_cfg_at i a g0 g \<longleftrightarrow> same_round g (threads_at i g0) \<and> access_size_bits g = of_nat a \<and>
     unat (buf_slots_mask g) < 2 ^ ((if i = 0 then 35 else 36 - i) - a)"

lemma threads_cfg_step:
  assumes "threads_before g0 i g" and "i < 6" and "access_size g0 = 2 ^ a" and "a < 32"
  shows "\<exists>g'. threads_cfg E F now (2 ^ i) g = Inr g' \<and> threads_cfg_at i a g0 g' \<and> g_pm g' = g_pm g \<and>
    (\<forall>p. threads_before g0 (Suc i) (g'\<lparr>g_pm := p\<rparr>))"
proof -
  let ?b = "if i = 0 then 35 else 36 - i"
  let ?g = "g\<lparr>thread_num := 2 ^ i, buf_slots := 2 ^ (?b - a), buf_slots_mask := ucast (2 ^ (?b - a) - 1 :: u64),
    access_size_bits := of_nat a, seed := now, buffer_size := 2 ^ (35 - i), iters := re_iters (2 ^ (35 - i)) (2 ^ a)\<rparr>"
  have g: "access_size g = 2 ^ a" "buffer_size g = 2 ^ ?b" using assms(1,3) by (auto simp: threads_before_def all_cores_def)
  have b: "a \<le> ?b" "a < 32" "?b < 64" "i < 32" using assms(2,4) by auto
  moreover have "ucast (2 ^ a :: u32) = (2 ^ a :: u64)" using assms(4) by (intro ucast_exp) simp
  ultimately have "threads_cfg E F now (2 ^ i) g = Inr ?g"
    using threads_cfg_exp [of g a ?b i E F now] g by (simp only: re_iters_def Let_def simp_thms)
  moreover have "?b - a \<le> 35" by auto
  then have "unat (ucast (2 ^ (?b - a) - 1 :: u64) :: u32) < 2 ^ (?b - a)" by (intro mask_below) linarith
  moreover from assms(1,3) have "threads_before g0 (Suc i) (?g\<lparr>g_pm := p\<rparr>)" for p
    by (intro threads_beforeI) (auto simp: threads_before_def)
  moreover have "same_round ?g (threads_at i g0)"
    using assms(1,3) by (auto simp: same_round_def threads_at_def threads_before_def all_cores_def)
  ultimately show ?thesis by (intro exI [of _ ?g]) (simp add: threads_cfg_at_def)
qed

text \<open>A round is ready to run.\<close>

lemma threads_fits:
  assumes at: "threads_cfg_at i a g0 g" and i: "i < 6" and a: "access_size g0 = 2 ^ a" "a < 32"
  shows "fits g" and "reach g \<le> 2 ^ (if i = 0 then 35 else 36 - i)" and "unat (buffer_size g) = 2 ^ (35 - i)"
proof -
  from at have g: "thread_num g = 2 ^ i" "buffer_size g = 2 ^ (35 - i)" "access_size g = 2 ^ a" "access_size_bits g = of_nat a"
    "iters g = re_iters (2 ^ (35 - i)) (2 ^ a)" "length (core_ids g) = 32"
    by (simp_all add: threads_cfg_at_def same_round_def threads_fields a)
  have n: "unat (thread_num g) = 2 ^ i" using i by (simp add: g(1) unat_exp_u32)
  show ub: "unat (buffer_size g) = 2 ^ (35 - i)" by (simp add: g(2) unat_exp_u64)
  have "unat (access_size g) = 2 ^ a" using a(2) by (simp add: g(3) unat_exp_u32)
  then show r: "reach g \<le> 2 ^ (if i = 0 then 35 else 36 - i)"
    using at i a(2) by (intro reach_mask [where a = a] disjI1) (auto simp: threads_cfg_at_def)
  have "2 ^ (if i = 0 then 35 else 36 - i) \<le> 2 * (2 :: nat) ^ (35 - i)" "(2 :: nat) ^ (if i = 0 then 35 else 36 - i) \<le> 2 ^ 35"
    using i power_increasing [of "36 - i" 35 "2 :: nat"] by (auto simp: Suc_diff_le [symmetric] simp flip: power_Suc)
  with r have "reach g \<le> 2 * unat (buffer_size g)" "reach g \<le> 2 ^ 35" unfolding ub by linarith+
  moreover have "\<exists>a b. a < 32 \<and> b \<le> 35 \<and> buffer_size g = 2 ^ b \<and> access_size g = 2 ^ a \<and>
       access_size_bits g = of_nat a \<and> unat (thread_num g) * 2 ^ b \<le> 2 ^ 35"
    by (intro exI [of _ a] exI [of _ "35 - i"]) (use g a(2) i n in \<open>simp add: power_add [symmetric]\<close>)
  moreover have "(2 :: nat) ^ i \<le> 2 ^ 5" using i by (intro power_increasing) auto
  ultimately show "fits g"
    using re_iters_nat [of "2 ^ (35 - i)" "2 ^ a"] by (simp add: fits_def n g(5,6) word_less_nat_alt)
qed

text \<open>Sequential threads with small units stay in their buffers.\<close>

lemma threads_stay:
  assumes at: "threads_cfg_at i a g0 g" and i: "i < 6" and a: "access_size g0 = 2 ^ a" "access_size g0 \<le> 2048" "a < 32"
    and seq: "access_mode g0 = kSeq"
  shows "reach g \<le> 2 ^ (35 - i)"
proof -
  have "(2 :: nat) ^ a \<le> 2 ^ 11" using a by (simp add: word_le_nat_alt unat_exp_u32)
  then have a11: "a \<le> 11" by (rule power_le_imp_le_exp [rotated]) simp
  from at have g: "access_size g = 2 ^ a" "iters g = re_iters (2 ^ (35 - i)) (2 ^ a)" "access_mode g = kSeq"
    by (simp_all add: threads_cfg_at_def same_round_def threads_fields a(1) seq)
  have "unat (iters g) \<le> 2 ^ (35 - i - a)" using re_iters_slots [of a "35 - i"] a11 i by (simp add: g(2))
  moreover have "unat (access_size g) = 2 ^ a" using a(3) by (simp add: g(1) unat_exp_u32)
  ultimately show ?thesis
    using re_iters_nat [of "2 ^ (35 - i)" "2 ^ a"] a11 i g(3) by (intro reach_mask [where a = a] disjI2) (simp_all add: g(2))
qed

lemma threads_sources:
  assumes at: "threads_cfg_at i a (cfg w) g" and i: "i < 6" and a: "access_size (cfg w) = 2 ^ a" "a < 32"
    and src: "sources_mapped w" and cpy: "rw_type (cfg w) = kCpy"
  shows "reach g \<le> unat (buffer_size g) \<or> (\<forall>k < 2 ^ i.
    accessible (w_mach w) (aep_buf (cfg w) + of_nat k * buffer_size g + AEP_SIZE div 2) (reach g))"
proof (cases "i = 0 \<or> access_mode (cfg w) = kSeq \<and> access_size (cfg w) \<le> 2048")
  case True
  then show ?thesis
    using threads_stay [OF at i a(1) _ a(2)] threads_fits(2,3) [OF at i a] by auto
next
  case False
  with src cpy have acc: "accessible (w_mach w) (aep_buf (cfg w)) (unat AEP_SIZE + 2 ^ 34)" by (auto simp: sources_mapped_def)
  have g: "buffer_size g = 2 ^ (35 - i)" using at by (simp add: threads_cfg_at_def same_round_def threads_fields)
  have e: "(2 :: nat) ^ (36 - i) = 2 * 2 ^ (35 - i)" using i by (simp flip: power_Suc add: Suc_diff_le)
  with threads_fits(2) [OF at i a] False have r: "reach g \<le> 2 * 2 ^ (35 - i)" by simp
  have sum35: "(2 :: nat) ^ i * 2 ^ (35 - i) = 2 ^ 35" using i by (simp add: power_add [symmetric])
  have "accessible (w_mach w) (aep_buf (cfg w) + of_nat (k * 2 ^ (35 - i) + 2 ^ 35)) (reach g)" if "k < 2 ^ i" for k
  proof (rule accessible_sub [OF acc])
    have "Suc k * 2 ^ (35 - i) \<le> 2 ^ i * 2 ^ (35 - i)" using that by (intro mult_le_mono1) simp
    moreover have "(2 :: nat) ^ (35 - i) \<le> 2 ^ 34" using False by (intro power_increasing) auto
    ultimately show "k * 2 ^ (35 - i) + 2 ^ 35 + reach g \<le> unat AEP_SIZE + 2 ^ 34" using r sum35 by (simp add: AEP_SIZE_def)
  qed
  then show ?thesis by (simp add: g AEP_SIZE_def add.assoc)
qed

lemma threads_ready:
  assumes at: "threads_cfg_at i a (cfg w) g" and i: "i < 6" and a: "access_size (cfg w) = 2 ^ a" "a < 32"
    and src: "sources_mapped w" and m: "accessible (w_mach u) = accessible (w_mach w)"
  shows "ready (u\<lparr>cfg := g\<rparr>)"
proof -
  have "unat (thread_num g) = 2 ^ i" "aep_buf g = aep_buf (cfg w)" "rw_type g = rw_type (cfg w)"
    using at i by (simp_all add: threads_cfg_at_def same_round_def threads_fields unat_exp_u32)
  with threads_fits(1) [OF at i a] threads_sources [OF at i a src] show ?thesis by (simp add: ready_def Let_def m)
qed

text \<open>The threads of a round stay on the device.\<close>

lemma threads_inside:
  assumes at: "threads_cfg_at i a (cfg w) g" and i: "i < 6" and a: "access_size (cfg w) = 2 ^ a" "a < 32"
    and job: "job_area stack (u\<lparr>cfg := g\<rparr>) x"
  shows "threads_area stack w x"
proof -
  from at have g: "thread_num g = 2 ^ i" "buffer_size g = 2 ^ (35 - i)" "aep_buf g = aep_buf (cfg w)" "rw_type g = rw_type (cfg w)"
    by (simp_all add: threads_cfg_at_def same_round_def threads_fields)
  have n: "unat (2 ^ i :: u32) = 2 ^ i" using i by (simp add: unat_exp_u32)
  have sum35: "(2 :: nat) ^ i * 2 ^ (35 - i) \<le> 2 ^ 35" using i by (simp add: power_add [symmetric])
  have ext: "extent g \<le> 2 * 2 ^ (35 - i)"
    using threads_fits(1,3) [OF at i a] by (simp add: extent_def fits_def)
  from job obtain k where k: "k < 2 ^ i" "x = stack k \<or> rw_type (cfg w) \<noteq> kRead \<and>
      in_range (aep_buf (cfg w) + of_nat k * 2 ^ (35 - i)) (extent g) x" by (auto simp: job_area_def n g)
  have "(2 :: nat) ^ i \<le> 2 ^ 5" using i by (intro power_increasing) auto
  with k(1) have "k < 32" by simp
  then show ?thesis
    using k(2) reach_in_device [OF k(1) sum35 ext, of "aep_buf (cfg w)" x] unfolding threads_area_def by blast
qed

text \<open>The job's state before it starts, and its rounds.\<close>

definition threads_start :: "env \<Rightarrow> (nat \<Rightarrow> u64) \<Rightarrow> string \<Rightarrow> report \<Rightarrow> world \<Rightarrow> bool" where
  "threads_start E stack time rep w \<longleftrightarrow> (\<exists>a<32. access_size (cfg w) = 2 ^ a) \<and> sources_mapped w \<and> report_fp rep = Some Stdout \<and>
     (\<forall>i<6. platform E stack (at_threads w i) \<and> storage E time (at_threads w i)) \<and>
     630000000 \<le> fs_free (pm_fs (g_pm (cfg w)))"

lemma threads_room:
  assumes "i < 6" and "630000000 \<le> avail"
  shows "2 ^ i * (4 * unat (re_iters (2 ^ (35 - i)) sz)) + threads_spent sz i \<le> avail"
proof -
  have "(2 :: nat) ^ Suc i \<le> 2 ^ 6" using assms(1) by (intro power_increasing) auto
  then have "(2 ^ Suc i - 1) * 10000000 \<le> (630000000 :: nat)" by simp
  with threads_spent_bound [of sz "Suc i"] assms(2) show ?thesis by (simp add: threads_spent_Suc)
qed

lemma big_buffer:
  assumes "threads_cfg_at i a g0 g" and "i < 6"
  shows "analyzes g analyze_threads"
proof -
  have "(2 :: nat) ^ 30 \<le> 2 ^ (35 - i)" using assms(2) by (intro power_increasing) auto
  then have "\<not> buffer_size g \<le> 64 * 1024 * 1024"
    using assms by (simp add: threads_cfg_at_def same_round_def threads_fields word_le_nat_alt unat_exp_u64)
  then show ?thesis by (simp add: analyzes_def analyze_threads_def fun_eq_iff)
qed

lemma threads_round:
  assumes start: "threads_start E stack time rep w" and i: "i < 6"
    and bt: "between (threads_area stack w) w (2 * (2 ^ i - 1)) (threads_spent (access_size (cfg w)) i) u"
    and tb: "threads_before (cfg w) i (cfg u)"
  shows "\<exists>z o2. do_all [on_cfg (threads_cfg E F (now i) (thread_nums ! i)), print_line threads_line,
      job_body E stack pick analyze_threads rep time] (u, o1) = Some (Inr (z, o2)) \<and>
    between (threads_area stack w) w (2 * (2 ^ Suc i - 1)) (threads_spent (access_size (cfg w)) (Suc i)) z \<and>
    threads_before (cfg w) (Suc i) (cfg z) \<and> lines_of o2 = lines_of o1 + GetSubOpNum (e_pmdk E) (rw_type (cfg w))"
proof -
  let ?h = "threads_at i (cfg w)" and ?sz = "access_size (cfg w)"
  from start i obtain a where a: "?sz = 2 ^ a" "a < 32" and src: "sources_mapped w" and fp: "report_fp rep = Some Stdout"
    and pf: "platform E stack (at_threads w i)" and st: "storage E time (at_threads w i)"
    and free: "630000000 \<le> fs_free (pm_fs (g_pm (cfg w)))" by (auto simp: threads_start_def)
  have tn: "thread_nums ! i = 2 ^ i" and n: "unat (thread_num ?h) = 2 ^ i"
    using i by (simp_all add: thread_nums_def push_bit_eq_mult threads_fields unat_exp_u32)
  from threads_cfg_step [OF tb i a, of E F "now i"] obtain g where C: "threads_cfg E F (now i) (2 ^ i) (cfg u) = Inr g"
    and at: "threads_cfg_at i a (cfg w) g" and pm: "g_pm g = g_pm (cfg u)" and
    next_before: "\<forall>p. threads_before (cfg w) (Suc i) (g\<lparr>g_pm := p\<rparr>)" by blast
  from at have same: "same_round g ?h" by (simp add: threads_cfg_at_def)
  have "accessible (w_mach u) = accessible (w_mach w)"
    using bt by (intro accessible_same) (simp add: between_def same_platform_def)
  note rdy = threads_ready [OF at i a src this]
  have line: "threads_line g \<noteq> ''\<newline>''" by (simp add: threads_line_def)
  have room: "unat (thread_num ?h) * (4 * unat (iters ?h)) + threads_spent ?sz i \<le> fs_free (pm_fs (g_pm (cfg w)))"
    using threads_room [OF i free] by (simp only: n threads_fields(4))
  from round_at [where C = "threads_cfg E F (now i) (2 ^ i)" and L = threads_line and pick = pick and out = o1,
      OF bt C pm rdy big_buffer [OF at i] fp line at_threads_def same threads_fields(10) pf st room threads_inside [where u = u, OF at i a]]
  obtain z o2 p where z: "do_all [on_cfg (threads_cfg E F (now i) (2 ^ i)), print_line threads_line,
      job_body E stack pick analyze_threads rep time] (u, o1) = Some (Inr (z, o2))" "cfg z = g\<lparr>g_pm := p\<rparr>"
    "lines_of o2 = lines_of o1 + GetSubOpNum (e_pmdk E) (rw_type ?h)"
    "between (threads_area stack w) w (2 * (2 ^ i - 1) + 2 * unat (thread_num ?h))
       (threads_spent ?sz i + unat (thread_num ?h) * (4 * unat (iters ?h))) z" by blast
  have "2 * (2 ^ i - 1) + 2 * unat (thread_num ?h) = 2 * (2 ^ Suc i - 1)"
    "threads_spent ?sz i + unat (thread_num ?h) * (4 * unat (iters ?h)) = threads_spent ?sz (Suc i)"
    unfolding n threads_fields(4) threads_spent_Suc by (simp_all add: diff_mult_distrib2)
  with z next_before show ?thesis unfolding tn by (metis threads_fields(7))
qed

interpretation threads_rounds: varied_job 6
  "\<lambda>i. do_all [on_cfg (threads_cfg E F (now i) (thread_nums ! i)), print_line threads_line, job_body E stack pick analyze_threads rep time]"
  "threads_start E stack time rep" "threads_area stack" "\<lambda>w i. 2 * (2 ^ i - 1)" "\<lambda>w. threads_spent (access_size (cfg w))"
  threads_before "\<lambda>w. GetSubOpNum (e_pmdk E) (rw_type (cfg w))"
  by unfold_locales (rule threads_round, assumption+, simp_all add: threads_spent_def)

lemma threads_job:
  assumes "access_size (cfg w) = 2 ^ a" and "a < 32" and "sources_mapped w" and "report_fp rep = Some Stdout"
    and "\<forall>i<6. platform E stack (at_threads w i) \<and> storage E time (at_threads w i)"
    and "630000000 \<le> fs_free (pm_fs (g_pm (cfg w)))"
  shows "\<exists>z o2. MainJobVaryThreadNum E F now stack pick rep time (w, o1) = Some (Inr (z, o2)) \<and>
    lines_of o2 = lines_of o1 + 6 * GetSubOpNum (e_pmdk E) (rw_type (cfg w)) \<and> heap_live z = heap_live w \<and>
    live_maps (g_pm (cfg z)) = live_maps (g_pm (cfg w)) \<and> fds (pm_fs (g_pm (cfg z))) = fds (pm_fs (g_pm (cfg w))) \<and>
    thread_num (cfg z) = 64 \<and> (\<forall>a. \<not> threads_area stack w a \<longrightarrow> mem (w_mach z) a = mem (w_mach w) a)"
proof -
  let ?w = "w\<lparr>cfg := all_cores (cfg w)\<rparr>"
  have "threads_start E stack time rep w" "threads_before (cfg w) 0 (cfg ?w)" "between (threads_area stack w) w 0 0 ?w"
    using assms by (auto simp: threads_start_def all_cores_def AEP_SIZE_def between_def same_platform_def intro!: threads_beforeI)
  from threads_rounds.rounds_ok [OF this(1,3,2), of F now pick o1] obtain z o2 where
    z: "do_all (map (\<lambda>i. do_all [on_cfg (threads_cfg E F (now i) (thread_nums ! i)), print_line threads_line,
      job_body E stack pick analyze_threads rep time]) [0..<6]) (?w, o1) = Some (Inr (z, o2))"
    "between (threads_area stack w) w (2 * (2 ^ 6 - 1)) (threads_spent (access_size (cfg w)) 6) z"
    "lines_of o2 = lines_of o1 + 6 * GetSubOpNum (e_pmdk E) (rw_type (cfg w))" by blast
  have "length thread_nums = 6" by (simp add: thread_nums_def)
  with z(1) have "MainJobVaryThreadNum E F now stack pick rep time (w, o1) =
      Some (Inr (z\<lparr>cfg := (cfg z)\<lparr>thread_num := 64\<rparr>\<rparr>, o2))"
    unfolding MainJobVaryThreadNum_def do_all_append do_all_concat do_all_single
    by (simp add: comp_def on_cfg_def on_world_def del: do_all.simps(2))
  with z(2,3) show ?thesis by (auto simp: between_def)
qed

end
