(* ===== verification/Study_Whole.thy ===== *)
theory Study_Whole
  imports Study_Sweep Study_Threads
begin

text \<open>
  Whole runs of the program of bgtest/AEP/aep_study.cc from what its environment must provide: room
  and directories for its files, an allocator and a libpmem2 that answer. For each of the three jobs
  main returns.
\<close>

section \<open>Opening the report\<close>

lemma open_empty:
  assumes "file_slot (fs_root fs) (comps f)"
  shows "\<exists>fs'. OpenAndAllocAtSize f 0 fs = (new_fd fs, fs') \<and> 0 < new_fd fs \<and> fs_free fs' = fs_free fs \<and>
    length (fds fs') = Suc (length (fds fs)) \<and> (\<forall>q. file_slot (fs_root fs) q \<longrightarrow> file_slot (fs_root fs') q)"
proof -
  obtain fs' where o: "OpenAndAllocAtSize f 0 fs = (new_fd fs, fs')" "0 < new_fd fs" "fs_free fs' = fs_free fs"
    "\<forall>q. file_slot (fs_root fs) q \<longrightarrow> file_slot (fs_root fs') q"
    using OpenAndAllocAtSize_succeeds [OF assms, of 0] by auto
  then have "length (fds fs') = Suc (length (fds fs))"
    by (auto simp: OpenAndAllocAtSize_def sys_open_def Let_def split: option.splits node.splits if_splits)
  with o show ?thesis by blast
qed

text \<open>What the report object adds to the process: a descriptor.\<close>

definition reported :: "globals \<Rightarrow> globals \<Rightarrow> bool" where
  "reported g g' \<longleftrightarrow> (\<exists>pm. g' = g\<lparr>g_pm := pm\<rparr> \<and> live_maps pm = live_maps (g_pm g) \<and>
     fs_free (pm_fs pm) = fs_free (pm_fs (g_pm g)) \<and> length (fds (pm_fs pm)) = Suc (length (fds (pm_fs (g_pm g)))) \<and>
     (\<forall>q. file_slot (fs_root (pm_fs (g_pm g))) q \<longrightarrow> file_slot (fs_root (pm_fs pm)) q))"

lemma new_Report_succeeds:
  assumes "file_slot (fs_root (pm_fs (g_pm g))) (comps (report_path g time))" and "time \<noteq> []"
  shows "\<exists>rep g' o2. new_Report time (g, o1) = Inr (rep, g', o2) \<and> report_fp rep = Some Stdout \<and> reported g g' \<and>
    lines_of o2 = lines_of o1"
proof -
  from open_empty [OF assms(1)] obtain fs' where f: "OpenAndAllocAtSize (report_path g time) 0 (pm_fs (g_pm g)) = (new_fd (pm_fs (g_pm g)), fs')"
    "0 < new_fd (pm_fs (g_pm g))" "fs_free fs' = fs_free (pm_fs (g_pm g))"
    "length (fds fs') = Suc (length (fds (pm_fs (g_pm g))))"
    "\<forall>q. file_slot (fs_root (pm_fs (g_pm g))) q \<longrightarrow> file_slot (fs_root fs') q" by blast
  have "lines_of (foldl (\<lambda>b l. fprintf (Stream fd) l b) b ls) = lines_of b" for fd b ls
    by (induction ls arbitrary: b) (simp_all add: lines_of_def fprintf_def)
  with f assms(2) show ?thesis by (auto simp: new_Report_def reported_def)
qed

text \<open>The environment of a job is that of the state before the report was opened.\<close>

lemma storage_reported:
  assumes "storage E time v" and "\<forall>q. file_slot (fs_root (pm_fs (g_pm (cfg v)))) q \<longrightarrow> file_slot (fs_root (pm_fs pm)) q"
    and "fs_free (pm_fs pm) = fs_free (pm_fs (g_pm (cfg v)))"
  shows "storage E time (v\<lparr>cfg := (cfg v)\<lparr>g_pm := pm\<rparr>\<rparr>)"
  using assms by (simp add: storage_def idx_block_def cpy_block_def context_path_def Let_def)

lemma at_size_pm: "at_size (w\<lparr>cfg := (cfg w)\<lparr>g_pm := pm\<rparr>\<rparr>) i = (at_size w i)\<lparr>cfg := (cfg (at_size w i))\<lparr>g_pm := pm\<rparr>\<rparr>"
  by (simp add: at_size_def sweep_cfg_def Let_def)

lemma at_threads_pm:
  "at_threads (w\<lparr>cfg := (cfg w)\<lparr>g_pm := pm\<rparr>\<rparr>) i = (at_threads w i)\<lparr>cfg := (cfg (at_threads w i))\<lparr>g_pm := pm\<rparr>\<rparr>"
  by (simp add: at_threads_def threads_at_def all_cores_def)

lemma at_round_pm: "g_pm (cfg (at_size w i)) = g_pm (cfg w)" "g_pm (cfg (at_threads w i)) = g_pm (cfg w)"
  by (simp_all add: at_size_def sweep_cfg_def at_threads_def threads_at_def all_cores_def Let_def)

lemma reported_env:
  assumes "reported (cfg w) g'"
  shows "platform E stack (w\<lparr>cfg := g'\<rparr>) = platform E stack w" and "storage E time w \<Longrightarrow> storage E time (w\<lparr>cfg := g'\<rparr>)"
    and "platform E stack (at_size (w\<lparr>cfg := g'\<rparr>) i) = platform E stack (at_size w i)"
    and "storage E time (at_size w i) \<Longrightarrow> storage E time (at_size (w\<lparr>cfg := g'\<rparr>) i)"
    and "platform E stack (at_threads (w\<lparr>cfg := g'\<rparr>) i) = platform E stack (at_threads w i)"
    and "storage E time (at_threads w i) \<Longrightarrow> storage E time (at_threads (w\<lparr>cfg := g'\<rparr>) i)"
proof -
  from assms obtain pm where pm: "g' = (cfg w)\<lparr>g_pm := pm\<rparr>" "fs_free (pm_fs pm) = fs_free (pm_fs (g_pm (cfg w)))"
    "\<forall>q. file_slot (fs_root (pm_fs (g_pm (cfg w)))) q \<longrightarrow> file_slot (fs_root (pm_fs pm)) q" by (auto simp: reported_def)
  then show "platform E stack (w\<lparr>cfg := g'\<rparr>) = platform E stack w" "storage E time w \<Longrightarrow> storage E time (w\<lparr>cfg := g'\<rparr>)"
    "platform E stack (at_size (w\<lparr>cfg := g'\<rparr>) i) = platform E stack (at_size w i)"
    "storage E time (at_size w i) \<Longrightarrow> storage E time (at_size (w\<lparr>cfg := g'\<rparr>) i)"
    "platform E stack (at_threads (w\<lparr>cfg := g'\<rparr>) i) = platform E stack (at_threads w i)"
    "storage E time (at_threads w i) \<Longrightarrow> storage E time (at_threads (w\<lparr>cfg := g'\<rparr>) i)"
    by (simp_all add: platform_pm at_size_pm at_threads_pm storage_reported at_round_pm)
qed

lemma GetLocalTime_not_Nil: "GetLocalTime T \<noteq> []"
  by (simp add: GetLocalTime_def Let_def)

text \<open>main around a job that returns.\<close>

lemma main_around:
  assumes "\<not> is_init ls" and "\<not> glog_started ls" and "\<not> FLAGS_clean_rep_dir F"
    and "ParseAndValidateFlags (e_numa E) F (cfg w) = Inr g"
    and "main_setup E F (now 0) fuel (w\<lparr>cfg := g\<rparr>, o1) = Some (Inr (w3, o3))"
    and "new_Report (GetLocalTime T) (cfg w3, o3) = Inr (rep, g4, o4)" and "report_fp rep = Some Stdout"
    and "choose_job E F (\<lambda>i. now (Suc i)) stack pick rep (GetLocalTime T) (w3\<lparr>cfg := g4\<rparr>, o4) = Some (Inr (z, o5))"
  shows "\<exists>ls'. main E F now T sure fuel stack pick ls (w, o1) = Some (Inr (ls', z\<lparr>cfg := DestroyGlobalCfg (cfg z)\<rparr>, o5))"
proof -
  let ?z = "z\<lparr>cfg := DestroyGlobalCfg (cfg z)\<rparr>"
  have job: "report_and_run E F (\<lambda>i. now (Suc i)) stack pick (GetLocalTime T) (w3, o3) = Some (Inr (?z, o5))"
    using assms(6-8) by (simp add: report_and_run_def on_cfg_def on_world_def delete_Report_def)
  have "do_all [on_cfg (ParseAndValidateFlags (e_numa E) F), main_setup E F (now 0) fuel,
      report_and_run E F (\<lambda>i. now (Suc i)) stack pick (GetLocalTime T)] (w, o1) = Some (Inr (?z, o5))"
    using assms(4,5) job by (simp add: on_cfg_def on_world_def)
  moreover obtain ls' where "InitLog the_log_cfg ls = Inr ls'" using InitLog_fresh [OF assms(1,2)] by blast
  ultimately show ?thesis using assms(3) by (simp add: main_def del: do_all.simps)
qed

lemma setup_sizes:
  assumes "main_setup E F now fuel (w, o1) = Some (Inr (w3, o3))"
  shows "thread_num (cfg w3) = FLAGS_thread_num F" and "buffer_size (cfg w3) = FLAGS_buffer_size F"
    and "access_size (cfg w3) = FLAGS_access_size F" and "access_mode (cfg w3) = Str2AccessMode (FLAGS_access_mode F)"
proof -
  from assms obtain pm g2 pm' where g2: "InitGlobalCfg (e_pmem2 E) F now True ((cfg w)\<lparr>g_pm := pm\<rparr>) = Inr g2"
    "cfg w3 = g2\<lparr>g_pm := pm'\<rparr>" by (rule main_setup_Inr)
  from InitGlobalCfg_first [OF g2(1)] show "thread_num (cfg w3) = FLAGS_thread_num F" "buffer_size (cfg w3) = FLAGS_buffer_size F"
    "access_size (cfg w3) = FLAGS_access_size F" "access_mode (cfg w3) = Str2AccessMode (FLAGS_access_mode F)"
    by (simp_all add: g2(2))
qed

text \<open>main, given that the job it chooses returns once the report is open: what it prints and what it
  leaves behind.\<close>

lemma main_job:
  assumes "\<not> is_init ls" and "\<not> glog_started ls" and "\<not> FLAGS_clean_rep_dir F"
    and "ParseAndValidateFlags (e_numa E) F (cfg w) = Inr g"
    and "main_setup E F (now 0) fuel (w\<lparr>cfg := g\<rparr>, o1) = Some (Inr (w3, o3))"
    and "file_slot (fs_root (pm_fs (g_pm (cfg w3)))) (comps (report_path (cfg w3) (GetLocalTime T)))"
    and job: "\<And>rep g4 o4. report_fp rep = Some Stdout \<Longrightarrow> reported (cfg w3) g4 \<Longrightarrow>
      \<exists>z o5. choose_job E F (\<lambda>i. now (Suc i)) stack pick rep (GetLocalTime T) (w3\<lparr>cfg := g4\<rparr>, o4) = Some (Inr (z, o5)) \<and>
        lines_of o5 = lines_of o4 + num \<and> heap_live z = heap_live w3 \<and> live_maps (g_pm (cfg z)) = live_maps (g_pm g4) \<and>
        fds (pm_fs (g_pm (cfg z))) = fds (pm_fs (g_pm g4))"
  shows "\<exists>ls' z o5. main E F now T sure fuel stack pick ls (w, o1) = Some (Inr (ls', z, o5)) \<and>
    lines_of o5 = lines_of o3 + num \<and> heap_live z = heap_live w \<and>
    aep_map (cfg z) = None \<and> live_maps (g_pm (cfg z)) = live_maps (g_pm (cfg w3)) - 1 \<and>
    length (fds (pm_fs (g_pm (cfg z)))) = Suc (length (fds (pm_fs (g_pm (cfg w3)))))"
proof -
  from new_Report_succeeds [OF assms(6) GetLocalTime_not_Nil, of o3] obtain rep g4 o4 where
    r: "new_Report (GetLocalTime T) (cfg w3, o3) = Inr (rep, g4, o4)" "report_fp rep = Some Stdout" "reported (cfg w3) g4"
      "lines_of o4 = lines_of o3" by blast
  from job [OF r(2,3), of o4] obtain z o5 where
    z: "choose_job E F (\<lambda>i. now (Suc i)) stack pick rep (GetLocalTime T) (w3\<lparr>cfg := g4\<rparr>, o4) = Some (Inr (z, o5))"
      "lines_of o5 = lines_of o4 + num" "heap_live z = heap_live w3" "live_maps (g_pm (cfg z)) = live_maps (g_pm g4)"
      "fds (pm_fs (g_pm (cfg z))) = fds (pm_fs (g_pm g4))" by blast
  from main_around [where now = now, OF assms(1-5) r(1,2) z(1)] obtain ls' where
    "main E F now T sure fuel stack pick ls (w, o1) = Some (Inr (ls', z\<lparr>cfg := DestroyGlobalCfg (cfg z)\<rparr>, o5))" by blast
  moreover have "heap_live w3 = heap_live w" by (rule main_setup_Inr [OF assms(5)]) simp
  ultimately show ?thesis
    using z(2-5) r(3,4) by (auto simp: DestroyGlobalCfg_def Pmem2UnMap_def reported_def)
qed

section \<open>Properties\<close>

text \<open>C1: The program runs to its end. In a fresh process, with valid flags that choose the default job,
  once the setup has passed the program's own checks, main returns on every schedule: all that it
  needs is a platform that keeps its promises and room for its files. It printed one line for every
  operation, gave back its memory, and unmapped the device; the descriptor of the report is all that
  stays open.\<close>

theorem main_runs:
  assumes "\<not> is_init ls" and "\<not> glog_started ls"
    and "\<not> FLAGS_clean_rep_dir F" and "\<not> FLAGS_vary_access_size F" and "\<not> FLAGS_vary_thread_num F"
    and "FLAGS_buffer_size F \<le> AEP_SIZE" and "unat (FLAGS_iters F) < 2 ^ 31"
    and "ParseAndValidateFlags (e_numa E) F (cfg w) = Inr g"
    and "main_setup E F (now 0) fuel (w\<lparr>cfg := g\<rparr>, o1) = Some (Inr (w3, o3))"
    and "platform E stack w3" and "storage E (GetLocalTime T) w3"
    and "file_slot (fs_root (pm_fs (g_pm (cfg w3)))) (comps (report_path (cfg w3) (GetLocalTime T)))"
  shows "\<exists>ls' z o5. main E F now T sure fuel stack pick ls (w, o1) = Some (Inr (ls', z, o5)) \<and>
    lines_of o5 = lines_of o3 + GetSubOpNum (e_pmdk E) (Str2RwType (FLAGS_rw_type F)) \<and> heap_live z = heap_live w \<and>
    aep_map (cfg z) = None \<and> live_maps (g_pm (cfg z)) = live_maps (g_pm (cfg w3)) - 1 \<and>
    length (fds (pm_fs (g_pm (cfg z)))) = Suc (length (fds (pm_fs (g_pm (cfg w3)))))"
proof -
  from new_Report_succeeds [OF assms(12) GetLocalTime_not_Nil, of o3] obtain rep g4 o4 where
    r: "new_Report (GetLocalTime T) (cfg w3, o3) = Inr (rep, g4, o4)" "reported (cfg w3) g4" "lines_of o4 = lines_of o3" by blast
  from r(2) obtain pm where pm: "g4 = (cfg w3)\<lparr>g_pm := pm\<rparr>" "length (fds (pm_fs pm)) = Suc (length (fds (pm_fs (g_pm (cfg w3)))))"
    by (auto simp: reported_def)
  have run: "runnable (e_numa E) (cfg (w3\<lparr>cfg := g4\<rparr>))"
    using main_setup_runnable(1) [OF assms(9) _ assms(6,7), where gi = "cfg w" and pm = pm] assms(8) by (simp add: pm(1))
  from InitThreadContext_succeeds [OF runnable_fits [OF run] reported_env(2) [OF r(2) assms(11)]] obtain u where
    u: "InitThreadContext E (GetLocalTime T) None (w3\<lparr>cfg := g4\<rparr>) = Inr u" by blast
  have pf: "platform E stack (w3\<lparr>cfg := g4\<rparr>)" using reported_env(1) [OF r(2)] assms(10) by simp
  from main_completes [where now = now, OF assms(1-9) r(1) pf u, of sure pick] show ?thesis by (auto simp: r(3) pm)
qed

text \<open>C2: The sweep over the access sizes runs to its end too. With 1, 2, 4, 8 or 16 threads and a buffer of at
  least 64 KB, on a platform that keeps its promises at all 13 sizes and a medium with 244 MB for every
  thread's result files, main returns after the 13 rounds on every schedule, with one line per
  operation and size and nothing left but the descriptor of the report.\<close>

theorem main_sweeps:
  assumes "\<not> is_init ls" and "\<not> glog_started ls"
    and "\<not> FLAGS_clean_rep_dir F" and "FLAGS_vary_access_size F" and "FLAGS_thread_num F = 2 ^ k"
    and "64 * 1024 \<le> FLAGS_buffer_size F" and "FLAGS_buffer_size F \<le> AEP_SIZE" and "unat (FLAGS_iters F) < 2 ^ 31"
    and "ParseAndValidateFlags (e_numa E) F (cfg w) = Inr g"
    and "main_setup E F (now 0) fuel (w\<lparr>cfg := g\<rparr>, o1) = Some (Inr (w3, o3))"
    and "\<forall>i<13. platform E stack (at_size w3 i) \<and> storage E (GetLocalTime T) (at_size w3 i)"
    and "unat (FLAGS_thread_num F) * 244000000 \<le> fs_free (pm_fs (g_pm (cfg w3)))"
    and "file_slot (fs_root (pm_fs (g_pm (cfg w3)))) (comps (report_path (cfg w3) (GetLocalTime T)))"
  shows "\<exists>ls' z o5. main E F now T sure fuel stack pick ls (w, o1) = Some (Inr (ls', z, o5)) \<and>
    lines_of o5 = lines_of o3 + 13 * GetSubOpNum (e_pmdk E) (Str2RwType (FLAGS_rw_type F)) \<and> heap_live z = heap_live w \<and>
    aep_map (cfg z) = None \<and> live_maps (g_pm (cfg z)) = live_maps (g_pm (cfg w3)) - 1 \<and>
    length (fds (pm_fs (g_pm (cfg z)))) = Suc (length (fds (pm_fs (g_pm (cfg w3)))))"
proof (rule main_job [where now = now, OF assms(1-3,9,10,13)])
  fix rep :: report and g4 :: globals and o4 :: io
  assume r: "report_fp rep = Some Stdout" "reported (cfg w3) g4"
  let ?w = "w3\<lparr>cfg := g4\<rparr>"
  from r(2) obtain pm where pm: "g4 = (cfg w3)\<lparr>g_pm := pm\<rparr>" "fs_free (pm_fs pm) = fs_free (pm_fs (g_pm (cfg w3)))"
    by (auto simp: reported_def)
  note sr = main_setup_runnable [OF assms(10) _ assms(7,8), where gi = "cfg w"] and sz = setup_sizes [OF assms(10)]
  have rt: "rw_type (cfg ?w) = Str2RwType (FLAGS_rw_type F)" using sr(2) assms(9) by (simp add: pm(1))
  have "sweepable (cfg ?w)"
    using runnable_fits [OF sr(1) [where pm = pm]] sz assms(5,6,9) by (auto simp: sweepable_def pm(1))
  moreover have "\<forall>i<13. platform E stack (at_size ?w i) \<and> storage E (GetLocalTime T) (at_size ?w i)"
    using reported_env(3,4) [OF r(2)] assms(11) by blast
  moreover have "unat (thread_num (cfg ?w)) * 244000000 \<le> fs_free (pm_fs (g_pm (cfg ?w)))" using assms(12) sz(1) by (simp add: pm)
  ultimately show "\<exists>z o5. choose_job E F (\<lambda>i. now (Suc i)) stack pick rep (GetLocalTime T) (?w, o4) = Some (Inr (z, o5)) \<and>
        lines_of o5 = lines_of o4 + 13 * GetSubOpNum (e_pmdk E) (Str2RwType (FLAGS_rw_type F)) \<and> heap_live z = heap_live w3 \<and>
        live_maps (g_pm (cfg z)) = live_maps (g_pm g4) \<and> fds (pm_fs (g_pm (cfg z))) = fds (pm_fs (g_pm g4))"
    using access_size_job [OF _ r(1), of ?w E stack "GetLocalTime T" F "\<lambda>i. now (Suc i)" pick o4] assms(4) rt
    by (fastforce simp: choose_job_def)
qed

text \<open>C3: The job that varies the number of threads runs to its end as well, for every accepted access size
  and mode. On a platform that keeps its promises for 1, 2, 4, 8, 16 and 32 threads and a medium with
  630 MB for the result files, main returns after the six rounds on every schedule, with one line
  per operation and round and nothing left but the descriptor of the report. The slot mask is stale in
  every round but the first (see the theorem threads_cfg_stale), and threads write into each other's
  buffers; they do not fault, because none comes further than one buffer behind its own. Only copies
  reach sources behind the first 64 GB of the device then: for them another 16 GB must be mapped,
  unless the access is sequential and of at most 2 KB.\<close>

theorem main_varies_threads:
  assumes "\<not> is_init ls" and "\<not> glog_started ls"
    and "\<not> FLAGS_clean_rep_dir F" and "\<not> FLAGS_vary_access_size F" and "FLAGS_vary_thread_num F"
    and "FLAGS_buffer_size F \<le> AEP_SIZE" and "unat (FLAGS_iters F) < 2 ^ 31"
    and "ParseAndValidateFlags (e_numa E) F (cfg w) = Inr g"
    and "main_setup E F (now 0) fuel (w\<lparr>cfg := g\<rparr>, o1) = Some (Inr (w3, o3))"
    and "\<forall>i<6. platform E stack (at_threads w3 i) \<and> storage E (GetLocalTime T) (at_threads w3 i)" and "sources_mapped w3"
    and "630000000 \<le> fs_free (pm_fs (g_pm (cfg w3)))"
    and "file_slot (fs_root (pm_fs (g_pm (cfg w3)))) (comps (report_path (cfg w3) (GetLocalTime T)))"
  shows "\<exists>ls' z o5. main E F now T sure fuel stack pick ls (w, o1) = Some (Inr (ls', z, o5)) \<and>
    lines_of o5 = lines_of o3 + 6 * GetSubOpNum (e_pmdk E) (Str2RwType (FLAGS_rw_type F)) \<and> heap_live z = heap_live w \<and>
    aep_map (cfg z) = None \<and> live_maps (g_pm (cfg z)) = live_maps (g_pm (cfg w3)) - 1 \<and>
    length (fds (pm_fs (g_pm (cfg z)))) = Suc (length (fds (pm_fs (g_pm (cfg w3)))))"
proof (rule main_job [where now = now, OF assms(1-3,8,9,13)])
  fix rep :: report and g4 :: globals and o4 :: io
  assume r: "report_fp rep = Some Stdout" "reported (cfg w3) g4"
  let ?w = "w3\<lparr>cfg := g4\<rparr>"
  from r(2) obtain pm where pm: "g4 = (cfg w3)\<lparr>g_pm := pm\<rparr>" "fs_free (pm_fs pm) = fs_free (pm_fs (g_pm (cfg w3)))"
    by (auto simp: reported_def)
  note sr = main_setup_runnable [OF assms(9) _ assms(6,7), where gi = "cfg w"]
  have rt: "rw_type (cfg ?w) = Str2RwType (FLAGS_rw_type F)" using sr(2) assms(8) by (simp add: pm(1))
  from sr(1) [where pm = pm] assms(8) have "runnable (e_numa E) (cfg ?w)" by (simp add: pm(1))
  then obtain a where a: "access_size (cfg ?w) = 2 ^ a" "a < 32" by (rule runnable_sizes) blast
  have "sources_mapped ?w" using assms(11) by (simp add: sources_mapped_def pm(1))
  moreover have "\<forall>i<6. platform E stack (at_threads ?w i) \<and> storage E (GetLocalTime T) (at_threads ?w i)"
    using reported_env(5,6) [OF r(2)] assms(10) by blast
  moreover have "630000000 \<le> fs_free (pm_fs (g_pm (cfg ?w)))" using assms(12) by (simp add: pm)
  ultimately show "\<exists>z o5. choose_job E F (\<lambda>i. now (Suc i)) stack pick rep (GetLocalTime T) (?w, o4) = Some (Inr (z, o5)) \<and>
        lines_of o5 = lines_of o4 + 6 * GetSubOpNum (e_pmdk E) (Str2RwType (FLAGS_rw_type F)) \<and> heap_live z = heap_live w3 \<and>
        live_maps (g_pm (cfg z)) = live_maps (g_pm g4) \<and> fds (pm_fs (g_pm (cfg z))) = fds (pm_fs (g_pm g4))"
    using threads_job [OF a _ r(1), of E stack "GetLocalTime T" F "\<lambda>i. now (Suc i)" pick o4] assms(4,5) rt
    by (fastforce simp: choose_job_def)
qed

section \<open>Runs on the demonstration machine\<close>

lemma demo_block_addr: "k < 127 \<Longrightarrow> malloc_of demo_env k sz \<noteq> 0"
proof -
  assume "k < 127"
  then have "unat (of_nat (4096 + k * 4294967296) :: u64) = 4096 + k * 4294967296" by (intro unat_of_nat_u64) simp
  then have "(of_nat (4096 + k * 4294967296) :: u64) \<noteq> 0" by auto
  then show ?thesis by (simp add: demo_env_def)
qed

lemma demo_storage:
  assumes "unat (thread_num (cfg v)) \<le> 32" and "rep_dir_path (cfg v) = ''/r''" and "CHR ''/'' \<notin> set time"
    and "heap_pos v + 2 * unat (thread_num (cfg v)) \<le> 127"
    and "length (thread_contexts v) = 32"
    and "unat (thread_num (cfg v)) * (4 * unat (iters (cfg v))) \<le> fs_free (pm_fs (g_pm (cfg v)))"
    and "\<And>name. file_slot (fs_root (pm_fs (g_pm (cfg v)))) [''r'', ''internal'', name]"
  shows "storage demo_env time v"
proof -
  have "file_slot (fs_root (pm_fs (g_pm (cfg v)))) (comps (context_path (cfg v) time k))" for k
    using context_path_comps [OF assms(3,2), of k] assms(7) by auto
  moreover have "pmem2_up (e_pmem2 demo_env)" by (simp add: pmem2_up_def demo_device_def demo_env_def)
  moreover have "idx_block demo_env v k \<noteq> 0" "cpy_block demo_env v k \<noteq> 0" if "k < unat (thread_num (cfg v))" for k
    using that assms(4) by (simp_all add: idx_block_def cpy_block_def demo_block_addr)
  ultimately show ?thesis using assms by (simp add: storage_def Let_def)
qed

lemma demo_time_plain: "CHR ''/'' \<notin> set (GetLocalTime demo_tm)"
  by (simp add: demo_time)

lemma demo_slots:
  "file_slot (fs_root demo_main_fs) [''r'', ''internal'', name]"
  "file_slot (fs_root demo_main_fs) [''r'', ''report'', name]"
  by (simp_all add: file_slot_def demo_main_fs_def)

theorem main_runs_witness:
  "\<exists>ls' z o5. main demo_env demo_flags (\<lambda>_. 7) demo_tm 0 2 demo_stack (\<lambda>_. 0) demo_log
      (demo_start, \<lparr>printed = [], buffered = []\<rparr>) = Some (Inr (ls', z, o5)) \<and> aep_map (cfg z) = None \<and> heap_live z = 0"
proof -
  obtain o3 where s: "main_setup demo_env demo_flags 7 2
      (demo_start\<lparr>cfg := (cfg demo_start)\<lparr>core_ids := 20 # replicate 31 0, core_num := 1\<rparr>\<rparr>, \<lparr>printed = [], buffered = []\<rparr>) =
      Some (Inr (demo_ready, o3))" using demo_setup by blast
  have r: "demo_ready = demo_world\<lparr>cfg := (cfg demo_world)\<lparr>g_pm := g_pm (cfg demo_ready)\<rparr>\<rparr>"
    by (simp add: demo_ready_def demo_world_def)
  have p: "platform demo_env demo_stack demo_ready" by (subst r) (simp add: platform_pm demo_platform)
  have st: "storage demo_env (GetLocalTime demo_tm) demo_ready"
    by (rule demo_storage)
      (simp_all add: demo_time_plain demo_slots demo_ready_def demo_world_def demo_cfg_def initial_globals_def,
       simp add: demo_main_fs_def demo_rep_fs_def)
  have slot: "file_slot (fs_root (pm_fs (g_pm (cfg demo_ready)))) (comps (report_path (cfg demo_ready) (GetLocalTime demo_tm)))"
    unfolding demo_paths by (simp add: demo_ready_def demo_slots)
  have fl: "\<not> FLAGS_clean_rep_dir demo_flags" "\<not> FLAGS_vary_access_size demo_flags" "\<not> FLAGS_vary_thread_num demo_flags"
    "FLAGS_buffer_size demo_flags \<le> AEP_SIZE" "unat (FLAGS_iters demo_flags) < 2 ^ 31" "heap_live demo_start = 0"
    "e_numa demo_env = demo_numa" "\<not> is_init demo_log" "\<not> glog_started demo_log"
    by (simp_all add: demo_flags_def AEP_SIZE_def demo_start_def demo_world_def demo_env_def demo_log_def)
  from main_runs [of demo_log demo_flags demo_env demo_start _ "\<lambda>_. 7" 2 "\<lparr>printed = [], buffered = []\<rparr>" demo_ready o3 demo_stack demo_tm,
      OF fl(8,9,1-5), unfolded fl(7), OF demo_parse s p st slot, of 0 "\<lambda>_. 0"]
  show ?thesis using fl(6) by auto
qed

text \<open>A sweep: other flags, and a medium with more room.\<close>

definition demo_sweep_flags :: flags where
  "demo_sweep_flags = demo_flags\<lparr>FLAGS_buffer_size := 2 ^ 20, FLAGS_vary_access_size := True\<rparr>"

definition demo_big_fs :: fsys where
  "demo_big_fs = demo_main_fs\<lparr>fs_free := 10 ^ 9\<rparr>"

definition demo_sweep_start :: world where
  "demo_sweep_start = demo_world\<lparr>cfg := initial_globals \<lparr>pm_fs = demo_big_fs, live_cfgs = 0, live_srcs = 0, live_maps = 0\<rparr>\<rparr>"

definition demo_sweep_ready :: world where
  "demo_sweep_ready = demo_sweep\<lparr>cfg := (cfg demo_sweep)\<lparr>g_pm := \<lparr>pm_fs = demo_big_fs, live_cfgs = 0, live_srcs = 0, live_maps = 1\<rparr>\<rparr>\<rparr>"

lemma demo_sweep_parse:
  "ParseAndValidateFlags demo_numa demo_sweep_flags (cfg demo_sweep_start) =
     Inr ((cfg demo_sweep_start)\<lparr>core_ids := 20 # replicate 31 0, core_num := 1\<rparr>)"
proof -
  have one: "filter (\<lambda>c. c = 20) [0..<80] = [20 :: nat]" by (simp add: upt_rec)
  have "collect_cores (\<lambda>c. c = 20) [0..<80] ((cfg demo_sweep_start)\<lparr>core_num := 0\<rparr>) =
      Inr (True, (cfg demo_sweep_start)\<lparr>core_ids := 20 # replicate 31 0, core_num := 1\<rparr>)"
    by (subst collect_cores_spec)
       (simp_all add: demo_sweep_start_def initial_globals_def one MAX_THREAD_NUM_def MAX_CORE_ID_def Let_def)
  then show ?thesis
    by (simp add: ParseAndValidateFlags_def ValidateCoreIds_def demo_numa_def demo_sweep_flags_def demo_flags_def ValidateThreadNum_def
        MAX_THREAD_NUM_def ValidateRwType_def str_2_rw_type_def ValidateAccessMode_def str_2_access_mode_def ValidateIters_def Let_def)
qed

lemma demo_sweep_setup:
  "\<exists>o3. main_setup demo_env demo_sweep_flags 7 2
     (demo_sweep_start\<lparr>cfg := (cfg demo_sweep_start)\<lparr>core_ids := 20 # replicate 31 0, core_num := 1\<rparr>\<rparr>, o1) =
     Some (Inr (demo_sweep_ready, o3))"
proof -
  let ?g = "(cfg demo_sweep_start)\<lparr>core_ids := 20 # replicate 31 0, core_num := 1\<rparr>"
  have clean: "CleanRepDir 2 (demo_sweep_start\<lparr>cfg := ?g\<rparr>, o1) = Some (Inr (demo_sweep_start\<lparr>cfg := ?g\<rparr>, o1))"
    by (simp add: CleanRepDir_def demo_sweep_start_def initial_globals_def comps_def demo_big_fs_def demo_main_fs_def demo_rep_fs_def numeral_2_eq_2)
  have fls: "fls32 1048576 = Inr 20" "fls32 65536 = Inr 16" using fls32_exp [of 20] fls32_exp [of 16] by simp_all
  have init: "InitGlobalCfg (e_pmem2 demo_env) demo_sweep_flags 7 True ?g = Inr (cfg demo_sweep_ready)"
    by (simp add: InitGlobalCfg_def load_flags_def map_device_def derive_sizes_def demo_cfg_def demo_sweep_flags_def demo_flags_def demo_env_def
      initial_globals_def demo_sweep_start_def demo_sweep_ready_def demo_sweep_def demo_world_def demo_device_def Pmem2Map_def
      Pmem2MapFromFd_def OpenSimple_def sys_open_def comps_def demo_big_fs_def demo_main_fs_def demo_rep_fs_def new_fd_def Close_def
      sys_close_def fls32_demo fls push_bit_1 Str2RwType_def str_2_rw_type_def Str2AccessMode_def str_2_access_mode_def Let_def)
  have "CheckGlobalCfg demo_numa (cfg demo_sweep) = Inr (cfg demo_sweep)" using demo_sweep_runnable by (simp add: runnable_def)
  then have check: "CheckGlobalCfg (e_numa demo_env) (cfg demo_sweep_ready) = Inr (cfg demo_sweep_ready)"
    using CheckGlobalCfg_pm by (simp add: demo_sweep_ready_def demo_env_def)
  have env: "SetEnv demo_env (demo_sweep_start\<lparr>cfg := cfg demo_sweep_ready\<rparr>) = Inr demo_sweep_ready"
    by (simp add: SetEnv_def InitRepDir_def demo_sweep_ready_def demo_sweep_def demo_sweep_start_def demo_world_def demo_cfg_def
      initial_globals_def demo_env_def demo_numa_def FileExists_def demo_big_fs_def demo_main_fs_def demo_rep_fs_def comps_def
      rep_internal_dir_def rep_report_dir_def Let_def)
  have "length (core_ids (cfg demo_sweep_ready)) = 32" "unat (thread_num (cfg demo_sweep_ready)) = 1"
    by (simp_all add: demo_sweep_ready_def demo_sweep_def demo_world_def demo_cfg_def initial_globals_def)
  then show ?thesis
    using init check env by (simp add: main_setup_def clean on_cfg_def on_world_def print_cfg_def)
qed

lemma demo_report_slot:
  assumes "rep_dir_path g = ''/r''" and "CHR ''/'' \<notin> set time"
  shows "\<exists>name. comps (report_path g time) = [''r'', ''report'', name]"
proof -
  let ?name = "rep_file_prefix @ ''-'' @ (time @ ''-'' @ (Size2HumanStr (buffer_size g) @ ''-'' @ RwType2Str (rw_type g) @ ''-'' @
    AccessMode2Str (access_mode g) @ ''-'' @ Size2HumanStr (ucast (access_size g)))) @ ''-'' @ rep_report_suffix"
  have "CHR ''/'' \<notin> set (Size2HumanStr x)" for x by (simp add: Size2HumanStr_def to_string_plain)
  moreover have "CHR ''/'' \<notin> set (RwType2Str x)" "CHR ''/'' \<notin> set (AccessMode2Str y)" for x y
    by (cases x; cases y; simp add: RwType2Str_def rw_type_2_str_def AccessMode2Str_def access_mode_2_str_def)+
  ultimately have "good_name ?name"
    using assms(2) by (simp add: good_name_def rep_file_prefix_def rep_report_suffix_def)
  from comps_child [OF this, of "''/r/report''"] show ?thesis
    by (simp add: report_path_def assms(1) rep_report_dir_def comps_def Let_def)
qed

theorem main_sweeps_witness:
  "\<exists>ls' z o5. main demo_env demo_sweep_flags (\<lambda>_. 7) demo_tm 0 2 demo_stack (\<lambda>_. 0) demo_log
      (demo_sweep_start, \<lparr>printed = [], buffered = []\<rparr>) = Some (Inr (ls', z, o5)) \<and> 52 \<le> lines_of o5 \<and> aep_map (cfg z) = None"
proof -
  obtain o3 where s: "main_setup demo_env demo_sweep_flags 7 2
      (demo_sweep_start\<lparr>cfg := (cfg demo_sweep_start)\<lparr>core_ids := 20 # replicate 31 0, core_num := 1\<rparr>\<rparr>, \<lparr>printed = [], buffered = []\<rparr>) =
      Some (Inr (demo_sweep_ready, o3))" using demo_sweep_setup by blast
  have at: "at_size demo_sweep_ready i = (at_size demo_sweep i)\<lparr>cfg := (cfg (at_size demo_sweep i))\<lparr>g_pm := g_pm (cfg demo_sweep_ready)\<rparr>\<rparr>" for i
    by (simp add: demo_sweep_ready_def at_size_pm)
  have "storage demo_env (GetLocalTime demo_tm) (at_size demo_sweep_ready i)" if "i < 13" for i
    unfolding at demo_sweep_at using that demo_time_plain demo_slots(1)
    by (intro demo_storage)
      (simp_all add: demo_sweep_ready_def demo_sweep_def demo_world_def demo_cfg_def demo_big_fs_def initial_globals_def gen_iters_def)
  moreover have "platform demo_env demo_stack (at_size demo_sweep_ready i)" if "i < 13" for i
    unfolding at platform_pm by (rule demo_sweep_platform [OF that])
  ultimately have env: "\<forall>i<13. platform demo_env demo_stack (at_size demo_sweep_ready i) \<and>
    storage demo_env (GetLocalTime demo_tm) (at_size demo_sweep_ready i)" by blast
  have "rep_dir_path (cfg demo_sweep_ready) = ''/r''"
    by (simp add: demo_sweep_ready_def demo_sweep_def demo_world_def demo_cfg_def)
  from demo_report_slot [OF this demo_time_plain] have slot:
    "file_slot (fs_root (pm_fs (g_pm (cfg demo_sweep_ready)))) (comps (report_path (cfg demo_sweep_ready) (GetLocalTime demo_tm)))"
    using demo_slots(2) by (auto simp: demo_sweep_ready_def demo_big_fs_def)
  have free: "unat (FLAGS_thread_num demo_sweep_flags) * 244000000 \<le> fs_free (pm_fs (g_pm (cfg demo_sweep_ready)))"
    by (simp add: demo_sweep_ready_def demo_big_fs_def demo_sweep_flags_def demo_flags_def)
  have fl: "\<not> FLAGS_clean_rep_dir demo_sweep_flags" "FLAGS_vary_access_size demo_sweep_flags" "FLAGS_thread_num demo_sweep_flags = 2 ^ 0"
    "64 * 1024 \<le> FLAGS_buffer_size demo_sweep_flags" "FLAGS_buffer_size demo_sweep_flags \<le> AEP_SIZE"
    "unat (FLAGS_iters demo_sweep_flags) < 2 ^ 31" "e_numa demo_env = demo_numa" "\<not> is_init demo_log" "\<not> glog_started demo_log"
    by (simp_all add: demo_sweep_flags_def demo_flags_def AEP_SIZE_def demo_env_def demo_log_def)
  have num: "GetSubOpNum (e_pmdk demo_env) (Str2RwType (FLAGS_rw_type demo_sweep_flags)) = 4"
    by (simp add: GetSubOpNum_def AEP_CPY_FUNC_NUM_def aep_cpy_funcs_def demo_sweep_flags_def demo_flags_def Str2RwType_def str_2_rw_type_def)
  from main_sweeps [of demo_log demo_sweep_flags 0 demo_env demo_sweep_start _ "\<lambda>_. 7" 2 "\<lparr>printed = [], buffered = []\<rparr>" demo_sweep_ready o3
      demo_stack demo_tm, OF fl(8,9,1-6), unfolded fl(7), OF demo_sweep_parse s env free slot, of 0 "\<lambda>_. 0", unfolded num]
  show ?thesis by auto
qed

text \<open>The job that varies the number of threads, on the same machine.\<close>

definition demo_threads_flags :: flags where
  "demo_threads_flags = demo_flags\<lparr>FLAGS_vary_thread_num := True, FLAGS_access_mode := ''random''\<rparr>"

definition demo_threads_start :: world where
  "demo_threads_start = demo_world\<lparr>cfg := initial_globals \<lparr>pm_fs = demo_big_fs, live_cfgs = 0, live_srcs = 0, live_maps = 0\<rparr>\<rparr>"

definition demo_threads_ready :: world where
  "demo_threads_ready = demo_world\<lparr>cfg := demo_cfg\<lparr>access_mode := kRandom,
     g_pm := \<lparr>pm_fs = demo_big_fs, live_cfgs = 0, live_srcs = 0, live_maps = 1\<rparr>\<rparr>\<rparr>"

lemma demo_threads_setup:
  "\<exists>o3. main_setup demo_env demo_threads_flags 7 2
     (demo_threads_start\<lparr>cfg := (cfg demo_threads_start)\<lparr>core_ids := 20 # replicate 31 0, core_num := 1\<rparr>\<rparr>, o1) =
     Some (Inr (demo_threads_ready, o3))"
proof -
  let ?g = "(cfg demo_threads_start)\<lparr>core_ids := 20 # replicate 31 0, core_num := 1\<rparr>"
  have clean: "CleanRepDir 2 (demo_threads_start\<lparr>cfg := ?g\<rparr>, o1) = Some (Inr (demo_threads_start\<lparr>cfg := ?g\<rparr>, o1))"
    by (simp add: CleanRepDir_def demo_threads_start_def initial_globals_def comps_def demo_big_fs_def demo_main_fs_def demo_rep_fs_def numeral_2_eq_2)
  have init: "InitGlobalCfg (e_pmem2 demo_env) demo_threads_flags 7 True ?g = Inr (cfg demo_threads_ready)"
    by (simp add: InitGlobalCfg_def load_flags_def map_device_def derive_sizes_def demo_cfg_def demo_threads_flags_def demo_flags_def demo_env_def
      initial_globals_def demo_threads_start_def demo_threads_ready_def demo_world_def demo_device_def Pmem2Map_def
      Pmem2MapFromFd_def OpenSimple_def sys_open_def comps_def demo_big_fs_def demo_main_fs_def demo_rep_fs_def new_fd_def Close_def
      sys_close_def fls32_demo push_bit_1 Str2RwType_def str_2_rw_type_def Str2AccessMode_def str_2_access_mode_def Let_def)
  have check: "CheckGlobalCfg (e_numa demo_env) (cfg demo_threads_ready) = Inr (cfg demo_threads_ready)"
    by (simp add: CheckGlobalCfg_Inr check_numa_def demo_threads_ready_def demo_world_def demo_cfg_def demo_env_def demo_numa_def
      initial_globals_def AEP_SIZE_def MAX_THREAD_NUM_def assert_pow2_def fls32_demo push_bit_1)
  have env: "SetEnv demo_env (demo_threads_start\<lparr>cfg := cfg demo_threads_ready\<rparr>) = Inr demo_threads_ready"
    by (simp add: SetEnv_def InitRepDir_def demo_threads_ready_def demo_threads_start_def demo_world_def demo_cfg_def
      initial_globals_def demo_env_def demo_numa_def FileExists_def demo_big_fs_def demo_main_fs_def demo_rep_fs_def comps_def
      rep_internal_dir_def rep_report_dir_def Let_def)
  have "length (core_ids (cfg demo_threads_ready)) = 32" "unat (thread_num (cfg demo_threads_ready)) = 1"
    by (simp_all add: demo_threads_ready_def demo_world_def demo_cfg_def initial_globals_def)
  then show ?thesis
    using init check env by (simp add: main_setup_def clean on_cfg_def on_world_def print_cfg_def)
qed

lemma demo_threads_parse:
  "ParseAndValidateFlags demo_numa demo_threads_flags (cfg demo_threads_start) =
     Inr ((cfg demo_threads_start)\<lparr>core_ids := 20 # replicate 31 0, core_num := 1\<rparr>)"
proof -
  have "cfg demo_threads_start = cfg demo_sweep_start" by (simp add: demo_threads_start_def demo_sweep_start_def)
  moreover have "ParseAndValidateFlags demo_numa demo_threads_flags g = ParseAndValidateFlags demo_numa demo_sweep_flags g" for g
    by (simp add: ParseAndValidateFlags_def demo_threads_flags_def demo_sweep_flags_def demo_flags_def ValidateAccessMode_def
      str_2_access_mode_def split: sum.split)
  ultimately show ?thesis using demo_sweep_parse by simp
qed

lemma demo_threads_env:
  assumes "i < 6"
  shows "platform demo_env demo_stack (at_threads demo_threads_ready i) \<and>
    storage demo_env (GetLocalTime demo_tm) (at_threads demo_threads_ready i)"
proof -
  let ?v = "at_threads demo_threads_ready i"
  have n: "unat (2 ^ i :: u32) = 2 ^ i" "(2 :: nat) ^ i \<le> 2 ^ 5"
    using assms by (simp add: unat_exp_u32, intro power_increasing) auto
  have v: "thread_num (cfg ?v) = 2 ^ i" "aep_buf (cfg ?v) = 2 ^ 40" "access_size (cfg ?v) = 16" "w_mach ?v = demo_machine"
    "online (w_sched ?v) = [0..<80]" "core_ids (cfg ?v) = map of_nat ([20..<40] @ [60..<72])" "heap_pos ?v = 2 * (2 ^ i - 1)"
    "rep_dir_path (cfg ?v) = ''/r''" "length (thread_contexts ?v) = 32" "pm_fs (g_pm (cfg ?v)) = demo_big_fs"
    "iters (cfg ?v) = re_iters (2 ^ (35 - i)) 16"
    by (simp_all add: at_threads_def threads_at_def demo_threads_ready_def demo_world_def demo_cfg_def initial_globals_def all_cores_def MAX_THREAD_NUM_def
        del: upt_Suc)
  have pos: "heap_pos ?v + 2 * unat (thread_num (cfg ?v)) \<le> 127" using n by (simp add: v)
  have "\<forall>c \<in> set (core_ids (cfg ?v)). unat c < 80" unfolding v by (auto simp: unat_of_nat)
  moreover have "length (core_ids (cfg ?v)) = 32" by (simp add: v)
  ultimately have "\<forall>k < unat (thread_num (cfg ?v)). unat (core_ids (cfg ?v) ! k) < 80"
    using n by (simp add: v(1)) 
  then have "platform demo_env demo_stack ?v"
    using pos n by (intro demo_platform_at) (simp_all add: v)
  moreover have "2 ^ i * (4 * unat (re_iters (2 ^ (35 - i)) 16)) \<le> 2 ^ 5 * 10000000"
    using n(2) re_iters_nat [of "2 ^ (35 - i)" 16] by (intro mult_le_mono) simp_all
  then have "storage demo_env (GetLocalTime demo_tm) ?v"
    using pos n demo_slots(1) demo_time_plain by (intro demo_storage) (simp_all add: v demo_big_fs_def)
  ultimately show ?thesis by simp
qed

theorem main_varies_threads_witness:
  "\<exists>ls' z o5. main demo_env demo_threads_flags (\<lambda>_. 7) demo_tm 0 2 demo_stack (\<lambda>_. 0) demo_log
      (demo_threads_start, \<lparr>printed = [], buffered = []\<rparr>) = Some (Inr (ls', z, o5)) \<and> 24 \<le> lines_of o5 \<and> aep_map (cfg z) = None"
proof -
  obtain o3 where s: "main_setup demo_env demo_threads_flags 7 2
      (demo_threads_start\<lparr>cfg := (cfg demo_threads_start)\<lparr>core_ids := 20 # replicate 31 0, core_num := 1\<rparr>\<rparr>, \<lparr>printed = [], buffered = []\<rparr>) =
      Some (Inr (demo_threads_ready, o3))" using demo_threads_setup by blast
  have env: "\<forall>i<6. platform demo_env demo_stack (at_threads demo_threads_ready i) \<and>
    storage demo_env (GetLocalTime demo_tm) (at_threads demo_threads_ready i)" using demo_threads_env by blast
  have "rep_dir_path (cfg demo_threads_ready) = ''/r''"
    by (simp add: demo_threads_ready_def demo_cfg_def)
  from demo_report_slot [OF this demo_time_plain] have slot:
    "file_slot (fs_root (pm_fs (g_pm (cfg demo_threads_ready)))) (comps (report_path (cfg demo_threads_ready) (GetLocalTime demo_tm)))"
    using demo_slots(2) by (auto simp: demo_threads_ready_def demo_big_fs_def)
  have free: "630000000 \<le> fs_free (pm_fs (g_pm (cfg demo_threads_ready)))" by (simp add: demo_threads_ready_def demo_big_fs_def)
  have src: "sources_mapped demo_threads_ready"
    by (simp add: sources_mapped_def accessible_def demo_threads_ready_def demo_world_def demo_machine_def)
  have fl: "\<not> FLAGS_clean_rep_dir demo_threads_flags" "\<not> FLAGS_vary_access_size demo_threads_flags" "FLAGS_vary_thread_num demo_threads_flags"
    "FLAGS_buffer_size demo_threads_flags \<le> AEP_SIZE"
    "unat (FLAGS_iters demo_threads_flags) < 2 ^ 31" "e_numa demo_env = demo_numa" "\<not> is_init demo_log" "\<not> glog_started demo_log"
    by (simp_all add: demo_threads_flags_def demo_flags_def AEP_SIZE_def demo_env_def demo_log_def Str2AccessMode_def str_2_access_mode_def)
  have num: "GetSubOpNum (e_pmdk demo_env) (Str2RwType (FLAGS_rw_type demo_threads_flags)) = 4"
    by (simp add: GetSubOpNum_def AEP_CPY_FUNC_NUM_def aep_cpy_funcs_def demo_threads_flags_def demo_flags_def Str2RwType_def str_2_rw_type_def)
  from main_varies_threads [of demo_log demo_threads_flags demo_env demo_threads_start _ "\<lambda>_. 7" 2 "\<lparr>printed = [], buffered = []\<rparr>"
      demo_threads_ready o3 demo_stack demo_tm, OF fl(7,8,1-5), unfolded fl(6), OF demo_threads_parse s env src free slot, of 0 "\<lambda>_. 0",
      unfolded num]
  show ?thesis by auto
qed

end
