(* ===== verification/Aep_Test.thy ===== *)
theory Aep_Test
  imports Device_Op Log
begin

text \<open>
  util/aep_test.cc: the unit tests of the copy routines. The addresses of the two arrays are
  parameters, as the linker places them. Of the test library the model uses that it runs the
  tests in the order of the file and that main returns 0 if and only if no expectation failed.
\<close>

section \<open>The tests\<close>

definition BUF_LEN :: nat where
  "BUF_LEN = 64 * 32"

text \<open>The constructor: a pattern of letters in one array, zeros in the other.\<close>

definition init_arrays :: "u64 \<Rightarrow> u64 \<Rightarrow> prog" where
  "init_arrays src dest =
     run_all (map (\<lambda>i. store_bytes (src + of_nat i) [of_nat (i mod 26 + 97)]) [0..<BUF_LEN] @ [memset dest 0 (of_nat BUF_LEN)])"

definition memcmp :: "u64 \<Rightarrow> u64 \<Rightarrow> nat \<Rightarrow> machine \<Rightarrow> fault + int" where
  "memcmp a b n m =
     (if \<not> accessible m a n then Inl (PageFault a)
      else if \<not> accessible m b n then Inl (PageFault b)
      else (case filter (\<lambda>i. mem m (a + of_nat i) \<noteq> mem m (b + of_nat i)) [0..<n] of
              [] \<Rightarrow> Inr 0
            | i # is' \<Rightarrow> Inr (if mem m (a + of_nat i) < mem m (b + of_nat i) then - 1 else 1)))"

text \<open>One round of a test on the state and the number of failed expectations: copy, compare, clear.\<close>

definition check_copy :: "(u64 \<Rightarrow> u64 \<Rightarrow> u64 \<Rightarrow> prog) \<Rightarrow> u64 \<Rightarrow> u64 \<Rightarrow> u64 \<Rightarrow> machine \<times> nat \<Rightarrow> fault + machine \<times> nat" where
  "check_copy f src dest len s =
     (let (m, fails) = s in
      case f (dest + 1) (src + 1) len m of
        Inl e \<Rightarrow> Inl e
      | Inr m1 \<Rightarrow>
          (case memcmp (dest + 1) (src + 1) (unat len) m1 of
             Inl e \<Rightarrow> Inl e
           | Inr r \<Rightarrow>
               (case memset (dest + 1) 0 len m1 of
                  Inl e \<Rightarrow> Inl e
                | Inr m2 \<Rightarrow> Inr (m2, if r = 0 then fails else Suc fails))))"

text \<open>\<open>for (int len = 1; len <= 32*32; len += len)\<close>, and the length after the loop.\<close>

definition test_lens :: "u64 list" where
  "test_lens = map (\<lambda>k. 2 ^ k) [0..<11] @ [63 + 32 * 32 + 63]"

definition cpy_test :: "(u64 \<Rightarrow> u64 \<Rightarrow> u64 \<Rightarrow> prog) \<Rightarrow> u64 \<Rightarrow> u64 \<Rightarrow> machine \<times> nat \<Rightarrow> fault + machine \<times> nat" where
  "cpy_test f src dest = run_all (map (check_copy f src dest) test_lens)"

definition just_test :: "u64 \<Rightarrow> u64 \<Rightarrow> machine \<times> nat \<Rightarrow> fault + machine \<times> nat" where
  "just_test src dest s =
     (case run_all (map (just_load (src + 1)) test_lens @ map (just_ntload (src + 1)) test_lens @
                    map (just_store_noflush (dest + 1)) test_lens @ map (just_store_flush (dest + 1)) test_lens @
                    map (just_ntstore (dest + 1)) test_lens) (fst s) of
        Inl e \<Rightarrow> Inl e
      | Inr m \<Rightarrow> Inr (m, snd s))"

definition all_tests :: "(u64 \<Rightarrow> u64 \<Rightarrow> machine \<times> nat \<Rightarrow> fault + machine \<times> nat) list" where
  "all_tests = [cpy_test cpy_native_noflush, cpy_test cpy_native_flush, cpy_test cpy_load_store_noflush,
     cpy_test cpy_load_store_flush, cpy_test cpy_load_ntstore, cpy_test cpy_ntload_store_noflush,
     cpy_test cpy_ntload_store_flush, cpy_test cpy_ntload_ntstore, just_test]"

text \<open>The process: the constructor, the logging setup, all tests, the exit code.\<close>

definition aep_test_main :: "log_state \<Rightarrow> u64 \<Rightarrow> u64 \<Rightarrow> machine \<Rightarrow> fault + int \<times> machine" where
  "aep_test_main ls src dest m =
     (case init_arrays src dest m of
        Inl e \<Rightarrow> Inl e
      | Inr m1 \<Rightarrow>
          (case InitLog \<lparr>is_log_to_stderr = True, vlog_level = 3, min_log_level = 0\<rparr> ls of
             Inl e \<Rightarrow> Inl AssertFail
           | Inr ls' \<Rightarrow>
               (case run_all (map (\<lambda>t. t src dest) all_tests) (m1, 0) of
                  Inl e \<Rightarrow> Inl e
                | Inr (m2, fails) \<Rightarrow> Inr (if fails = 0 then 0 else 1, m2))))"

section \<open>Arrays the tests can run on\<close>

definition fixture :: "u64 \<Rightarrow> u64 \<Rightarrow> machine \<Rightarrow> bool" where
  "fixture src dest m \<longleftrightarrow> accessible m src BUF_LEN \<and> accessible m dest BUF_LEN \<and> apart BUF_LEN dest src \<and>
     unat src mod 32 = unat dest mod 32 \<and> unat dest + BUF_LEN + 64 \<le> 2 ^ 64"

lemma fixture_env: "same_env m m' \<Longrightarrow> fixture src dest m' = fixture src dest m"
  by (simp add: fixture_def accessible_env)

lemma test_lens_le: "len \<in> set test_lens \<Longrightarrow> unat len \<le> 1150"
  by (auto simp: test_lens_def upt_rec)

lemma fixture_access:
  assumes "fixture src dest m" and "unat n \<le> 1150"
  shows "accessible m (src + 1) (unat n)" and "accessible m (dest + 1) (unat n)" and "mapped m (page_of (dest + 1))"
    and "mapped m (page_of (dest + 1 + n))"
proof -
  have sub: "accessible m (a + 1) 1151" if "accessible m a BUF_LEN" for a
    using accessible_add [of m a 1 2047] that accessible_mono [of m "a + 1" 2047 1151] by (simp add: BUF_LEN_def)
  from assms(1) have s: "accessible m (src + 1) 1151" and d: "accessible m (dest + 1) 1151" by (auto simp: fixture_def intro: sub)
  with assms(2) show "accessible m (src + 1) (unat n)" "accessible m (dest + 1) (unat n)" by (auto intro: accessible_mono)
  show "mapped m (page_of (dest + 1))" using accessible_page [OF d] by simp
  have "mapped m (page_of (dest + 1 + of_nat (unat n)))" using d assms(2) unfolding accessible_def by (elim allE [of _ "unat n"]) simp
  then show "mapped m (page_of (dest + 1 + n))" by simp
qed

lemma fixture_args:
  assumes "fixture src dest m" and "unat n \<le> 1150"
  shows "copy_args al m (dest + 1) (src + 1) n"
proof -
  from assms(1) have d: "unat (dest + 1) = unat dest + 1" by (simp add: fixture_def BUF_LEN_def unat_word_ariths)
  have "(unat src + 1) mod 32 = (unat dest + 1) mod 32"
    by (rule mod_add_cong [OF _ refl]) (use assms(1) in \<open>simp add: fixture_def\<close>)
  then have "unat (src + 1) mod 32 = unat (dest + 1) mod 32"
    using unat_add_mod [of 32 src 1] unat_add_mod [of 32 dest 1] by simp
  moreover have "apart (unat n) (dest + 1) (src + 1)"
    using assms by (auto simp: fixture_def apart_shift BUF_LEN_def intro: apart_mono)
  ultimately show ?thesis
    using fixture_access [OF assms] assms d by (simp add: copy_args_def can_copy_def fixture_def BUF_LEN_def)
qed

text \<open>The bytes outside the destination array.\<close>

definition keeps :: "u64 \<Rightarrow> machine \<Rightarrow> machine \<Rightarrow> bool" where
  "keeps dest m m' \<longleftrightarrow> same_env m m' \<and> (\<forall>a. \<not> in_range dest BUF_LEN a \<longrightarrow> mem m' a = mem m a)"

lemma keeps_refl: "keeps dest m m"
  by (simp add: keeps_def)

lemma keeps_trans: "keeps dest m m' \<Longrightarrow> keeps dest m' m'' \<Longrightarrow> keeps dest m m''"
  by (auto simp: keeps_def intro: same_env_trans)

lemma keeps_moved:
  assumes "moved x st (dest + 1) s (unat n) m m'" and "unat n \<le> 1150"
  shows "keeps dest m m'"
proof -
  have "in_range dest BUF_LEN a" if "in_range (dest + 1) (unat n) a" for a
    using in_range_add [of 1 2047 dest a] in_range_mono [OF that, of 2047] assms(2) by (simp add: BUF_LEN_def)
  with assms(1) show ?thesis by (auto simp: keeps_def moved_def)
qed

text \<open>A loop of rounds that keep the rest of memory.\<close>

lemma run_all_keeps:
  assumes "fixture src dest m" and "\<And>c u. c \<in> set cs \<Longrightarrow> fixture src dest u \<Longrightarrow> \<exists>v. c u = Inr v \<and> keeps dest u v"
  shows "\<exists>v. run_all cs m = Inr v \<and> keeps dest m v"
  using assms
proof (induction cs arbitrary: m)
  case Nil
  then show ?case by (simp add: keeps_refl)
next
  case (Cons c cs)
  from Cons.prems obtain u where u: "c m = Inr u" "keeps dest m u" by (meson list.set_intros(1))
  with Cons.prems(1) fixture_env have "fixture src dest u" by (auto simp: keeps_def)
  from Cons.IH [OF this] Cons.prems(2) obtain v where "run_all cs u = Inr v" "keeps dest u v" by auto
  with u keeps_trans show ?case by auto
qed

section \<open>What a test needs of the routine it tests\<close>

locale copy_under_test =
  fixes f :: "u64 \<Rightarrow> u64 \<Rightarrow> u64 \<Rightarrow> prog" and al :: bool and st :: pstat
  assumes copies: "copy_args al m d s n \<Longrightarrow> \<exists>m1. f d s n m = Inr m1 \<and> moved Copy st d s (unat n) m m1"
begin

lemma check_passes:
  assumes fx: "fixture src dest m" and len: "unat len \<le> 1150"
  shows "\<exists>m'. check_copy f src dest len (m, k) = Inr (m', k) \<and> keeps dest m m'"
proof -
  note arg = fixture_args [OF fx len, of al] and acc = fixture_access [OF fx len]
  from copies [OF arg] obtain m1 where m1: "f (dest + 1) (src + 1) len m = Inr m1"
    and mv: "moved Copy st (dest + 1) (src + 1) (unat len) m m1" by blast
  from moved_env [OF mv] acc have acc1: "accessible m1 (src + 1) (unat len)" "accessible m1 (dest + 1) (unat len)"
    by (simp_all add: accessible_env)
  have ap: "apart (unat len) (dest + 1) (src + 1)" using arg by (simp add: copy_args_def can_copy_def)
  have eq: "mem m1 (dest + 1 + of_nat i) = mem m1 (src + 1 + of_nat i)" if "i < unat len" for i
  proof -
    have r: "in_range d (unat len) (d + of_nat i)" for d :: u64 using that len by (intro in_range_offset) simp_all
    have "\<not> in_range (dest + 1) (unat len) (src + 1 + of_nat i)" using apart_disjoint [OF ap _ r] by blast
    with r [of "dest + 1"] show ?thesis by (simp add: moved_Copy_mem [OF mv])
  qed
  then have "filter (\<lambda>i. mem m1 (dest + 1 + of_nat i) \<noteq> mem m1 (src + 1 + of_nat i)) [0..<unat len] = []"
    by (simp add: filter_empty_conv)
  with acc1 have "memcmp (dest + 1) (src + 1) (unat len) m1 = Inr 0" by (simp add: memcmp_def)
  moreover from memset_moved [OF acc1(2), where c = 0] obtain m2 where m2: "memset (dest + 1) 0 len m1 = Inr m2"
    "moved (FillWith (ucast (0 :: u32))) Dirty (dest + 1) (dest + 1) (unat len) m1 m2" by blast
  from m2(2) have "keeps dest m1 m2" using keeps_moved len by blast
  moreover note m2(1)
  ultimately show ?thesis using m1 keeps_trans [OF keeps_moved [OF mv len]] by (auto simp: check_copy_def)
qed

lemma test_passes:
  assumes "fixture src dest m"
  shows "\<exists>m'. cpy_test f src dest (m, k) = Inr (m', k) \<and> keeps dest m m'"
proof -
  have "\<exists>m'. run_all (map (check_copy f src dest) ls) (m, k) = Inr (m', k) \<and> keeps dest m m'"
    if "\<forall>len \<in> set ls. unat len \<le> 1150" for ls
    using assms that
  proof (induction ls arbitrary: m)
    case Nil
    then show ?case by (simp add: keeps_refl)
  next
    case (Cons len ls)
    have "unat len \<le> 1150" using Cons.prems(2) by simp
    from check_passes [OF Cons.prems(1) this, of k] obtain u where
      u: "check_copy f src dest len (m, k) = Inr (u, k)" "keeps dest m u" by blast
    with Cons.prems(1) fixture_env have "fixture src dest u" by (auto simp: keeps_def)
    from Cons.IH [OF this] Cons.prems(2) u keeps_trans show ?case by fastforce
  qed
  then show ?thesis using test_lens_le by (auto simp: cpy_test_def)
qed

end

interpretation t_native_noflush: copy_under_test cpy_native_noflush False Dirty
  by unfold_locales (erule routines_move)

interpretation t_native_flush: copy_under_test cpy_native_flush False Pending
  by unfold_locales (erule routines_move)

interpretation t_load_store_noflush: copy_under_test cpy_load_store_noflush True Dirty
  by unfold_locales (erule routines_move)

interpretation t_load_store_flush: copy_under_test cpy_load_store_flush True Pending
  by unfold_locales (erule routines_move)

interpretation t_load_ntstore: copy_under_test cpy_load_ntstore True Pending
  by unfold_locales (erule routines_move)

interpretation t_ntload_store_noflush: copy_under_test cpy_ntload_store_noflush True Dirty
  by unfold_locales (erule routines_move)

interpretation t_ntload_store_flush: copy_under_test cpy_ntload_store_flush True Pending
  by unfold_locales (erule routines_move)

interpretation t_ntload_ntstore: copy_under_test cpy_ntload_ntstore True Pending
  by unfold_locales (erule routines_move)

section \<open>The whole suite\<close>

lemma just_stores_run:
  assumes "fixture src dest m" and "unat len \<le> 1150"
  shows "\<exists>m'. just_store_noflush (dest + 1) len m = Inr m' \<and> keeps dest m m'"
    and "\<exists>m'. just_store_flush (dest + 1) len m = Inr m' \<and> keeps dest m m'"
    and "\<exists>m'. just_ntstore (dest + 1) len m = Inr m' \<and> keeps dest m m'"
proof -
  note acc = fixture_access [OF assms]
  have rdy: "ready Scribble (enter (dest + 1) (dest + 1) len m)"
    by (rule ready_access) (use acc(2) in \<open>simp_all add: can_access_def\<close>)
  show "\<exists>m'. just_store_noflush (dest + 1) len m = Inr m' \<and> keeps dest m m'"
    using r_just_store_noflush.plain_cascade [OF rdy] keeps_moved [OF _ assms(2)]
    by (fastforce simp: just_store_noflush_def simp del: run_all.simps)
  show "\<exists>m'. just_store_flush (dest + 1) len m = Inr m' \<and> keeps dest m m'"
    using r_just_store_flush.flush_cascade [OF rdy acc(3)] keeps_moved [OF _ assms(2)]
    by (fastforce simp: just_store_flush_def simp del: run_all.simps)
  show "\<exists>m'. just_ntstore (dest + 1) len m = Inr m' \<and> keeps dest m m'"
    using r_just_ntstore.nt_cascade [OF rdy acc(3,4)] keeps_moved [OF _ assms(2)]
    by (fastforce simp: just_ntstore_def simp del: run_all.simps)
qed

lemma just_test_passes:
  assumes "fixture src dest m"
  shows "\<exists>m'. just_test src dest (m, k) = Inr (m', k) \<and> keeps dest m m'"
proof -
  have "\<exists>v. run_all (map (just_load (src + 1)) test_lens @ map (just_ntload (src + 1)) test_lens @
      map (just_store_noflush (dest + 1)) test_lens @ map (just_store_flush (dest + 1)) test_lens @
      map (just_ntstore (dest + 1)) test_lens) m = Inr v \<and> keeps dest m v"
  proof (rule run_all_keeps [OF assms])
    fix c u assume c: "c \<in> set (map (just_load (src + 1)) test_lens @ map (just_ntload (src + 1)) test_lens @
      map (just_store_noflush (dest + 1)) test_lens @ map (just_store_flush (dest + 1)) test_lens @
      map (just_ntstore (dest + 1)) test_lens)" and fx: "fixture src dest u"
    from c obtain len where len: "unat len \<le> 1150" and
      "c \<in> {just_load (src + 1) len, just_ntload (src + 1) len, just_store_noflush (dest + 1) len,
        just_store_flush (dest + 1) len, just_ntstore (dest + 1) len}" using test_lens_le by fastforce
    then show "\<exists>v. c u = Inr v \<and> keeps dest u v"
      using just_loads_run [OF fixture_access(1) [OF fx len]] just_stores_run [OF fx len] by (auto simp: keeps_def)
  qed
  then show ?thesis by (auto simp: just_test_def)
qed

lemma all_tests_pass:
  assumes "t \<in> set all_tests" and "fixture src dest m"
  shows "\<exists>m'. t src dest (m, k) = Inr (m', k) \<and> keeps dest m m'"
  using assms(1) t_native_noflush.test_passes [OF assms(2)] t_native_flush.test_passes [OF assms(2)]
    t_load_store_noflush.test_passes [OF assms(2)] t_load_store_flush.test_passes [OF assms(2)]
    t_load_ntstore.test_passes [OF assms(2)] t_ntload_store_noflush.test_passes [OF assms(2)]
    t_ntload_store_flush.test_passes [OF assms(2)] t_ntload_ntstore.test_passes [OF assms(2)] just_test_passes [OF assms(2)]
  by (auto simp: all_tests_def)

lemma init_arrays_ok:
  assumes "accessible m src BUF_LEN" and "accessible m dest BUF_LEN"
  shows "\<exists>m'. init_arrays src dest m = Inr m' \<and> same_env m m' \<and>
    (\<forall>a. \<not> in_range src BUF_LEN a \<and> \<not> in_range dest BUF_LEN a \<longrightarrow> mem m' a = mem m a)"
proof -
  let ?f = "\<lambda>i. store_bytes (src + of_nat i) [of_nat (i mod 26 + 97)]"
  let ?P = "\<lambda>i u. same_env m u \<and> (\<forall>a. \<not> in_range src BUF_LEN a \<longrightarrow> mem u a = mem m a)"
  have "\<exists>u. run_all (map ?f [0..<BUF_LEN]) m = Inr u \<and> ?P BUF_LEN u"
  proof (rule run_all_upt_total [where P = ?P])
    show "?P 0 m" by simp
    fix i u assume i: "i < BUF_LEN" and P: "?P i u"
    have "accessible m (src + of_nat i) 1"
      using assms(1) i accessible_sub [of m src BUF_LEN i 1] by simp
    moreover have env: "same_env m u" using P by simp
    ultimately have acc: "accessible u (src + of_nat i) (length [of_nat (i mod 26 + 97) :: u8])" by (simp add: accessible_env)
    have "in_range src BUF_LEN a" if "in_range (src + of_nat i) 1 a" for a
      using in_range_sub [of i 1 BUF_LEN src a] that i by (simp add: BUF_LEN_def)
    moreover obtain v where "?f i u = Inr v" "same_env u v"
      "\<And>b. \<not> in_range (src + of_nat i) 1 b \<Longrightarrow> mem v b = mem u b"
      using store_bytes_ok [OF acc] by (metis One_nat_def list.size(3,4) plus_nat.add_0 add.commute)
    ultimately have "\<forall>a. \<not> in_range src BUF_LEN a \<longrightarrow> mem v a = mem m a" and "?f i u = Inr v" and "same_env m v"
      using P by (metis, simp, blast intro: same_env_trans)
    then show "\<exists>v. ?f i u = Inr v \<and> ?P (Suc i) v" by blast
  qed
  then obtain u where u: "run_all (map ?f [0..<BUF_LEN]) m = Inr u" "?P BUF_LEN u" by blast
  have "accessible u dest (unat (of_nat BUF_LEN :: u64))" using u(2) assms(2) accessible_env [of m u] by (auto simp: BUF_LEN_def)
  from memset_moved [OF this, of 0] obtain v where v: "memset dest 0 (of_nat BUF_LEN) u = Inr v"
    "moved (FillWith (ucast (0 :: u32))) Dirty dest dest (unat (of_nat BUF_LEN :: u64)) u v" by blast
  have "unat (of_nat BUF_LEN :: u64) = BUF_LEN" by (simp add: BUF_LEN_def)
  with v(2) u(2) have "same_env m v" "\<forall>a. \<not> in_range src BUF_LEN a \<and> \<not> in_range dest BUF_LEN a \<longrightarrow> mem v a = mem m a"
    by (auto simp: moved_def intro: same_env_trans)
  with u(1) v(1) show ?thesis by (auto simp: init_arrays_def run_all_append)
qed

section \<open>Properties\<close>

text \<open>C33: The unit tests pass. When the two arrays are disjoint, lie alike modulo 32 and do not reach the
  end of the address space, the test program ends with exit code 0: no routine faults at any of
  its lengths, every comparison finds the copy equal, and only the two arrays change.\<close>

theorem aep_tests_pass:
  assumes "fixture src dest m" and "\<not> is_init ls" and "\<not> glog_started ls"
  shows "\<exists>m'. aep_test_main ls src dest m = Inr (0, m') \<and>
    (\<forall>a. \<not> in_range src BUF_LEN a \<and> \<not> in_range dest BUF_LEN a \<longrightarrow> mem m' a = mem m a)"
proof -
  obtain ls' where ls: "InitLog \<lparr>is_log_to_stderr = True, vlog_level = 3, min_log_level = 0\<rparr> ls = Inr ls'"
    using InitLog_fresh [OF assms(2,3)] by blast
  from init_arrays_ok [of m src dest] assms(1) obtain m1 where m1: "init_arrays src dest m = Inr m1" "same_env m m1"
    "\<forall>a. \<not> in_range src BUF_LEN a \<and> \<not> in_range dest BUF_LEN a \<longrightarrow> mem m1 a = mem m a" by (auto simp: fixture_def)
  have "\<exists>m'. run_all (map (\<lambda>t. t src dest) ts) (u, 0) = Inr (m', 0) \<and> keeps dest u m'"
    if "set ts \<subseteq> set all_tests" and "fixture src dest u" for ts u
    using that
  proof (induction ts arbitrary: u)
    case Nil
    then show ?case by (simp add: keeps_refl)
  next
    case (Cons t ts)
    from all_tests_pass [of t src dest u 0] Cons.prems obtain v where v: "t src dest (u, 0) = Inr (v, 0)" "keeps dest u v" by auto
    with Cons.prems(2) fixture_env have "fixture src dest v" by (auto simp: keeps_def)
    from Cons.IH [OF _ this] Cons.prems(1) v keeps_trans show ?case by fastforce
  qed
  from this [of all_tests m1] assms(1) m1(2) obtain m2 where "run_all (map (\<lambda>t. t src dest) all_tests) (m1, 0) = Inr (m2, 0)" "keeps dest m1 m2"
    by (auto simp: fixture_env)
  with m1 ls show ?thesis by (auto simp: aep_test_main_def keeps_def)
qed

theorem aep_tests_pass_witness:
  "\<exists>m'. aep_test_main demo_log 8192 16384 demo_machine = Inr (0, m') \<and> mem m' 4096 = mem demo_machine 4096"
proof -
  have "fixture 8192 16384 demo_machine" by (simp add: fixture_def BUF_LEN_def apart_def)
  from aep_tests_pass [OF this, of demo_log] obtain m' where "aep_test_main demo_log 8192 16384 demo_machine = Inr (0, m')"
    and "\<forall>a. \<not> in_range 8192 BUF_LEN a \<and> \<not> in_range 16384 BUF_LEN a \<longrightarrow> mem m' a = mem demo_machine a"
    by (auto simp: demo_log_def)
  moreover have "\<not> in_range 8192 BUF_LEN 4096" "\<not> in_range 16384 BUF_LEN 4096" by (simp_all add: in_range_def BUF_LEN_def)
  ultimately show ?thesis by blast
qed

end
