(* ===== verification/Aep_Intr.thy ===== *)
theory Aep_Intr
  imports Device_Op Study_Report
begin

text \<open>
  bgtest/AEP/intr.cc: a program that maps a device, writes eight lines of text to it, each with
  another combination of stores and write-backs, and ends without unmapping, so that a look at the
  device afterwards shows which lines reached it. The addresses of its string literals and of its
  two buffers are parameters.
\<close>

section \<open>The program\<close>

definition devdax_path :: string where
  "devdax_path = ''/dev/dax1.0''"

definition nstore_64byte_label :: string where
  "nstore_64byte_label = ''0123456789012345678901234567890123456789012345678901234567890123456789'' @
     ''0123456789012345678901234567890123456789''"

definition my_load_store_buf :: string where
  "my_load_store_buf = ''my_load_store_buf_987654321098765432109876543210987654321098765432109876543210''"

definition mm_clflush_label :: string where
  "mm_clflush_label = ''_mm_clflush,_mm_clflush,_mm_clflush,_mm_clflush,_mm_clflush'' @
     '',_mm_clflush,_mm_clflush,_mm_clflush,_mm_clflush,_mm_clflush,_mm_clflush''"

definition mm_clflushopt_label :: string where
  "mm_clflushopt_label = ''_mm_clflushopt,_mm_clflushopt,_mm_clflushopt,_mm_clflushopt'' @
     '',_mm_clflushopt,_mm_clflushopt,_mm_clflushopt,_mm_clflushopt,_mm_clflushopt''"

definition mm_clwb_label :: string where
  "mm_clwb_label = ''_mm_clwb,_mm_clwb,_mm_clwb,_mm_clwb,_mm_clwb,_mm_clwb,_mm_clwb,_mm_clwb'' @
     '',_mm_clwb,_mm_clwb,_mm_clwb,_mm_clwb,_mm_clwb,_mm_clwb,_mm_clwb,_mm_clwb,_mm_clwb''"

record intr_data =
  at_label :: u64
  at_buf :: u64
  at_clflush :: u64
  at_clflushopt :: u64
  at_clwb :: u64

text \<open>What a conversion \<open>%s\<close> prints: the bytes up to the first zero. \<open>None\<close> is a search that does
  not end.\<close>

partial_function (option) c_str :: "u64 \<Rightarrow> machine \<Rightarrow> (fault + string) option" where
  "c_str a m =
     (if \<not> mapped m (page_of a) then Some (Inl (PageFault a))
      else if mem m a = 0 then Some (Inr [])
      else Option.bind (c_str (a + 1) m)
             (\<lambda>r. Some (case r of Inl e \<Rightarrow> Inl e | Inr s \<Rightarrow> Inr (char_of (unat (mem m a)) # s))))"

text \<open>\<open>memcpy(a, lit, 64); a[63] = '\n';\<close> and one of the three write-backs.\<close>

definition label_line :: "(u64 \<Rightarrow> prog) \<Rightarrow> u64 \<Rightarrow> u64 \<Rightarrow> prog" where
  "label_line flush a lit = run_all [memcpy a lit 64, store_bytes (a + 63) [10], flush a]"

definition intr_body :: "intr_data \<Rightarrow> u64 \<Rightarrow> prog" where
  "intr_body D addr = run_all [
     label_line clflush addr (at_clflush D),
     label_line clflushopt (addr+64) (at_clflushopt D),
     label_line clwb (addr+64+64) (at_clwb D),
     (\<lambda>m. Inr (barrier m)),
     store_bytes (at_label D + 63) [10],
     cpy_2x32b_ntload_ntstore (addr+64+64+64) (at_label D),
     cpy_2x32b_load_ntstore (addr+64+64+64+64) (at_label D),
     store_bytes (at_buf D + 63) [10],
     cpy_2x32b_load_store_flush (addr+64+64+64+64+64) (at_buf D),
     cpy_2x32b_load_ntstore (addr+64+64+64+64+64+64) (at_buf D),
     cpy_2x32b_load_store_noflush (addr+64+64+64+64+64+64+64) (at_buf D),
     (\<lambda>m. Inr (sfence m)),
     (\<lambda>m. Inr (lfence m)),
     (\<lambda>m. Inr (mfence m))]"

text \<open>How the process ends: exit with a status, death by a fault, or abort, which leaves the machine
  as it is.\<close>

datatype intr_end = Exited int io | Faulted fault io | Abort machine io

definition print_str :: "string \<Rightarrow> u64 \<Rightarrow> machine \<Rightarrow> io \<Rightarrow> (io \<Rightarrow> intr_end option) \<Rightarrow> intr_end option" where
  "print_str pre a m o1 k =
     (case c_str a m of
        None \<Rightarrow> None
      | Some (Inl e) \<Rightarrow> Some (Faulted e o1)
      | Some (Inr s) \<Rightarrow> k (fprintf Stdout (pre @ s) o1))"

definition intr_main :: "pmdk \<Rightarrow> pmem2 \<Rightarrow> intr_data \<Rightarrow> fsys \<Rightarrow> machine \<Rightarrow> io \<Rightarrow> intr_end option" where
  "intr_main P L D fs m o1 =
     (let (fd, fs1) = sys_open False devdax_path 0 fs in
      if fd < 0 then Some (Exited 1 o1)
      else if config_new_rc L \<noteq> 0 then Some (Exited 1 o1)
      else if source_from_fd_rc L fd \<noteq> 0 then Some (Exited 1 o1)
      else if set_granularity_rc L \<noteq> 0 then Some (Exited 1 o1)
      else if map_new_rc L fd \<noteq> 0 then Some (Exited 1 o1)
      else
        (let addr = fst (mapping L fd) in
         print_str ''init: \<newline>'' addr m o1 (\<lambda>o2.
           (case pmdk_memset P addr 0 2048 PMEM2_F_NONE m of
              Inl e \<Rightarrow> Some (Faulted e o2)
            | Inr m1 \<Rightarrow>
                print_str ''set before: \<newline>'' addr m1 o2 (\<lambda>o3.
                  (case intr_body D addr m1 of
                     Inl e \<Rightarrow> Some (Faulted e o3)
                   | Inr m2 \<Rightarrow>
                       print_str ''set after: \<newline>'' addr m2 o3 (\<lambda>o4. Some (Abort m2 o4))))))))"

section \<open>Strings in memory\<close>

definition bytes_of :: "string \<Rightarrow> u8 list" where
  "bytes_of s = map (\<lambda>c. of_nat (of_char c)) s"

definition has_bytes :: "machine \<Rightarrow> u64 \<Rightarrow> u8 list \<Rightarrow> bool" where
  "has_bytes m a bs \<longleftrightarrow> accessible m a (length bs) \<and> (\<forall>i<length bs. mem m (a + of_nat i) = bs ! i)"

lemma bytes_of_simps [simp]:
  "bytes_of [] = []" "bytes_of (c # s) = of_nat (of_char c) # bytes_of s" "bytes_of (s @ t) = bytes_of s @ bytes_of t"
  "length (bytes_of s) = length s" "bytes_of (take n s) = take n (bytes_of s)"
  by (simp_all add: bytes_of_def take_map)

lemma has_bytes_Cons:
  "has_bytes m a (b # bs) \<longleftrightarrow> mapped m (page_of a) \<and> mem m a = b \<and> has_bytes m (a + 1) bs"
  using accessible_add [of m a 1 "length bs"]
  by (auto simp: has_bytes_def All_less_Suc2 accessible_def add.assoc)

lemma char_byte: "char_of (unat (of_nat (of_char c) :: u8)) = c"
  using char_of_take_bit_eq [of 8 "of_char c :: nat"] by (simp add: unsigned_of_nat)

lemma byte_zero: "(of_nat (of_char c) :: u8) = 0 \<longleftrightarrow> c = CHR 0x00"
proof
  assume "(of_nat (of_char c) :: u8) = 0"
  then have "c = char_of (0 :: nat)" using char_byte [of c] by simp
  then show "c = CHR 0x00" by (simp add: char_of_def)
qed simp

lemma c_str_reads:
  assumes "has_bytes m a (bytes_of s @ [0])" and "CHR 0x00 \<notin> set s"
  shows "c_str a m = Some (Inr s)"
  using assms
proof (induction s arbitrary: a)
  case Nil
  then show ?case by (subst c_str.simps) (simp add: has_bytes_Cons)
next
  case (Cons c s)
  then have "c_str (a + 1) m = Some (Inr s)" by (simp add: has_bytes_Cons)
  with Cons.prems show ?case by (subst c_str.simps) (auto simp: has_bytes_Cons byte_zero char_byte)
qed

section \<open>Lines\<close>

text \<open>\<open>wrote_line a bs st m m'\<close>: the line at \<open>a\<close> was filled with \<open>bs\<close> and has the status \<open>st\<close>; nothing
  else changed but that dirty bytes may have been written back.\<close>

definition wrote_line :: "u64 \<Rightarrow> u8 list \<Rightarrow> pstat \<Rightarrow> machine \<Rightarrow> machine \<Rightarrow> bool" where
  "wrote_line a bs st m m' \<longleftrightarrow> same_env m m' \<and>
     (\<forall>b. mem m' b = (if in_range a 64 b then bs ! unat (b - a) else mem m b)) \<and>
     (\<forall>b. in_range a 64 b \<longrightarrow> pst m' b = st) \<and>
     (\<forall>b. \<not> in_range a 64 b \<and> pst m b \<noteq> Dirty \<longrightarrow> pst m' b = pst m b)"

lemma wrote_line_moved:
  assumes mv: "moved Copy st a s 64 m m'" and s: "has_bytes m s bs" "length bs = 64"
  shows "wrote_line a bs st m m'"
proof -
  have "mem m (s + (b - a)) = bs ! unat (b - a)" if "in_range a 64 b" for b
    using s that by (auto simp: has_bytes_def in_range_def dest: spec [of _ "unat (b - a)"])
  with mv show ?thesis
    by (auto simp: wrote_line_def moved_def outside_def aged_def split: if_splits)
qed

lemma line_of_range: "aligned 64 a \<Longrightarrow> in_range a 64 b \<Longrightarrow> line_of b = line_of a"
  by (rule in_range_line [where n = 64]) (simp_all add: aligned_def)

lemma in_range_one: "in_range a 1 b \<longleftrightarrow> b = a"
  by (auto simp: in_range_def unat_eq_zero)

lemma store_byte:
  assumes "accessible m a 1"
  shows "store_bytes a [c] m = Inr (m\<lparr>mem := (mem m)(a := c), pst := (pst m)(a := Dirty)\<rparr>)"
  using assms in_range_one [of a] by (simp add: store_bytes_def fun_upd_def if_distrib cong: if_cong)

text \<open>A copied line whose last byte is then overwritten.\<close>

lemma in_line_last: "in_range a 64 b \<Longrightarrow> b = a + 63 \<or> unat (b - a) < 63"
proof -
  assume b: "in_range a 64 b"
  have "b - a = 63" if "unat (b - a) = 63" using arg_cong [OF that, of "of_nat :: nat \<Rightarrow> u64"] by simp
  then show ?thesis using b by (auto simp: in_range_def diff_eq_eq add.commute less_Suc_eq numeral_eq_Suc)
qed

lemma copied_line_mem:
  assumes mv: "moved Copy Dirty a s 64 m m1" and s: "has_bytes m s bs" "64 \<le> length bs"
  shows "((mem m1)(a + 63 := 10)) b = (if in_range a 64 b then (take 63 bs @ [10]) ! unat (b - a) else mem m b)"
proof (cases "in_range a 64 b")
  case True
  from in_line_last [OF this] show ?thesis
  proof
    assume "b = a + 63"
    then show ?thesis using s(2) by (simp add: in_range_def nth_append)
  next
    assume i: "unat (b - a) < 63"
    then have "mem m (s + (b - a)) = bs ! unat (b - a)"
      using s by (auto simp: has_bytes_def dest: spec [of _ "unat (b - a)"])
    with i True s(2) mv show ?thesis by (auto simp: moved_def nth_append)
  qed
next
  case False
  then have "b \<noteq> a + 63" by (auto simp: in_range_def)
  with False mv show ?thesis by (simp add: moved_def)
qed

lemma label_line_ok:
  assumes fl: "flush = clflush \<or> flush = clflushopt \<or> flush = clwb"
    and a: "aligned 64 a" "accessible m a 64" and ap: "apart 64 a s"
    and s: "has_bytes m s bs" "64 \<le> length bs"
  shows "\<exists>m'. label_line flush a s m = Inr m' \<and> wrote_line a (take 63 bs @ [10]) Pending m m'"
proof -
  have acc: "accessible m s 64" using s by (auto simp: has_bytes_def intro: accessible_mono)
  have fl: "flush = clwb" using fl by (auto simp: clflush_def clflushopt_def fun_eq_iff)
  obtain m1 where m1: "memcpy a s 64 m = Inr m1" and mv: "moved Copy Dirty a s 64 m m1"
    using memcpy_moved [of 64 a s m] ap a(2) acc by auto
  have acc1: "accessible m1 (a + 63) 1"
    using accessible_env [OF moved_env [OF mv]] accessible_sub [OF a(2), of 63 1] by simp
  obtain m2 where m2: "store_bytes (a + 63) [10] m1 = Inr m2" "same_env m1 m2"
    and mem2: "mem m2 = (mem m1)(a + 63 := 10)" and pst2: "pst m2 = (pst m1)(a + 63 := Dirty)"
    by (simp add: store_byte [OF acc1] same_env_def)
  have env: "same_env m m2" using moved_env [OF mv] m2(2) by (rule same_env_trans)
  then have "mapped m2 (page_of a)" using accessible_page [OF a(2)] by (simp add: same_env_def)
  then obtain m3 where m3: "clwb a m2 = Inr m3" "same_env m2 m3" "mem m3 = mem m2"
    and pst3: "pst m3 = (\<lambda>b. if line_of b = line_of a \<and> pst m2 b = Dirty then Pending else pst m2 b)"
    by (simp add: clwb_def same_env_def)
  have "pst m3 b = Pending" if "in_range a 64 b" for b
    using that mv line_of_range [OF a(1)] by (simp add: pst3 pst2 moved_def)
  moreover have "pst m3 b = pst m b" if "\<not> in_range a 64 b" "pst m b \<noteq> Dirty" for b
  proof -
    have "b \<noteq> a + 63" using that(1) by (auto simp: in_range_def)
    with that mv show ?thesis by (simp add: pst3 pst2 moved_def outside_def)
  qed
  ultimately have "wrote_line a (take 63 bs @ [10]) Pending m m3"
    using same_env_trans [OF env m3(2)] copied_line_mem [OF mv s] by (simp add: wrote_line_def m3(3) mem2)
  then show ?thesis using m1 m2(1) m3(1) fl by (auto simp: label_line_def)
qed

text \<open>The lines written so far, on top of what memory held before.\<close>

definition written :: "u64 \<Rightarrow> (u8 list \<times> pstat) list \<Rightarrow> machine \<Rightarrow> machine \<Rightarrow> bool" where
  "written addr ls m0 m \<longleftrightarrow> same_env m0 m \<and>
     (\<forall>i<length ls. \<forall>b. in_range (addr + of_nat (64 * i)) 64 b \<longrightarrow>
        mem m b = fst (ls ! i) ! unat (b - (addr + of_nat (64 * i))) \<and> pst m b = snd (ls ! i)) \<and>
     (\<forall>b. \<not> in_range addr (64 * length ls) b \<longrightarrow> mem m b = mem m0 b \<and> (pst m0 b = Durable \<longrightarrow> pst m b = Durable))"

lemma written_Nil [simp]: "written addr [] m m"
  by (simp add: written_def)

lemma lines_disjoint:
  assumes "i < n" and "64 * n + 64 \<le> 2 ^ 64" and "in_range (addr + of_nat (64 * i)) 64 b"
  shows "\<not> in_range (addr + of_nat (64 * n)) 64 b" and "in_range addr (64 * n) b"
proof -
  show r: "in_range addr (64 * n) b" by (rule in_range_sub [OF _ _ assms(3)]) (use assms(1,2) in simp_all)
  show "\<not> in_range (addr + of_nat (64 * n)) 64 b" using in_range_disjoint [OF assms(2)] r by blast
qed

lemma written_snoc:
  assumes w: "written addr ls m0 m" and nd: "\<forall>l \<in> set ls. snd l \<noteq> Dirty"
    and le: "64 * length ls + 64 \<le> 2 ^ 64"
    and ln: "wrote_line (addr + of_nat (64 * length ls)) bs st m m'"
  shows "written addr (ls @ [(bs, st)]) m0 m'"
  unfolding written_def
proof (intro conjI allI impI)
  show "same_env m0 m'" using w ln by (auto simp: written_def wrote_line_def intro: same_env_trans)
next
  fix i b assume i: "i < length (ls @ [(bs, st)])" and b: "in_range (addr + of_nat (64 * i)) 64 b"
  have "mem m' b = fst ((ls @ [(bs, st)]) ! i) ! unat (b - (addr + of_nat (64 * i))) \<and> pst m' b = snd ((ls @ [(bs, st)]) ! i)"
  proof (cases "i = length ls")
    case True
    with b ln show ?thesis by (simp add: wrote_line_def)
  next
    case False
    with i have i: "i < length ls" by simp
    with lines_disjoint(1) [OF i le b] ln w b nd show ?thesis by (auto simp: wrote_line_def written_def nth_append)
  qed
  then show "mem m' b = fst ((ls @ [(bs, st)]) ! i) ! unat (b - (addr + of_nat (64 * i)))"
    "pst m' b = snd ((ls @ [(bs, st)]) ! i)" by simp_all
next
  fix b assume "\<not> in_range addr (64 * length (ls @ [(bs, st)])) b"
  then have "\<not> in_range addr (64 * length ls) b" "\<not> in_range (addr + of_nat (64 * length ls)) 64 b"
    using in_range_add [OF le, of addr b] by (simp_all add: add.commute)
  with w ln show "mem m' b = mem m0 b" "pst m0 b = Durable \<Longrightarrow> pst m' b = Durable"
    by (auto simp: wrote_line_def written_def)
qed

text \<open>A source of lines: a string in memory, clear of the lines.\<close>

definition source_at :: "u64 \<Rightarrow> machine \<Rightarrow> u64 \<Rightarrow> u8 list \<Rightarrow> bool" where
  "source_at addr m s bs \<longleftrightarrow> has_bytes m s bs \<and> 64 \<le> length bs \<and>
     (\<forall>b. in_range s (length bs) b \<longrightarrow> \<not> in_range addr 2048 b)"

lemma source_written:
  assumes "source_at addr m0 s bs" and "written addr ls m0 m" and "length ls \<le> 8" and "length bs \<le> 2 ^ 64"
  shows "source_at addr m s bs"
proof -
  have "\<not> in_range addr (64 * length ls) (s + of_nat i)" if "i < length bs" for i
    using assms(1,3) in_range_offset [OF that assms(4), of s] in_range_mono [of addr "64 * length ls" "s + of_nat i" 2048]
    by (auto simp: source_at_def)
  with assms(1,2) show ?thesis
    by (auto simp: source_at_def has_bytes_def written_def accessible_env)
qed

lemma source_apart:
  assumes "source_at addr m s bs" and "i < 8"
  shows "apart 64 (addr + of_nat (64 * i)) s"
proof (rule disjoint_apart)
  fix b
  show "\<not> (in_range (addr + of_nat (64 * i)) 64 b \<and> in_range s 64 b)"
    using assms in_range_sub [of "64 * i" 64 2048 addr b] in_range_mono [of s 64 b "length bs"]
    by (auto simp: source_at_def)
qed simp

lemma line_place:
  assumes "aligned 64 addr" and "accessible m0 addr 2048" and "written addr ls m0 m" and "length ls < 8"
  shows "aligned 64 (addr + of_nat (64 * length ls))" and "accessible m (addr + of_nat (64 * length ls)) 64"
  using assms unat_add_of_nat_mod [of 64 addr "64 * length ls"] accessible_sub [OF assms(2), of "64 * length ls" 64]
    accessible_env [of m0 m]
  by (simp_all add: aligned_def written_def)

lemma kernel_step:
  assumes K: "transfer_kernel Copy st 64 al 32 K" and al: "al dvd 64" and a: "aligned 64 addr" "accessible m0 addr 2048"
    and w: "written addr ls m0 m" and nd: "\<forall>l \<in> set ls. snd l \<noteq> Dirty" and len: "length ls < 8"
    and s: "source_at addr m0 s bs" "length bs = 64" "aligned 32 s"
  shows "\<exists>m'. K (addr + of_nat (64 * length ls)) s m = Inr m' \<and> written addr (ls @ [(bs, st)]) m0 m'"
proof -
  let ?a = "addr + of_nat (64 * length ls)"
  note p = line_place [OF a w len]
  have src: "has_bytes m s bs" using source_written [OF s(1) w] len s(2) by (simp add: source_at_def)
  have "aligned al ?a" using p(1) dvd_trans [OF al] by (simp add: aligned_def flip: dvd_eq_mod_eq_0)
  with src s(2,3) p(2) obtain m' where "K ?a s m = Inr m'" "moved Copy st ?a s 64 m m'"
    using transfer_kernel.transfers [OF K, of ?a m s] by (auto simp: has_bytes_def)
  moreover from wrote_line_moved [OF this(2) src s(2)] have "written addr (ls @ [(bs, st)]) m0 m'"
    using written_snoc [OF w nd] len by simp
  ultimately show ?thesis by blast
qed

lemma label_step:
  assumes fl: "flush = clflush \<or> flush = clflushopt \<or> flush = clwb" and a: "aligned 64 addr" "accessible m0 addr 2048"
    and w: "written addr ls m0 m" and nd: "\<forall>l \<in> set ls. snd l \<noteq> Dirty" and len: "length ls < 8"
    and s: "source_at addr m0 s bs" "length bs \<le> 2 ^ 64"
  shows "\<exists>m'. label_line flush (addr + of_nat (64 * length ls)) s m = Inr m' \<and>
    written addr (ls @ [(take 63 bs @ [10], Pending)]) m0 m'"
proof -
  have src: "source_at addr m s bs" using source_written [OF s(1) w _ s(2)] len by simp
  then have "has_bytes m s bs" "64 \<le> length bs" by (simp_all add: source_at_def)
  from label_line_ok [OF fl line_place [OF a w len] source_apart [OF src len] this]
  show ?thesis using written_snoc [OF w nd] len by fastforce
qed

text \<open>Storing the newline into one of the two buffers, on both sides of \<open>written\<close>.\<close>

definition poke :: "u64 \<Rightarrow> u8 \<Rightarrow> machine \<Rightarrow> machine" where
  "poke a c m = m\<lparr>mem := (mem m)(a := c), pst := (pst m)(a := Dirty)\<rparr>"

lemma poke_env [simp]: "same_env m (poke a c m)" "accessible (poke a c m) = accessible m"
  by (simp_all add: poke_def same_env_def accessible_def fun_eq_iff)

lemma poke_source:
  assumes s: "source_at addr m s bs" and len: "length bs \<le> 2 ^ 64"
  shows "source_at addr (poke (s + 63) 10 m) s (take 63 bs @ [10])"
proof -
  have "s + of_nat i = s + 63 \<longleftrightarrow> i = 63" if "i < 64" for i
  proof -
    have "unat (of_nat i :: u64) = i" using that by (intro unat_of_nat_u64) simp
    then have "(of_nat i :: u64) = 63 \<Longrightarrow> i = 63" by simp
    then show ?thesis by auto
  qed
  then show ?thesis
    using s by (auto simp: source_at_def has_bytes_def poke_def nth_append min_def accessible_def intro: in_range_mono)
qed

lemma poke_other:
  assumes "source_at addr m s bs" and "length bs \<le> 2 ^ 64" and "\<not> in_range s (length bs) a"
  shows "source_at addr (poke a c m) s bs"
proof -
  have "s + of_nat i \<noteq> a" if "i < length bs" for i
    using in_range_offset [OF that assms(2), of s] assms(3) by auto
  with assms(1) show ?thesis by (auto simp: source_at_def has_bytes_def) (simp add: poke_def)
qed

lemma written_poke:
  assumes "written addr ls m0 m" and "\<not> in_range addr 2048 a" and "length ls \<le> 8"
  shows "written addr ls (poke a c m0) (poke a c m)"
proof -
  have "\<not> in_range (addr + of_nat (64 * i)) 64 a" if "i < length ls" for i
    using assms(2,3) that in_range_sub [of "64 * i" 64 2048 addr a] by auto
  moreover have "\<not> in_range addr (64 * length ls) a" using assms(2,3) in_range_mono by fastforce
  ultimately show ?thesis using assms(1) by (auto simp: written_def poke_def same_env_def)
qed

section \<open>The eight lines\<close>

definition line_text :: "string \<Rightarrow> string" where
  "line_text s = take 63 s @ ''\<newline>''"

definition intr_lines :: "string list" where
  "intr_lines = map line_text [mm_clflush_label, mm_clflushopt_label, mm_clwb_label, nstore_64byte_label,
     nstore_64byte_label, my_load_store_buf, my_load_store_buf, my_load_store_buf]"

definition line_states :: "(u8 list \<times> pstat) list" where
  "line_states = zip (map bytes_of intr_lines) (replicate 7 Pending @ [Dirty])"

text \<open>The data segment as the loader leaves it: the buffers aligned as the blocks need them, the
  strings in place, the two buffers apart from each other, everything clear of the lines.\<close>

definition intr_ready :: "intr_data \<Rightarrow> u64 \<Rightarrow> machine \<Rightarrow> bool" where
  "intr_ready D addr m \<longleftrightarrow> aligned 64 addr \<and> accessible m addr 2048 \<and> aligned 32 (at_label D) \<and> aligned 32 (at_buf D) \<and>
     source_at addr m (at_label D) (bytes_of nstore_64byte_label) \<and>
     source_at addr m (at_buf D) (bytes_of my_load_store_buf) \<and>
     source_at addr m (at_clflush D) (bytes_of mm_clflush_label) \<and>
     source_at addr m (at_clflushopt D) (bytes_of mm_clflushopt_label) \<and>
     source_at addr m (at_clwb D) (bytes_of mm_clwb_label) \<and>
     \<not> in_range (at_label D) 64 (at_buf D + 63) \<and>
     \<not> in_range (at_buf D) (length my_load_store_buf) (at_label D + 63)"

lemma label_lengths [simp]:
  "length nstore_64byte_label = 110" "length my_load_store_buf = 78" "length mm_clflush_label = 131"
  "length mm_clflushopt_label = 134" "length mm_clwb_label = 152"
  by (simp_all add: nstore_64byte_label_def my_load_store_buf_def mm_clflush_label_def mm_clflushopt_label_def
      mm_clwb_label_def)

lemma newline_byte: "bytes_of ''\<newline>'' = [10]"
  by simp

lemma line_states_eq:
  "line_states = [(take 63 (bytes_of mm_clflush_label) @ [10], Pending), (take 63 (bytes_of mm_clflushopt_label) @ [10], Pending),
     (take 63 (bytes_of mm_clwb_label) @ [10], Pending), (take 63 (bytes_of nstore_64byte_label) @ [10], Pending),
     (take 63 (bytes_of nstore_64byte_label) @ [10], Pending), (take 63 (bytes_of my_load_store_buf) @ [10], Pending),
     (take 63 (bytes_of my_load_store_buf) @ [10], Pending), (take 63 (bytes_of my_load_store_buf) @ [10], Dirty)]"
  by (simp add: line_states_def intr_lines_def line_text_def numeral_eq_Suc)

text \<open>Storing the newline into a buffer between two lines.\<close>

lemma newline_step:
  assumes s: "source_at addr m0 s bs" "length bs \<le> 2 ^ 64" and w: "written addr ls m0 m" "length ls \<le> 8"
  shows "store_bytes (s + 63) [10] m = Inr (poke (s + 63) 10 m)"
    and "written addr ls (poke (s + 63) 10 m0) (poke (s + 63) 10 m)"
    and "source_at addr (poke (s + 63) 10 m0) s (take 63 bs @ [10])"
proof -
  have len: "64 \<le> length bs" using s(1) by (simp add: source_at_def)
  have off: "\<not> in_range addr 2048 (s + 63)"
    using s len in_range_offset [of 63 "length bs" s] by (simp add: source_at_def)
  have "source_at addr m s bs" by (rule source_written [OF s(1) w s(2)])
  then have acc: "accessible m (s + 63) 1"
    using len accessible_sub [of m s "length bs" 63 1] by (simp add: source_at_def has_bytes_def)
  from store_byte [OF acc] show "store_bytes (s + 63) [10] m = Inr (poke (s + 63) 10 m)" by (simp add: poke_def)
  show "written addr ls (poke (s + 63) 10 m0) (poke (s + 63) 10 m)" by (rule written_poke [OF w(1) off w(2)])
  show "source_at addr (poke (s + 63) 10 m0) s (take 63 bs @ [10])" by (rule poke_source [OF s])
qed

text \<open>The three parts of the body.\<close>

lemma intr_labels:
  assumes "intr_ready D addr m"
  shows "\<exists>m'. run_all [label_line clflush addr (at_clflush D), label_line clflushopt (addr+64) (at_clflushopt D),
     label_line clwb (addr+64+64) (at_clwb D)] m = Inr m' \<and> written addr (take 3 line_states) m m'"
proof -
  from assms have a: "aligned 64 addr" "accessible m addr 2048"
    and src: "source_at addr m (at_clflush D) (bytes_of mm_clflush_label)"
      "source_at addr m (at_clflushopt D) (bytes_of mm_clflushopt_label)"
      "source_at addr m (at_clwb D) (bytes_of mm_clwb_label)" by (simp_all add: intr_ready_def)
  from label_step [OF _ a written_Nil _ _ src(1), of clflush] obtain m1 where
    m1: "label_line clflush addr (at_clflush D) m = Inr m1" "written addr (take 1 line_states) m m1"
    by (auto simp: line_states_eq)
  from label_step [OF _ a m1(2) _ _ src(2), of clflushopt] obtain m2 where
    m2: "label_line clflushopt (addr + 64) (at_clflushopt D) m1 = Inr m2" "written addr (take 2 line_states) m m2"
    by (auto simp: line_states_eq)
  from label_step [OF _ a m2(2) _ _ src(3), of clwb] obtain m3 where
    "label_line clwb (addr + 128) (at_clwb D) m2 = Inr m3" "written addr (take 3 line_states) m m3"
    by (auto simp: line_states_eq)
  with m1(1) m2(1) show ?thesis by (simp add: add.assoc)
qed

lemma intr_first_buffer:
  assumes a: "aligned 64 addr" "accessible m0 addr 2048" and al: "aligned 32 s"
    and src: "source_at addr m0 s (bytes_of nstore_64byte_label)" and w: "written addr (take 3 line_states) m0 m"
  shows "\<exists>m'. run_all [store_bytes (s + 63) [10], cpy_2x32b_ntload_ntstore (addr+64+64+64) s,
     cpy_2x32b_load_ntstore (addr+64+64+64+64) s] m = Inr m' \<and> written addr (take 5 line_states) (poke (s + 63) 10 m0) m'"
proof -
  have "length (bytes_of nstore_64byte_label) \<le> 2 ^ 64" "length (take 3 line_states) \<le> 8" by simp_all
  note p = newline_step [OF src this(1) w this(2)]
  have a': "accessible (poke (s + 63) 10 m0) addr 2048" using a(2) by simp
  from kernel_step [OF k_cpy_2x32b_ntload_ntstore.transfer_kernel_axioms _ a(1) a' p(2) _ _ p(3) _ al] obtain m1 where
    m1: "cpy_2x32b_ntload_ntstore (addr + 192) s (poke (s + 63) 10 m) = Inr m1"
      "written addr (take 4 line_states) (poke (s + 63) 10 m0) m1" by (auto simp: line_states_eq)
  from kernel_step [OF k_cpy_2x32b_load_ntstore.transfer_kernel_axioms _ a(1) a' m1(2) _ _ p(3) _ al] obtain m2 where
    "cpy_2x32b_load_ntstore (addr + 256) s m1 = Inr m2" "written addr (take 5 line_states) (poke (s + 63) 10 m0) m2"
    by (auto simp: line_states_eq)
  with p(1) m1(1) show ?thesis by (simp add: add.assoc)
qed

lemma intr_second_buffer:
  assumes a: "aligned 64 addr" "accessible m0 addr 2048" and al: "aligned 32 s"
    and src: "source_at addr m0 s (bytes_of my_load_store_buf)" and w: "written addr (take 5 line_states) m0 m"
  shows "\<exists>m'. run_all [store_bytes (s + 63) [10], cpy_2x32b_load_store_flush (addr+64+64+64+64+64) s,
     cpy_2x32b_load_ntstore (addr+64+64+64+64+64+64) s, cpy_2x32b_load_store_noflush (addr+64+64+64+64+64+64+64) s] m = Inr m' \<and>
     written addr line_states (poke (s + 63) 10 m0) m'"
proof -
  have "length (bytes_of my_load_store_buf) \<le> 2 ^ 64" "length (take 5 line_states) \<le> 8" by simp_all
  note p = newline_step [OF src this(1) w this(2)]
  have a': "accessible (poke (s + 63) 10 m0) addr 2048" using a(2) by simp
  from kernel_step [OF k_cpy_2x32b_load_store_flush.transfer_kernel_axioms _ a(1) a' p(2) _ _ p(3) _ al] obtain m1 where
    m1: "cpy_2x32b_load_store_flush (addr + 320) s (poke (s + 63) 10 m) = Inr m1"
      "written addr (take 6 line_states) (poke (s + 63) 10 m0) m1" by (auto simp: line_states_eq)
  from kernel_step [OF k_cpy_2x32b_load_ntstore.transfer_kernel_axioms _ a(1) a' m1(2) _ _ p(3) _ al] obtain m2 where
    m2: "cpy_2x32b_load_ntstore (addr + 384) s m1 = Inr m2" "written addr (take 7 line_states) (poke (s + 63) 10 m0) m2"
    by (auto simp: line_states_eq)
  from kernel_step [OF k_cpy_2x32b_load_store_noflush.transfer_kernel_axioms _ a(1) a' m2(2) _ _ p(3) _ al] obtain m3 where
    "cpy_2x32b_load_store_noflush (addr + 448) s m2 = Inr m3" "written addr line_states (poke (s + 63) 10 m0) m3"
    by (auto simp: line_states_eq)
  with p(1) m1(1) m2(1) show ?thesis by (simp add: add.assoc)
qed

lemma intr_body_writes:
  assumes r: "intr_ready D addr m"
  shows "\<exists>m' z. intr_body D addr m = Inr (mfence (lfence (sfence m'))) \<and> same_env m z \<and>
    (\<forall>b. b \<noteq> at_label D + 63 \<and> b \<noteq> at_buf D + 63 \<longrightarrow> mem z b = mem m b \<and> pst z b = pst m b) \<and>
    written addr line_states z m'"
proof -
  let ?m1 = "poke (at_label D + 63) 10 m" and ?m2 = "poke (at_buf D + 63) 10 (poke (at_label D + 63) 10 m)"
  from r have a: "aligned 64 addr" "accessible m addr 2048" "accessible ?m1 addr 2048"
    and al: "aligned 32 (at_label D)" "aligned 32 (at_buf D)"
    and src: "source_at addr m (at_label D) (bytes_of nstore_64byte_label)" "source_at addr m (at_buf D) (bytes_of my_load_store_buf)"
    and dis: "\<not> in_range (at_buf D) (length (bytes_of my_load_store_buf)) (at_label D + 63)" by (simp_all add: intr_ready_def)
  have src1: "source_at addr ?m1 (at_buf D) (bytes_of my_load_store_buf)" by (rule poke_other [OF src(2) _ dis]) simp
  from intr_labels [OF r] intr_first_buffer [OF a(1,2) al(1) src(1)] intr_second_buffer [OF a(1,3) al(2) src1]
  obtain u1 u2 u3 where
    "run_all [label_line clflush addr (at_clflush D), label_line clflushopt (addr+64) (at_clflushopt D),
       label_line clwb (addr+64+64) (at_clwb D)] m = Inr u1"
    "run_all [store_bytes (at_label D + 63) [10], cpy_2x32b_ntload_ntstore (addr+64+64+64) (at_label D),
       cpy_2x32b_load_ntstore (addr+64+64+64+64) (at_label D)] u1 = Inr u2"
    "run_all [store_bytes (at_buf D + 63) [10], cpy_2x32b_load_store_flush (addr+64+64+64+64+64) (at_buf D),
       cpy_2x32b_load_ntstore (addr+64+64+64+64+64+64) (at_buf D),
       cpy_2x32b_load_store_noflush (addr+64+64+64+64+64+64+64) (at_buf D)] u2 = Inr u3"
    and w: "written addr line_states ?m2 u3" by blast
  then have "intr_body D addr m = Inr (mfence (lfence (sfence u3)))"
    by (auto simp: intr_body_def barrier_def split: sum.splits)
  moreover have "same_env m ?m2" using same_env_trans [OF poke_env(1) poke_env(1)] .
  moreover have "mem ?m2 b = mem m b \<and> pst ?m2 b = pst m b" if "b \<noteq> at_label D + 63" "b \<noteq> at_buf D + 63" for b
    using that by (simp add: poke_def)
  ultimately show ?thesis using w by auto
qed

section \<open>Reading the lines back\<close>

lemma has_bytes_append:
  "has_bytes m a (xs @ ys) \<longleftrightarrow> has_bytes m a xs \<and> has_bytes m (a + of_nat (length xs)) ys"
proof (induction xs arbitrary: a)
  case Nil
  then show ?case by (simp add: has_bytes_def accessible_def)
next
  case (Cons x xs)
  then show ?case by (simp add: has_bytes_Cons add_ac)
qed

lemma has_bytes_concat:
  assumes "\<forall>l \<in> set ls. length l = 64" and "\<forall>i<length ls. has_bytes m (addr + of_nat (64 * i)) (ls ! i)"
  shows "has_bytes m addr (concat ls)"
  using assms
proof (induction ls arbitrary: addr)
  case Nil
  then show ?case by (simp add: has_bytes_def accessible_def)
next
  case (Cons l ls)
  have "has_bytes m (addr + of_nat 64 + of_nat (64 * i)) (ls ! i)" if "i < length ls" for i
    using Cons.prems(2) [rule_format, of "Suc i"] that by (simp add: algebra_simps)
  with Cons.IH [of "addr + of_nat 64"] Cons.prems(1) have "has_bytes m (addr + of_nat 64) (concat ls)" by simp
  with Cons.prems show ?case by (auto simp: has_bytes_append)
qed

lemma written_lines:
  assumes "written addr ls m0 m" and "accessible m0 addr 2048" and "length ls \<le> 32" and "\<forall>l \<in> set ls. length (fst l) = 64"
  shows "has_bytes m addr (concat (map fst ls))"
proof (rule has_bytes_concat)
  show "\<forall>i<length (map fst ls). has_bytes m (addr + of_nat (64 * i)) (map fst ls ! i)"
  proof (intro allI impI)
    fix i assume i: "i < length (map fst ls)"
    have "mem m (addr + of_nat (64 * i) + of_nat j) = fst (ls ! i) ! j" if "j < 64" for j
    proof -
      have r: "in_range (addr + of_nat (64 * i)) 64 (addr + of_nat (64 * i) + of_nat j)" using that by (intro in_range_offset) simp_all
      have "unat (of_nat j :: u64) = j" using that by (intro unat_of_nat_u64) simp
      with assms(1) i r show ?thesis by (simp add: written_def del: of_nat_mult)
    qed
    moreover have "accessible m (addr + of_nat (64 * i)) 64"
      using accessible_sub [OF assms(2), of "64 * i" 64] accessible_env [of m0 m] assms(1,3) i by (simp add: written_def)
    ultimately show "has_bytes m (addr + of_nat (64 * i)) (map fst ls ! i)"
      using i assms(1,4) by (simp add: has_bytes_def written_def accessible_env del: of_nat_mult)
  qed
qed (use assms(4) in auto)

lemma written_pst:
  assumes "written addr ls m0 m" and "k < 64 * length ls"
  shows "pst m (addr + of_nat k) = snd (ls ! (k div 64))"
proof -
  have eq: "addr + of_nat (64 * (k div 64)) + of_nat (k mod 64) = addr + of_nat k"
    unfolding add.assoc of_nat_add [symmetric] by simp
  have i: "k div 64 < length ls" using assms(2) by (simp add: less_mult_imp_div_less mult.commute)
  have "in_range (addr + of_nat (64 * (k div 64))) 64 (addr + of_nat (64 * (k div 64)) + of_nat (k mod 64))"
    by (intro in_range_offset) simp_all
  with assms(1) i show ?thesis unfolding eq written_def by blast
qed

lemma concat_bytes: "concat (map bytes_of ss) = bytes_of (concat ss)"
  by (induction ss) simp_all

lemma line_states_props:
  "length line_states = 8" "map fst line_states = map bytes_of intr_lines" "\<forall>l \<in> set line_states. length (fst l) = 64"
  by (simp_all add: line_states_def intr_lines_def line_text_def numeral_eq_Suc)

lemma no_zero_lines: "CHR 0x00 \<notin> set (concat intr_lines)"
  by (simp add: intr_lines_def line_text_def mm_clflush_label_def mm_clflushopt_label_def mm_clwb_label_def
      nstore_64byte_label_def my_load_store_buf_def)

lemma length_lines: "length (concat intr_lines) = 512"
  by (simp add: intr_lines_def line_text_def)

text \<open>Clearing the first 2048 bytes keeps the data segment.\<close>

lemma ready_cleared:
  assumes "intr_ready D addr m" and "same_env m m1" and "\<And>b. \<not> in_range addr 2048 b \<Longrightarrow> mem m1 b = mem m b"
  shows "intr_ready D addr m1"
proof -
  have "source_at addr m1 s bs" if "source_at addr m s bs" "length bs \<le> 2 ^ 64" for s bs
    using that assms(2,3) in_range_offset [of _ "length bs" s]
    by (auto simp: source_at_def has_bytes_def accessible_env)
  with assms(1,2) show ?thesis by (simp add: intr_ready_def accessible_env)
qed

lemma fences:
  "mem (mfence (lfence (sfence m))) = mem m" "mapped (mfence (lfence (sfence m))) = mapped m"
  "pst (mfence (lfence (sfence m))) = (\<lambda>b. if pst m b = Pending then Durable else pst m b)"
  by (auto simp: mfence_def lfence_def sfence_def)

lemma line_status: "k < 512 \<Longrightarrow> snd (line_states ! (k div 64)) = (if k < 448 then Pending else Dirty)"
proof -
  assume "k < 512"
  then have "k div 64 < 8" "k div 64 < 7 \<longleftrightarrow> k < 448" by auto
  then show ?thesis
    by (simp add: line_states_def intr_lines_def nth_append del: replicate.simps)
qed

text \<open>A crash may leave anything in a line that was not written back.\<close>

lemma lost_line:
  assumes "written addr line_states z m"
  shows "\<exists>img. crash_image (mfence (lfence (sfence m))) img \<and> (\<forall>k<64. img (addr + 448 + of_nat k) = v k)"
proof -
  let ?img = "\<lambda>a. if in_range (addr + 448) 64 a then v (unat (a - (addr + 448))) else mem m a"
  have "7 < length line_states" by (simp add: line_states_props)
  then have "in_range (addr + of_nat (64 * 7)) 64 b \<Longrightarrow> pst m b = snd (line_states ! 7)" for b
    using assms unfolding written_def by blast
  then have "pst m b = Dirty" if "in_range (addr + 448) 64 b" for b
    using that line_status [of 448] by simp
  then have "crash_image (mfence (lfence (sfence m))) ?img" by (auto simp: crash_image_def fences)
  moreover have "?img (addr + 448 + of_nat k) = v k" if "k < 64" for k
  proof -
    have "unat (of_nat k :: u64) = k" using that by (intro unat_of_nat_u64) simp
    then show ?thesis using that by (simp add: in_range_def)
  qed
  ultimately show ?thesis by blast
qed

text \<open>The device after the body: the eight lines, zeros up to the end of its first 2048 bytes, a string that
  reads back.\<close>

lemma intr_device:
  assumes P: "pmem2_memset_persists P" and rdy: "intr_ready D addr m"
  shows "\<exists>m1 m2 z. pmdk_memset P addr 0 2048 PMEM2_F_NONE m = Inr m1 \<and> has_bytes m1 addr [0] \<and>
    intr_body D addr m1 = Inr (mfence (lfence (sfence m2))) \<and> written addr line_states z m2 \<and> accessible z addr 2048 \<and>
    (\<forall>k. 512 \<le> k \<and> k < 2048 \<longrightarrow> mem m2 (addr + of_nat k) = 0 \<and> pst m2 (addr + of_nat k) = Durable)"
proof -
  from rdy have acc: "accessible m addr 2048" by (simp add: intr_ready_def)
  then have "accessible m addr (unat (2048 :: u64))" by simp
  then obtain m1 where m1: "pmdk_memset P addr 0 2048 PMEM2_F_NONE m = Inr m1" and env1: "same_env m m1"
    and mem1: "mem m1 = (\<lambda>a. if in_range addr 2048 a then 0 else mem m a)"
    and pst1: "\<forall>a. in_range addr 2048 a \<longrightarrow> pst m1 a = Durable"
    using P unfolding pmem2_memset_persists_def by fastforce
  have "intr_ready D addr m1" by (rule ready_cleared [OF rdy env1]) (simp add: mem1)
  from intr_body_writes [OF this] obtain m2 z where m2: "intr_body D addr m1 = Inr (mfence (lfence (sfence m2)))"
    and env2: "same_env m1 z" and w: "written addr line_states z m2"
    and z: "\<forall>b. b \<noteq> at_label D + 63 \<and> b \<noteq> at_buf D + 63 \<longrightarrow> mem z b = mem m1 b \<and> pst z b = pst m1 b" by blast
  have r: "in_range addr 2048 (addr + of_nat k)" if "k < 2048" for k
    using that by (intro in_range_offset) simp_all
  have "mem m2 (addr + of_nat k) = 0 \<and> pst m2 (addr + of_nat k) = Durable" if k: "512 \<le> k" "k < 2048" for k
  proof -
    have "unat (of_nat k :: u64) = k" using k by (intro unat_of_nat_u64) simp
    then have "\<not> in_range addr 512 (addr + of_nat k)" using k by (simp add: in_range_def)
    moreover have "addr + of_nat k \<noteq> at_label D + 63" "addr + of_nat k \<noteq> at_buf D + 63"
      using r [OF k(2)] rdy in_range_offset [of 63 110 "at_label D"] in_range_offset [of 63 78 "at_buf D"]
      by (auto simp: intr_ready_def source_at_def)
    ultimately show ?thesis using w z r [OF k(2)] mem1 pst1 by (simp add: written_def line_states_props)
  qed
  moreover have "has_bytes m1 addr [0]"
    using r [of 0] accessible_mono [OF acc, of 1] accessible_env [OF env1] by (simp add: has_bytes_def mem1)
  ultimately show ?thesis using m1 m2 w acc accessible_env env1 env2 by blast
qed

lemma lines_read_back:
  assumes w: "written addr line_states z m" "accessible z addr 2048" and rest: "mem m (addr + of_nat 512) = 0"
  shows "has_bytes m addr (bytes_of (concat intr_lines))"
    and "c_str addr (mfence (lfence (sfence m))) = Some (Inr (concat intr_lines))"
proof -
  show lines: "has_bytes m addr (bytes_of (concat intr_lines))"
    using written_lines [OF w] by (simp add: line_states_props concat_bytes)
  have env: "same_env z m" using w(1) by (simp add: written_def)
  have "has_bytes m (addr + of_nat 512) [0]"
    using rest accessible_sub [OF w(2), of 512 1] accessible_env [OF env] by (simp add: has_bytes_def)
  with lines have "has_bytes m addr (bytes_of (concat intr_lines) @ [0])"
    by (simp only: has_bytes_append bytes_of_simps length_lines simp_thms)
  then have "has_bytes (mfence (lfence (sfence m))) addr (bytes_of (concat intr_lines) @ [0])"
    by (simp add: has_bytes_def fences accessible_def)
  from c_str_reads [OF this no_zero_lines]
  show "c_str addr (mfence (lfence (sfence m))) = Some (Inr (concat intr_lines))" .
qed

lemma intr_images:
  assumes w: "written addr line_states z m" and lines: "has_bytes m addr (bytes_of (concat intr_lines))"
    and img: "crash_image (mfence (lfence (sfence m))) img"
  shows "k < 448 \<Longrightarrow> img (addr + of_nat k) = bytes_of (concat intr_lines) ! k"
    and "mem m (addr + of_nat k) = 0 \<Longrightarrow> pst m (addr + of_nat k) = Durable \<Longrightarrow> img (addr + of_nat k) = 0"
  using img lines written_pst [OF w, of k] line_status [of k]
  by (simp_all add: crash_image_def fences has_bytes_def length_lines line_states_props)

section \<open>Properties\<close>

text \<open>C32: What the demonstration shows. On a device that opens and maps, with a string in its first
  bytes, the program ends in abort, having printed that string, an empty one and the eight lines.
  After a power failure at that point the first seven lines are on the device as printed and the
  rest of its first 2048 bytes is zero; the eighth line, stored without a write-back, is not durable,
  so the model promises nothing of its bytes.\<close>

theorem intr_lines_survive:
  assumes P: "pmem2_memset_persists P" and fd: "fst (sys_open False devdax_path 0 fs) = fd" "0 \<le> fd"
    and lib: "config_new_rc L = 0" "source_from_fd_rc L fd = 0" "set_granularity_rc L = 0" "map_new_rc L fd = 0"
    and addr: "fst (mapping L fd) = addr" and rdy: "intr_ready D addr m" and t: "c_str addr m = Some (Inr t)"
  shows "\<exists>m' o2. intr_main P L D fs m o1 = Some (Abort m' o2) \<and>
    printed o2 = printed o1 @ [''init: \<newline>'' @ t, ''set before: \<newline>'', ''set after: \<newline>'' @ concat intr_lines] \<and>
    (\<forall>img. crash_image m' img \<longrightarrow>
      (\<forall>k<448. img (addr + of_nat k) = bytes_of (concat intr_lines) ! k) \<and>
      (\<forall>k. 512 \<le> k \<and> k < 2048 \<longrightarrow> img (addr + of_nat k) = 0)) \<and>
    (\<forall>v. \<exists>img. crash_image m' img \<and> (\<forall>k<64. img (addr + 448 + of_nat k) = v k))"
proof -
  obtain fs1 where o: "sys_open False devdax_path 0 fs = (fd, fs1)" using fd(1) by (cases "sys_open False devdax_path 0 fs") auto
  from intr_device [OF P rdy] obtain m1 m2 z where m1: "pmdk_memset P addr 0 2048 PMEM2_F_NONE m = Inr m1"
    and clear: "has_bytes m1 addr [0]" and m2: "intr_body D addr m1 = Inr (mfence (lfence (sfence m2)))"
    and w: "written addr line_states z m2" "accessible z addr 2048"
    and zeros: "\<forall>k. 512 \<le> k \<and> k < 2048 \<longrightarrow> mem m2 (addr + of_nat k) = 0 \<and> pst m2 (addr + of_nat k) = Durable" by blast
  have "mem m2 (addr + of_nat 512) = 0" using zeros [rule_format, of 512] by simp
  note lines = lines_read_back [OF w this]
  have before: "c_str addr m1 = Some (Inr [])" using c_str_reads [of m1 addr "[]"] clear by simp
  let ?m = "mfence (lfence (sfence m2))"
  let ?o = "fprintf Stdout (''set after: \<newline>'' @ concat intr_lines)
    (fprintf Stdout ''set before: \<newline>'' (fprintf Stdout (''init: \<newline>'' @ t) o1))"
  have "intr_main P L D fs m o1 = Some (Abort ?m ?o)"
    using fd(2) by (simp add: intr_main_def o lib addr print_str_def t m1 before m2 lines(2))
  moreover have "printed ?o = printed o1 @
      [''init: \<newline>'' @ t, ''set before: \<newline>'', ''set after: \<newline>'' @ concat intr_lines]"
    by (simp add: fprintf_def)
  ultimately show ?thesis using intr_images [OF w(1) lines(1)] zeros lost_line [OF w(1)] by blast
qed

text \<open>A data segment at 65536 and a device mapped at 4096.\<close>

definition demo_segment :: "u8 list" where
  "demo_segment = bytes_of nstore_64byte_label @ replicate 18 0 @ bytes_of my_load_store_buf @ replicate 18 0 @
     bytes_of mm_clflush_label @ bytes_of mm_clflushopt_label @ bytes_of mm_clwb_label"

definition demo_data :: intr_data where
  "demo_data = \<lparr>at_label = 65536, at_buf = 65664, at_clflush = 65760, at_clflushopt = 65891, at_clwb = 66025\<rparr>"

definition demo_loaded :: machine where
  "demo_loaded = demo_machine\<lparr>mem := \<lambda>a. if in_range 65536 641 a then demo_segment ! unat (a - 65536) else 0\<rparr>"

definition demo_dev :: fsys where
  "demo_dev = \<lparr>fs_root = Dir [(''dev'', Dir [(''dax1.0'', Other)])], fds = [], open_dirs = 0, fs_free = 0, fs_umask = 18, fs_dir_size = 4096\<rparr>"

definition demo_lib :: pmem2 where
  "demo_lib = \<lparr>config_new_rc = 0, source_from_fd_rc = (\<lambda>_. 0), set_granularity_rc = 0, map_new_rc = (\<lambda>_. 0), mapping = (\<lambda>_. (4096, 2 ^ 21))\<rparr>"

lemma demo_ready_intr: "intr_ready demo_data 4096 demo_loaded"
proof -
  have "mem demo_loaded (65536 + of_nat i) = demo_segment ! i" if "i < 641" for i
    using that in_range_offset [of i 641 65536] unat_of_nat_u64 [of i] by (simp add: demo_loaded_def)
  moreover have acc: "accessible demo_loaded a n" for a n by (simp add: accessible_def demo_loaded_def)
  ultimately have "has_bytes demo_loaded 65536 demo_segment" by (simp add: has_bytes_def demo_segment_def)
  then have b: "has_bytes demo_loaded 65536 (bytes_of nstore_64byte_label)" "has_bytes demo_loaded 65664 (bytes_of my_load_store_buf)"
    "has_bytes demo_loaded 65760 (bytes_of mm_clflush_label)" "has_bytes demo_loaded 65891 (bytes_of mm_clflushopt_label)"
    "has_bytes demo_loaded 66025 (bytes_of mm_clwb_label)"
    by (simp_all add: demo_segment_def has_bytes_append del: replicate.simps)
  have "\<not> in_range 4096 2048 a" if "in_range s n a" "6144 \<le> unat s" "unat s + n \<le> 2 ^ 64" for s n a
    using in_range_unat(1) [OF that(1,3)] in_range_unat(2) [of 4096 2048 a] that(2) by fastforce
  with b acc show ?thesis
    by (simp add: intr_ready_def source_at_def demo_data_def aligned_def in_range_def)
qed

theorem intr_lines_survive_witness:
  "\<exists>m' o2. intr_main demo_pmdk demo_lib demo_data demo_dev demo_loaded \<lparr>printed = [], buffered = []\<rparr> = Some (Abort m' o2) \<and>
     (\<forall>img. crash_image m' img \<longrightarrow> img 4096 = 95 \<and> img (4096 + 1500) = 0) \<and>
     (\<exists>img. crash_image m' img \<and> img 4544 = 7)"
proof -
  have P: "pmem2_memset_persists demo_pmdk" using demo_documented by (simp add: pmem2_documented_def)
  have fd: "fst (sys_open False devdax_path 0 demo_dev) = 3" "(0 :: int) \<le> 3"
    by (simp_all add: sys_open_def devdax_path_def comps_def demo_dev_def new_fd_def Let_def upto_rec1)
  have lib: "config_new_rc demo_lib = 0" "source_from_fd_rc demo_lib 3 = 0" "set_granularity_rc demo_lib = 0"
    "map_new_rc demo_lib 3 = 0" "fst (mapping demo_lib 3) = 4096" by (simp_all add: demo_lib_def)
  have "c_str 4096 demo_loaded = Some (Inr [])"
    by (rule c_str_reads) (simp_all add: has_bytes_def accessible_def demo_loaded_def in_range_def)
  from intr_lines_survive [OF P fd lib demo_ready_intr this, of "\<lparr>printed = [], buffered = []\<rparr>"]
  obtain m' o2 where *: "intr_main demo_pmdk demo_lib demo_data demo_dev demo_loaded \<lparr>printed = [], buffered = []\<rparr> = Some (Abort m' o2)"
    and img: "\<forall>img. crash_image m' img \<longrightarrow> (\<forall>k<448. img (4096 + of_nat k) = bytes_of (concat intr_lines) ! k) \<and>
      (\<forall>k. 512 \<le> k \<and> k < 2048 \<longrightarrow> img (4096 + of_nat k) = 0)"
    and lost: "\<forall>v. \<exists>img. crash_image m' img \<and> (\<forall>k<64. img (4096 + 448 + of_nat k) = v k)" by blast
  have "bytes_of (concat intr_lines) ! 0 = 95" by (simp add: intr_lines_def line_text_def mm_clflush_label_def)
  with img [rule_format, THEN conjunct1, rule_format, of _ 0] img [rule_format, THEN conjunct2, rule_format, of _ 1500]
  have "\<forall>img. crash_image m' img \<longrightarrow> img 4096 = 95 \<and> img (4096 + 1500) = 0" by simp
  moreover have "\<exists>img. crash_image m' img \<and> img 4544 = 7"
  proof -
    obtain i where "crash_image m' i" "\<forall>k<64. i (4096 + 448 + of_nat k) = 7"
      using lost [THEN spec, of "\<lambda>_. 7"] by (elim exE conjE)
    from this(1) this(2) [rule_format, of 0] show ?thesis by auto
  qed
  ultimately show ?thesis using * by blast
qed

text \<open>The first print runs over the end of a device whose mapping holds no zero byte: it faults
  behind the mapping, before anything was written.\<close>

lemma c_str_overruns:
  assumes "\<forall>i<n. mapped m (page_of (a + of_nat i)) \<and> mem m (a + of_nat i) \<noteq> 0" and "\<not> mapped m (page_of (a + of_nat n))"
  shows "c_str a m = Some (Inl (PageFault (a + of_nat n)))"
  using assms
proof (induction n arbitrary: a)
  case 0
  then show ?case by (subst c_str.simps) simp
next
  case (Suc n)
  have "c_str (a + 1) m = Some (Inl (PageFault (a + 1 + of_nat n)))"
    by (rule Suc.IH) (use Suc.prems in \<open>auto simp: add.assoc dest: spec [of _ "Suc _"]\<close>)
  moreover have "mapped m (page_of a)" "mem m a \<noteq> 0" using Suc.prems(1) [rule_format, of 0] by simp_all
  ultimately show ?case by (subst c_str.simps) (simp add: add.assoc)
qed

theorem intr_print_overruns:
  assumes "fst (sys_open False devdax_path 0 fs) = fd" "0 \<le> fd"
    and "config_new_rc L = 0" "source_from_fd_rc L fd = 0" "set_granularity_rc L = 0" "map_new_rc L fd = 0"
    and "mapping L fd = (addr, sz)" and "\<forall>i<unat sz. mapped m (page_of (addr + of_nat i)) \<and> mem m (addr + of_nat i) \<noteq> 0"
    and "\<not> mapped m (page_of (addr + sz))"
  shows "intr_main P L D fs m o1 = Some (Faulted (PageFault (addr + sz)) o1)"
proof -
  obtain fs1 where "sys_open False devdax_path 0 fs = (fd, fs1)" using assms(1) by (cases "sys_open False devdax_path 0 fs") auto
  moreover have "c_str addr m = Some (Inl (PageFault (addr + sz)))"
    using c_str_overruns [OF assms(8)] assms(9) by simp
  ultimately show ?thesis using assms(2-7) by (simp add: intr_main_def print_str_def)
qed

end
