(* ===== verification/Dram_Test.thy ===== *)
theory Dram_Test
  imports Study_Main
begin

text \<open>
  bgtest/AEP/dram_test.cc: a loop that stores blocks of a given size over a buffer in DRAM and
  reports the average time. The arguments of main are parameters, as are the two addresses that
  aligned_alloc answers. Its aep_native_store_dram is the operation of aep_study.h without the
  clock readings.
\<close>

definition BUFFER_SIZE :: u64 where
  "BUFFER_SIZE = push_bit 20 512"

definition dram_store :: "u64 \<Rightarrow> u64 \<Rightarrow> u64 \<Rightarrow> machine \<Rightarrow> outcome" where
  "dram_store aep dram len = do_all [store_words aep dram len 0, clwb_extent aep len, fence]"

text \<open>The product of the two ints must not overflow.\<close>

definition dram_iter :: "u64 \<Rightarrow> u64 \<Rightarrow> int \<Rightarrow> nat \<Rightarrow> machine \<Rightarrow> outcome" where
  "dram_iter dst src bs i m =
     (if \<not> (- (2 ^ 31) \<le> int i * bs \<and> int i * bs < 2 ^ 31) then Some (Inl UndefinedBehaviour)
      else dram_store (dst + word_of_int (int i * bs)) src (word_of_int bs) m)"

definition int_string :: "int \<Rightarrow> string" where
  "int_string x = (if x < 0 then ''-'' @ to_string (nat (- x)) else to_string (nat x))"

definition dram_main :: "log_state \<Rightarrow> int \<Rightarrow> int \<Rightarrow> u64 \<Rightarrow> u64 \<Rightarrow> machine \<times> sched \<times> io \<Rightarrow>
    (stop + machine \<times> sched \<times> io) option" where
  "dram_main ls argc bs dst_buf src_buf s =
     (let (m, w, o1) = s in
      case InitLog \<lparr>is_log_to_stderr = True, vlog_level = 3, min_log_level = 0\<rparr> ls of
        Inl e \<Rightarrow> Some (Inl Aborted)
      | Inr ls' \<Rightarrow>
          (let (ret, w') = CoreBind 0 1 w in
           if argc \<noteq> 2 then Some (Inl Aborted)
           else if bs = 0 then Some (Inl (Undefined ''division by 0''))
           else
             (let OP = BUFFER_SIZE div word_of_int bs;
                  o2 = fprintf Stdout (''buffer size: '' @ u64s (drop_bit 20 BUFFER_SIZE) @ '' MB, bs: '' @ int_string bs @
                    '', op: '' @ u64s OP @ ''\<newline>'') o1;
                  (start_ns, m1) = GetTsNsec m
              in (case do_all (map (dram_iter dst_buf src_buf bs) [0..<unat OP]) m1 of
                    None \<Rightarrow> None
                  | Some (Inl e) \<Rightarrow> Some (Inl (Crashed e))
                  | Some (Inr m2) \<Rightarrow>
                      (let (end_ns, m3) = GetTsNsec m2; total_ns = end_ns - start_ns;
                           lat = fdiv (rnd (of_nat (unat total_ns))) (rnd (of_nat (unat OP)))
                       in Some (Inr (m3, w', fprintf Stdout (''lat: '' @ fixed2 lat @ ''\<newline>'') o2)))))))"

section \<open>Lemmas\<close>

text \<open>The strided loop faults at the first source word that is not mapped.\<close>

lemma store_words_fault:
  assumes k: "k < 2 ^ 27" and k0: "n < k" and un: "\<not> mapped m0 (page_of (s + of_nat (64 * n)))"
  shows "j \<le> n \<Longrightarrow> mapped m = mapped m0 \<Longrightarrow> accessible m d (64 * n) \<Longrightarrow> accessible m s (64 * n) \<Longrightarrow>
    store_words d s (of_nat (8 * k)) (of_nat (8 * j)) m = Some (Inl (PageFault (s + of_nat (64 * n))))"
proof (induction "n - j" arbitrary: j m)
  case 0
  then have jn: "j = n" by simp
  have "scast (of_nat (8 * j) :: u32) = (of_nat (8 * j) :: u64)" using k k0 jn by (intro scast_nat) simp
  moreover have "(of_nat (8 * j) :: u64) < of_nat (8 * k)"
    using k k0 jn by (simp add: word_less_nat_alt unat_of_nat del: of_nat_mult)
  moreover have "\<not> accessible m (s + of_nat (64 * n)) 8"
    using un 0(3) accessible_page [of m "s + of_nat (64 * n)" 8] by auto
  then have "copy_word 8 (d + 8 * of_nat (8 * j)) (s + 8 * of_nat (8 * j)) m = Inl (PageFault (s + of_nat (64 * n)))"
    by (simp add: copy_word_def load_bytes_def jn)
  ultimately show ?case by (subst store_words.simps) simp
next
  case (Suc x)
  then have jn: "j < n" by simp
  let ?d = "d + of_nat (64 * j)" and ?s = "s + of_nat (64 * j)"
  have sc: "scast (of_nat (8 * j) :: u32) = (of_nat (8 * j) :: u64)" using k k0 jn by (intro scast_nat) simp
  have lt: "(of_nat (8 * j) :: u64) < of_nat (8 * k)"
    using k k0 jn by (simp add: word_less_nat_alt unat_of_nat del: of_nat_mult)
  have nx: "ucast ((of_nat (8 * j) :: u64) + 8) = (of_nat (8 * Suc j) :: u32)"
    using ucast_nat [of "8 * Suc j"] k k0 jn by (simp add: add.commute)
  have "64 * j + 8 \<le> 64 * n" using jn by simp
  from accessible_sub [OF Suc.prems(3) this] accessible_sub [OF Suc.prems(4) this]
  have "accessible m ?d 8" "accessible m ?s 8" .
  from copy_word_moved [OF this] obtain m1 where m1: "copy_word 8 ?d ?s m = Inr m1" and mv: "moved Copy Dirty ?d ?s 8 m m1" by blast
  note env = moved_env [OF mv]
  have "store_words d s (of_nat (8 * k)) (of_nat (8 * Suc j)) m1 = Some (Inl (PageFault (s + of_nat (64 * n))))"
    by (rule Suc.hyps(1))
      (use Suc.hyps(2) Suc.prems(2-4) jn env accessible_env [OF env] in \<open>auto simp: same_env_def\<close>)
  moreover have "8 * of_nat (8 * j) = (of_nat (64 * j) :: u64)" by simp
  ultimately show ?case by (subst store_words.simps) (simp only: sc lt if_True m1 sum.case nx)
qed

section \<open>Properties\<close>

text \<open>C35: The test reads far behind its source block. For blocks of \<open>8 k\<close> bytes the loop visits one word of
  every 64 bytes, up to \<open>64 k\<close> bytes from the start: if a page behind the block is not mapped, the
  program dies there in its first round, although both blocks are accessible.\<close>

theorem dram_main_overreads:
  assumes "\<not> is_init ls" and "\<not> glog_started ls" and "k \<le> 2 ^ 26" and "n < k" and "8 * k \<le> 64 * n"
    and "accessible m dst (64 * n)" and "accessible m src (64 * n)" and "\<not> mapped m (page_of (src + of_nat (64 * n)))"
  shows "dram_main ls 2 (int (8 * k)) dst src (m, w, o1) = Some (Inl (Crashed (PageFault (src + of_nat (64 * n)))))"
proof -
  obtain ls' where ls: "InitLog \<lparr>is_log_to_stderr = True, vlog_level = 3, min_log_level = 0\<rparr> ls = Inr ls'"
    using InitLog_fresh [OF assms(1,2)] by blast
  obtain ts m1 where t: "GetTsNsec m = (ts, m1)" "mapped m1 = mapped m" "accessible m1 = accessible m"
    by (simp add: GetTsNsec_def clock_gettime_def Let_def accessible_def fun_eq_iff)
  obtain ret w' where b: "CoreBind 0 1 w = (ret, w')" by fastforce
  have len: "word_of_int (int (8 * k)) = (of_nat (8 * k) :: u64)" by simp
  have u: "unat (of_nat (8 * k) :: u64) = 8 * k" using assms(3) by (intro unat_of_nat_u64) simp
  have "unat (BUFFER_SIZE div of_nat (8 * k)) = 2 ^ 29 div (8 * k)"
    unfolding unat_div_distrib u by (simp add: BUFFER_SIZE_def push_bit_eq_mult)
  moreover have "0 < (2 :: nat) ^ 29 div (8 * k)" using assms(3,4) by (simp add: div_greater_zero_iff)
  ultimately obtain r where op: "[0..<unat (BUFFER_SIZE div of_nat (8 * k))] = 0 # r" by (metis upt_conv_Cons)
  have "k < 2 ^ 27" using assms(3) by simp
  from store_words_fault [OF this assms(4,8), of 0 m1 dst] assms(6,7) t
  have "store_words dst src (of_nat (8 * k)) 0 m1 = Some (Inl (PageFault (src + of_nat (64 * n))))" by simp
  then have "dram_iter dst src (int (8 * k)) 0 m1 = Some (Inl (PageFault (src + of_nat (64 * n))))"
    unfolding dram_iter_def dram_store_def len by (simp del: of_nat_mult)
  then have "do_all (map (dram_iter dst src (int (8 * k))) (0 # r)) m1 = Some (Inl (PageFault (src + of_nat (64 * n))))"
    by (simp del: of_nat_mult)
  moreover have "int (8 * k) \<noteq> 0" using assms(4) by simp
  ultimately show ?thesis
    unfolding dram_main_def Let_def prod.case ls b t(1) len op sum.case by (simp del: of_nat_mult)
qed

theorem dram_main_overreads_witness:
  "dram_main demo_log 2 4096 (2 ^ 32) (2 ^ 40) (demo_machine\<lparr>mapped := \<lambda>p. p \<noteq> page_of (2 ^ 40 + 4096)\<rparr>,
     w_sched demo_world, \<lparr>printed = [], buffered = []\<rparr>) = Some (Inl (Crashed (PageFault (2 ^ 40 + 4096))))"
proof -
  let ?m = "demo_machine\<lparr>mapped := \<lambda>p. p \<noteq> page_of (2 ^ 40 + 4096)\<rparr>"
  have "accessible ?m (2 ^ 32) (64 * 64)" "accessible ?m (2 ^ 40) (64 * 64)" by (rule accessible_hole; simp)+
  then show ?thesis
    using dram_main_overreads [of demo_log 512 64 ?m "2 ^ 32" "2 ^ 40" "w_sched demo_world" "\<lparr>printed = [], buffered = []\<rparr>"]
    by (simp add: demo_log_def)
qed

end
