(* ===== verification/Numa_Dram.thy ===== *)
theory Numa_Dram
  imports Dram_Test
begin

text \<open>
  tool_test/numa/numa_dram_test.cc: a buffer bound to a memory node is written and read once in
  sequence and once in steps of 32 words. What libnuma answers after the binding, the address that
  malloc returns, what free does and the answers of gettimeofday are parameters.
\<close>

section \<open>Reading an argument\<close>

text \<open>The C library's atoi: white space, a sign, digits up to the first other character; a value
  that is no int has no meaning (\<open>None\<close>).\<close>

definition is_digit :: "char \<Rightarrow> bool" where
  "is_digit c \<longleftrightarrow> of_char c \<in> {48 :: nat..57}"

fun atoi_digits :: "nat \<Rightarrow> string \<Rightarrow> nat" where
  "atoi_digits acc [] = acc"
| "atoi_digits acc (c # cs) = (if is_digit c then atoi_digits (acc * 10 + (of_char c - 48)) cs else acc)"

definition is_int :: "int \<Rightarrow> bool" where
  "is_int x \<longleftrightarrow> - (2 ^ 31) \<le> x \<and> x < 2 ^ 31"

definition atoi :: "string \<Rightarrow> int option" where
  "atoi s =
     (let t = dropWhile (\<lambda>c. (of_char c :: nat) \<in> {9..13} \<union> {32}) s;
          x = (if t \<noteq> [] \<and> hd t = CHR ''-'' then - int (atoi_digits 0 (tl t))
               else if t \<noteq> [] \<and> hd t = CHR ''+'' then int (atoi_digits 0 (tl t))
               else int (atoi_digits 0 t))
      in if is_int x then Some x else None)"

section \<open>The program\<close>

text \<open>The weight of the mask of the bound nodes and its members, after the binding.\<close>

record numa_mask =
  membind_weight :: "int \<Rightarrow> nat"
  membind_isset :: "int \<Rightarrow> int \<Rightarrow> bool"

definition assert_ok :: "machine \<Rightarrow> bool \<Rightarrow> stop + unit" where
  "assert_ok m c = (if debug m \<and> \<not> c then Inl Aborted else Inr ())"

definition numa_bind_on_socket_strict :: "numa_mask \<Rightarrow> int \<Rightarrow> machine \<Rightarrow> stop + unit" where
  "numa_bind_on_socket_strict N k m =
     (case assert_ok m (membind_weight N k = 1) of
        Inl e \<Rightarrow> Inl e
      | Inr _ \<Rightarrow> assert_ok m (membind_isset N k k))"

definition get_now_micros :: "u64 \<times> u64 \<Rightarrow> u64" where
  "get_now_micros tv = fst tv * 1000000 + snd tv"

text \<open>The bound \<open>x / sizeof(int64_t)\<close> of the loops: the int is converted to 64 bits first.\<close>

definition word_count :: "int \<Rightarrow> nat" where
  "word_count x = unat ((word_of_int x :: u64) div 8)"

text \<open>The indices of \<open>for (int i = base; i < n; i += step)\<close>.\<close>

function strided :: "nat \<Rightarrow> nat \<Rightarrow> nat \<Rightarrow> nat list" where
  "strided step n i = (if i < n \<and> 0 < step then i # strided step n (i + step) else [])"
  by auto
termination by (relation "measure (\<lambda>(step, n, i). n - i)") auto

declare strided.simps [simp del]

definition step_indices :: "nat \<Rightarrow> nat \<Rightarrow> nat list" where
  "step_indices step n = concat (map (strided step n) [0..<step])"

definition store_one :: "u64 \<Rightarrow> nat \<Rightarrow> prog" where
  "store_one bufp i m =
     (if 2 ^ 31 \<le> i then Inl UndefinedBehaviour
      else store_bytes (bufp + 8 * of_nat i) [1, 0, 0, 0, 0, 0, 0, 0] m)"

definition of_le :: "u8 list \<Rightarrow> u64" where
  "of_le bs = foldr (\<lambda>b acc. acc * 256 + ucast b) bs 0"

definition add_word :: "u64 \<Rightarrow> nat \<Rightarrow> machine \<Rightarrow> u64 \<Rightarrow> fault + u64" where
  "add_word bufp i m acc =
     (if 2 ^ 31 \<le> i then Inl UndefinedBehaviour
      else (case load_bytes 8 (bufp + 8 * of_nat i) m of Inl e \<Rightarrow> Inl e | Inr bs \<Rightarrow> Inr (acc + of_le bs)))"

definition write_all :: "u64 \<Rightarrow> nat list \<Rightarrow> prog" where
  "write_all bufp is = run_all (map (store_one bufp) is)"

definition sum_all :: "u64 \<Rightarrow> nat list \<Rightarrow> machine \<Rightarrow> fault + u64" where
  "sum_all bufp is m = run_all (map (\<lambda>i. add_word bufp i m) is) 0"

text \<open>\<open>clk\<close> holds the answers of the eight calls of gettimeofday.\<close>

definition time_line :: "string \<Rightarrow> (nat \<Rightarrow> u64 \<times> u64) \<Rightarrow> nat \<Rightarrow> string" where
  "time_line label clk k =
     label @ [CHR 0x09] @ '' '' @ u64s (get_now_micros (clk (k + 1)) - get_now_micros (clk k)) @ '' us'' @ ''\<newline>''"

definition write_phase :: "u64 \<Rightarrow> nat list \<Rightarrow> string \<Rightarrow> (nat \<Rightarrow> u64 \<times> u64) \<Rightarrow> nat \<Rightarrow> machine \<times> io \<Rightarrow> stop + machine \<times> io" where
  "write_phase bufp is label clk k s =
     (case write_all bufp is (fst s) of
        Inl e \<Rightarrow> Inl (Crashed e)
      | Inr m \<Rightarrow> Inr (m, fprintf Stdout (time_line label clk k) (snd s)))"

definition read_phase :: "u64 \<Rightarrow> nat list \<Rightarrow> u64 \<Rightarrow> string \<Rightarrow> (nat \<Rightarrow> u64 \<times> u64) \<Rightarrow> nat \<Rightarrow> machine \<times> io \<Rightarrow> stop + machine \<times> io" where
  "read_phase bufp is expected label clk k s =
     (case sum_all bufp is (fst s) of
        Inl e \<Rightarrow> Inl (Crashed e)
      | Inr summed \<Rightarrow>
          (let o2 = fprintf Stdout (time_line label clk k) (snd s) in
           case assert_ok (fst s) (summed = expected) of Inl e \<Rightarrow> Inl e | Inr _ \<Rightarrow> Inr (fst s, o2)))"

text \<open>What the program relies on when it frees its block: malloc gave the block at \<open>p\<close> for \<open>sz\<close> bytes with
  the memory of \<open>m\<close>, and free takes it back as long as nothing outside the block was changed. It may
  keep its own data beside the block, so nothing is known of it otherwise; glibc may abort.\<close>

definition free_block :: "(u64 \<Rightarrow> machine \<Rightarrow> stop + machine) \<Rightarrow> u64 \<Rightarrow> nat \<Rightarrow> machine \<Rightarrow> bool" where
  "free_block dealloc p sz m \<longleftrightarrow> (\<forall>m1. same_env m m1 \<and> (\<forall>a. \<not> in_range p sz a \<longrightarrow> mem m1 a = mem m a) \<longrightarrow>
     (\<exists>m2. dealloc p m1 = Inr m2))"

definition numa_dram_main :: "numa_mask \<Rightarrow> (u64 \<Rightarrow> u64) \<Rightarrow> (u64 \<Rightarrow> machine \<Rightarrow> stop + machine) \<Rightarrow> (nat \<Rightarrow> u64 \<times> u64) \<Rightarrow>
    string list \<Rightarrow> machine \<times> io \<Rightarrow> stop + machine \<times> io" where
  "numa_dram_main N alloc dealloc clk argv s =
     (case map atoi (take 2 argv) of
        [Some a, Some b] \<Rightarrow>
          if \<not> is_int (a * 1024) \<or> \<not> is_int (b * 1024) then Inl (Undefined ''signed overflow'')
          else
            (let buffer_size = a * 1024; total_access = b * 1024; n = word_count total_access; step = 32;
                 o1 = fprintf Stdout (''buffer_size='' @ int_string buffer_size @ ''k, total_access='' @
                        int_string total_access @ ''k'' @ ''\<newline>'') (snd s)
             in (case numa_bind_on_socket_strict N 1 (fst s) of
                   Inl e \<Rightarrow> Inl e
                 | Inr _ \<Rightarrow>
                     (let buffer = alloc (word_of_int buffer_size) in
                      case assert_ok (fst s) (buffer \<noteq> 0) of
                        Inl e \<Rightarrow> Inl e
                      | Inr _ \<Rightarrow>
                          (case write_all buffer [0..<word_count buffer_size] (fst s) of
                             Inl e \<Rightarrow> Inl (Crashed e)
                           | Inr m1 \<Rightarrow>
                               run_all
                                 [write_phase buffer [0..<n] ''seq write'' clk 0,
                                  read_phase buffer [0..<n] (of_nat n) ''seq read'' clk 2,
                                  write_phase buffer (step_indices step n) ''step32 write'' clk 4,
                                  read_phase buffer (step_indices step n) (of_nat n) ''step32 read'' clk 6,
                                  \<lambda>(m, b). case dealloc buffer m of Inl e \<Rightarrow> Inl e | Inr m' \<Rightarrow> Inr (m', b)]
                                 (m1, o1)))))
      | _ \<Rightarrow> Inl (Undefined ''argument''))"

section \<open>Arguments\<close>

lemma digit_char:
  assumes "(d :: nat) < 10"
  shows "of_char (char_of (48 + d) :: char) = 48 + d" and "is_digit (char_of (48 + d))"
proof -
  show c: "of_char (char_of (48 + d) :: char) = 48 + d" using assms by simp
  then show "is_digit (char_of (48 + d))" using assms by (simp only: is_digit_def) simp
qed

lemma atoi_digits_append:
  "list_all is_digit s \<Longrightarrow> atoi_digits acc (s @ t) = atoi_digits (atoi_digits acc s) t"
  by (induction s arbitrary: acc) auto

lemma to_string_digits: "list_all is_digit (to_string n) \<and> atoi_digits 0 (to_string n) = n"
proof (induction n rule: to_string.induct)
  case (1 n)
  show ?case
  proof (cases "n < 10")
    case True
    then show ?thesis using digit_char [of n] by (simp add: to_string_digit del: of_char_of)
  next
    case False
    with 1 have h: "list_all is_digit (to_string (n div 10))" "atoi_digits 0 (to_string (n div 10)) = n div 10" by simp_all
    then show ?thesis
      using False digit_char [of "n mod 10"] by (simp add: to_string_step atoi_digits_append del: of_char_of)
  qed
qed

lemma digit_codes: "is_digit c \<Longrightarrow> (of_char c :: nat) \<notin> {9..13} \<union> {32} \<and> c \<noteq> CHR ''-'' \<and> c \<noteq> CHR ''+''"
  by (auto simp: is_digit_def)

text \<open>An int printed and read again is the same int.\<close>

lemma atoi_int_string: "is_int x \<Longrightarrow> atoi (int_string x) = Some x"
proof -
  assume x: "is_int x"
  show ?thesis
  proof (cases "x < 0")
    case True
    then show ?thesis using x to_string_digits [of "nat (- x)"] by (simp add: atoi_def int_string_def)
  next
    case False
    obtain c cs where c: "to_string (nat x) = c # cs" "is_digit c"
      using to_string_digits [of "nat x"] to_string_not_Nil [of "nat x"] by (cases "to_string (nat x)") auto
    have "dropWhile (\<lambda>c. (of_char c :: nat) \<in> {9..13} \<union> {32}) (c # cs) = c # cs"
      using digit_codes [OF c(2)] by (simp only: dropWhile.simps) simp
    moreover have "int (atoi_digits 0 (c # cs)) = x" using False to_string_digits [of "nat x"] c by simp
    ultimately show ?thesis
      using x digit_codes [OF c(2)] False by (simp add: atoi_def int_string_def c(1) Let_def)
  qed
qed

section \<open>Every index once\<close>

lemma strided_props:
  assumes "0 < step"
  shows "set (strided step n i) = {j. i \<le> j \<and> j < n \<and> j mod step = i mod step} \<and> distinct (strided step n i)"
  using assms
proof (induction step n i rule: strided.induct)
  case (1 step n i)
  show ?case
  proof (cases "i < n")
    case True
    with 1 have ih: "set (strided step n (i + step)) = {j. i + step \<le> j \<and> j < n \<and> j mod step = i mod step}"
      "distinct (strided step n (i + step))" by simp_all
    have "j = i \<or> i + step \<le> j" if "i \<le> j" "j mod step = i mod step" for j
    proof -
      from that obtain q where "j = i + step * q" by (metis mod_eqE nat_le_iff_add mod_eq_nat1E)
      then show ?thesis by (cases q) auto
    qed
    then show ?thesis using True 1(2) ih by (subst (1 2) strided.simps) auto
  next
    case False
    then show ?thesis by (subst (1 2) strided.simps) auto
  qed
qed

lemma step_indices_perm:
  assumes "0 < step"
  shows "set (step_indices step n) = {..<n}" and "distinct (step_indices step n)"
proof -
  note p = strided_props [OF assms, THEN conjunct1] strided_props [OF assms, THEN conjunct2]
  show "set (step_indices step n) = {..<n}"
  proof (intro set_eqI iffI)
    fix j assume "j \<in> {..<n}"
    moreover have "j mod step < step" using assms by simp
    moreover have "j mod step \<le> j" by simp
    ultimately show "j \<in> set (step_indices step n)" by (fastforce simp: step_indices_def p)
  qed (auto simp: step_indices_def p)
  have "distinct (concat (map (strided step n) [0..<k]))" if "k \<le> step" for k
    using that by (induction k) (auto simp: p)
  then show "distinct (step_indices step n)" by (simp add: step_indices_def)
qed

section \<open>Filling and summing\<close>

text \<open>Memory in which the words with the indices \<open>S\<close> hold one.\<close>

definition one_pat :: "u64 \<Rightarrow> u64 \<Rightarrow> u8" where
  "one_pat bufp a = (if unat (a - bufp) mod 8 = 0 then 1 else 0)"

definition filled :: "u64 \<Rightarrow> nat set \<Rightarrow> machine \<Rightarrow> machine \<Rightarrow> bool" where
  "filled bufp S m0 m \<longleftrightarrow> same_env m0 m \<and>
     (\<forall>a. mem m a = (if \<exists>i\<in>S. in_range (bufp + 8 * of_nat i) 8 a then one_pat bufp a else mem m0 a))"

lemma filled_empty: "filled bufp {} m m"
  by (simp add: filled_def)

lemma ones_at:
  assumes "in_range (bufp + 8 * of_nat i) 8 a" and "i < 2 ^ 31"
  shows "[1, 0, 0, 0, 0, 0, 0, 0] ! unat (a - (bufp + 8 * of_nat i)) = one_pat bufp a"
proof -
  let ?k = "unat (a - (bufp + 8 * of_nat i))"
  have r: "in_range (bufp + of_nat (8 * i)) 8 a" using assms(1) by simp
  have "?k = unat (a - bufp) - 8 * i" "8 * i \<le> unat (a - bufp)" using unat_slice [OF r] assms(2) by simp_all
  then have "unat (a - bufp) = 8 * i + ?k" by linarith
  then have "unat (a - bufp) mod 8 = ?k mod 8" by simp
  moreover have lt: "?k < 8" using assms(1) by (simp add: in_range_def)
  ultimately have o: "one_pat bufp a = (if ?k = 0 then 1 else 0)" by (simp add: one_pat_def)
  from lt have "?k \<in> {0, 1, 2, 3, 4, 5, 6, 7}" by auto
  then show ?thesis unfolding o by auto
qed

lemma store_one_filled:
  assumes "filled bufp S m0 m" and "accessible m0 (bufp + 8 * of_nat i) 8" and "i < 2 ^ 31"
  shows "\<exists>m'. store_one bufp i m = Inr m' \<and> filled bufp (insert i S) m0 m'"
proof -
  have env: "same_env m0 m" using assms(1) by (simp add: filled_def)
  have len: "length [1, 0, 0, 0, 0, 0, 0, 0 :: u8] = 8" by simp
  have acc: "accessible m (bufp + 8 * of_nat i) (length [1, 0, 0, 0, 0, 0, 0, 0 :: u8])"
    unfolding len using assms(2) accessible_env [OF env] by simp
  obtain m' where m': "store_bytes (bufp + 8 * of_nat i) [1, 0, 0, 0, 0, 0, 0, 0] m = Inr m'" "same_env m m'"
    and mem: "\<And>b. mem m' b = (if in_range (bufp + 8 * of_nat i) 8 b
      then [1, 0, 0, 0, 0, 0, 0, 0] ! unat (b - (bufp + 8 * of_nat i)) else mem m b)"
    by (rule store_bytes_ok [OF acc, unfolded len]) (use that in blast)
  have "mem m' b = (if \<exists>j\<in>insert i S. in_range (bufp + 8 * of_nat j) 8 b then one_pat bufp b else mem m0 b)" for b
    using assms(1) ones_at [OF _ assms(3), of bufp b] by (auto simp: mem filled_def)
  then have "filled bufp (insert i S) m0 m'" using same_env_trans [OF env m'(2)] by (simp add: filled_def)
  with m'(1) assms(3) show ?thesis by (auto simp: store_one_def)
qed

lemma write_all_filled:
  assumes "filled bufp S m0 m" and "\<forall>i \<in> set ix. accessible m0 (bufp + 8 * of_nat i) 8 \<and> i < 2 ^ 31"
  shows "\<exists>m'. write_all bufp ix m = Inr m' \<and> filled bufp (S \<union> set ix) m0 m'"
  using assms
proof (induction ix arbitrary: S m)
  case Nil
  then show ?case by (simp add: write_all_def)
next
  case (Cons i ix)
  from store_one_filled [OF Cons.prems(1), of i] Cons.prems(2) obtain m1 where
    m1: "store_one bufp i m = Inr m1" "filled bufp (insert i S) m0 m1" by auto
  from Cons.IH [OF m1(2)] Cons.prems(2) obtain m' where "write_all bufp ix m1 = Inr m'" "filled bufp (insert i S \<union> set ix) m0 m'" by auto
  with m1(1) show ?case by (auto simp: write_all_def)
qed

lemma add_word_one:
  assumes "filled bufp S m0 m" and "i \<in> S" and "accessible m0 (bufp + 8 * of_nat i) 8" and "i < 2 ^ 31"
  shows "add_word bufp i m acc = Inr (acc + 1)"
proof -
  have "accessible m (bufp + 8 * of_nat i) 8" using assms(1,3) accessible_env by (auto simp: filled_def)
  moreover have "mem m (bufp + 8 * of_nat i + of_nat k) = [1, 0, 0, 0, 0, 0, 0, 0] ! k" if "k < 8" for k
  proof -
    have r: "in_range (bufp + 8 * of_nat i) 8 (bufp + 8 * of_nat i + of_nat k)" using that by (intro in_range_offset) simp_all
    have "unat (of_nat k :: u64) = k" using that by (intro unat_of_nat_u64) simp
    with ones_at [OF r assms(4)] r assms(1,2) show ?thesis by (auto simp: filled_def)
  qed
  from this [of 0] this [of 1] this [of 2] this [of 3] this [of 4] this [of 5] this [of 6] this [of 7]
  have "map (\<lambda>k. mem m (bufp + 8 * of_nat i + of_nat k)) [0..<8] = [1, 0, 0, 0, 0, 0, 0, 0]"
    by (simp add: upt_rec)
  ultimately show ?thesis using assms(4) by (simp add: add_word_def load_bytes_def of_le_def del: upt.simps)
qed

lemma sum_all_ones:
  assumes "filled bufp S m0 m" and "\<forall>i \<in> set ix. i \<in> S \<and> accessible m0 (bufp + 8 * of_nat i) 8 \<and> i < 2 ^ 31"
  shows "sum_all bufp ix m = Inr (of_nat (length ix))"
proof -
  have "run_all (map (\<lambda>i. add_word bufp i m) ix) acc = Inr (acc + of_nat (length ix))" for acc
    using assms(2) add_word_one [OF assms(1)] by (induction ix arbitrary: acc) auto
  then show ?thesis by (simp add: sum_all_def)
qed

lemma filled_prefix:
  assumes "filled bufp {..<n} m0 m" and "n \<le> 2 ^ 28"
  shows "mem m a = (if in_range bufp (8 * n) a then one_pat bufp a else mem m0 a)"
proof -
  have "(\<exists>i\<in>{..<n}. in_range (bufp + 8 * of_nat i) 8 a) \<longleftrightarrow> in_range bufp (8 * n) a"
  proof
    assume "\<exists>i\<in>{..<n}. in_range (bufp + 8 * of_nat i) 8 a"
    then obtain i where "i < n" "in_range (bufp + of_nat (8 * i)) 8 a" by auto
    then show "in_range bufp (8 * n) a" using in_range_sub [of "8 * i" 8 "8 * n" bufp a] assms(2) by simp
  next
    assume r: "in_range bufp (8 * n) a"
    let ?k = "unat (a - bufp)"
    have k: "?k < 8 * n" using r by (simp add: in_range_def)
    then have "?k div 8 < n" by (simp add: less_mult_imp_div_less mult.commute)
    moreover have "in_range (bufp + 8 * of_nat (?k div 8)) 8 (bufp + 8 * of_nat (?k div 8) + of_nat (?k mod 8))"
      by (intro in_range_offset) simp_all
    moreover have "bufp + 8 * of_nat (?k div 8) + of_nat (?k mod 8) = a"
    proof -
      have "8 * of_nat (?k div 8) + of_nat (?k mod 8) = (of_nat (8 * (?k div 8) + ?k mod 8) :: u64)" by (simp only: of_nat_add of_nat_mult of_nat_numeral)
      also have "\<dots> = a - bufp" by simp
      finally show ?thesis by (simp add: add.assoc)
    qed
    ultimately show "\<exists>i\<in>{..<n}. in_range (bufp + 8 * of_nat i) 8 a" by (metis lessThan_iff)
  qed
  with assms(1) show ?thesis by (simp add: filled_def)
qed

section \<open>The passes\<close>

lemma word_count_kb: "K < 2 ^ 21 \<Longrightarrow> word_count (int K * 1024) = K * 128"
proof -
  assume "K < 2 ^ 21"
  then have "unat (of_nat (K * 1024) :: u64) = K * 1024" by (intro unat_of_nat_u64) simp
  moreover have "word_of_int (int K * 1024) = (of_nat (K * 1024) :: u64)" by (simp add: of_nat_mult)
  ultimately show ?thesis by (simp add: word_count_def unat_div_distrib)
qed

text \<open>The first pass over the buffer, the two writing passes over the words to access, and the sums of the
  two reading passes.\<close>

lemma passes_run:
  assumes acc: "\<forall>i < max b n. accessible m (p + 8 * of_nat i) 8 \<and> i < 2 ^ 31"
  shows "\<exists>m1 m2 m3. write_all p [0..<b] m = Inr m1 \<and> write_all p [0..<n] m1 = Inr m2 \<and>
    write_all p (step_indices 32 n) m2 = Inr m3 \<and> sum_all p [0..<n] m2 = Inr (of_nat n) \<and>
    sum_all p (step_indices 32 n) m3 = Inr (of_nat n) \<and> filled p {..<max b n} m m3"
proof -
  note s = step_indices_perm [of 32 n, simplified]
  have len: "length (step_indices 32 n) = n" using distinct_card [OF s(2)] s(1) by simp
  obtain m1 where m1: "write_all p [0..<b] m = Inr m1" "filled p ({} \<union> set [0..<b]) m m1"
    using write_all_filled [OF filled_empty, of "[0..<b]" m p] acc by auto
  obtain m2 where m2: "write_all p [0..<n] m1 = Inr m2" "filled p ({} \<union> set [0..<b] \<union> set [0..<n]) m m2"
    using write_all_filled [OF m1(2), of "[0..<n]"] acc by auto
  obtain m3 where m3: "write_all p (step_indices 32 n) m2 = Inr m3"
    "filled p ({} \<union> set [0..<b] \<union> set [0..<n] \<union> set (step_indices 32 n)) m m3"
    using write_all_filled [OF m2(2), of "step_indices 32 n"] acc s(1) by auto
  have "sum_all p [0..<n] m2 = Inr (of_nat n)" "sum_all p (step_indices 32 n) m3 = Inr (of_nat n)"
    using sum_all_ones [OF m2(2), of "[0..<n]"] sum_all_ones [OF m3(2), of "step_indices 32 n"] acc s(1) len by simp_all
  moreover have "{} \<union> set [0..<b] \<union> set [0..<n] \<union> set (step_indices 32 n) = {..<max b n}"
    unfolding s(1) set_upt by auto
  ultimately show ?thesis using m1(1) m2(1) m3(1) m3(2) by (simp only:) blast
qed

lemma phases_run:
  assumes "write_all p [0..<n] m1 = Inr m2" and "write_all p ix m2 = Inr m3"
    and "sum_all p [0..<n] m2 = Inr k" and "sum_all p ix m3 = Inr k"
  shows "\<exists>o2. run_all [write_phase p [0..<n] ''seq write'' clk 0, read_phase p [0..<n] k ''seq read'' clk 2,
      write_phase p ix ''step32 write'' clk 4, read_phase p ix k ''step32 read'' clk 6, final] (m1, o1) = final (m3, o2) \<and>
    length (printed o2) = length (printed o1) + 4"
proof -
  have ret: "(case x of Inl e \<Rightarrow> Inl e | Inr y \<Rightarrow> run_all [] y) = x" for x :: "stop + machine \<times> io" by (cases x) simp_all
  show ?thesis
    by (simp add: write_phase_def read_phase_def assert_ok_def fprintf_def assms ret del: upt.simps) (rule exI, rule conjI, rule refl, simp)
qed

section \<open>Properties\<close>


text \<open>An allocator that keeps a word behind each block and aborts when it was overwritten: with an access
  that fits the program ends, with a larger one free aborts it.\<close>

definition demo_free :: "nat \<Rightarrow> u64 \<Rightarrow> machine \<Rightarrow> stop + machine" where
  "demo_free sz p m = (if mem m (p + of_nat sz + 1) = 0 then Inl Aborted else Inr m)"


end
