(* ===== verification/File_Rw.thy ===== *)
theory File_Rw
  imports HLFS_Prelude
begin

text \<open>
  tool_test/glibc/file_rw.cc: one file opened twice, written through the first descriptor, then
  written and read through the second. Here the files have contents, and each descriptor has an
  offset of its own.
\<close>

section \<open>Files with contents\<close>

record rwsys =
  contents :: "string \<Rightarrow> u8 list option"
  descs :: "(int \<times> string \<times> nat) list"     \<comment> \<open>descriptor, file, offset\<close>
  space :: nat                              \<comment> \<open>bytes by which files can still grow\<close>
  dir_writable :: bool

definition next_fd :: "rwsys \<Rightarrow> int" where
  "next_fd s = hd (filter (\<lambda>i. i \<notin> fst ` set (descs s)) [3..4 + int (length (descs s))])"

text \<open>\<open>open(path, O_RDWR | O_CREAT | O_EXCL, ...)\<close>\<close>

definition open_excl :: "string \<Rightarrow> rwsys \<Rightarrow> int \<times> rwsys" where
  "open_excl path s =
     (if contents s path \<noteq> None \<or> \<not> dir_writable s then (- 1, s)
      else (next_fd s, s\<lparr>contents := (contents s)(path := Some []), descs := (next_fd s, path, 0) # descs s\<rparr>))"

text \<open>\<open>open(path, O_RDWR)\<close>\<close>

definition open_rdwr :: "string \<Rightarrow> rwsys \<Rightarrow> int \<times> rwsys" where
  "open_rdwr path s =
     (case contents s path of
        None \<Rightarrow> (- 1, s)
      | Some _ \<Rightarrow> (next_fd s, s\<lparr>descs := (next_fd s, path, 0) # descs s\<rparr>))"

definition set_off :: "int \<Rightarrow> nat \<Rightarrow> (int \<times> string \<times> nat) list \<Rightarrow> (int \<times> string \<times> nat) list" where
  "set_off fd k ds = map (\<lambda>(d, p, n). if d = fd then (d, p, k) else (d, p, n)) ds"

text \<open>write stores what fits on the medium and answers how much that was; it fails when nothing fits.\<close>

definition sys_write :: "int \<Rightarrow> u8 list \<Rightarrow> rwsys \<Rightarrow> int \<times> rwsys" where
  "sys_write fd bs s =
     (case map_of (descs s) fd of
        None \<Rightarrow> (- 1, s)
      | Some (p, off) \<Rightarrow>
          (case contents s p of
             None \<Rightarrow> (- 1, s)
           | Some c \<Rightarrow>
               (let n = min (length bs) (length c + space s - off) in
                if bs \<noteq> [] \<and> n = 0 then (- 1, s)
                else
                  (let c' = take off (c @ replicate (off - length c) 0) @ take n bs @ drop (off + n) c in
                   (int n, s\<lparr>contents := (contents s)(p := Some c'), descs := set_off fd (off + n) (descs s),
                              space := space s - (length c' - length c)\<rparr>)))))"

definition lseek_set :: "int \<Rightarrow> nat \<Rightarrow> rwsys \<Rightarrow> int \<times> rwsys" where
  "lseek_set fd k s =
     (if map_of (descs s) fd = None then (- 1, s) else (int k, s\<lparr>descs := set_off fd k (descs s)\<rparr>))"

definition sys_read :: "int \<Rightarrow> nat \<Rightarrow> rwsys \<Rightarrow> int \<times> u8 list \<times> rwsys" where
  "sys_read fd n s =
     (case map_of (descs s) fd of
        None \<Rightarrow> (- 1, [], s)
      | Some (p, off) \<Rightarrow>
          (case contents s p of
             None \<Rightarrow> (- 1, [], s)
           | Some c \<Rightarrow>
               (let bs = take n (drop off c) in
                (int (length bs), bs, s\<lparr>descs := set_off fd (off + length bs) (descs s)\<rparr>))))"

definition close_fd :: "int \<Rightarrow> rwsys \<Rightarrow> rwsys" where
  "close_fd fd s = s\<lparr>descs := filter (\<lambda>e. fst e \<noteq> fd) (descs s)\<rparr>"

section \<open>The program\<close>

text \<open>\<open>%x\<close> of a char, promoted to int.\<close>

fun hex :: "nat \<Rightarrow> string" where
  "hex n = (if n < 16 then [''0123456789abcdef'' ! n] else hex (n div 16) @ [''0123456789abcdef'' ! (n mod 16)])"

declare hex.simps [simp del]

definition hex_char :: "u8 \<Rightarrow> string" where
  "hex_char b = ''0x'' @ hex (unat (scast b :: u32))"

definition test_file :: string where
  "test_file = ''./test_file''"

text \<open>The process ends with the argument of exit, the files and what it printed. The statements
  behind the labels err2 and err1 close the second descriptor, then the first.\<close>

definition err1 :: "int \<Rightarrow> int \<Rightarrow> rwsys \<Rightarrow> string list \<Rightarrow> int \<times> rwsys \<times> string list" where
  "err1 fd1 ret s out = (ret, close_fd fd1 s, out)"

definition err2 :: "int \<Rightarrow> int \<Rightarrow> int \<Rightarrow> rwsys \<Rightarrow> string list \<Rightarrow> int \<times> rwsys \<times> string list" where
  "err2 fd1 fd2 ret s out = err1 fd1 ret (close_fd fd2 s) out"

definition file_rw_main :: "rwsys \<Rightarrow> int \<times> rwsys \<times> string list" where
  "file_rw_main s =
     (let (fd1, s1) = open_excl test_file s in
      if fd1 = - 1 then (- 1, s1, [])
      else
        (let (fd2, s2) = open_rdwr test_file s1 in
         if fd2 = - 1 then err1 fd1 (- 1) s2 []
         else
           (let buffer = [0x11, 0x22, 0x33, 0x44]; (ret, s3) = sys_write fd1 buffer s2 in
            if ret = - 1 then err2 fd1 fd2 ret s3 []
            else
              (let (ret, s4) = lseek_set fd2 0 s3 in
               if ret = - 1 then err2 fd1 fd2 ret s4 []
               else
                 (let buffer = [0x00, 0x00] @ drop 2 buffer; (ret, s5) = sys_write fd2 (take 2 buffer) s4 in
                  if ret = - 1 then err2 fd1 fd2 ret s5 []
                  else
                    (let (ret, bs, s6) = sys_read fd2 2 s5 in
                     if ret = - 1 then err2 fd1 fd2 ret s6 []
                     else
                       (let buffer = bs @ drop (length bs) buffer in
                        err2 fd1 fd2 0 s6
                          [hex_char (buffer ! 0) @ '' '' @ hex_char (buffer ! 1) @ '' '' @ hex_char (buffer ! 2) @ '' '' @
                           hex_char (buffer ! 3) @ ''\<newline>'']))))))) "

section \<open>Lemmas\<close>

lemma next_fd_fresh: "3 \<le> next_fd s \<and> next_fd s \<notin> fst ` set (descs s)"
proof -
  let ?l = "filter (\<lambda>i. i \<notin> fst ` set (descs s)) [3..4 + int (length (descs s))]"
  have "?l \<noteq> []"
  proof
    assume "?l = []"
    then have "set [3..4 + int (length (descs s))] \<subseteq> fst ` set (descs s)" by (auto simp: filter_empty_conv)
    then have "card {3..4 + int (length (descs s))} \<le> card (fst ` set (descs s))" by (intro card_mono) simp_all
    also have "\<dots> \<le> length (descs s)" by (metis card_image_le card_length le_trans list.set_map length_map)
    finally show False by simp
  qed
  then have "hd ?l \<in> set ?l" by (rule hd_in_set)
  then show ?thesis by (simp add: next_fd_def)
qed

text \<open>The program's two descriptors.\<close>

lemma two_fds:
  obtains a b where "next_fd s = a" and "3 \<le> a" and "3 \<le> b" and "b \<noteq> a" and "a \<notin> fst ` set (descs s)" and "b \<notin> fst ` set (descs s)"
    and "\<And>c. next_fd (s\<lparr>contents := c, descs := (a, test_file, 0) # descs s\<rparr>) = b"
proof -
  let ?t = "\<lambda>c. s\<lparr>contents := c, descs := (next_fd s, test_file, 0) # descs s\<rparr>"
  have "next_fd (?t c) = next_fd (?t d)" for c d by (simp add: next_fd_def)
  then show thesis
    using that [of "next_fd s" "next_fd (?t Map.empty)"] next_fd_fresh [of s] next_fd_fresh [of "?t Map.empty"] by simp
qed

lemma others_kept: "fd \<notin> fst ` set ds \<Longrightarrow> set_off fd k ds = ds \<and> filter (\<lambda>e. fst e \<noteq> fd) ds = ds"
  unfolding set_off_def by (induction ds) auto

lemma set_off_Cons: "set_off fd k ((d, p, n) # ds) = (if d = fd then (d, p, k) else (d, p, n)) # set_off fd k ds"
  by (simp add: set_off_def)

lemma hex_values: "hex_char 0 = ''0x0''" "hex_char 0x33 = ''0x33''" "hex_char 0x44 = ''0x44''"
  by (simp_all add: hex_char_def hex.simps signed_take_bit_def)

definition print_bytes :: "u8 \<Rightarrow> u8 \<Rightarrow> string" where
  "print_bytes b0 b1 = hex_char b0 @ '' '' @ hex_char b1 @ '' 0x33 0x44'' @ ''\<newline>''"

text \<open>A run on a directory in which the file can be created, by the room on the medium.\<close>

lemma file_rw_room:
  assumes new: "contents s test_file = None" "dir_writable s" and c: "(n, c, b0, b1) \<in> {(1, [0], 0, 0), (2, [0, 0], 0, 0),
    (3, [0, 0, 0x33], 0x33, 0), (4, [0, 0, 0x33, 0x44], 0x33, 0x44)}" and n: "n = min 4 (space s)"
  shows "file_rw_main s = (0, s\<lparr>contents := (contents s)(test_file := Some c), space := space s - n\<rparr>, [print_bytes b0 b1])"
proof -
  obtain a b where f: "next_fd s = a" "3 \<le> a" "3 \<le> b" "b \<noteq> a" "a \<notin> fst ` set (descs s)" "b \<notin> fst ` set (descs s)"
    "\<And>c. next_fd (s\<lparr>contents := c, descs := (a, test_file, 0) # descs s\<rparr>) = b" by (rule two_fds [of s], rule that)
  note k = others_kept [OF f(5)] others_kept [OF f(6)]
  have "n = 1 \<and> space s = 1 \<or> n = 2 \<and> space s = 2 \<or> n = 3 \<and> space s = 3 \<or> n = 4 \<and> 4 \<le> space s"
    using n c by auto
  then show ?thesis
    using c new f(2,3,4) k
    by (auto simp: file_rw_main_def Let_def open_excl_def open_rdwr_def sys_write_def lseek_set_def sys_read_def err1_def err2_def
        close_fd_def f(1,7) set_off_Cons print_bytes_def hex_values numeral_eq_Suc)
qed

lemma file_rw_refused: "contents s test_file \<noteq> None \<or> \<not> dir_writable s \<Longrightarrow> file_rw_main s = (- 1, s, [])"
  by (simp add: file_rw_main_def open_excl_def)

lemma file_rw_full:
  assumes "contents s test_file = None" and "dir_writable s" and "space s = 0"
  shows "file_rw_main s = (- 1, s\<lparr>contents := (contents s)(test_file := Some [])\<rparr>, [])"
proof -
  obtain a b where f: "next_fd s = a" "3 \<le> a" "3 \<le> b" "b \<noteq> a" "a \<notin> fst ` set (descs s)" "b \<notin> fst ` set (descs s)"
    "\<And>c. next_fd (s\<lparr>contents := c, descs := (a, test_file, 0) # descs s\<rparr>) = b" by (rule two_fds [of s], rule that)
  from assms f(2-4) others_kept [OF f(5)] others_kept [OF f(6)] show ?thesis
    by (simp add: file_rw_main_def Let_def open_excl_def open_rdwr_def sys_write_def err1_def err2_def close_fd_def f(1,7) del: filter_filter)
qed

lemma file_rw_fresh:
  assumes "contents s test_file = None" and "dir_writable s"
  shows "file_rw_main s =
     (let outcome = \<lambda>c room b0 b1. (0, s\<lparr>contents := (contents s)(test_file := Some c), space := room\<rparr>, [print_bytes b0 b1]) in
      if space s = 0 then (- 1, s\<lparr>contents := (contents s)(test_file := Some [])\<rparr>, [])
      else if space s = 1 then outcome [0] 0 0 0
      else if space s = 2 then outcome [0, 0] 0 0 0
      else if space s = 3 then outcome [0, 0, 0x33] 0 0x33 0
      else outcome [0, 0, 0x33, 0x44] (space s - 4) 0x33 0x44)"
  using file_rw_full [OF assms] file_rw_room [OF assms, of 1] file_rw_room [OF assms, of 2] file_rw_room [OF assms, of 3]
    file_rw_room [OF assms, of 4] by (auto simp: Let_def)

section \<open>Properties\<close>

text \<open>C36: Two descriptors of one file share its contents and not the offset. Whatever happens, the
  program leaves no descriptor open. Where the file exists it stops with -1 and changes nothing,
  so it runs once. On a fresh directory with room for four bytes it prints what it read back,
  33 and 44; with less room it goes on after a short write and still reports success; with no
  room it fails and leaves an empty file.\<close>

theorem file_rw_outcomes:
  "descs (fst (snd (file_rw_main s))) = descs s \<and>
   (contents s test_file \<noteq> None \<longrightarrow> file_rw_main s = (- 1, s, [])) \<and>
   (contents s test_file = None \<and> dir_writable s \<longrightarrow>
     (let outcome = \<lambda>c room b0 b1. (0, s\<lparr>contents := (contents s)(test_file := Some c), space := room\<rparr>, [print_bytes b0 b1]) in
      file_rw_main s =
       (if space s = 0 then (- 1, s\<lparr>contents := (contents s)(test_file := Some [])\<rparr>, [])
        else if space s = 1 then outcome [0] 0 0 0
        else if space s = 2 then outcome [0, 0] 0 0 0
        else if space s = 3 then outcome [0, 0, 0x33] 0 0x33 0
        else outcome [0, 0, 0x33, 0x44] (space s - 4) 0x33 0x44)))"
proof (cases "contents s test_file = None \<and> dir_writable s")
  case True
  then have new: "contents s test_file = None" "dir_writable s" by simp_all
  show ?thesis using new by (simp add: file_rw_fresh [OF new] Let_def)
next
  case False
  then show ?thesis using file_rw_refused [of s] by auto
qed

theorem file_rw_outcomes_witness:
  "file_rw_main \<lparr>contents = Map.empty, descs = [], space = 100, dir_writable = True\<rparr> =
     (0, \<lparr>contents = [test_file \<mapsto> [0, 0, 0x33, 0x44]], descs = [], space = 96, dir_writable = True\<rparr>,
      [''0x33 0x44 0x33 0x44'' @ ''\<newline>''])"
  using file_rw_outcomes [of "\<lparr>contents = Map.empty, descs = [], space = 100, dir_writable = True\<rparr>"]
  by (simp add: print_bytes_def hex_values)

end
