(* ===== verification/Core_Test.thy ===== *)
theory Core_Test
  imports Dram_Test File_Rw
begin

text \<open>
  tool_test/numa/core_bind.cc: for each core the program binds itself to it, sets a scheduling
  policy and priority, asks for both again, and keeps the core busy. The processor's answers to cpuid and
  what the system says about its cores and priorities are parameters; the bindings are those of
  the model of util/cpu.cc.
\<close>

section \<open>Processor identification\<close>

type_synonym cpuid_fn = "u32 \<Rightarrow> u32 \<Rightarrow> u32 list"   \<comment> \<open>function, subfunction: eax, ebx, ecx, edx\<close>

definition EAX_IDX :: nat where "EAX_IDX = 0"
definition ECX_IDX :: nat where "ECX_IDX = 2"

definition is_cpu_feature_present :: "cpuid_fn \<Rightarrow> u32 \<Rightarrow> nat \<Rightarrow> u32 \<Rightarrow> int" where
  "is_cpu_feature_present cpuid func reg b =
     (let cpuinfo = cpuid 0 0 in
      if cpuinfo ! EAX_IDX < func then 0
      else (let cpuinfo = cpuid func 0 in if (cpuinfo ! reg) AND b \<noteq> 0 then 1 else 0))"

definition bit_MOVDIR64B :: u32 where
  "bit_MOVDIR64B = push_bit 28 1"

text \<open>\<open>%08lx\<close>\<close>

definition hex8 :: "u32 \<Rightarrow> string" where
  "hex8 x = (let s = hex (unat x) in replicate (8 - length s) CHR ''0'' @ s)"

text \<open>The second component is what the call leaves in the buffer; \<open>None\<close> leaves it as it was.\<close>

definition getcpuid :: "cpuid_fn \<Rightarrow> io \<Rightarrow> int \<times> string option \<times> io" where
  "getcpuid cpuid o1 =
     (let maxi = (cpuid 0 0 ! EAX_IDX) AND 0xffff in
      if maxi < 3 then (- 1, None, o1)
      else (let r = cpuid 3 0; s = hex8 (r ! 0) @ '' '' @ hex8 (r ! 1) @ '' '' @ hex8 (r ! 2) @ '' '' @ hex8 (r ! 3)
            in (0, Some s, fprintf Stdout (''get cpu id: '' @ s @ ''\<newline>'') o1)))"

section \<open>The program\<close>

record cores =
  cpuid_of :: cpuid_fn
  conf_cores :: "int \<times> int"     \<comment> \<open>sysconf and get_nprocs_conf\<close>
  onln_cores :: "int \<times> int"     \<comment> \<open>sysconf and get_nprocs\<close>
  prio_max :: int
  prio_min :: int
  realtime :: bool              \<comment> \<open>the process may use a real-time policy\<close>
  asserts :: bool               \<comment> \<open>built without NDEBUG\<close>

definition SCHED_RR :: int where "SCHED_RR = 2"
definition EPERM :: int where "EPERM = 1"

text \<open>The scheduling of the calling thread: policy and priority.\<close>

definition pthread_setschedparam :: "cores \<Rightarrow> int \<Rightarrow> int \<Rightarrow> int \<times> int \<Rightarrow> int \<times> (int \<times> int)" where
  "pthread_setschedparam E policy priority q =
     (if \<not> realtime E then (EPERM, q)
      else if priority < prio_min E \<or> prio_max E < priority then (Cpu.EINVAL, q)
      else (0, (policy, priority)))"

definition check :: "cores \<Rightarrow> bool \<Rightarrow> 's \<Rightarrow> stop + 's" where
  "check E c s = (if asserts E \<and> \<not> c then Inl Aborted else Inr s)"

fun mul_loop :: "nat \<Rightarrow> int \<Rightarrow> int option" where
  "mul_loop 0 mul = Some mul"
| "mul_loop (Suc k) mul =
     (if - (2 ^ 31) \<le> mul * mul \<and> mul * mul < 2 ^ 31 then mul_loop k (mul * mul) else None)"

text \<open>The quotient of two ints is rounded towards zero.\<close>

definition priority_of :: "cores \<Rightarrow> int" where
  "priority_of E = (let x = prio_max E + prio_min E in if x < 0 then - (- x div 2) else x div 2)"

text \<open>One round; \<open>self\<close> is the calling thread.\<close>

definition bind_round :: "cores \<Rightarrow> nat \<Rightarrow> nat \<Rightarrow> sched \<times> (int \<times> int) \<times> io \<Rightarrow> stop + sched \<times> (int \<times> int) \<times> io" where
  "bind_round E self i s =
     (let (w, q, o1) = s;
          priority = priority_of E;
          cpuset = CPU_SET i CPU_ZERO;
          (ret_error, w1) = pthread_setaffinity_np self cpuset w
      in case check E (ret_error = 0) () of
           Inl e \<Rightarrow> Inl e
         | Inr _ \<Rightarrow>
             (let (ret_error, q1) = pthread_setschedparam E SCHED_RR priority q in
              case check E (ret_error = 0) () of
                Inl e \<Rightarrow> Inl e
              | Inr _ \<Rightarrow>
                  (let set_cores = filter (affinity w1 self) [0..<CPU_SETSIZE];
                       core_num = length set_cores;
                       core_id = (if set_cores = [] then - 1 else int (last set_cores))
                   in case check E (core_num = 1 \<and> core_id = int i \<and> fst q1 = SCHED_RR \<and> snd q1 = priority) () of
                        Inl e \<Rightarrow> Inl e
                      | Inr _ \<Rightarrow>
                          (case mul_loop 400000000 2 of
                             None \<Rightarrow> Inl (Undefined ''signed overflow'')
                           | Some _ \<Rightarrow>
                               (let (r, known, o2) = getcpuid (cpuid_of E) o1 in
                                case known of
                                  None \<Rightarrow> Inl (Undefined ''uninitialised string'')
                                | Some text \<Rightarrow>
                                    Inr (w1, q1, foldl (\<lambda>b l. fprintf Stdout l b) o2
                                      [''return: '' @ int_string r @ ''\<newline>'', ''getcpuid:'' @ text @ ''\<newline>'',
                                       ''sched_getcpu:'' @ to_string i @ ''\<newline>'']))))))"

definition core_bind_main :: "cores \<Rightarrow> nat \<Rightarrow> sched \<times> (int \<times> int) \<times> io \<Rightarrow> stop + sched \<times> (int \<times> int) \<times> io" where
  "core_bind_main E self s =
     (let (w, q, o1) = s;
          ret = is_cpu_feature_present (cpuid_of E) 7 ECX_IDX bit_MOVDIR64B;
          o2 = fprintf Stdout (''MOVDIR64B support? : '' @ int_string ret @ ''\<newline>'') o1
      in case check E (snd (conf_cores E) = fst (conf_cores E)) () of
           Inl e \<Rightarrow> Inl e
         | Inr _ \<Rightarrow>
             (case check E (snd (onln_cores E) = fst (onln_cores E)) () of
                Inl e \<Rightarrow> Inl e
              | Inr _ \<Rightarrow>
                  run_all (map (bind_round E self) [0..<nat (fst (onln_cores E))])
                    (w, q, fprintf Stdout (''total_core='' @ int_string (fst (conf_cores E)) @ '' core_available='' @
                       int_string (fst (onln_cores E)) @ ''\<newline>'') o2)))"

section \<open>Lemmas\<close>

text \<open>The product exceeds an int in the fifth round of the loop.\<close>

lemma mul_loop_overflow: "5 \<le> n \<Longrightarrow> mul_loop n 2 = None"
proof -
  assume "5 \<le> n"
  then have "n = Suc (Suc (Suc (Suc (Suc (n - 5)))))" by simp
  then obtain k where "n = Suc (Suc (Suc (Suc (Suc k))))" by blast
  then show ?thesis by simp
qed

lemma mul_loop_four: "mul_loop 4 2 = Some 65536"
  by (simp add: numeral_eq_Suc)

lemma feature_bit: "x AND bit_MOVDIR64B \<noteq> 0 \<longleftrightarrow> bit x 28"
  using and_exp_eq_0_iff_not_bit [of x 28] by (simp add: bit_MOVDIR64B_def push_bit_eq_mult)

text \<open>The affinity that the first round asks for.\<close>

lemma first_core:
  "pthread_setaffinity_np self (CPU_SET 0 CPU_ZERO) w =
     (if 0 \<in> set (online w) then (0, w\<lparr>affinity := (affinity w)(self := (\<lambda>c. c = 0))\<rparr>) else (Cpu.EINVAL, w))"
  by (auto simp: pthread_setaffinity_np_def CPU_SET_def CPU_ZERO_def CPU_SETSIZE_def list_ex_iff fun_eq_iff
      intro!: arg_cong [of _ _ "\<lambda>f. w\<lparr>affinity := f\<rparr>"])

section \<open>Properties\<close>

text \<open>The feature test answers 1 exactly when the processor knows the function and sets the bit.\<close>

theorem feature_present:
  "is_cpu_feature_present cpuid 7 ECX_IDX bit_MOVDIR64B =
     (if 7 \<le> cpuid 0 0 ! EAX_IDX \<and> bit (cpuid 7 0 ! ECX_IDX) 28 then 1 else 0)"
  by (auto simp: is_cpu_feature_present_def feature_bit dest: leD)

text \<open>C39: The program never finishes on a machine with a core: its busy loop squares an int and
  overflows it in the fifth of 400 million rounds. A debug build stops before that, at an
  assertion, unless the core counts agree, core 0 is online and the process may use the policy.\<close>

theorem core_bind_main_dies:
  assumes "0 < fst (onln_cores E)"
  shows "core_bind_main E self s =
    Inl (if asserts E \<and> \<not> (fst (conf_cores E) = snd (conf_cores E) \<and> fst (onln_cores E) = snd (onln_cores E) \<and>
          0 \<in> set (online (fst s)) \<and> realtime E \<and> prio_min E \<le> priority_of E \<and> priority_of E \<le> prio_max E)
         then Aborted else Undefined ''signed overflow'')"
proof -
  obtain w q o1 where s: "s = (w, q, o1)" by (cases s) auto
  have upt: "[0..<nat (fst (onln_cores E))] = 0 # [1..<nat (fst (onln_cores E))]" using assms by (simp add: upt_rec)
  have one: "filter (\<lambda>c. c = 0) [0..<CPU_SETSIZE] = [0]" by (rule filter_one) (simp add: CPU_SETSIZE_def)
  have round: "bind_round E self 0 (w, q, o2) =
    Inl (if asserts E \<and> \<not> (0 \<in> set (online w) \<and> realtime E \<and> prio_min E \<le> priority_of E \<and> priority_of E \<le> prio_max E)
         then Aborted else Undefined ''signed overflow'')" for o2
    by (auto simp: bind_round_def first_core check_def pthread_setschedparam_def mul_loop_overflow Cpu.EINVAL_def EPERM_def one
        SCHED_RR_def Let_def split: if_splits)
  show ?thesis
    by (auto simp: core_bind_main_def s check_def upt round Let_def split: if_splits)
qed

definition demo_cores :: cores where
  "demo_cores = \<lparr>cpuid_of = (\<lambda>_ _. [22, 0, 2 ^ 28, 0]), conf_cores = (40, 40), onln_cores = (40, 40), prio_max = 99,
     prio_min = 1, realtime = True, asserts = True\<rparr>"

theorem core_bind_main_dies_witness:
  "core_bind_main demo_cores 0 (\<lparr>online = [0..<40], affinity = (\<lambda>_ _. True)\<rparr>, (0, 0), \<lparr>printed = [], buffered = []\<rparr>) =
     Inl (Undefined ''signed overflow'')"
  using core_bind_main_dies [of demo_cores 0 "(\<lparr>online = [0..<40], affinity = (\<lambda>_ _. True)\<rparr>, (0, 0), \<lparr>printed = [], buffered = []\<rparr>)"]
  by (simp add: demo_cores_def priority_of_def)

end
