(* ===== verification/Tool_Demos.thy ===== *)
theory Tool_Demos
  imports Numa_Dram
begin

text \<open>
  Two small demonstrations under tool_test/glibc: clocks and their resolution (time_test.cc), and
  copying between two blocks while reading the clocks (tick_test.cc).
\<close>

section \<open>time_test.cc\<close>

datatype clock = CLOCK_REALTIME | CLOCK_MONOTONIC | CLOCK_MONOTONIC_RAW | CLOCK_BOOTTIME |
  CLOCK_PROCESS_CPUTIME_ID | CLOCK_THREAD_CPUTIME_ID

definition stamp :: "string \<Rightarrow> nat \<times> nat \<Rightarrow> string" where
  "stamp label t = label @ to_string (fst t) @ ''s, '' @ to_string (snd t) @ ''ns'' @ ''\<newline>''"

text \<open>The lines it prints, from the resolution and the time of each clock (seconds and nanoseconds).\<close>

definition time_test_main :: "(clock \<Rightarrow> nat \<times> nat) \<Rightarrow> (clock \<Rightarrow> nat \<times> nat) \<Rightarrow> string list" where
  "time_test_main res_of time_of =
     [stamp ''CLOCK_REALTIME res             '' (res_of CLOCK_REALTIME),
      stamp ''CLOCK_MONOTONIC res            '' (res_of CLOCK_MONOTONIC),
      stamp ''CLOCK_MONOTONIC_RAW res        '' (res_of CLOCK_MONOTONIC_RAW),
      stamp ''CLOCK_BOOTTIME res             '' (res_of CLOCK_BOOTTIME),
      stamp ''CLOCK_PROCESS_CPUTIME_ID res   '' (res_of CLOCK_PROCESS_CPUTIME_ID),
      stamp ''CLOCK_THREAD_CPUTIME_ID res    '' (res_of CLOCK_THREAD_CPUTIME_ID),
      stamp ''CLOCK_REALTIME res             '' (time_of CLOCK_REALTIME),
      stamp ''CLOCK_MONOTONIC res            '' (time_of CLOCK_MONOTONIC),
      stamp ''CLOCK_MONOTONIC_RAW res        '' (time_of CLOCK_MONOTONIC_RAW),
      stamp ''CLOCK_BOOTTIME res             '' (time_of CLOCK_BOOTTIME),
      stamp ''CLOCK_PROCESS_CPUTIME_ID res   '' (time_of CLOCK_PROCESS_CPUTIME_ID),
      stamp ''CLOCK_THREAD_CPUTIME_ID res    ''
        (fst (time_of CLOCK_THREAD_CPUTIME_ID), snd (res_of CLOCK_THREAD_CPUTIME_ID))]"

section \<open>tick_test.cc\<close>

text \<open>A measurement: the differences may be negative; a counter that reads 0 divides by it.\<close>

definition srnd :: "rat \<Rightarrow> rat" where
  "srnd q = (if q < 0 then - rnd (- q) else rnd q)"

definition sfixed2 :: "rat \<Rightarrow> string" where
  "sfixed2 q = (if q < 0 then CHR ''-'' # fixed2 (Fin (- q)) else fixed2 (Fin q))"

definition as_double :: "u64 \<Rightarrow> rat" where
  "as_double x = rnd (of_int (uint x))"

definition tick_line :: "u64 \<Rightarrow> u64 \<Rightarrow> u64 \<Rightarrow> u64 \<Rightarrow> string" where
  "tick_line tick_begin ns_begin tick_end ns_end =
     (let tb = as_double tick_begin; nb = as_double ns_begin; te = as_double tick_end; ne = as_double ns_end;
          (cal, diff) =
            (if tb \<noteq> 0 then (let c = srnd (srnd (te * nb) / tb) in (sfixed2 c, sfixed2 (srnd (ne - c))))
             else if te * nb \<noteq> 0 then (''inf'', ''-inf'')
             else (''-nan'', ''-nan''))
      in ''pass:'' @ sfixed2 (srnd (ne - nb)) @ ''ns fact:'' @ sfixed2 ne @ ''ns vs cal:'' @ cal @ ''ns diff:'' @ diff @ ''ns\<newline>'')"

text \<open>The two clocks: what the \<open>j\<close>-th rdtscp and the \<open>j\<close>-th clock_gettime answer.\<close>

record tick_clocks =
  tsc :: "nat \<Rightarrow> u32 \<times> u32"        \<comment> \<open>edx and eax\<close>
  timespec :: "nat \<Rightarrow> u64 \<times> u64"   \<comment> \<open>seconds and nanoseconds\<close>

definition GetTsNsec_demo :: "u64 \<times> u64 \<Rightarrow> u64" where
  "GetTsNsec_demo tp = fst tp * 1000000000 + snd tp"

definition GetTsTick_demo :: "u32 \<times> u32 \<Rightarrow> u64" where
  "GetTsTick_demo r = (let (hi, lo) = r in or (push_bit 32 (ucast hi)) (ucast lo))"

definition tick_round :: "tick_clocks \<Rightarrow> u64 \<Rightarrow> u64 \<Rightarrow> u64 \<Rightarrow> nat \<Rightarrow> machine \<times> io \<Rightarrow> fault + machine \<times> io" where
  "tick_round C mem1 mem2 n i s =
     (let tick_begin = GetTsTick_demo (tsc C (2 * i)); ns_begin = GetTsNsec_demo (timespec C (2 * i)) in
      case memcpy mem1 mem2 n (fst s) of
        Inl e \<Rightarrow> Inl e
      | Inr m \<Rightarrow>
          (let tick_end = GetTsTick_demo (tsc C (2 * i + 1)); ns_end = GetTsNsec_demo (timespec C (2 * i + 1)) in
           Inr (m, fprintf Stdout (tick_line tick_begin ns_begin tick_end ns_end) (snd s))))"

text \<open>The two blocks are the addresses malloc answers.\<close>

definition tick_test_main :: "tick_clocks \<Rightarrow> u64 \<Rightarrow> u64 \<Rightarrow> string list \<Rightarrow> machine \<times> io \<Rightarrow> stop + machine \<times> io" where
  "tick_test_main C mem1 mem2 argv s =
     (if debug (fst s) \<and> length argv \<noteq> 3 then Inl Aborted
      else if length argv < 3 then Inl (Undefined ''argument'')
      else
        (case (atoi (argv ! 1), atoi (argv ! 2)) of
           (Some mem_size, Some rounds) \<Rightarrow>
             (let n = word_of_int mem_size in
              case run_all [memset mem1 0 n, memset mem1 1 n] (fst s) of
                Inl e \<Rightarrow> Inl (Crashed e)
              | Inr m \<Rightarrow>
                  (case run_all (map (tick_round C mem1 mem2 n) [0..<nat rounds]) (m, snd s) of
                     Inl e \<Rightarrow> Inl (Crashed e)
                   | Inr s' \<Rightarrow> Inr s'))
         | _ \<Rightarrow> Inl (Undefined ''argument'')))"

section \<open>What they show\<close>

text \<open>The last line of time_test.cc shows the resolution where the nanoseconds of the time belong:
  it does not depend on them.\<close>

theorem time_test_last:
  assumes "fst (t CLOCK_THREAD_CPUTIME_ID) = fst (u CLOCK_THREAD_CPUTIME_ID)"
  shows "last (time_test_main r t) = last (time_test_main r u)"
  using assms by (simp add: time_test_main_def)

text \<open>tick_test.cc fills its first block twice and the second one never: what it copies is what
  malloc left there.\<close>

theorem tick_test_copies_uninitialised:
  assumes "argv = [a, b, c]" and "atoi b = Some (int n)" and "atoi c = Some (int k)" and "0 < k" and "n < 2 ^ 31"
    and acc: "accessible m mem1 n" "accessible m mem2 n" and ap: "apart n mem1 mem2"
  shows "\<exists>m' o2. tick_test_main C mem1 mem2 argv (m, o1) = Inr (m', o2) \<and> length (printed o2) = length (printed o1) + k \<and>
    (\<forall>a. in_range mem1 n a \<longrightarrow> mem m' a = mem m (mem2 + (a - mem1))) \<and> (\<forall>a. \<not> in_range mem1 n a \<longrightarrow> mem m' a = mem m a)"
proof -
  let ?n = "word_of_int (int n) :: u64"
  have un: "unat ?n = n" using assms(5) unat_of_nat_u64 [of n] by simp
  have src: "\<not> in_range mem1 n (mem2 + (a - mem1))" if "in_range mem1 n a" for a
    using apart_disjoint [OF ap, of "mem2 + (a - mem1)"] that by (auto simp: in_range_def)
  obtain m1 where m1: "memset mem1 0 ?n m = Inr m1" "moved (FillWith (ucast (0 :: u32))) Dirty mem1 mem1 n m m1"
    using memset_moved [of m mem1 ?n 0] acc un by auto
  have "accessible m1 mem1 n" using moved_env [OF m1(2)] acc by (simp add: accessible_env)
  then obtain m2 where m2: "memset mem1 1 ?n m1 = Inr m2" "moved (FillWith (ucast (1 :: u32))) Dirty mem1 mem1 n m1 m2"
    using memset_moved [of m1 mem1 ?n 1] un by auto
  have env2: "same_env m m2" using moved_env [OF m1(2)] moved_env [OF m2(2)] by (rule same_env_trans)
  have out2: "mem m2 a = mem m a" if "\<not> in_range mem1 n a" for a
    using moved_frame [OF m1(2) that] moved_frame [OF m2(2) that] by simp
  let ?P = "\<lambda>(i :: nat) (u :: machine \<times> io). same_env m (fst u) \<and> length (printed (snd u)) = length (printed o1) + i \<and>
    (\<forall>a. \<not> in_range mem1 n a \<longrightarrow> mem (fst u) a = mem m a) \<and>
    (0 < i \<longrightarrow> (\<forall>a. in_range mem1 n a \<longrightarrow> mem (fst u) a = mem m (mem2 + (a - mem1))))"
  have "\<exists>u. run_all (map (tick_round C mem1 mem2 ?n) [0..<k]) (m2, o1) = Inr u \<and> ?P k u"
  proof (rule run_all_upt_total [where P = ?P])
    show "?P 0 (m2, o1)" using env2 out2 by simp
    fix i u assume P: "?P i u"
    then have "same_env m (fst u)" by simp
    with acc have "accessible (fst u) mem1 n" "accessible (fst u) mem2 n" by (simp_all add: accessible_env)
    then obtain v where v: "memcpy mem1 mem2 ?n (fst u) = Inr v" "moved Copy Dirty mem1 mem2 n (fst u) v"
      using memcpy_moved [of ?n mem1 mem2 "fst u"] ap un by auto
    obtain l where r: "tick_round C mem1 mem2 ?n i u = Inr (v, fprintf Stdout l (snd u))"
      using v(1) by (simp add: tick_round_def Let_def)
    have "?P (Suc i) (v, fprintf Stdout l (snd u))"
      using P src same_env_trans [OF _ moved_env [OF v(2)], of m] by (simp add: moved_Copy_mem [OF v(2)] fprintf_def)
    with r show "\<exists>v. tick_round C mem1 mem2 ?n i u = Inr v \<and> ?P (Suc i) v" by blast
  qed
  then obtain m3 o3 where run: "run_all (map (tick_round C mem1 mem2 ?n) [0..<k]) (m2, o1) = Inr (m3, o3)" "?P k (m3, o3)" by auto
  have "tick_test_main C mem1 mem2 argv (m, o1) = Inr (m3, o3)"
    using assms(1-3) m1(1) m2(1) run(1) by (simp add: tick_test_main_def Let_def)
  with run(2) assms(4) show ?thesis by (intro exI [of _ m3] exI [of _ o3]) simp
qed

text \<open>A counter that ran at the rate of the clock from 0 on would show a difference of 0.\<close>

lemma tick_line_exact:
  assumes "0 < x" and "x < 2 ^ 26"
  shows "tick_line x x x x = ''pass:0.00ns fact:'' @ sfixed2 (of_int (uint x)) @ ''ns vs cal:'' @ sfixed2 (of_int (uint x)) @ ''ns diff:0.00ns\<newline>''"
proof -
  obtain u where ux: "u = uint x" by blast
  have u: "0 < u" "u < 2 ^ 26" using assms by (simp_all add: ux word_less_def)
  have r: "rnd (of_int u) = of_int u" using u by (intro rnd_of_int) auto
  then have d: "as_double x = of_int u" by (simp only: as_double_def ux)
  have "u * u < 2 ^ 26 * 2 ^ 26" using u by (intro mult_strict_mono) auto
  then have "rnd (of_int (u * u)) = of_int (u * u)" using u by (intro rnd_of_int) auto
  then have sq: "srnd (of_int u * of_int u) = of_int u * of_int u" using u by (simp add: srnd_def)
  have z: "srnd 0 = 0" using rnd_of_int [of 0] by (simp add: srnd_def)
  have t0: "sfixed2 0 = ''0.00''" by (simp add: sfixed2_def fixed2_def round_even_def to_string.simps char_of_def bit_0)
  have "srnd (of_int u) = of_int u" using r u by (simp add: srnd_def)
  then show ?thesis unfolding ux [symmetric] using u by (simp add: tick_line_def d sq z t0 Let_def)
qed

end
