(* ===== verification/Numa_Basic.thy ===== *)
theory Numa_Basic
  imports Numa_Dram
begin

text \<open>
  tool_test/numa/numa_basic.cc: the program that shows what libnuma answers. The answers are a
  parameter; the comments in its output are Chinese and stand here as code points.
\<close>

section \<open>Printing a mask\<close>

text \<open>\<open>max_bitmask_size\<close> and the bits of the mask are parameters.\<close>

definition mask_str :: "nat \<Rightarrow> (nat \<Rightarrow> bool) \<Rightarrow> string" where
  "mask_str max_bitmask_size isset =
     (let str = foldl (\<lambda>s i. if isset i then s @ to_string i @ '','' else s) [] [0..<max_bitmask_size]
      in if str = [] then ''null'' else butlast str)"

definition print_bitmask :: "nat \<Rightarrow> (nat \<Rightarrow> bool) \<Rightarrow> io \<Rightarrow> io" where
  "print_bitmask max_bitmask_size isset o1 =
     fprintf Stdout (''    '' @ pad_right 30 [] @ '' -> '' @ mask_str max_bitmask_size isset @ ''\<newline>'') o1"

section \<open>The lines of the output\<close>

text \<open>UTF-8, for the code points in question.\<close>

definition utf8_char :: "nat \<Rightarrow> string" where
  "utf8_char c = (if c < 0x80 then [char_of c]
     else if c < 0x800 then [char_of (0xC0 + c div 64), char_of (0x80 + c mod 64)]
     else [char_of (0xE0 + c div 4096), char_of (0x80 + c div 64 mod 64), char_of (0x80 + c mod 64)])"

definition utf8 :: "nat list \<Rightarrow> string" where
  "utf8 cs = concat (map utf8_char cs)"

definition pad_left :: "nat \<Rightarrow> string \<Rightarrow> string" where
  "pad_left k s = replicate (k - length s) CHR '' '' @ s"

text \<open>\<open>"%2d. %-30s -> ...\t...\n"\<close>\<close>

definition row :: "nat \<Rightarrow> string \<times> string \<times> string \<Rightarrow> string" where
  "row i r = (case r of (name, val, note) \<Rightarrow>
     pad_left 2 (to_string i) @ ''. '' @ pad_right 30 name @ '' -> '' @ val @ CHR 0x09 # note @ ''\<newline>'')"

definition title :: "nat list \<Rightarrow> io \<Rightarrow> io" where
  "title cs o1 = fprintf Stdout (utf8 cs @ ''API:\<newline>'')
     (fprintf Stdout (replicate 74 CHR ''='' @ ''\<newline>'') o1)"

text \<open>Quotients are rounded towards zero.\<close>

definition tdiv :: "int \<Rightarrow> int \<Rightarrow> int" where
  "tdiv x y = (if x < 0 then - (- x div y) else x div y)"

definition megs :: "int \<times> int \<Rightarrow> string" where
  "megs size_free = (let mb = (\<lambda>x. int_string (tdiv (tdiv x 1024) 1024) @ ''M'') in mb (snd size_free) @ ''/'' @ mb (fst size_free))"

section \<open>What libnuma answers\<close>

datatype parser = Parse_nodestring | Parse_nodestring_all | Parse_cpustring | Parse_cpustring_all

record libnuma =
  numa_available :: int
  max_possible_node :: int
  num_possible_nodes :: int
  num_possible_cpus :: int
  max_node :: int
  num_configured_nodes :: int
  num_configured_cpus :: int
  node_size :: "int \<Rightarrow> int \<times> int"   \<comment> \<open>the size and the free bytes\<close>
  all_nodes :: "nat \<Rightarrow> bool"
  no_nodes :: "nat \<Rightarrow> bool"
  all_cpus :: "nat \<Rightarrow> bool"
  parse_mask :: "parser \<Rightarrow> string \<Rightarrow> (nat \<Rightarrow> bool) option"
  mems_allowed :: "nat \<Rightarrow> bool"
  num_task_cpus :: int
  num_task_nodes :: int

definition max_bitmask_size :: "libnuma \<Rightarrow> nat" where
  "max_bitmask_size L = nat (max (num_possible_nodes L) (num_possible_cpus L))"

section \<open>The program\<close>

text \<open>The rows of the first part. The fourth calls numa_num_possible_cpus under the name of
  numa_num_possible_nodes.\<close>

definition query_rows :: "libnuma \<Rightarrow> (string \<times> string \<times> string) list" where
  "query_rows L =
     (let d = (\<lambda>x. pad_right 6 (int_string x)); current = utf8 [0x7CFB, 0x7EDF, 0x5F53, 0x524D];
          possible = utf8 [0x7CFB, 0x7EDF] @ ''/'' @ utf8 [0x5185, 0x6838, 0x652F, 0x6301, 0x7684, 0x6700, 0x5927];
          amount = utf8 [0x6570, 0x91CF]; index = utf8 [0x7F16, 0x53F7];
          disabled = utf8 [0x5305, 0x62EC, 0x7981, 0x7528, 0x7684];
          cores = current @ ''cpu'' @ utf8 [0x6570] @ ''(core'' @ utf8 [0x603B, 0x6570] @ ''), '' @ disabled @ ''cpu''
      in [(''numa_available()'', d (numa_available L), utf8 [0x652F, 0x6301] @ ''numa api''),
          (''numa_max_possible_node()'', d (max_possible_node L), possible @ ''node'' @ index),
          (''numa_num_possible_nodes()'', d (num_possible_nodes L), possible @ ''node'' @ amount),
          (''numa_num_possible_nodes()'', d (num_possible_cpus L), possible @ ''cpu(core)'' @ amount),
          (''numa_max_node()'', d (max_node L), current @ utf8 [0x53EF, 0x7528, 0x7684, 0x6700, 0x5927] @ ''node'' @ index),
          (''numa_num_configured_nodes()'', d (num_configured_nodes L),
             current @ ''memory node'' @ amount @ '', '' @ disabled @ utf8 [0x8282, 0x70B9]),
          (''numa_num_configured_cpus()'', d (num_configured_cpus L), cores),
          (''numa_node_size(1)'', megs (node_size L 1), cores),
          (''numa_node_size64(0)'', megs (node_size L 0), cores)])"

definition query_part :: "libnuma \<Rightarrow> io \<Rightarrow> io" where
  "query_part L o1 = foldl (\<lambda>b (i, r). fprintf Stdout (row i r) b) o1 (enumerate 1 (query_rows L))"

text \<open>A mask of the second part: its row, its bits. The state holds the number of masks that are live
  and the output. A list that libnuma rejects is a null pointer, which print_bitmask reads through.\<close>

definition show_known :: "libnuma \<Rightarrow> nat \<Rightarrow> string \<Rightarrow> string \<Rightarrow> (nat \<Rightarrow> bool) \<Rightarrow> nat \<times> io \<Rightarrow> stop + nat \<times> io" where
  "show_known L i name note isset s =
     Inr (fst s, print_bitmask (max_bitmask_size L) isset (fprintf Stdout (row i (name, pad_right 6 ''bitmask*'', note)) (snd s)))"

definition parser_name :: "parser \<Rightarrow> string" where
  "parser_name p = (case p of Parse_nodestring \<Rightarrow> ''numa_parse_nodestring()'' | Parse_nodestring_all \<Rightarrow> ''numa_parse_nodestring_all()''
     | Parse_cpustring \<Rightarrow> ''numa_parse_cpustring()'' | Parse_cpustring_all \<Rightarrow> ''numa_parse_cpustring_all()'')"

definition show_mask :: "libnuma \<Rightarrow> nat \<Rightarrow> parser \<times> string \<Rightarrow> nat \<times> io \<Rightarrow> stop + nat \<times> io" where
  "show_mask L i r s =
     (let o1 = fprintf Stdout (row i (parser_name (fst r), pad_right 6 ''bitmask*'', '' parse('' @ snd r @ '')'')) (snd s) in
      case parse_mask L (fst r) (snd r) of
        None \<Rightarrow> Inl (Crashed (PageFault 0))
      | Some isset \<Rightarrow> (let masks = fst s + 1; o2 = print_bitmask (max_bitmask_size L) isset o1 in Inr (masks - 1, o2)))"

definition mask_requests :: "(parser \<times> string) list" where
  "mask_requests = [(Parse_nodestring, ''0-1''), (Parse_nodestring, ''!0''), (Parse_nodestring, ''0,1''),
     (Parse_nodestring_all, ''!0''), (Parse_cpustring, ''0-9,+12-15''), (Parse_cpustring, ''!0-39''),
     (Parse_cpustring, ''+0-39''), (Parse_cpustring_all, ''!0-39'')]"

definition masks_part :: "libnuma \<Rightarrow> nat \<times> io \<Rightarrow> stop + nat \<times> io" where
  "masks_part L = run_all
     ([show_known L 1 ''numa_all_nodes_ptr var'' (utf8 [0x5305, 0x542B, 0x6240, 0x6709, 0x5F53, 0x524D, 0x4EFB, 0x52A1, 0x53EF, 0x7528, 0x7684] @ ''node'')
         (all_nodes L),
       show_known L 2 ''numa_no_nodes_ptr var'' (utf8 [0x5305, 0x542B, 0x7A7A, 0x96C6] @ ''node'') (no_nodes L),
       show_known L 3 ''numa_all_cpus_ptr var'' (utf8 [0x5305, 0x542B, 0x6240, 0x6709, 0x5F53, 0x524D, 0x4EFB, 0x52A1, 0x53EF, 0x7528, 0x7684] @ ''cpu(core)'')
         (all_cpus L)] @
      map (\<lambda>(i, r). show_mask L i r) (enumerate 4 mask_requests))"

text \<open>The third part: a mask that numa_get_mems_allowed allocates is shown and freed, then two numbers.\<close>

definition task_part :: "libnuma \<Rightarrow> nat \<times> io \<Rightarrow> stop + nat \<times> io" where
  "task_part L s =
     (let current = utf8 [0x5F53, 0x524D, 0x4EFB, 0x52A1, 0x53EF, 0x7528, 0x7684] in
      case show_known L 1 ''numa_get_mems_allowed()''
          (utf8 [0x5F53, 0x524D, 0x8FDB, 0x7A0B, 0x5141, 0x8BB8, 0x5206, 0x914D, 0x5185, 0x5B58, 0x7684] @ ''node'') (mems_allowed L) (fst s + 1, snd s) of
        Inl e \<Rightarrow> Inl e
      | Inr (masks, o2) \<Rightarrow>
          Inr (masks - 1,
            fprintf Stdout (row 3 (''numa_num_task_nodes()'', pad_right 6 (int_string (num_task_nodes L)), current @ ''node'' @ utf8 [0x4E2A, 0x6570]))
            (fprintf Stdout (row 2 (''numa_num_task_cpus()'', pad_right 6 (int_string (num_task_cpus L)),
               current @ ''cpu'' @ utf8 [0x4E2A, 0x6570] @ ''(core)'')) o2)))"

text \<open>The value main returns, the masks that are live, and the output.\<close>

definition numa_basic_main :: "libnuma \<Rightarrow> nat \<times> io \<Rightarrow> stop + int \<times> nat \<times> io" where
  "numa_basic_main L s =
     (let o1 = title [0x73AF, 0x5883, 0x67E5, 0x8BE2] (snd s) in
      if numa_available L \<noteq> 0
      then Inr (- 1, fst s, fprintf Stdout ''Your system does not support NUMA API\<newline>'' o1)
      else (case masks_part L (fst s, title [0x4F4D, 0x64CD, 0x4F5C, 0x76F8, 0x5173] (query_part L o1)) of
              Inl e \<Rightarrow> Inl e
            | Inr (masks, o2) \<Rightarrow>
                (case task_part L (masks, title [0x8FDB, 0x7A0B, 0x7EBF, 0x7A0B, 0x76F8, 0x5173] o2) of
                   Inl e \<Rightarrow> Inl e
                 | Inr r \<Rightarrow> Inr (0, r))))"

section \<open>Reading a mask back\<close>

fun split_commas :: "string \<Rightarrow> string list" where
  "split_commas [] = [[]]"
| "split_commas (c # cs) =
     (if c = CHR '','' then [] # split_commas cs
      else (case split_commas cs of [] \<Rightarrow> [[c]] | w # ws \<Rightarrow> (c # w) # ws))"

definition read_mask :: "string \<Rightarrow> nat list" where
  "read_mask s = (if s = ''null'' then [] else map (atoi_digits 0) (split_commas s))"

lemma split_commas_word: "CHR '','' \<notin> set w \<Longrightarrow> split_commas w = [w]"
  by (induction w) auto

lemma split_commas_append: "CHR '','' \<notin> set w \<Longrightarrow> split_commas (w @ '','' @ s) = w # split_commas s"
  by (induction w) auto

lemma no_comma: "CHR '','' \<notin> set (to_string n)"
  using to_string_digits [of n] by (auto simp: list_all_iff is_digit_def dest!: bspec)

definition comma_list :: "nat list \<Rightarrow> string" where
  "comma_list ns = concat (map (\<lambda>i. to_string i @ '','') ns)"

lemma mask_loop:
  "foldl (\<lambda>s i. if isset i then s @ to_string i @ '','' else s) s ns = s @ comma_list (filter isset ns)"
  by (induction ns arbitrary: s) (simp_all add: comma_list_def)

lemma comma_list_Nil: "comma_list ns = [] \<longleftrightarrow> ns = []"
  by (cases ns) (simp_all add: comma_list_def)

lemma split_comma_list: "ns \<noteq> [] \<Longrightarrow> split_commas (butlast (comma_list ns)) = map to_string ns"
proof (induction ns)
  case (Cons n ns)
  show ?case
  proof (cases ns)
    case Nil
    then show ?thesis by (simp add: comma_list_def split_commas_word no_comma butlast_append)
  next
    case (Cons k ks)
    then have "butlast (comma_list (n # ns)) = to_string n @ '','' @ butlast (comma_list ns)"
      by (simp add: comma_list_def butlast_append)
    with Cons.IH Cons show ?thesis by (simp add: split_commas_append [OF no_comma, simplified])
  qed
qed simp

lemma mask_not_null: "ns \<noteq> [] \<Longrightarrow> butlast (comma_list ns) \<noteq> ''null''"
proof
  assume ns: "ns \<noteq> []" and "butlast (comma_list ns) = ''null''"
  then have "map to_string ns = [''null'']" using split_comma_list [OF ns] by simp
  then have "list_all is_digit ''null''" using to_string_digits by (metis list.map_cong0 list.inject map_eq_Cons_conv)
  then show False by (simp add: is_digit_def)
qed

text \<open>C37: What print_bitmask prints names exactly the bits of the mask: read back, it is the
  ascending list of the bits that are set, and two masks that differ below the size print
  differently.\<close>

theorem mask_str_roundtrip:
  "read_mask (mask_str n isset) = filter isset [0..<n] \<and>
   (mask_str n isset = mask_str n isset' \<longleftrightarrow> (\<forall>i<n. isset i = isset' i))"
proof -
  have r: "read_mask (mask_str n p) = filter p [0..<n]" for p
  proof (cases "filter p [0..<n] = []")
    case True
    then show ?thesis by (simp add: mask_str_def mask_loop comma_list_Nil read_mask_def)
  next
    case False
    then show ?thesis
      using to_string_digits
      by (simp add: mask_str_def mask_loop comma_list_Nil read_mask_def mask_not_null split_comma_list map_idI del: filter_empty_conv)
  qed
  have "mask_str n isset = mask_str n isset'" if "\<forall>i<n. isset i = isset' i"
  proof -
    have "filter isset [0..<n] = filter isset' [0..<n]" using that by (intro filter_cong) simp_all
    then show ?thesis by (simp add: mask_str_def mask_loop)
  qed
  moreover have "isset i = isset' i" if "mask_str n isset = mask_str n isset'" "i < n" for i
  proof -
    have "set (filter isset [0..<n]) = set (filter isset' [0..<n])" using that(1) r by metis
    with that(2) show ?thesis by auto
  qed
  ultimately show ?thesis using r by blast
qed

theorem mask_str_roundtrip_witness:
  "read_mask (mask_str 64 (\<lambda>i. i = 3 \<or> i = 17)) = [3, 17]"
proof -
  have "filter (\<lambda>i. i = 3 \<or> i = 17) [0..<64] = [3, 17 :: nat]" by (simp add: upt_rec)
  then show ?thesis using mask_str_roundtrip [of 64 "\<lambda>i. i = 3 \<or> i = 17" "\<lambda>_. False"] by simp
qed

section \<open>The whole program\<close>

lemma printed_fprintf: "printed (fprintf Stdout l o1) = printed o1 @ [l]"
  by (simp add: fprintf_def)

text \<open>A step that prints \<open>n\<close> pieces and keeps the number of live masks.\<close>

definition prints :: "nat \<Rightarrow> (nat \<times> io \<Rightarrow> stop + nat \<times> io) \<Rightarrow> bool" where
  "prints n f \<longleftrightarrow> (\<forall>k o1. \<exists>o2. f (k, o1) = Inr (k, o2) \<and> length (printed o2) = length (printed o1) + n)"

lemma prints_run_all: "list_all (prints n) fs \<Longrightarrow> prints (n * length fs) (run_all fs)"
proof (induction fs)
  case (Cons f fs)
  show ?case
    unfolding prints_def
  proof (intro allI)
    fix k o1
    from Cons.prems obtain o2 where 2: "f (k, o1) = Inr (k, o2)" "length (printed o2) = length (printed o1) + n"
      by (fastforce simp: prints_def)
    from Cons have "prints (n * length fs) (run_all fs)" by simp
    then obtain o3 where "run_all fs (k, o2) = Inr (k, o3)" "length (printed o3) = length (printed o2) + n * length fs"
      by (auto simp: prints_def)
    with 2 show "\<exists>o2. run_all (f # fs) (k, o1) = Inr (k, o2) \<and> length (printed o2) = length (printed o1) + n * length (f # fs)"
      by simp
  qed
qed (simp add: prints_def)

lemma show_known_prints: "prints 2 (show_known L i name note isset)"
  by (simp add: prints_def show_known_def print_bitmask_def printed_fprintf)

lemma show_mask_prints: "parse_mask L (fst r) (snd r) = Some isset \<Longrightarrow> prints 2 (show_mask L i r)"
  by (simp add: prints_def show_mask_def print_bitmask_def printed_fprintf)

lemma masks_part_prints:
  assumes "\<forall>r \<in> set mask_requests. parse_mask L (fst r) (snd r) \<noteq> None"
  shows "prints 22 (masks_part L)"
proof -
  have "prints 2 (show_mask L i r)" if "r \<in> set mask_requests" for i r
    using assms that by (auto intro: show_mask_prints)
  then have "list_all (prints 2) (map (\<lambda>(i, r). show_mask L i r) (enumerate 4 mask_requests))"
    by (auto simp: list_all_iff in_set_enumerate_eq) (metis add.commute less_diff_conv2 nth_mem)
  then have "list_all (prints 2)
      ([show_known L 1 n1 t1 m1, show_known L 2 n2 t2 m2, show_known L 3 n3 t3 m3] @ map (\<lambda>(i, r). show_mask L i r) (enumerate 4 mask_requests))"
    for n1 n2 n3 t1 t2 t3 m1 m2 m3 by (simp add: show_known_prints)
  from prints_run_all [OF this] show ?thesis by (simp add: masks_part_def mask_requests_def)
qed

lemma task_part_prints: "prints 4 (task_part L)"
  by (simp add: prints_def task_part_def show_known_def print_bitmask_def printed_fprintf Let_def)

text \<open>The program shows everything and frees every mask that it gets, in 41 lines, when libnuma accepts
  its eight lists; a list that libnuma rejects ends it with a read through a null pointer, and a
  system without NUMA support with -1 after three lines.\<close>

theorem numa_basic_outcomes:
  shows "numa_available L \<noteq> 0 \<Longrightarrow> \<exists>o2. numa_basic_main L (k, o1) = Inr (- 1, k, o2) \<and> length (printed o2) = length (printed o1) + 3"
    and "numa_available L = 0 \<Longrightarrow> \<forall>r \<in> set mask_requests. parse_mask L (fst r) (snd r) \<noteq> None \<Longrightarrow>
      \<exists>o2. numa_basic_main L (k, o1) = Inr (0, k, o2) \<and> length (printed o2) = length (printed o1) + 41"
    and "numa_available L = 0 \<Longrightarrow> parse_mask L Parse_nodestring ''0-1'' = None \<Longrightarrow>
      numa_basic_main L (k, o1) = Inl (Crashed (PageFault 0))"
proof -
  have title: "length (printed (title cs b)) = length (printed b) + 2" for cs b
    by (simp add: title_def printed_fprintf)
  have query: "length (printed (query_part L b)) = length (printed b) + 9" for b
    by (simp add: query_part_def query_rows_def printed_fprintf Let_def)
  show "\<exists>o2. numa_basic_main L (k, o1) = Inr (- 1, k, o2) \<and> length (printed o2) = length (printed o1) + 3"
    if "numa_available L \<noteq> 0"
    using that by (simp add: numa_basic_main_def title printed_fprintf)
  let ?o = "title [0x4F4D, 0x64CD, 0x4F5C, 0x76F8, 0x5173] (query_part L (title [0x73AF, 0x5883, 0x67E5, 0x8BE2] o1))"
  show "\<exists>o2. numa_basic_main L (k, o1) = Inr (0, k, o2) \<and> length (printed o2) = length (printed o1) + 41"
    if "numa_available L = 0" and ok: "\<forall>r \<in> set mask_requests. parse_mask L (fst r) (snd r) \<noteq> None"
  proof -
    from masks_part_prints [OF ok] obtain o2 where m: "masks_part L (k, ?o) = Inr (k, o2)"
      "length (printed o2) = length (printed ?o) + 22" by (auto simp: prints_def)
    from task_part_prints [of L] obtain o3 where "task_part L (k, title [0x8FDB, 0x7A0B, 0x7EBF, 0x7A0B, 0x76F8, 0x5173] o2) = Inr (k, o3)"
      "length (printed o3) = length (printed (title [0x8FDB, 0x7A0B, 0x7EBF, 0x7A0B, 0x76F8, 0x5173] o2)) + 4" by (auto simp: prints_def)
    with that(1) m show ?thesis by (auto simp: numa_basic_main_def title query)
  qed
  show "numa_basic_main L (k, o1) = Inl (Crashed (PageFault 0))"
    if "numa_available L = 0" "parse_mask L Parse_nodestring ''0-1'' = None"
    using that
    by (simp add: numa_basic_main_def masks_part_def run_all_append show_known_def mask_requests_def show_mask_def)
qed

end
