(* ===== verification/Tool_Flags.thy ===== *)
theory Tool_Flags
  imports Numa_Dram
begin

text \<open>
  Two demonstrations of libraries: tool_test/gflags/gflags_basic.cc, which registers validators and sets a
  flag in the modes of gflags, and tool_test/yaml/yaml_test.cc, which prints a file that yaml-cpp has
  parsed. The libraries are parameters; what gflags documents of its calls is a predicate.
\<close>

section \<open>The validators\<close>

definition invalid_value :: "string \<Rightarrow> int \<Rightarrow> string" where
  "invalid_value flagname v = ''Invalid value for --'' @ flagname @ '': '' @ int_string v @ ''\<newline>''"

text \<open>The result and what is printed.\<close>

definition ValidateThreadNum_demo :: "string \<Rightarrow> int \<Rightarrow> bool \<times> string list" where
  "ValidateThreadNum_demo flagname v = (if v \<ge> 0 \<and> v < 40 then (True, []) else (False, [invalid_value flagname v]))"

definition ValidateThreadNumOther :: "string \<Rightarrow> int \<Rightarrow> bool \<times> string list" where
  "ValidateThreadNumOther flagname v = (if v \<ge> 0 \<and> v < 40 then (True, []) else (False, [invalid_value flagname v]))"

definition ValidateAccessSize_demo :: "string \<Rightarrow> int \<Rightarrow> bool \<times> string list" where
  "ValidateAccessSize_demo flagname v =
     (if v > 0 \<and> v \<le> 1024*1024*1024 then (True, []) else (False, [invalid_value flagname v]))"

text \<open>gflags compares validators by their addresses.\<close>

datatype validator = V_ThreadNum | V_ThreadNumOther | V_AccessSize

definition run_validator :: "validator \<Rightarrow> string \<Rightarrow> int \<Rightarrow> bool \<times> string list" where
  "run_validator v = (case v of V_ThreadNum \<Rightarrow> ValidateThreadNum_demo | V_ThreadNumOther \<Rightarrow> ValidateThreadNumOther
     | V_AccessSize \<Rightarrow> ValidateAccessSize_demo)"

section \<open>The library\<close>

datatype set_mode = SET_FLAGS_VALUE | SET_FLAG_IF_DEFAULT | SET_FLAGS_DEFAULT

text \<open>The calls, over the library's own state \<open>'s\<close>. Parsing the command line may end the process; it
  returns its result and what is left of argc.\<close>

record 's gflags =
  g_register :: "string \<Rightarrow> validator \<Rightarrow> 's \<Rightarrow> bool \<times> 's"
  g_parse :: "'s \<Rightarrow> stop + int \<times> int \<times> 's"
  g_set :: "string \<Rightarrow> string \<Rightarrow> set_mode \<Rightarrow> 's \<Rightarrow> string \<times> 's"
  g_int :: "string \<Rightarrow> 's \<Rightarrow> int"
  g_string :: "string \<Rightarrow> 's \<Rightarrow> string"
  g_at_start :: bool        \<comment> \<open>what DEFINE_validator returned\<close>

section \<open>The program\<close>

definition flag_register :: "'s gflags \<Rightarrow> bool \<Rightarrow> string \<Rightarrow> validator \<Rightarrow> bool \<Rightarrow> 's \<times> io \<Rightarrow> stop + 's \<times> io" where
  "flag_register G dbg f v expected s =
     (let (bool_ret, s1) = g_register G f v (fst s) in
      if dbg \<and> bool_ret \<noteq> expected then Inl Aborted else Inr (s1, snd s))"

definition flag_set :: "'s gflags \<Rightarrow> string \<Rightarrow> set_mode \<Rightarrow> 's \<times> io \<Rightarrow> stop + 's \<times> io" where
  "flag_set G val mode s =
     (let (str_ret, s1) = g_set G ''thread_num'' val mode (fst s) in
      Inr (s1, fprintf Stdout (''# '' @ str_ret @ ''=>FLAGS_thread_num='' @ int_string (g_int G ''thread_num'' s1) @ ''\<newline>'') (snd s)))"

definition flag_say :: "('s \<Rightarrow> string) \<Rightarrow> 's \<times> io \<Rightarrow> stop + 's \<times> io" where
  "flag_say f s = Inr (fst s, fprintf Stdout (f (fst s) @ ''\<newline>'') (snd s))"

definition flag_parse :: "'s gflags \<Rightarrow> 's \<times> io \<Rightarrow> stop + 's \<times> io" where
  "flag_parse G s =
     (case g_parse G (fst s) of
        Inl e \<Rightarrow> Inl e
      | Inr (int_ret, argc, s1) \<Rightarrow>
          flag_say (\<lambda>_. ''ParseCommandLineFlags ret='' @ int_string int_ret @ '', argc='' @ int_string argc) (s1, snd s))"

definition flag_registers :: "'s gflags \<Rightarrow> bool \<Rightarrow> ('s \<times> io \<Rightarrow> stop + 's \<times> io) list" where
  "flag_registers G dbg =
     [flag_register G dbg ''thread_num'' V_ThreadNum True,
      flag_register G dbg ''thread_num'' V_ThreadNumOther False,
      flag_register G dbg ''access_size'' V_AccessSize True]"

definition flag_sets :: "'s gflags \<Rightarrow> ('s \<times> io \<Rightarrow> stop + 's \<times> io) list" where
  "flag_sets G =
     [flag_set G ''5'' SET_FLAGS_DEFAULT,
      flag_set G ''4'' SET_FLAG_IF_DEFAULT,
      flag_say (\<lambda>_. []),
      flag_set G ''5'' SET_FLAGS_VALUE,
      flag_set G '''' SET_FLAGS_VALUE,
      flag_say (\<lambda>_. []),
      flag_set G ''4'' SET_FLAG_IF_DEFAULT,
      flag_set G ''5'' SET_FLAGS_DEFAULT,
      flag_set G ''4'' SET_FLAG_IF_DEFAULT]"

definition flag_shown :: "'s gflags \<Rightarrow> ('s \<times> io \<Rightarrow> stop + 's \<times> io) list" where
  "flag_shown G =
     [flag_say (\<lambda>s. ''devdax_path='' @ g_string G ''devdax_path'' s),
      flag_say (\<lambda>s. ''thread_num='' @ int_string (g_int G ''thread_num'' s))]"

definition gflags_main :: "'s gflags \<Rightarrow> bool \<Rightarrow> 's \<times> io \<Rightarrow> stop + 's \<times> io" where
  "gflags_main G dbg = run_all
     ([flag_say (\<lambda>_. ''FLAGS_thread_num RegisterFlagValidator: '' @ (if g_at_start G then ''1'' else ''0''))] @
      flag_registers G dbg @ [flag_say (\<lambda>_. [])] @ [flag_parse G] @ flag_sets G @ flag_shown G)"

section \<open>What gflags documents\<close>

text \<open>An integer flag as the documentation describes it.\<close>

record flag_view =
  current :: int
  standard :: int           \<comment> \<open>the default\<close>
  modified :: bool
  checked_by :: "validator option"

text \<open>What a validator returns does not depend on the name of the flag.\<close>

definition accepts :: "flag_view \<Rightarrow> int \<Rightarrow> bool" where
  "accepts v x = (case checked_by v of None \<Rightarrow> True | Some p \<Rightarrow> fst (run_validator p [] x))"

text \<open>The value of a text of digits; the empty text has none.\<close>

definition digits_value :: "string \<Rightarrow> int option" where
  "digits_value s = (if s \<noteq> [] then Some (int (atoi_digits 0 s)) else None)"

text \<open>A flag after a call that sets it; \<open>None\<close> is a refusal, which changes nothing.\<close>

definition set_view :: "string \<Rightarrow> set_mode \<Rightarrow> flag_view \<Rightarrow> flag_view option" where
  "set_view val mode v =
     (if mode = SET_FLAG_IF_DEFAULT \<and> modified v then Some v
      else (case digits_value val of
              None \<Rightarrow> None
            | Some x \<Rightarrow>
                if \<not> accepts v x then None
                else if mode = SET_FLAGS_DEFAULT then Some (v\<lparr>standard := x, current := (if modified v then current v else x)\<rparr>)
                else Some (v\<lparr>current := x, modified := True\<rparr>)))"

definition gflags_documented :: "'s gflags \<Rightarrow> ('s \<Rightarrow> string \<Rightarrow> flag_view) \<Rightarrow> bool" where
  "gflags_documented G view \<longleftrightarrow>
     (\<forall>f v s ok s'. g_register G f v s = (ok, s') \<longrightarrow>
        (ok \<longleftrightarrow> checked_by (view s f) = None \<or> checked_by (view s f) = Some v) \<and>
        view s' = (if ok then (view s)(f := (view s f)\<lparr>checked_by := Some v\<rparr>) else view s)) \<and>
     (\<forall>s r n s' f. g_parse G s = Inr (r, n, s') \<longrightarrow> view s' f = view s f \<or>
        (\<exists>x. accepts (view s f) x \<and> view s' f = (view s f)\<lparr>current := x, modified := True\<rparr>)) \<and>
     (\<forall>f val mode s msg s'. list_all is_digit val \<longrightarrow> g_set G f val mode s = (msg, s') \<longrightarrow>
        (case set_view val mode (view s f) of
           None \<Rightarrow> msg = [] \<and> view s' = view s
         | Some v \<Rightarrow> msg \<noteq> [] \<and> view s' = (view s)(f := v))) \<and>
     (\<forall>f s. g_int G f s = current (view s f))"

section \<open>What the program shows\<close>

lemma printed_all: "printed (foldl (\<lambda>b l. fprintf Stdout l b) b ls) = printed b @ ls"
  by (induction ls arbitrary: b) (simp_all add: fprintf_def)

text \<open>A step that prints one line and does \<open>F\<close> to the flag thread_num.\<close>

definition tracks :: "('s \<Rightarrow> string \<Rightarrow> flag_view) \<Rightarrow> ('s \<times> io \<Rightarrow> stop + 's \<times> io) \<Rightarrow> (flag_view \<Rightarrow> flag_view) \<Rightarrow> bool" where
  "tracks view step F \<longleftrightarrow> (\<forall>s o1. \<exists>s' l. step (s, o1) = Inr (s', fprintf Stdout l o1) \<and>
     view s' ''thread_num'' = F (view s ''thread_num''))"

definition set_or_keep :: "string \<Rightarrow> set_mode \<Rightarrow> flag_view \<Rightarrow> flag_view" where
  "set_or_keep val mode v = (case set_view val mode v of None \<Rightarrow> v | Some v' \<Rightarrow> v')"

lemma tracks_say: "tracks view (flag_say f) id"
  by (auto simp: tracks_def flag_say_def)

lemma tracks_set:
  assumes "gflags_documented G view" and "list_all is_digit val"
  shows "tracks view (flag_set G val mode) (set_or_keep val mode)"
  unfolding tracks_def
proof (intro allI)
  fix s o1
  obtain msg s' where g: "g_set G ''thread_num'' val mode s = (msg, s')" by fastforce
  with assms have "case set_view val mode (view s ''thread_num'') of None \<Rightarrow> msg = [] \<and> view s' = view s
      | Some v \<Rightarrow> msg \<noteq> [] \<and> view s' = (view s)(''thread_num'' := v)"
    unfolding gflags_documented_def by blast
  then have "view s' ''thread_num'' = set_or_keep val mode (view s ''thread_num'')"
    by (simp add: set_or_keep_def split: option.splits)
  then show "\<exists>s' l. flag_set G val mode (s, o1) = Inr (s', fprintf Stdout l o1) \<and>
      view s' ''thread_num'' = set_or_keep val mode (view s ''thread_num'')"
    by (auto simp: flag_set_def g)
qed

lemma tracks_run:
  assumes "list_all2 (tracks view) steps Fs"
  shows "\<exists>s' ls. run_all steps (s, o1) = Inr (s', foldl (\<lambda>b l. fprintf Stdout l b) o1 ls) \<and> length ls = length steps \<and>
    view s' ''thread_num'' = fold (\<lambda>F. F) Fs (view s ''thread_num'')"
  using assms
proof (induction steps Fs arbitrary: s o1 rule: list_all2_induct)
  case (Cons f fs F Fs)
  from Cons(1) obtain s1 l where 1: "f (s, o1) = Inr (s1, fprintf Stdout l o1)" "view s1 ''thread_num'' = F (view s ''thread_num'')"
    unfolding tracks_def by blast
  from Cons(3) [of s1 "fprintf Stdout l o1"] obtain s' ls where
    "run_all fs (s1, fprintf Stdout l o1) = Inr (s', foldl (\<lambda>b l. fprintf Stdout l b) (fprintf Stdout l o1) ls)" "length ls = length fs"
    "view s' ''thread_num'' = fold (\<lambda>F. F) Fs (view s1 ''thread_num'')" by blast
  with 1 show ?case by (intro exI [of _ s'] exI [of _ "l # ls"]) simp
qed simp

lemma register_step:
  assumes "gflags_documented G view" and "e \<longleftrightarrow> checked_by (view s f) = None \<or> checked_by (view s f) = Some v"
  shows "\<exists>s'. flag_register G dbg f v e (s, o1) = Inr (s', o1) \<and>
    view s' = (if e then (view s)(f := (view s f)\<lparr>checked_by := Some v\<rparr>) else view s)"
proof -
  obtain ok s' where "g_register G f v s = (ok, s')" by fastforce
  moreover from this assms(1) have "(ok \<longleftrightarrow> checked_by (view s f) = None \<or> checked_by (view s f) = Some v) \<and>
      view s' = (if ok then (view s)(f := (view s f)\<lparr>checked_by := Some v\<rparr>) else view s)"
    unfolding gflags_documented_def by blast
  ultimately show ?thesis using assms(2) by (simp add: flag_register_def)
qed

text \<open>The asserts on the registrations hold.\<close>

lemma registers_run:
  assumes doc: "gflags_documented G view" and other: "tn \<noteq> as" and tn: "checked_by (view s tn) = Some V_ThreadNum"
    and as: "checked_by (view s as) = None"
  shows "\<exists>s'. run_all [flag_register G dbg tn V_ThreadNum True, flag_register G dbg tn V_ThreadNumOther False,
      flag_register G dbg as V_AccessSize True] (s, u) = Inr (s', u) \<and> view s' tn = view s tn"
proof -
  have same: "(view s tn)\<lparr>checked_by := Some V_ThreadNum\<rparr> = view s tn"
    using tn by (cases "view s tn") simp
  have "True \<longleftrightarrow> checked_by (view s tn) = None \<or> checked_by (view s tn) = Some V_ThreadNum"
    using tn by simp
  from register_step [OF doc this, of dbg u] obtain s1 where
    1: "flag_register G dbg tn V_ThreadNum True (s, u) = Inr (s1, u)" "view s1 = view s"
    by (simp add: same) blast
  have "False \<longleftrightarrow> checked_by (view s1 tn) = None \<or> checked_by (view s1 tn) = Some V_ThreadNumOther"
    using tn by (simp add: 1(2))
  from register_step [OF doc this, of dbg u] obtain s2 where
    2: "flag_register G dbg tn V_ThreadNumOther False (s1, u) = Inr (s2, u)" "view s2 = view s1" by auto
  have "True \<longleftrightarrow> checked_by (view s2 as) = None \<or> checked_by (view s2 as) = Some V_AccessSize"
    using as by (simp add: 1(2) 2(2))
  from register_step [OF doc this, of dbg u] obtain s3 where
    3: "flag_register G dbg as V_AccessSize True (s2, u) = Inr (s3, u)"
      "view s3 = (view s2)(as := (view s2 as)\<lparr>checked_by := Some V_AccessSize\<rparr>)" by auto
  have "view s3 tn = view s tn" using other by (simp add: 3(2) 2(2) 1(2))
  with 1(1) 2(1) 3(1) show ?thesis by simp
qed

lemma flag_registers_run:
  assumes "gflags_documented G view" and "checked_by (view s ''thread_num'') = Some V_ThreadNum"
    and "checked_by (view s ''access_size'') = None"
  shows "\<exists>s'. run_all (flag_registers G dbg) (s, u) = Inr (s', u) \<and> view s' ''thread_num'' = view s ''thread_num''"
proof -
  have "''thread_num'' \<noteq> ''access_size''" by simp
  from registers_run [where view = view and s = s, OF assms(1) this assms(2,3)] show ?thesis by (simp only: flag_registers_def)
qed

text \<open>The nine steps in between leave the flag set, to 5.\<close>

lemma flag_sets_run:
  assumes doc: "gflags_documented G view" and v: "checked_by (view s ''thread_num'') = Some V_ThreadNum"
  shows "\<exists>s' ls. run_all (flag_sets G) (s, u) = Inr (s', foldl (\<lambda>b l. fprintf Stdout l b) u ls) \<and> length ls = 9 \<and>
    view s' ''thread_num'' = (view s ''thread_num'')\<lparr>current := 5, standard := 5, modified := True\<rparr>"
proof -
  let ?Fs = "[set_or_keep ''5'' SET_FLAGS_DEFAULT, set_or_keep ''4'' SET_FLAG_IF_DEFAULT, id, set_or_keep ''5'' SET_FLAGS_VALUE,
    set_or_keep '''' SET_FLAGS_VALUE, id, set_or_keep ''4'' SET_FLAG_IF_DEFAULT, set_or_keep ''5'' SET_FLAGS_DEFAULT,
    set_or_keep ''4'' SET_FLAG_IF_DEFAULT]"
  have d: "is_digit (CHR ''4'')" "is_digit (CHR ''5'')" by (simp_all add: is_digit_def)
  have e: "list_all is_digit ''4''" "list_all is_digit ''5''" "list_all is_digit ''''" using d by simp_all
  have "list_all2 (tracks view) (flag_sets G) ?Fs" unfolding flag_sets_def
    by (simp only: list_all2_Cons list_all2_Nil tracks_say tracks_set [OF doc] e simp_thms)
  from tracks_run [OF this, of s u] obtain s' ls where
    1: "run_all (flag_sets G) (s, u) = Inr (s', foldl (\<lambda>b l. fprintf Stdout l b) u ls)" "length ls = length (flag_sets G)"
      "view s' ''thread_num'' = fold (\<lambda>F. F) ?Fs (view s ''thread_num'')" by blast
  obtain w where w: "view s ''thread_num'' = w" by blast
  have acc: "accepts u 4 \<and> accepts u 5" if "checked_by u = Some V_ThreadNum" for u
    using that by (simp add: accepts_def run_validator_def ValidateThreadNum_demo_def)
  have x: "digits_value ''4'' = Some 4" "digits_value ''5'' = Some 5" "digits_value '''' = None"
    by (simp_all add: digits_value_def is_digit_def)
  have "fold (\<lambda>F. F) ?Fs w = w\<lparr>current := 5, standard := 5, modified := True\<rparr>"
    using v unfolding w by (simp add: set_or_keep_def set_view_def x acc)
  moreover have "length (flag_sets G) = 9" by (simp add: flag_sets_def)
  ultimately show ?thesis using 1 unfolding w by (intro exI [of _ s'] exI [of _ ls]) simp
qed

lemma say_run: "run_all [flag_say f] (x, b) = Inr (x, fprintf Stdout (f x @ ''\<newline>'') b)"
  by (simp add: flag_say_def)

text \<open>The program up to the command line, and from its end on.\<close>

lemma gflags_main_start:
  assumes "gflags_documented G view" and "checked_by (view s ''thread_num'') = Some V_ThreadNum"
    and "checked_by (view s ''access_size'') = None"
  shows "\<exists>s' u. gflags_main G dbg (s, o1) = run_all ([flag_parse G] @ flag_sets G @ flag_shown G) (s', u) \<and>
    view s' ''thread_num'' = view s ''thread_num'' \<and> length (printed u) = length (printed o1) + 2"
proof -
  define first where "first = ''FLAGS_thread_num RegisterFlagValidator: '' @ (if g_at_start G then ''1'' else ''0'')"
  define a1 where "a1 = fprintf Stdout (first @ ''\<newline>'') o1"
  define a2 where "a2 = fprintf Stdout ([] @ ''\<newline>'') a1"
  have main: "gflags_main G dbg = run_all ([flag_say (\<lambda>_. first)] @
      flag_registers G dbg @ [flag_say (\<lambda>_. [])] @ [flag_parse G] @ flag_sets G @ flag_shown G)"
    unfolding gflags_main_def first_def by (rule refl)
  from flag_registers_run [where view = view and s = s, OF assms, of dbg a1] obtain s1 where
    1: "run_all (flag_registers G dbg) (s, a1) = Inr (s1, a1)" "view s1 ''thread_num'' = view s ''thread_num''" by blast
  have "gflags_main G dbg (s, o1) = run_all ([flag_parse G] @ flag_sets G @ flag_shown G) (s1, a2)"
    unfolding main run_all_append [of "[flag_say _]"] run_all_append [of "flag_registers _ _"] say_run a1_def [symmetric] sum.case 1(1) a2_def [symmetric]
    by (rule refl)
  moreover have "length (printed a2) = length (printed o1) + 2" by (simp add: a1_def a2_def fprintf_def)
  ultimately show ?thesis using 1(2) by blast
qed

lemma flag_shown_five:
  assumes "g_int G ''thread_num'' s = 5"
  shows "\<exists>k. \<forall>u. run_all (flag_shown G) (s, u) = Inr (s, fprintf Stdout ((''thread_num='' @ ''5'') @ ''\<newline>'') (fprintf Stdout k u))"
proof -
  have "int_string 5 = ''5''" by (simp add: int_string_def to_string.simps char_of_def bit_0)
  then show ?thesis unfolding flag_shown_def by (simp add: flag_say_def assms) blast
qed

lemma gflags_main_end:
  assumes doc: "gflags_documented G view" and v: "checked_by (view s ''thread_num'') = Some V_ThreadNum"
    and p: "g_parse G s = Inr (r, n, s1)"
  shows "\<exists>s' o2. run_all ([flag_parse G] @ flag_sets G @ flag_shown G) (s, u) = Inr (s', o2) \<and>
    last (printed o2) = ''thread_num=5'' @ ''\<newline>'' \<and> length (printed o2) = length (printed u) + 12 \<and>
    view s' ''thread_num'' = (view s1 ''thread_num'')\<lparr>current := 5, standard := 5, modified := True\<rparr>"
proof -
  from doc p have "view s1 ''thread_num'' = view s ''thread_num'' \<or> (\<exists>x. accepts (view s ''thread_num'') x \<and>
      view s1 ''thread_num'' = (view s ''thread_num'')\<lparr>current := x, modified := True\<rparr>)"
    unfolding gflags_documented_def by blast
  with v have c1: "checked_by (view s1 ''thread_num'') = Some V_ThreadNum" by auto
  obtain l where l: "run_all [flag_parse G] (s, u) = Inr (s1, fprintf Stdout l u)" by (simp add: flag_parse_def p flag_say_def)
  from flag_sets_run [where view = view and s = s1, OF doc c1, of "fprintf Stdout l u"] obtain s2 ls where
    2: "run_all (flag_sets G) (s1, fprintf Stdout l u) = Inr (s2, foldl (\<lambda>b l. fprintf Stdout l b) (fprintf Stdout l u) ls)" "length ls = 9"
      "view s2 ''thread_num'' = (view s1 ''thread_num'')\<lparr>current := 5, standard := 5, modified := True\<rparr>" by blast
  have "g_int G ''thread_num'' s2 = current (view s2 ''thread_num'')" using doc unfolding gflags_documented_def by blast
  then have "g_int G ''thread_num'' s2 = 5" unfolding 2(3) by simp
  from flag_shown_five [OF this] obtain k where
    shown: "run_all (flag_shown G) (s2, b) = Inr (s2, fprintf Stdout ((''thread_num='' @ ''5'') @ ''\<newline>'') (fprintf Stdout k b))" for b
    by blast
  let ?a = "foldl (\<lambda>b l. fprintf Stdout l b) (fprintf Stdout l u) ls"
  have "run_all ([flag_parse G] @ flag_sets G @ flag_shown G) (s, u) =
      Inr (s2, fprintf Stdout ((''thread_num='' @ ''5'') @ ''\<newline>'') (fprintf Stdout k ?a))"
    unfolding run_all_append [of "[flag_parse _]"] run_all_append [of "flag_sets _"] l sum.case 2(1) shown by (rule refl)
  moreover have "length (printed ?a) = length (printed u) + 10" using 2(2) unfolding printed_all by (simp add: fprintf_def)
  ultimately show ?thesis using 2(3) by (simp add: fprintf_def)
qed

text \<open>Whatever the command line says, the flag thread_num is 5 in the end, and modified: all asserts
  hold, the empty text is refused, and none of the conditional sets after the first one that the
  program makes unconditionally has any effect. The program ends early only if gflags ends it when it
  reads the command line.\<close>

theorem gflags_main_sets:
  assumes doc: "gflags_documented G view" and v: "checked_by (view s ''thread_num'') = Some V_ThreadNum"
    and a: "checked_by (view s ''access_size'') = None"
  shows "(\<exists>e s1. g_parse G s1 = Inl e \<and> gflags_main G dbg (s, o1) = Inl e) \<or>
    (\<exists>s' o2. gflags_main G dbg (s, o1) = Inr (s', o2) \<and> last (printed o2) = ''thread_num=5'' @ ''\<newline>'' \<and>
       length (printed o2) = length (printed o1) + 14 \<and> current (view s' ''thread_num'') = 5 \<and>
       standard (view s' ''thread_num'') = 5 \<and> modified (view s' ''thread_num''))"
proof -
  from gflags_main_start [where view = view and s = s, OF assms, of dbg o1] obtain s1 u where
    start: "gflags_main G dbg (s, o1) = run_all ([flag_parse G] @ flag_sets G @ flag_shown G) (s1, u)"
    and same: "view s1 ''thread_num'' = view s ''thread_num''" and len: "length (printed u) = length (printed o1) + 2" by blast
  show ?thesis
  proof (cases "g_parse G s1")
    case (Inl e)
    then have "gflags_main G dbg (s, o1) = Inl e" unfolding start by (simp add: flag_parse_def)
    with Inl show ?thesis by blast
  next
    case (Inr q)
    then obtain r n s2 where p: "g_parse G s1 = Inr (r, n, s2)" by (cases q) auto
    from v have "checked_by (view s1 ''thread_num'') = Some V_ThreadNum" unfolding same .
    from gflags_main_end [where view = view, OF doc this p, of u] len show ?thesis unfolding start by auto
  qed
qed

section \<open>The yaml demonstration\<close>

text \<open>What the program uses of yaml-cpp: loading a file may throw, which ends the process; a node is iterated
  as its pairs (a sequence yields pairs of undefined keys) and printed as the emitter prints it.\<close>

record 'n yaml =
  load_file :: "string \<Rightarrow> stop + 'n"
  pairs :: "'n \<Rightarrow> ('n \<times> 'n) list"
  is_map :: "'n \<Rightarrow> bool"
  is_defined :: "'n \<Rightarrow> bool"
  emitted :: "'n \<Rightarrow> string"

definition yaml_print :: "'n yaml \<Rightarrow> 'n \<times> 'n \<Rightarrow> string list" where
  "yaml_print Y p = (if is_map Y (fst p) then [emitted Y (fst p) @ '': \<newline>''] else [])"

definition yaml_entry :: "'n yaml \<Rightarrow> 'n \<times> 'n \<Rightarrow> string list" where
  "yaml_entry Y it =
     (if is_map Y (snd it) then [emitted Y (fst it) @ '': \<newline>''] else [emitted Y (fst it) @ ''\<newline>'']) @
     (if is_map Y (snd it) then map (\<lambda>itt. ''  '' @ emitted Y (fst itt) @ '':'' @ emitted Y (snd itt) @ ''\<newline>'') (pairs Y (snd it))
      else if is_defined Y (snd it) then [emitted Y (snd it) @ ''\<newline>''] else [])"

text \<open>The assert is compiled into a debug build only; without it the program takes an argument that may
  not be there.\<close>

definition yaml_main :: "'n yaml \<Rightarrow> bool \<Rightarrow> string list \<Rightarrow> io \<Rightarrow> stop + io" where
  "yaml_main Y dbg argv b =
     (if dbg \<and> length argv \<noteq> 2 then Inl Aborted
      else if length argv < 2 then Inl (Undefined ''no argument'')
      else case load_file Y (argv ! 1) of
        Inl e \<Rightarrow> Inl e
      | Inr n \<Rightarrow> Inr (foldl (\<lambda>b l. fprintf Stdout l b) b (concat (map (yaml_entry Y) (pairs Y n)))))"

lemma yaml_entry_length:
  "length (yaml_entry Y it) = (if is_map Y (snd it) then 1 + length (pairs Y (snd it)) else if is_defined Y (snd it) then 2 else 1)"
  by (simp add: yaml_entry_def)

text \<open>A file whose values are all maps is printed with one line for each of its entries, at both levels.\<close>

lemma yaml_main_lines:
  assumes "length argv = 2" and "load_file Y (argv ! 1) = Inr n" and "\<forall>it\<in>set (pairs Y n). is_map Y (snd it)"
  shows "\<exists>b'. yaml_main Y dbg argv b = Inr b' \<and>
    length (printed b') = length (printed b) + (\<Sum>it\<leftarrow>pairs Y n. 1 + length (pairs Y (snd it)))"
proof -
  have "sum_list (map (length \<circ> yaml_entry Y) (pairs Y n)) = (\<Sum>it\<leftarrow>pairs Y n. 1 + length (pairs Y (snd it)))"
    by (rule arg_cong [of _ _ sum_list]) (use assms(3) in \<open>simp add: yaml_entry_length\<close>)
  then show ?thesis using assms(1,2) by (simp add: yaml_main_def printed_all length_concat)
qed

end
