(* ===== verification/File_Types.thy ===== *)
theory File_Types
  imports Files
begin

text \<open>
  What every operation of util/file.cc keeps and gives back. The file system state stays well-formed: the
  root is a directory, no directory has two entries of one name, and the open descriptors are distinct
  and none is a standard stream. No descriptor and, on success, no directory stream is left behind.
\<close>

fun wf_tree :: "node \<Rightarrow> bool" where
  "wf_tree (Dir cs) = (distinct (map fst cs) \<and> (\<forall>e\<in>set cs. wf_tree (snd e)))"
| "wf_tree _ = True"

definition wf_fs :: "fsys \<Rightarrow> bool" where
  "wf_fs fs \<longleftrightarrow> is_dir (fs_root fs) \<and> wf_tree (fs_root fs) \<and> distinct (map fst (fds fs)) \<and> (\<forall>e\<in>set (fds fs). 3 \<le> fst e)"

section \<open>Trees\<close>

lemma update_entry: "e \<in> set (AList.update x n cs) \<Longrightarrow> e = (x, n) \<or> e \<in> set cs"
  by (induction cs) (auto split: if_splits)

lemma delete_entry: "e \<in> set (AList.delete x cs) \<Longrightarrow> e \<in> set cs"
  by (simp add: AList.delete_eq)

lemma wf_update: "wf_tree (Dir cs) \<Longrightarrow> wf_tree n \<Longrightarrow> wf_tree (Dir (AList.update x n cs))"
  by (auto simp: AList.distinct_update dest: update_entry)

lemma wf_delete: "wf_tree (Dir cs) \<Longrightarrow> wf_tree (Dir (AList.delete x cs))"
  by (auto simp: AList.distinct_delete dest: delete_entry)

lemma wf_child: "wf_tree (Dir cs) \<Longrightarrow> map_of cs x = Some t \<Longrightarrow> wf_tree t"
  by (auto dest: map_of_SomeD)

lemma wf_lookup: "wf_tree t \<Longrightarrow> lookup t p = Some u \<Longrightarrow> wf_tree u"
  by (induction t p rule: lookup.induct) (auto split: option.splits dest: wf_child simp del: wf_tree.simps(1))

lemma wf_put:
  assumes "\<And>n. v = Some n \<Longrightarrow> wf_tree n"
  shows "wf_tree t \<Longrightarrow> wf_tree (put p v t)"
  using assms
proof (induction p v t rule: put.induct)
  case (2 x p v cs)
  then show ?case
    by (cases v) (auto split: option.splits intro: wf_update wf_delete dest: wf_child simp del: wf_tree.simps(1))
qed (auto split: option.splits)

lemma put_dir: "is_dir t \<Longrightarrow> p \<noteq> [] \<or> v = None \<Longrightarrow> is_dir (put p v t)"
  by (cases t; cases p) (auto simp: is_dir_def)

text \<open>The system calls change the tree by putting something at a path.\<close>

lemma wf_fs_put:
  assumes "wf_fs fs" and "p \<noteq> [] \<or> v = None" and "\<And>n. v = Some n \<Longrightarrow> wf_tree n"
  shows "wf_fs (fs\<lparr>fs_root := put p v (fs_root fs)\<rparr>)"
  using assms by (auto simp: wf_fs_def intro: put_dir wf_put)

lemma wf_fs_fields [simp]:
  "wf_fs (fs\<lparr>open_dirs := n\<rparr>) = wf_fs fs" "wf_fs (fs\<lparr>fs_free := k\<rparr>) = wf_fs fs"
  by (simp_all add: wf_fs_def)

section \<open>Calls\<close>

lemma wf_root_path: "wf_fs fs \<Longrightarrow> lookup (fs_root fs) p = Some (Reg s m) \<Longrightarrow> p \<noteq> []"
  by (auto simp: wf_fs_def is_dir_def)

lemma wf_fs_fd: "wf_fs fs \<Longrightarrow> wf_fs (fs\<lparr>fds := (new_fd fs, p) # fds fs\<rparr>)"
  using new_fd_fresh [of fs] by (auto simp: wf_fs_def)

lemma wf_open: "wf_fs fs \<Longrightarrow> wf_fs (snd (sys_open c f mode fs))"
proof -
  assume wf: "wf_fs fs"
  have "wf_fs (fs\<lparr>fds := (new_fd fs, p) # fds fs, fs_root := put p (Some (Reg 0 x)) (fs_root fs)\<rparr>)" if "p \<noteq> []" for p x
    using wf_fs_put [OF wf_fs_fd [OF wf, of p], of p "Some (Reg 0 x)"] that by simp
  with wf wf_fs_fd [OF wf] show ?thesis
    by (auto simp: sys_open_def parent_ok_def Let_def split: option.splits node.splits)
qed

lemma wf_close: "wf_fs fs \<Longrightarrow> wf_fs (sys_close fd fs)"
  by (auto simp: wf_fs_def sys_close_def distinct_map_filter)

lemma wf_truncate: "wf_fs fs \<Longrightarrow> wf_fs (snd (sys_ftruncate fd sz fs))"
  by (auto simp: sys_ftruncate_def intro!: wf_fs_put dest: wf_root_path split: option.splits node.splits)

lemma wf_allocate: "wf_fs fs \<Longrightarrow> wf_fs (snd (sys_fallocate fd sz fs))"
  by (simp add: sys_fallocate_def)

lemma wf_unlink: "wf_fs fs \<Longrightarrow> wf_fs (snd (sys_unlink f fs))"
  by (auto simp: sys_unlink_def Let_def intro!: wf_fs_put split: option.splits node.splits)

lemma wf_mkdir: "wf_fs fs \<Longrightarrow> wf_fs (snd (sys_mkdir f fs))"
  by (auto simp: sys_mkdir_def parent_ok_def Let_def intro!: wf_fs_put)

lemma wf_rmdir: "wf_fs fs \<Longrightarrow> wf_fs (snd (sys_rmdir f fs))"
  by (auto simp: sys_rmdir_def Let_def intro!: wf_fs_put split: option.splits node.splits list.splits)

lemma wf_move:
  assumes "wf_fs fs" and "lookup (fs_root fs) p = Some t" and "p \<noteq> []" and "q \<noteq> []"
  shows "wf_fs (fs\<lparr>fs_root := put q (Some t) (put p None (fs_root fs))\<rparr>)"
proof -
  have "wf_tree t" using assms(1,2) wf_lookup by (auto simp: wf_fs_def)
  with wf_fs_put [OF wf_fs_put [OF assms(1), of p None], of q "Some t"] assms(4) show ?thesis by simp
qed

lemma wf_rename: "wf_fs fs \<Longrightarrow> wf_fs (snd (sys_rename f g fs))"
  by (auto simp: sys_rename_def Let_def intro: wf_move split: option.splits node.splits)

lemma wf_remove_children:
  assumes "\<And>s fs r fs'. wf_fs fs \<Longrightarrow> rec s fs = Some (Some (r, fs')) \<Longrightarrow> wf_fs fs'"
  shows "wf_fs fs \<Longrightarrow> remove_children rec d ns fs = Some (Some (r, fs')) \<Longrightarrow> wf_fs fs'"
proof (induction ns arbitrary: fs)
  case (Cons n ns)
  then show ?case by (auto split: if_splits option.splits prod.splits dest: assms)
qed simp

lemma wf_remove_tree: "wf_fs fs \<Longrightarrow> RemoveDirRecursive fuel s fs = Some (Some (r, fs')) \<Longrightarrow> wf_fs fs'"
proof (induction fuel arbitrary: s fs r fs')
  case (Suc fuel)
  show ?case
  proof (cases "lookup (fs_root fs) (comps s)")
    case None
    with Suc.prems show ?thesis by simp
  next
    case (Some t)
    show ?thesis
    proof (cases t)
      case (Dir cs)
      with Some Suc.prems(2) obtain ret fs1 where
        c: "remove_children (RemoveDirRecursive fuel) s (dir_names cs) (fs\<lparr>open_dirs := open_dirs fs + 1\<rparr>) = Some (Some (ret, fs1))"
        and fs': "fs' = fs1 \<or> fs' = snd (sys_rmdir s (fs1\<lparr>open_dirs := open_dirs fs1 - 1\<rparr>))"
        by (auto split: option.splits if_splits)
      have "wf_fs fs1" by (rule wf_remove_children [OF Suc.IH _ c]) (use Suc.prems(1) in simp_all)
      then show ?thesis using fs' wf_rmdir by auto
    qed (use Some Suc.prems wf_unlink in auto)
  qed
qed simp

section \<open>Descriptors and directory streams\<close>

definition balanced :: "fsys \<Rightarrow> int \<Rightarrow> fsys \<Rightarrow> bool" where
  "balanced fs r fs' \<longleftrightarrow> fds fs' = fds fs \<and> (if r = 0 then open_dirs fs' = open_dirs fs else open_dirs fs \<le> open_dirs fs')"

lemma opened_balanced:
  assumes "sys_open c f mode fs = (fd, fs')"
  shows "open_dirs fs' = open_dirs fs \<and> (if fd < 0 then fds fs' = fds fs
    else 3 \<le> fd \<and> fds fs' = (fd, comps f) # fds fs \<and> fds (Close fd fs') = fds fs)"
  using assms new_fd_fresh [of fs] close_new [of fs]
  by (auto simp: sys_open_def Close_def sys_close_def Let_def split: option.splits node.splits if_splits)

lemma allocated_balanced:
  assumes "OpenAndAllocAtSize f sz fs = (fd, fs')"
  shows "open_dirs fs' = open_dirs fs \<and> (if fd < 0 then fds fs' = fds fs
    else 3 \<le> fd \<and> fds fs' = (fd, comps f) # fds fs \<and> fds (Close fd fs') = fds fs)"
proof -
  obtain fd1 fs1 where o: "sys_open True f 666 fs = (fd1, fs1)" by fastforce
  obtain r2 fs2 where t: "sys_ftruncate fd1 sz fs1 = (r2, fs2)" by fastforce
  obtain r3 fs3 where a: "sys_fallocate fd1 sz fs2 = (r3, fs3)" by fastforce
  have "fds fs2 = fds fs1" "open_dirs fs2 = open_dirs fs1"
    using t by (auto simp: sys_ftruncate_def split: option.splits node.splits if_splits)
  moreover have "fds fs3 = fds fs2" "open_dirs fs3 = open_dirs fs2" using a by (auto simp: sys_fallocate_def split: if_splits)
  ultimately show ?thesis
    using assms opened_balanced [OF o]
    by (auto simp: OpenAndAllocAtSize_def o t a Close_def sys_close_def split: if_splits)
qed

lemma calls_balanced:
  assumes "op \<in> {sys_unlink f, sys_mkdir f, sys_rmdir f, sys_rename f g}"
  shows "fds (snd (op fs)) = fds fs \<and> open_dirs (snd (op fs)) = open_dirs fs \<and> (fst (op fs) \<noteq> 0 \<longrightarrow> snd (op fs) = fs)"
  using assms
  by (auto simp: sys_unlink_def sys_mkdir_def sys_rmdir_def sys_rename_def Let_def split: option.splits node.splits list.splits)

lemma remove_children_balanced:
  assumes "\<And>s fs r fs'. rec s fs = Some (Some (r, fs')) \<Longrightarrow> balanced fs r fs'"
  shows "remove_children rec d ns fs = Some (Some (r, fs')) \<Longrightarrow> balanced fs r fs'"
proof (induction ns arbitrary: fs)
  case (Cons n ns)
  then show ?case by (fastforce simp: balanced_def split: if_splits option.splits prod.splits dest: assms)
qed (simp add: balanced_def)

lemma remove_tree_balanced: "RemoveDirRecursive fuel s fs = Some (Some (r, fs')) \<Longrightarrow> balanced fs r fs'"
proof (induction fuel arbitrary: s fs r fs')
  case (Suc fuel)
  have rm: "fds (snd (sys_unlink s u)) = fds u" "open_dirs (snd (sys_unlink s u)) = open_dirs u"
    "fds (snd (sys_rmdir s u)) = fds u" "open_dirs (snd (sys_rmdir s u)) = open_dirs u" for u
    using calls_balanced [of "sys_unlink s" s s u] calls_balanced [of "sys_rmdir s" s s u] by simp_all
  show ?case
  proof (cases "lookup (fs_root fs) (comps s)")
    case None
    with Suc.prems show ?thesis by (simp add: balanced_def)
  next
    case (Some t)
    show ?thesis
    proof (cases t)
      case (Dir cs)
      with Some Suc.prems obtain ret fs1 where
        c: "remove_children (RemoveDirRecursive fuel) s (dir_names cs) (fs\<lparr>open_dirs := open_dirs fs + 1\<rparr>) = Some (Some (ret, fs1))"
        and e: "if ret \<noteq> 0 then r = ret \<and> fs' = fs1 else r = 0 \<and> fs' = snd (sys_rmdir s (fs1\<lparr>open_dirs := open_dirs fs1 - 1\<rparr>))"
        by (auto split: option.splits if_splits)
      have "balanced (fs\<lparr>open_dirs := open_dirs fs + 1\<rparr>) ret fs1" by (rule remove_children_balanced [OF _ c]) (rule Suc.IH)
      with e show ?thesis by (auto simp: balanced_def rm split: if_splits)
    qed (use Some Suc.prems rm in \<open>auto simp: balanced_def\<close>)
  qed
qed simp

section \<open>Properties\<close>



end
