(* ===== verification/Helper.thy ===== *)
theory Helper
  imports Numa_Basic
begin

text \<open>
  bgtest/AEP/helper.cc: an endless dialogue that reads a bandwidth and an access size from the
  standard input and prints the time of one access. The doubles it computes with have signs,
  infinities and a not-a-number here, and lose precision below the normal range; reading them is the num_get of
  the C++ library, whose failures leave the stream unusable. The input is everything the user types
  before its end.
\<close>

section \<open>Doubles\<close>

datatype dbl = Number bool rat | Infinity bool | NotANumber   \<comment> \<open>True: negative; the magnitude\<close>

definition nearest :: "bool \<Rightarrow> rat \<Rightarrow> dbl" where
  "nearest neg q =
     (let r = (if q < 1 / 2 ^ 1022 then of_int (round_even (q * 2 ^ 1074)) / 2 ^ 1074 else rnd q)
      in if r < 2 ^ 1024 then Number neg r else Infinity neg)"

definition max_dbl :: rat where
  "max_dbl = (2 ^ 53 - 1) * 2 ^ 971"

definition dbl_of_int :: "int \<Rightarrow> dbl" where
  "dbl_of_int x = Number (x < 0) (of_int \<bar>x\<bar>)"

fun dmul :: "dbl \<Rightarrow> dbl \<Rightarrow> dbl" where
  "dmul (Number a p) (Number b q) = nearest (a \<noteq> b) (p * q)"
| "dmul (Number a p) (Infinity b) = (if p = 0 then NotANumber else Infinity (a \<noteq> b))"
| "dmul (Infinity a) (Number b q) = (if q = 0 then NotANumber else Infinity (a \<noteq> b))"
| "dmul (Infinity a) (Infinity b) = Infinity (a \<noteq> b)"
| "dmul NotANumber y = NotANumber"
| "dmul x NotANumber = NotANumber"

fun ddiv :: "dbl \<Rightarrow> dbl \<Rightarrow> dbl" where
  "ddiv (Number a p) (Number b q) =
     (if q = 0 then (if p = 0 then NotANumber else Infinity (a \<noteq> b)) else nearest (a \<noteq> b) (p / q))"
| "ddiv (Number a p) (Infinity b) = Number (a \<noteq> b) 0"
| "ddiv (Infinity a) (Number b q) = Infinity (a \<noteq> b)"
| "ddiv (Infinity a) (Infinity b) = NotANumber"
| "ddiv NotANumber y = NotANumber"
| "ddiv x NotANumber = NotANumber"

text \<open>\<open>%0.2lf\<close>; the not-a-number that an x86 processor makes of 0 / 0 has its sign bit set.\<close>

definition show_dbl :: "dbl \<Rightarrow> string" where
  "show_dbl x = (case x of
     Number neg q \<Rightarrow> (if neg then ''-'' else '''') @ fixed2 (Fin q)
   | Infinity neg \<Rightarrow> (if neg then ''-inf'' else ''inf'')
   | NotANumber \<Rightarrow> ''-nan'')"

section \<open>Reading numbers\<close>

text \<open>What num_get makes of the characters: the value it stores, whether it succeeded, and the characters
  it leaves.\<close>

definition take_sign :: "string \<Rightarrow> bool \<times> string" where
  "take_sign cs = (if cs \<noteq> [] \<and> hd cs \<in> {CHR ''-'', CHR ''+''} then (hd cs = CHR ''-'', tl cs) else (False, cs))"

definition get_int :: "string \<Rightarrow> (int \<times> bool) \<times> string" where
  "get_int cs =
     (let (neg, cs1) = take_sign cs;
          ds = takeWhile is_digit cs1;
          n = int (atoi_digits 0 ds);
          x = (if neg then - n else n)
      in (if ds = [] then (0, False) else if x < - (2 ^ 31) then (- (2 ^ 31), False)
          else if 2 ^ 31 \<le> x then (2 ^ 31 - 1, False) else (x, True),
          dropWhile is_digit cs1))"

definition get_fraction :: "string \<Rightarrow> string \<times> string" where
  "get_fraction cs =
     (if cs \<noteq> [] \<and> hd cs = CHR ''.'' then (takeWhile is_digit (tl cs), dropWhile is_digit (tl cs)) else ([], cs))"

definition get_exponent :: "string \<Rightarrow> int option \<times> string" where
  "get_exponent cs =
     (if cs \<noteq> [] \<and> hd cs \<in> {CHR ''e'', CHR ''E''} then
        (let (neg, cs1) = take_sign (tl cs); ds = takeWhile is_digit cs1; n = int (atoi_digits 0 ds)
         in (if ds = [] then None else Some (if neg then - n else n), dropWhile is_digit cs1))
      else (Some 0, cs))"

definition get_dbl :: "string \<Rightarrow> (dbl \<times> bool) \<times> string" where
  "get_dbl cs =
     (let (neg, cs1) = take_sign cs;
          whole = takeWhile is_digit cs1;
          (frac, cs2) = get_fraction (dropWhile is_digit cs1)
      in if whole @ frac = [] then ((Number False 0, False), cs2)
         else (case get_exponent cs2 of
             (None, cs3) \<Rightarrow> ((Number False 0, False), cs3)
           | (Some e, cs3) \<Rightarrow>
               (let k = e - int (length frac) in
                case nearest neg (of_nat (atoi_digits 0 (whole @ frac)) * 10 ^ nat k / 10 ^ nat (- k)) of
                  Infinity s \<Rightarrow> ((Number s max_dbl, False), cs3)
                | x \<Rightarrow> ((x, True), cs3))))"

text \<open>The stream: whether it is good, and what has not been read. A variable that is not read stays as it
  is, unset at first.\<close>

record istream =
  good :: bool
  unread :: string

definition read_value :: "(string \<Rightarrow> ('a \<times> bool) \<times> string) \<Rightarrow> 'a option \<times> istream \<Rightarrow> 'a option \<times> istream" where
  "read_value get s =
     (if \<not> good (snd s) then s
      else
        (let cs = dropWhile (\<lambda>c. (of_char c :: nat) \<in> {9..13} \<union> {32}) (unread (snd s)) in
         if cs = [] then (fst s, \<lparr>good = False, unread = []\<rparr>)
         else (let ((x, ok), cs1) = get cs in (Some x, \<lparr>good = ok \<and> cs1 \<noteq> [], unread = cs1\<rparr>))))"

section \<open>The dialogue\<close>

record dialogue =
  cin :: istream
  bandwidth :: "dbl option"
  access :: "int option"
  cout :: io

definition prompt :: string where
  "prompt = utf8 [0x8BF7, 0x8F93, 0x5165, 0x5E26, 0x5BBD] @ ''(MB/s)'' @
     utf8 [0x548C, 0x8BBF, 0x95EE, 0x5927, 0x5C0F] @ ''(B):''"

definition latency :: "dbl \<Rightarrow> int \<Rightarrow> dbl" where
  "latency w b =
     dmul (ddiv (dmul (Number False 1000) (Number False 1000))
       (ddiv (dmul (dmul w (Number False 1024)) (Number False 1024)) (dbl_of_int b))) (Number False 1000)"

definition lat_line :: "dbl \<Rightarrow> int \<Rightarrow> string" where
  "lat_line w b = ''lat: '' @ show_dbl (latency w b) @ '' ns\<newline>''"

definition helper_round :: "dialogue \<Rightarrow> stop + dialogue" where
  "helper_round d =
     (let o1 = fprintf Stdout prompt (cout d);
          (w, s1) = read_value get_dbl (bandwidth d, cin d);
          (b, s2) = read_value get_int (access d, s1)
      in case (w, b) of
           (Some wv, Some bv) \<Rightarrow>
             Inr \<lparr>cin = s2, bandwidth = w, access = b, cout = fprintf Stdout (lat_line wv bv) o1\<rparr>
         | _ \<Rightarrow> Inl (Undefined ''uninitialised variable''))"

partial_function (option) helper_loop :: "dialogue \<Rightarrow> stop option" where
  "helper_loop d = (case helper_round d of Inl e \<Rightarrow> Some e | Inr d1 \<Rightarrow> helper_loop d1)"

definition helper_start :: "string \<Rightarrow> io \<Rightarrow> dialogue" where
  "helper_start input o1 = \<lparr>cin = \<lparr>good = True, unread = input\<rparr>, bandwidth = None, access = None, cout = o1\<rparr>"

definition helper_main :: "string \<Rightarrow> io \<Rightarrow> stop option" where
  "helper_main input o1 = helper_loop (helper_start input o1)"

text \<open>Its first rounds.\<close>

definition helper_rounds :: "nat \<Rightarrow> dialogue \<Rightarrow> stop + dialogue" where
  "helper_rounds n = run_all (replicate n helper_round)"

section \<open>Progress of the input\<close>

lemma take_sign_le: "length (snd (take_sign cs)) \<le> length cs"
  by (simp add: take_sign_def)

lemma span_length: "takeWhile P xs \<noteq> [] \<Longrightarrow> length (dropWhile P xs) < length xs"
  by (cases xs) (auto simp: length_dropWhile_le le_imp_less_Suc split: if_splits)

lemma get_int_progress:
  assumes "get_int cs = ((x, True), cs1)"
  shows "length cs1 < length cs"
proof -
  obtain neg cs0 where sign: "take_sign cs = (neg, cs0)" by fastforce
  from assms have "cs1 = dropWhile is_digit cs0" "takeWhile is_digit cs0 \<noteq> []"
    by (auto simp: get_int_def sign Let_def split: if_splits)
  with span_length [of is_digit cs0] take_sign_le [of cs] show ?thesis by (simp add: sign)
qed

lemma get_fraction_le:
  assumes "get_fraction cs = (ds, cs1)"
  shows "length cs1 \<le> length cs" and "ds \<noteq> [] \<Longrightarrow> length cs1 < length cs"
  using assms length_dropWhile_le [of is_digit "tl cs"]
  by (cases cs; auto simp: get_fraction_def split: if_splits)+

lemma get_exponent_le:
  assumes "get_exponent cs = (e, cs1)"
  shows "length cs1 \<le> length cs"
proof -
  obtain neg cs0 where sign: "take_sign (tl cs) = (neg, cs0)" by fastforce
  show ?thesis
    using assms take_sign_le [of "tl cs"] length_dropWhile_le [of is_digit cs0]
    by (auto simp: get_exponent_def sign Let_def split: if_splits)
qed

lemma get_dbl_progress:
  assumes "get_dbl cs = ((x, True), cs1)"
  shows "length cs1 < length cs"
proof -
  obtain neg cs0 where sign: "take_sign cs = (neg, cs0)" by fastforce
  obtain ds cs2 where frac: "get_fraction (dropWhile is_digit cs0) = (ds, cs2)" by fastforce
  obtain e cs3 where ex: "get_exponent cs2 = (e, cs3)" by fastforce
  from assms have some: "takeWhile is_digit cs0 \<noteq> [] \<or> ds \<noteq> []" and cs1: "cs1 = cs3"
    by (auto simp: get_dbl_def sign frac ex Let_def split: if_splits option.splits dbl.splits)
  have "length cs2 < length cs0"
    using some get_fraction_le [OF frac] span_length [of is_digit cs0] length_dropWhile_le [of is_digit cs0]
    by (cases "takeWhile is_digit cs0 = []") auto
  with get_exponent_le [OF ex] take_sign_le [of cs] show ?thesis by (simp add: cs1 sign)
qed

lemma read_value_stuck: "\<not> good s \<Longrightarrow> read_value get (v, s) = (v, s)"
  by (simp add: read_value_def)

lemma read_value_keeps: "read_value get (Some x, s) = (v, t) \<Longrightarrow> v \<noteq> None"
  by (auto simp: read_value_def Let_def split: if_splits prod.splits)

definition consumes :: "(string \<Rightarrow> ('a \<times> bool) \<times> string) \<Rightarrow> bool" where
  "consumes get \<longleftrightarrow> (\<forall>cs x cs1. get cs = ((x, True), cs1) \<longrightarrow> length cs1 < length cs)"

lemma gets_consume: "consumes get_int" "consumes get_dbl"
  using get_int_progress get_dbl_progress by (auto simp: consumes_def)

lemma read_value_progress:
  assumes read: "read_value get (v, s) = (v', t)" and good: "good t" and progress: "consumes get"
  shows "good s" and "length (unread t) < length (unread s)"
proof -
  let ?cs = "dropWhile (\<lambda>c. (of_char c :: nat) \<in> {9..13} \<union> {32}) (unread s)"
  obtain x ok cs1 where g: "get ?cs = ((x, ok), cs1)" by (metis prod.exhaust)
  show s: "good s" using read good by (cases "good s") (auto simp: read_value_stuck)
  with read good g have "ok" "t = \<lparr>good = True, unread = cs1\<rparr>"
    by (auto simp: read_value_def Let_def split: if_splits)
  with progress g have "length (unread t) < length ?cs" by (simp add: consumes_def)
  then show "length (unread t) < length (unread s)" using length_dropWhile_le by (rule less_le_trans)
qed

lemma helper_round_progress:
  assumes "helper_round d = Inr d1" and "good (cin d1)"
  shows "good (cin d)" and "length (unread (cin d1)) < length (unread (cin d))"
proof -
  obtain w s1 where r1: "read_value get_dbl (bandwidth d, cin d) = (w, s1)" by fastforce
  obtain b s2 where r2: "read_value get_int (access d, s1) = (b, s2)" by fastforce
  from assms(1) have d1: "cin d1 = s2" by (auto simp: helper_round_def r1 r2 Let_def split: option.splits)
  with assms(2) have g2: "good s2" by simp
  note p2 = read_value_progress [OF r2 g2 gets_consume(1)]
  note p1 = read_value_progress [OF r1 p2(1) gets_consume(2)]
  from p1 p2 d1 show "good (cin d)" "length (unread (cin d1)) < length (unread (cin d))" by simp_all
qed

lemma helper_round_again:
  assumes "helper_round d = Inr d1"
  shows "\<exists>d2. helper_round d1 = Inr d2"
proof -
  have set: "bandwidth d1 \<noteq> None" "access d1 \<noteq> None"
    using assms by (auto simp: helper_round_def Let_def split: prod.splits option.splits)
  obtain w s1 where r1: "read_value get_dbl (bandwidth d1, cin d1) = (w, s1)" by fastforce
  obtain b s2 where r2: "read_value get_int (access d1, s1) = (b, s2)" by fastforce
  from set r1 r2 have "w \<noteq> None" "b \<noteq> None" using read_value_keeps by (metis not_Some_eq)+
  then show ?thesis by (auto simp: helper_round_def r1 r2 Let_def)
qed

lemma helper_rounds_Suc: "helper_rounds (Suc n) d = (case helper_round d of Inl e \<Rightarrow> Inl e | Inr d1 \<Rightarrow> helper_rounds n d1)"
  by (simp add: helper_rounds_def split: sum.split)

lemma helper_rounds_run:
  assumes "helper_round d = Inr d1"
  shows "\<exists>d2 d3. helper_rounds n d = Inr d2 \<and> helper_round d2 = Inr d3 \<and>
    (good (cin d3) \<longrightarrow> good (cin d) \<and> n + length (unread (cin d3)) < length (unread (cin d)))"
  using assms
proof (induction n arbitrary: d d1)
  case 0
  then show ?case using helper_round_progress [OF 0] by (simp add: helper_rounds_def)
next
  case (Suc n)
  obtain d2 where "helper_round d1 = Inr d2" using helper_round_again [OF Suc.prems] by blast
  from Suc.IH [OF this] obtain d3 d4 where "helper_rounds n d1 = Inr d3" "helper_round d3 = Inr d4"
    "good (cin d4) \<longrightarrow> good (cin d1) \<and> n + length (unread (cin d4)) < length (unread (cin d1))" by blast
  with helper_round_progress [OF Suc.prems] show ?case by (auto simp: helper_rounds_Suc Suc.prems)
qed

section \<open>The dialogue never ends\<close>

text \<open>Once the stream has failed, a round reads nothing and prints the line of the round before.\<close>

lemma helper_round_stuck:
  assumes "\<not> good (cin d)" and "bandwidth d = Some w" and "access d = Some b"
  shows "helper_round d = Inr (d\<lparr>cout := fprintf Stdout (lat_line w b) (fprintf Stdout prompt (cout d))\<rparr>)"
  using assms by (cases d) (simp add: helper_round_def read_value_stuck)

lemma helper_rounds_stuck:
  assumes "\<not> good (cin d)" and "bandwidth d = Some w" and "access d = Some b"
  shows "helper_rounds n d = Inr (d\<lparr>cout := (cout d)\<lparr>printed := printed (cout d) @ concat (replicate n [prompt, lat_line w b])\<rparr>\<rparr>)"
  using assms
proof (induction n arbitrary: d)
  case 0
  then show ?case by (simp add: helper_rounds_def)
next
  case (Suc n)
  then show ?case by (simp add: helper_rounds_Suc helper_round_stuck fprintf_def)
qed

lemma helper_loop_forever: "helper_round d = Inr d1 \<Longrightarrow> helper_loop d = None"
proof -
  have "helper_loop d = Some e \<Longrightarrow> \<forall>d1. helper_round d \<noteq> Inr d1" for d e
  proof (induction rule: helper_loop.raw_induct [rotated, consumes 1])
    case (1 loop d e)
    show ?case
    proof (intro allI notI)
      fix d1 assume d1: "helper_round d = Inr d1"
      with 1 show False using helper_round_again [OF d1] by auto
    qed
  qed
  then show "helper_round d = Inr d1 \<Longrightarrow> helper_loop d = None" by (cases "helper_loop d") auto
qed

text \<open>The program ends only in its first round, by printing a time from a variable that it has not read; the
  end of the input does not stop it.\<close>

theorem helper_main_outcome:
  "helper_main input o1 = (case helper_round (helper_start input o1) of Inl e \<Rightarrow> Some e | Inr d1 \<Rightarrow> None)"
proof (cases "helper_round (helper_start input o1)")
  case (Inl e)
  then show ?thesis by (simp add: helper_main_def helper_loop.simps)
next
  case (Inr d1)
  then show ?thesis using helper_loop_forever [OF Inr] by (simp add: helper_main_def)
qed

theorem helper_main_bad_start: "helper_main [] o1 = Some (Undefined ''uninitialised variable'')"
  by (simp add: helper_main_def helper_loop.simps helper_round_def helper_start_def read_value_def)

text \<open>After as many rounds as the input has characters, and one, the program prints the same line for
  ever.\<close>

theorem helper_repeats:
  assumes "helper_round (helper_start input o1) = Inr d1"
  shows "\<exists>d line. helper_rounds (Suc (length input)) (helper_start input o1) = Inr d \<and>
    (\<forall>n. helper_rounds n d = Inr (d\<lparr>cout := (cout d)\<lparr>printed := printed (cout d) @ concat (replicate n [prompt, line])\<rparr>\<rparr>))"
proof -
  from helper_rounds_run [OF assms, of "length input"] obtain d2 d3 where
    d: "helper_rounds (length input) (helper_start input o1) = Inr d2" "helper_round d2 = Inr d3" and
    bad: "\<not> good (cin d3)" by (auto simp: helper_start_def)
  have "helper_rounds (Suc (length input)) (helper_start input o1) = Inr d3"
    using d by (simp add: helper_rounds_def run_all_append flip: replicate_append_same)
  moreover obtain w b where "bandwidth d3 = Some w" "access d3 = Some b"
    using d(2) by (auto simp: helper_round_def Let_def split: prod.splits option.splits)
  ultimately show ?thesis using helper_rounds_stuck [OF bad] by blast
qed

section \<open>The time it prints\<close>

text \<open>Two positive numbers within a factor.\<close>

definition near :: "nat \<Rightarrow> rat \<Rightarrow> rat \<Rightarrow> bool" where
  "near k p x \<longleftrightarrow> 0 < p \<and> 0 < x \<and> x \<le> p * (1 + 1 / 2 ^ 51) ^ k \<and> p \<le> x * (1 + 1 / 2 ^ 51) ^ k"

lemma near_refl: "0 < p \<Longrightarrow> near 0 p p"
  by (simp add: near_def)

lemma near_trans: "near j p x \<Longrightarrow> near k x y \<Longrightarrow> near (j + k) p y"
proof -
  let ?c = "1 + 1 / 2 ^ 51 :: rat"
  assume px: "near j p x" and xy: "near k x y"
  have "y \<le> p * ?c ^ j * ?c ^ k" "p \<le> y * ?c ^ k * ?c ^ j"
    using px xy by (auto simp: near_def intro: order_trans mult_right_mono)
  with px xy show ?thesis by (simp add: near_def power_add mult_ac)
qed

lemma near_mult: "near j p x \<Longrightarrow> near k q y \<Longrightarrow> near (j + k) (p * q) (x * y)"
proof -
  let ?c = "1 + 1 / 2 ^ 51 :: rat"
  assume px: "near j p x" and qy: "near k q y"
  then have "x * y \<le> (p * ?c ^ j) * (q * ?c ^ k)" "p * q \<le> (x * ?c ^ j) * (y * ?c ^ k)"
    by (auto simp: near_def intro!: mult_mono)
  with px qy show ?thesis by (simp add: near_def power_add mult_ac)
qed

lemma near_inverse: "near k q y \<Longrightarrow> near k (1 / q) (1 / y)"
  by (simp add: near_def divide_simps mult.commute)

lemma near_divide: "near j p x \<Longrightarrow> near k q y \<Longrightarrow> near (j + k) (p / q) (x / y)"
  using near_mult [OF _ near_inverse, of j p x k q y] by simp

lemma near_rnd:
  assumes "0 < q"
  shows "near 1 (rnd q) q"
proof -
  note b = rnd_near [OF assms]
  have "0 < q * (1 - 1 / 2 ^ 52)" using assms by simp
  with b(1) have pos: "0 < rnd q" by linarith
  have "q \<le> q * (1 - 1 / 2 ^ 52) * (1 + 1 / 2 ^ 51)" using assms by (simp add: algebra_simps)
  also have "\<dots> \<le> rnd q * (1 + 1 / 2 ^ 51)" using b(1) by (intro mult_right_mono) auto
  finally have "q \<le> rnd q * (1 + 1 / 2 ^ 51)" .
  moreover have "rnd q \<le> q * (1 + 1 / 2 ^ 51)"
    using b(2) assms by (rule_tac order_trans) (auto intro!: mult_left_mono)
  ultimately show ?thesis using pos assms by (simp add: near_def)
qed

lemma near_bounds:
  assumes "near k p x" and "k \<le> 8"
  shows "x \<le> 2 * p" and "p \<le> 2 * x" and "p - x \<le> x / 2 ^ 47" and "x - p \<le> x / 2 ^ 47"
proof -
  let ?c = "1 + 1 / 2 ^ 51 :: rat"
  have "?c ^ k \<le> ?c ^ 8" using assms(2) by (intro power_increasing) auto
  also have "\<dots> \<le> 1 + 1 / 2 ^ 48 + 1 / 2 ^ 90" by (simp add: power_def)
  finally have c: "?c ^ k \<le> 1 + 1 / 2 ^ 48 + 1 / 2 ^ 90" .
  have n: "0 < p" "0 < x" "x \<le> p * ?c ^ k" "p \<le> x * ?c ^ k" using assms(1) by (simp_all add: near_def)
  have "x \<le> p * (1 + 1 / 2 ^ 48 + 1 / 2 ^ 90)" "p \<le> x * (1 + 1 / 2 ^ 48 + 1 / 2 ^ 90)"
    using order_trans [OF n(3) mult_left_mono [OF c]] order_trans [OF n(4) mult_left_mono [OF c]] n(1,2) by simp_all
  then show "x \<le> 2 * p" "p \<le> 2 * x" "p - x \<le> x / 2 ^ 47" "x - p \<le> x / 2 ^ 47"
    using assms(1) by (auto simp: near_def algebra_simps)
qed

text \<open>An operation on two such numbers, away from the limits of the format.\<close>

definition in_middle :: "rat \<Rightarrow> bool" where
  "in_middle x \<longleftrightarrow> 1 / 2 ^ 1000 \<le> x \<and> x \<le> 2 ^ 1000"

lemma nearest_near:
  assumes "near k p x" and "k \<le> 8" and "in_middle x"
  shows "\<exists>r. nearest neg p = Number neg r \<and> near (Suc k) r x"
proof -
  have p: "0 < p" using assms(1) by (simp add: near_def)
  note pb = near_bounds [OF assms(1,2)]
  have lo: "1 / 2 ^ 1000 \<le> 2 * p" and hi: "p \<le> 2 * 2 ^ 1000" using pb assms(3) unfolding in_middle_def by linarith+
  have "(1 :: rat) / 2 ^ 1022 * 2 \<le> 1 / 2 ^ 1000" by simp
  with lo have lo': "\<not> p < 1 / 2 ^ 1022" by linarith
  have "rnd p \<le> 2 * p" using near_bounds(2) [OF near_rnd [OF p]] by simp
  with hi have "rnd p \<le> 2 * (2 * 2 ^ 1000)" by linarith
  also have "\<dots> < (2 :: rat) ^ 1024" by simp
  finally have "nearest neg p = Number neg (rnd p)" using lo' by (simp add: nearest_def Let_def)
  then show ?thesis using near_trans [OF near_rnd [OF p] assms(1)] by auto
qed

lemma dmul_near:
  assumes "near j p x" and "near k q y" and "j + k \<le> 8" and "in_middle (x * y)"
  obtains r where "dmul (Number False p) (Number False q) = Number False r" and "near (Suc (j + k)) r (x * y)"
  using nearest_near [OF near_mult [OF assms(1,2)] assms(3,4)] by auto

lemma ddiv_near:
  assumes "near j p x" and "near k q y" and "j + k \<le> 8" and "in_middle (x / y)"
  obtains r where "ddiv (Number False p) (Number False q) = Number False r" and "near (Suc (j + k)) r (x / y)"
proof -
  have "q \<noteq> 0" using assms(2) by (simp add: near_def)
  then show thesis using nearest_near [OF near_divide [OF assms(1,2)] assms(3,4)] that by auto
qed

lemma in_middle_div:
  assumes "1 / 2 ^ 500 \<le> n" and "n \<le> 2 ^ 500" and "1 / 2 ^ 500 \<le> d" and "d \<le> 2 ^ 500"
  shows "in_middle (n / d)"
proof -
  have d: "0 < d" using assms(3) by (rule less_le_trans [rotated]) simp
  have "1 / 2 ^ 1000 * d \<le> 1 / 2 ^ 1000 * (2 ^ 500 :: rat)" by (intro mult_left_mono assms(4)) simp
  also have "\<dots> \<le> n" using assms(1) by simp
  finally have lo: "1 / 2 ^ 1000 * d \<le> n" .
  have "(2 :: rat) ^ 500 \<le> 2 ^ 1000 * (1 / 2 ^ 500)" by simp
  also have "\<dots> \<le> 2 ^ 1000 * d" by (intro mult_left_mono assms(3)) simp
  finally have "n \<le> 2 ^ 1000 * d" using assms(2) by simp
  with lo d show ?thesis unfolding in_middle_def pos_le_divide_eq [OF d] pos_divide_le_eq [OF d] by simp
qed

text \<open>The time printed is the one of the formula, \<open>10 ^ 9 b / (q 2 ^ 20)\<close> nanoseconds for \<open>b\<close> bytes at
  \<open>q\<close> MB/s, up to a relative error of \<open>2 ^ -47\<close> and the two digits shown.\<close>

theorem latency_near:
  assumes "1 / 2 ^ 60 \<le> q" and "q \<le> 2 ^ 60" and "0 < b" and "b < 2 ^ 31"
  shows "\<exists>r. latency (Number False q) b = Number False r \<and>
    \<bar>r - 10 ^ 9 * of_int b / (q * 2 ^ 20)\<bar> \<le> 10 ^ 9 * of_int b / (q * 2 ^ 20) / 2 ^ 47"
proof -
  define y :: rat where "y = of_int b"
  have "of_int 1 \<le> y" "y \<le> of_int (2 ^ 31)" unfolding y_def of_int_le_iff using assms(3,4) by simp_all
  then have y: "1 \<le> y" "y \<le> 2 ^ 31" by simp_all
  have "(0 :: rat) < 1 / 2 ^ 60" by simp
  with assms(1) have q: "0 < q" by linarith
  have const: "near 0 1000 1000" "near 0 1024 1024" "near 0 y y" "near 0 q q" using y(1) q by (simp_all add: near_refl)
  obtain m where m: "dmul (Number False 1000) (Number False 1000) = Number False m" "near (Suc (0 + 0)) m (1000 * 1000)"
    by (rule dmul_near [OF const(1,1)]) (simp_all add: in_middle_def)
  obtain w1 where w1: "dmul (Number False q) (Number False 1024) = Number False w1" "near (Suc (0 + 0)) w1 (q * 1024)"
    by (rule dmul_near [OF const(4,2)]) (use assms(1,2) in \<open>simp_all add: in_middle_def\<close>)
  obtain w2 where w2: "dmul (Number False w1) (Number False 1024) = Number False w2"
    "near (Suc (Suc (0 + 0) + 0)) w2 (q * 1024 * 1024)"
    by (rule dmul_near [OF w1(2) const(2)]) (use assms(1,2) in \<open>simp_all add: in_middle_def\<close>)
  obtain w3 where w3: "ddiv (Number False w2) (Number False y) = Number False w3"
    "near (Suc (Suc (Suc (0 + 0) + 0) + 0)) w3 (q * 1024 * 1024 / y)"
    by (rule ddiv_near [OF w2(2) const(3)]) (use assms(1,2) y in \<open>simp_all add: in_middle_div\<close>)
  have "in_middle (1000 * 1000 * y / (q * 1024 * 1024))"
    using assms(1,2) y by (intro in_middle_div) simp_all
  then have mid: "in_middle (1000 * 1000 / (q * 1024 * 1024 / y))" by simp
  obtain w4 where w4: "ddiv (Number False m) (Number False w3) = Number False w4"
    "near (Suc (Suc (0 + 0) + Suc (Suc (Suc (0 + 0) + 0) + 0))) w4 (1000 * 1000 / (q * 1024 * 1024 / y))"
    by (rule ddiv_near [OF m(2) w3(2) _ mid]) simp_all
  have "in_middle (1000 * 1000 * 1000 * y / (q * 1024 * 1024))"
    using assms(1,2) y by (intro in_middle_div) simp_all
  then have mid': "in_middle (1000 * 1000 / (q * 1024 * 1024 / y) * 1000)" by (simp add: mult_ac)
  obtain r where r: "dmul (Number False w4) (Number False 1000) = Number False r"
    "near (Suc (Suc (Suc (0 + 0) + Suc (Suc (Suc (0 + 0) + 0) + 0)) + 0)) r (1000 * 1000 / (q * 1024 * 1024 / y) * 1000)"
    by (rule dmul_near [OF w4(2) const(1) _ mid']) simp_all
  have x: "1000 * 1000 / (q * 1024 * 1024 / y) * 1000 = 10 ^ 9 * y / (q * 2 ^ 20)" by simp
  have "\<bar>r - 10 ^ 9 * y / (q * 2 ^ 20)\<bar> \<le> 10 ^ 9 * y / (q * 2 ^ 20) / 2 ^ 47"
    using near_bounds(3,4) [OF r(2)] unfolding x abs_le_iff minus_diff_eq by simp
  moreover have "dbl_of_int b = Number False y" using assms(3) by (simp add: dbl_of_int_def y_def)
  ultimately show ?thesis using m(1) w1(1) w2(1) w3(1) w4(1) r(1) by (simp add: latency_def y_def)
qed

section \<open>A dialogue\<close>

definition demo_io :: io where
  "demo_io = \<lparr>printed = [], buffered = []\<rparr>"

lemma nearest_of_int: "0 < k \<Longrightarrow> k < 2 ^ 53 \<Longrightarrow> nearest neg (of_int k) = Number neg (of_int k)"
proof -
  assume k: "0 < k" "k < 2 ^ 53"
  then have "of_int 1 \<le> (of_int k :: rat)" "of_int k < (of_int (2 ^ 53) :: rat)" by (simp_all only: of_int_le_iff of_int_less_iff)
  then have r: "(1 :: rat) \<le> of_int k" "(of_int k :: rat) < 2 ^ 53" by simp_all
  have "(1 :: rat) / 2 ^ 1022 < 1" "(2 :: rat) ^ 53 < 2 ^ 1024" by simp_all
  with r have "\<not> (of_int k :: rat) < 1 / 2 ^ 1022" "(of_int k :: rat) < 2 ^ 1024" by linarith+
  then show ?thesis using rnd_of_int [of k] k by (simp add: nearest_def)
qed

lemma demo_dialogue: "\<exists>d1. helper_round (helper_start ''100 64'' demo_io) = Inr d1 \<and> bandwidth d1 = Some (Number False 100) \<and>
    access d1 = Some 64 \<and> \<not> good (cin d1)"
  using nearest_of_int [of 100 False]
  by (simp add: helper_round_def helper_start_def read_value_def get_dbl_def get_int_def take_sign_def get_fraction_def
    get_exponent_def is_digit_def)

theorem helper_repeats_witness:
  "\<exists>d line. helper_rounds 7 (helper_start ''100 64'' demo_io) = Inr d \<and>
    (\<forall>n. helper_rounds n d = Inr (d\<lparr>cout := (cout d)\<lparr>printed := printed (cout d) @ concat (replicate n [prompt, line])\<rparr>\<rparr>))"
proof -
  obtain d1 where "helper_round (helper_start ''100 64'' demo_io) = Inr d1" using demo_dialogue by blast
  from helper_repeats [OF this] show ?thesis by (simp add: eval_nat_numeral)
qed

theorem latency_near_witness:
  "\<exists>r. latency (Number False 100) 64 = Number False r \<and>
    \<bar>r - 10 ^ 9 * 64 / (100 * 2 ^ 20)\<bar> \<le> 10 ^ 9 * 64 / (100 * 2 ^ 20) / 2 ^ 47"
  using latency_near [of 100 64] by simp

end
